(* ===== verification/Rust_Prelude.thy ===== *)
theory Rust_Prelude
  imports Main "HOL-Library.Word"
begin

text \<open>
  Shared vocabulary of the development: the machine integer types of the kernel, the outcome
  of a Rust computation (\<open>Ok\<close>, \<open>Err\<close>, a panic, or a loop that used up its fuel), the checked
  arithmetic of the debug build that the repository's scripts run (an overflow panics), and the
  generic facts on words and lists that the component theories share.
\<close>

unbundle bit_operations_syntax

section \<open>Machine integers\<close>

type_synonym u8 = "8 word"
type_synonym u16 = "16 word"
type_synonym u32 = "32 word"
type_synonym u64 = "64 word"
type_synonym u128 = "128 word"

text \<open>The target is \<open>x86_64-unknown-uefi\<close>, so \<open>usize\<close> is 64 bits wide.\<close>

type_synonym usize = "64 word"

section \<open>Outcomes of a computation\<close>

text \<open>
  \<open>result.rs\<close> fixes the error type of the kernel to \<open>&'static str\<close>. A computation may also
  panic (\<open>panic!\<close>, \<open>assert!\<close>, \<open>unwrap\<close>, \<open>expect\<close>, index out of range, arithmetic overflow),
  which no caller can catch, so a panic is kept apart from an \<open>Err\<close>. \<open>UB\<close> marks an access
  through a raw pointer to memory that does not hold a value of the accessed type, and
  \<open>OutOfFuel\<close> a loop of the model that was cut off; the theorems show where they cannot occur.
\<close>

datatype fault = Err string | Panic string | UB | OutOfFuel

type_synonym 'a res = "fault + 'a"

abbreviation Ok :: "'a \<Rightarrow> 'a res" where
  "Ok x \<equiv> Inr x"

abbreviation err :: "string \<Rightarrow> 'a res" where
  "err s \<equiv> Inl (Err s)"

abbreviation panic :: "string \<Rightarrow> 'a res" where
  "panic s \<equiv> Inl (Panic s)"

text \<open>The \<open>?\<close> operator: stop at the first fault, else go on with the value.\<close>

definition rbind :: "'a res \<Rightarrow> ('a \<Rightarrow> 'b res) \<Rightarrow> 'b res" where
  "rbind m f = (case m of Inl e \<Rightarrow> Inl e | Inr x \<Rightarrow> f x)"

definition ok_or :: "'a option \<Rightarrow> string \<Rightarrow> 'a res" where
  "ok_or x s = (case x of None \<Rightarrow> err s | Some v \<Rightarrow> Ok v)"

text \<open>\<open>Result::expect\<close> and \<open>Result::unwrap\<close>: an \<open>Err\<close> becomes a panic.\<close>

definition expect :: "'a res \<Rightarrow> string \<Rightarrow> 'a res" where
  "expect m s = (case m of Inl (Err e) \<Rightarrow> panic s | _ \<Rightarrow> m)"

text \<open>\<open>Result::ok\<close>: an \<open>Err\<close> becomes \<open>None\<close>; a panic stays a panic.\<close>

definition res_ok :: "'a res \<Rightarrow> 'a option res" where
  "res_ok m = (case m of Inl (Err e) \<Rightarrow> Ok None | Inl f \<Rightarrow> Inl f | Inr x \<Rightarrow> Ok (Some x))"

named_theorems res_simps \<open>unfolding of the outcome combinators and the checked arithmetic\<close>

lemma rbind_simps [simp, res_simps]:
  "rbind (Inl e) f = Inl e"
  "rbind (Inr x) f = f x"
  by (simp_all add: rbind_def)

lemma rbind_eq_Ok [simp]: "rbind m f = Inr y \<longleftrightarrow> (\<exists>x. m = Inr x \<and> f x = Inr y)"
  by (cases m) auto

lemma rbind_eq_Inl: "rbind m f = Inl e \<longleftrightarrow> m = Inl e \<or> (\<exists>x. m = Inr x \<and> f x = Inl e)"
  by (cases m) auto

lemma rbind_assoc: "rbind (rbind m f) g = rbind m (\<lambda>x. rbind (f x) g)"
  by (cases m) auto

lemma ok_or_simps [simp, res_simps]:
  "ok_or None s = err s"
  "ok_or (Some v) s = Ok v"
  by (simp_all add: ok_or_def)

lemma ok_or_eq_Ok [simp]: "ok_or x s = Inr v \<longleftrightarrow> x = Some v"
  by (cases x) auto

lemma expect_simps [simp, res_simps]:
  "expect (Inr x) s = Inr x"
  "expect (Inl (Err e)) s = panic s"
  "expect (Inl (Panic e)) s = panic e"
  "expect (Inl UB) s = Inl UB"
  "expect (Inl OutOfFuel) s = Inl OutOfFuel"
  by (simp_all add: expect_def)

lemma expect_eq_Ok [simp]: "expect m s = Inr v \<longleftrightarrow> m = Inr v"
  by (auto simp: expect_def split: sum.splits fault.splits)

lemma res_ok_simps [simp, res_simps]:
  "res_ok (Inr x) = Ok (Some x)"
  "res_ok (Inl (Err e)) = Ok None"
  "res_ok (Inl (Panic e)) = panic e"
  "res_ok (Inl UB) = Inl UB"
  "res_ok (Inl OutOfFuel) = Inl OutOfFuel"
  by (simp_all add: res_ok_def)

section \<open>Checked arithmetic of the debug build\<close>

definition uadd :: "'a::len word \<Rightarrow> 'a word \<Rightarrow> 'a word res" where
  "uadd a b = (if unat a + unat b < 2 ^ LENGTH('a) then Ok (a + b)
     else panic ''attempt to add with overflow'')"

definition usub :: "'a::len word \<Rightarrow> 'a word \<Rightarrow> 'a word res" where
  "usub a b = (if b \<le> a then Ok (a - b) else panic ''attempt to subtract with overflow'')"

definition umul :: "'a::len word \<Rightarrow> 'a word \<Rightarrow> 'a word res" where
  "umul a b = (if unat a * unat b < 2 ^ LENGTH('a) then Ok (a * b)
     else panic ''attempt to multiply with overflow'')"

definition udiv :: "'a::len word \<Rightarrow> 'a word \<Rightarrow> 'a word res" where
  "udiv a b = (if b = 0 then panic ''attempt to divide by zero'' else Ok (a div b))"

definition ushl :: "'a::len word \<Rightarrow> nat \<Rightarrow> 'a word res" where
  "ushl a n = (if n < LENGTH('a) then Ok (push_bit n a)
     else panic ''attempt to shift left with overflow'')"

definition ushr :: "'a::len word \<Rightarrow> nat \<Rightarrow> 'a word res" where
  "ushr a n = (if n < LENGTH('a) then Ok (drop_bit n a)
     else panic ''attempt to shift right with overflow'')"

text \<open>An \<open>i64\<close> is an \<open>int\<close> in range; an operation whose exact result leaves the range panics.\<close>

definition chk_i64 :: "int \<Rightarrow> int res" where
  "chk_i64 v = (if - (2 ^ 63) \<le> v \<and> v < 2 ^ 63 then Ok v
     else panic ''attempt to compute with overflow'')"

lemma uadd_Ok: "uadd a b = Inr c \<Longrightarrow> unat c = unat a + unat b"
  by (auto simp: uadd_def unat_word_ariths split: if_splits)

lemma usub_Ok: "usub a b = Inr c \<Longrightarrow> unat c = unat a - unat b \<and> unat b \<le> unat a"
  by (auto simp: usub_def unat_sub word_le_nat_alt split: if_splits)

lemma umul_Ok: "umul a b = Inr c \<Longrightarrow> unat c = unat a * unat b"
  by (auto simp: umul_def unat_word_ariths split: if_splits)

lemma uadd_eq_Ok: "unat a + unat b < 2 ^ LENGTH('a) \<Longrightarrow> uadd a (b::'a::len word) = Ok (a + b)"
  by (simp add: uadd_def)

lemma usub_eq_Ok: "unat b \<le> unat a \<Longrightarrow> usub a b = Ok (a - b)"
  by (simp add: usub_def word_le_nat_alt)

lemma unat_add_nowrap:
  "unat a + unat b < 2 ^ LENGTH('a) \<Longrightarrow> unat (a + b) = unat a + unat (b :: 'a::len word)"
  by (simp add: unat_word_ariths)

lemma unat_sub_nowrap: "unat b \<le> unat a \<Longrightarrow> unat (a - b) = unat a - unat b"
  by (simp add: unat_sub word_le_nat_alt)

lemma chk_i64_eq_Ok [simp]: "chk_i64 v = Inr w \<longleftrightarrow> w = v \<and> - (2 ^ 63) \<le> v \<and> v < 2 ^ 63"
  by (auto simp: chk_i64_def)

text \<open>\<open>u64::from_le_bytes\<close> and its kin: bytes in memory order.\<close>

definition from_le_bytes :: "u8 list \<Rightarrow> 'a::len word" where
  "from_le_bytes bs = word_of_nat (foldr (\<lambda>b n. unat b + 256 * n) bs 0)"

text \<open>A read of \<open>n\<close> bytes at an offset of a buffer; past its end there is nothing to read.\<close>

definition read_le :: "u8 list \<Rightarrow> nat \<Rightarrow> nat \<Rightarrow> 'a::len word res" where
  "read_le buf ofs n = (if ofs + n \<le> length buf then Ok (from_le_bytes (take n (drop ofs buf)))
     else Inl UB)"

section \<open>Words as numbers\<close>

lemma unat_push_bit_nowrap:
  "unat x * 2 ^ n < 2 ^ LENGTH('a) \<Longrightarrow> unat (push_bit n (x :: 'a::len word)) = unat x * 2 ^ n"
  by (simp only: unsigned_push_bit_eq) (simp add: push_bit_eq_mult take_bit_nat_eq_self)

lemma unat_drop_bit: "unat (drop_bit n (x :: 'a::len word)) = unat x div 2 ^ n"
  by (simp only: unat_drop_bit_eq) (simp add: drop_bit_eq_div)

lemma unat_take_bit: "unat (take_bit n (x :: 'a::len word)) = unat x mod 2 ^ n"
  by (simp only: unsigned_take_bit_eq) (simp add: take_bit_eq_mod)

text \<open>\<open>leading_zeros\<close> of the integer types: the number of zero bits above the highest set bit.\<close>

definition leading_zeros :: "'a::len word \<Rightarrow> nat" where
  "leading_zeros w = length (takeWhile Not (map (bit w) (rev [0..<LENGTH('a)])))"

lemma takeWhile_Not_bits:
  fixes w :: "'a::len word"
  defines "f \<equiv> \<lambda>k. k - length (takeWhile Not (map (bit w) (rev [0..<k])))"
  shows "(\<forall>i. f k \<le> i \<and> i < k \<longrightarrow> \<not> bit w i) \<and> (0 < f k \<longrightarrow> bit w (f k - 1)) \<and> f k \<le> k"
proof (induction k)
  case 0
  then show ?case by (simp add: f_def)
next
  case (Suc k)
  show ?case
  proof (cases "bit w k")
    case True
    then show ?thesis by (auto simp: f_def)
  next
    case False
    then have "f (Suc k) = f k" by (simp add: f_def)
    with Suc False show ?thesis by (auto simp: less_Suc_eq)
  qed
qed

lemma bit_imp_exp_le: "bit (w :: 'a::len word) i \<Longrightarrow> 2 ^ i \<le> unat w"
proof (rule ccontr)
  assume b: "bit w i" and "\<not> 2 ^ i \<le> unat w"
  then have "take_bit i (unat w) = unat w" by (simp add: take_bit_nat_eq_self)
  then have "\<not> bit (unat w) i" by (metis bit_take_bit_iff less_irrefl)
  with b show False by (simp add: bit_unsigned_iff)
qed

lemma leading_zeros_bounds:
  fixes w :: "'a::len word"
  defines "n \<equiv> LENGTH('a) - leading_zeros w"
  shows "unat w < 2 ^ n" and "w \<noteq> 0 \<Longrightarrow> 0 < n \<and> 2 ^ (n - 1) \<le> unat w" and "n \<le> LENGTH('a)"
proof -
  note b = takeWhile_Not_bits [of "LENGTH('a)" w, folded leading_zeros_def, folded n_def]
  show "n \<le> LENGTH('a)" using b by simp
  have "take_bit n w = w"
    by (rule bit_eqI) (use b not_le in \<open>auto simp: bit_simps\<close>)
  then have "unat w mod 2 ^ n = unat w" by (metis unat_take_bit)
  then show lt: "unat w < 2 ^ n" by (metis mod_less_divisor zero_less_numeral zero_less_power)
  show "0 < n \<and> 2 ^ (n - 1) \<le> unat w" if "w \<noteq> 0"
  proof -
    have "0 < n" using lt that by (cases n) (simp_all add: unat_eq_0)
    with b bit_imp_exp_le show ?thesis by blast
  qed
qed

lemma unat_and_not_low:
  fixes x :: "'a::len word"
  assumes "al = 2 ^ k" "k < LENGTH('a)"
  shows "unat (x AND NOT (al - 1)) = unat x - unat x mod 2 ^ k"
proof -
  have "x AND NOT (al - 1) = push_bit k (drop_bit k x)"
    unfolding assms(1) mask_eq_exp_minus_1 [symmetric]
    by (rule bit_eqI) (auto simp: bit_simps)
  moreover have "unat (drop_bit k x) * 2 ^ k = unat x - unat x mod 2 ^ k"
    by (simp add: unat_drop_bit minus_mod_eq_div_mult)
  moreover have "unat x - unat x mod 2 ^ k < 2 ^ LENGTH('a)"
    by (rule le_less_trans [OF diff_le_self]) simp
  ultimately show ?thesis by (simp add: unat_push_bit_nowrap)
qed

end
