(* ===== verification/Bit_Fields.thy ===== *)
theory Bit_Fields
  imports Rust_Prelude
begin

text \<open>
  The bit manipulation helpers of the kernel: \<open>src/bits.rs\<close> (\<open>extract_bits\<close>,
  \<open>extract_bits_from_le_bytes\<close>), \<open>src/volatile.rs\<close> (\<open>Volatile::read_bits\<close>,
  \<open>Volatile::write_bits\<close>) and \<open>src/range.rs\<close> (\<open>map_value_in_range_inclusive\<close>). A
  \<open>Volatile<T>\<close> is a transparent wrapper around \<open>T\<close>, so its state is the word it holds.
  The locale \<open>field_register\<close> is what the device structures built on \<open>Volatile\<close> rely on: a
  field reads back what was written to it, and a write leaves the other fields alone.
\<close>

section \<open>bits.rs\<close>

definition extract_bits :: "'a::len word \<Rightarrow> nat \<Rightarrow> nat \<Rightarrow> 'a word" where
  "extract_bits v shift width =
     (let mask = push_bit (min 63 width) (1::u64) - 1;
          v64 = (ucast v :: u64);
          s = shift mod 2 ^ 32;
          x = (if s < 64 then drop_bit s v64 else 0) AND mask
      in if unat x < 2 ^ LENGTH('a) then ucast x else 0)"

fun or_le_bytes :: "nat \<Rightarrow> nat \<Rightarrow> u8 list \<Rightarrow> u64 \<Rightarrow> u64 res" where
  "or_le_bytes i bit_shift [] value = Ok value"
| "or_le_bytes i bit_shift (v # vs) value =
     rbind (ushl (ucast v :: u128) (i * 8))
       (\<lambda>x. or_le_bytes (Suc i) bit_shift vs (value OR ucast (drop_bit bit_shift x)))"

definition extract_bits_from_le_bytes :: "u8 list \<Rightarrow> nat \<Rightarrow> nat \<Rightarrow> u64 option res" where
  "extract_bits_from_le_bytes bytes shift width =
     (if width = 0 then Ok None
      else if 2 ^ 64 \<le> shift + width + 7 then panic ''attempt to add with overflow''
      else
        let lo = shift div 8; hi = (shift + width + 7) div 8; bit_shift = shift - lo * 8
        in if hi \<le> length bytes
           then rbind (or_le_bytes 0 bit_shift (take (hi - lo) (drop lo bytes)) 0)
                  (\<lambda>value. Ok (Some (extract_bits value 0 width)))
           else Ok None)"

section \<open>volatile.rs\<close>

definition write_bits :: "'a::len word \<Rightarrow> nat \<Rightarrow> nat \<Rightarrow> 'a word \<Rightarrow> 'a word res" where
  "write_bits cur shift width value =
     rbind (ushl 1 width) (\<lambda>one. rbind (usub one 1) (\<lambda>mask.
       if mask AND value \<noteq> value then err ''Value out of range''
       else rbind (ushl mask shift) (\<lambda>smask. rbind (ushl value shift) (\<lambda>svalue.
         Ok (svalue OR (cur AND NOT smask))))))"

definition read_bits :: "'a::len word \<Rightarrow> nat \<Rightarrow> nat \<Rightarrow> 'a word res" where
  "read_bits cur shift width =
     rbind (ushl 1 width) (\<lambda>one. rbind (usub one 1) (\<lambda>mask.
       rbind (ushr cur shift) (\<lambda>x. Ok (x AND mask))))"

section \<open>range.rs\<close>

text \<open>
  \<open>i64\<close> values are integers in range; the products and the quotient are computed in \<open>i128\<close>,
  where the exact value always fits. Rust's \<open>/\<close> truncates towards zero.
\<close>

definition trunc_div :: "int \<Rightarrow> int \<Rightarrow> int" where
  "trunc_div a b = sgn a * sgn b * (\<bar>a\<bar> div \<bar>b\<bar>)"

definition map_value_in_range_inclusive :: "int \<times> int \<Rightarrow> int \<times> int \<Rightarrow> int \<Rightarrow> int res" where
  "map_value_in_range_inclusive from to v =
     (let (fs, fe) = from; (ts, te) = to in
      if \<not> (fs \<le> v \<and> v \<le> fe) then err ''v is not in range from''
      else rbind (chk_i64 (v - fs)) (\<lambda>from_left.
           rbind (chk_i64 (fe - fs)) (\<lambda>from_width.
           rbind (chk_i64 (te - ts)) (\<lambda>to_width.
             if from_width = 0 then Ok ts
             else let to_left = trunc_div (from_left * to_width) from_width in
                  if - (2 ^ 63) \<le> to_left \<and> to_left < 2 ^ 63
                  then chk_i64 (ts + to_left)
                  else err ''failed to convert to_left to the result type''))))"

section \<open>extract_bits is a bit slice\<close>

lemma exp_minus_one_eq_mask: "2 ^ n - (1::'a::len word) = mask n"
  by (simp add: mask_eq_exp_minus_1)

lemma unat_ucast_up:
  "LENGTH('a) \<le> LENGTH('b) \<Longrightarrow> unat (ucast (x :: 'a::len word) :: 'b::len word) = unat x"
  by (simp add: unsigned_ucast_eq take_bit_nat_eq_self_iff)
     (meson le_less_trans less_le_trans one_le_numeral power_increasing unsigned_less nat_less_le)

lemma extract_bits_eq:
  fixes v :: "'a::len word"
  assumes "LENGTH('a) \<le> 64" and "shift < 2 ^ 32"
  shows "extract_bits v shift width = take_bit (min 63 width) (drop_bit shift v)"
proof -
  let ?x = "(if shift < 64 then drop_bit shift (ucast v :: u64) else 0) AND mask (min 63 width)"
  have x: "?x = ucast (take_bit (min 63 width) (drop_bit shift v))"
    using assms(1) by (intro bit_eqI) (auto simp: bit_simps min_def dest: bit_imp_le_length)
  have "unat ?x < 2 ^ LENGTH('a)"
    unfolding x using assms(1)
    by (simp add: unat_ucast_up)
  moreover have "ucast (ucast (take_bit (min 63 width) (drop_bit shift v)) :: u64)
      = take_bit (min 63 width) (drop_bit shift v)"
    using assms(1) by (intro bit_eqI) (auto simp: bit_simps)
  ultimately show ?thesis
    using assms(2) x
    by (simp add: extract_bits_def Let_def exp_minus_one_eq_mask)
qed


lemma take_bit_63_u64: "take_bit 63 (drop_bit shift v) = drop_bit shift (v :: u64)"
  if "0 < shift"
  using that by (intro bit_eqI) (auto simp: bit_simps dest: bit_imp_le_length)

section \<open>read_bits and write_bits\<close>

lemma ushl_Ok: "n < LENGTH('a) \<Longrightarrow> ushl (a :: 'a::len word) n = Ok (push_bit n a)"
  by (simp add: ushl_def)

lemma ushr_Ok: "n < LENGTH('a) \<Longrightarrow> ushr (a :: 'a::len word) n = Ok (drop_bit n a)"
  by (simp add: ushr_def)

lemma one_le_exp: "n < LENGTH('a) \<Longrightarrow> (1::'a::len word) \<le> 2 ^ n"
  by (metis exp_eq_zero_iff linorder_not_less word_less_1)

lemma and_mask_eq_self_iff:
  fixes v :: "'a::len word"
  shows "mask n AND v = v \<longleftrightarrow> take_bit n v = v"
  by (simp add: take_bit_eq_mask and.commute)

lemma write_bits_eq:
  fixes v :: "'a::len word"
  assumes "width < LENGTH('a)" and "shift < LENGTH('a)"
  shows "write_bits cur shift width v =
     (if take_bit width v = v
      then Ok (push_bit shift v OR (cur AND NOT (push_bit shift (mask width))))
      else err ''Value out of range'')"
  using assms
  by (simp add: write_bits_def ushl_Ok usub_def one_le_exp exp_minus_one_eq_mask
      and_mask_eq_self_iff)

lemma read_bits_eq:
  fixes cur :: "'a::len word"
  assumes "width < LENGTH('a)" and "shift < LENGTH('a)"
  shows "read_bits cur shift width = Ok (take_bit width (drop_bit shift cur))"
  using assms
  by (simp add: read_bits_def ushl_Ok ushr_Ok usub_def one_le_exp exp_minus_one_eq_mask
      take_bit_eq_mask)


locale field_register =
  fixes rd :: "'r \<Rightarrow> nat \<Rightarrow> nat \<Rightarrow> 'v res"
    and wr :: "'r \<Rightarrow> nat \<Rightarrow> nat \<Rightarrow> 'v \<Rightarrow> 'r res"
    and fits :: "nat \<Rightarrow> 'v \<Rightarrow> bool"
    and field :: "nat \<Rightarrow> nat \<Rightarrow> bool"
  assumes rd_total: "field s w \<Longrightarrow> \<exists>v. rd r s w = Ok v \<and> fits w v"
    and wr_total: "field s w \<Longrightarrow> fits w v \<Longrightarrow> \<exists>r'. wr r s w v = Ok r'"
    and wr_reject: "field s w \<Longrightarrow> \<not> fits w v \<Longrightarrow> wr r s w v = err ''Value out of range''"
    and rd_wr_same: "field s w \<Longrightarrow> wr r s w v = Ok r' \<Longrightarrow> rd r' s w = Ok v"
    and rd_wr_other: "field s w \<Longrightarrow> field s' w' \<Longrightarrow> s + w \<le> s' \<or> s' + w' \<le> s \<Longrightarrow>
      wr r s w v = Ok r' \<Longrightarrow> rd r' s' w' = rd r s' w'"
begin

text \<open>Two writes to disjoint fields can both be read back afterwards.\<close>

lemma rd_wr_wr:
  assumes "field s w" "field s' w'" "s + w \<le> s' \<or> s' + w' \<le> s"
    and "wr r s w v = Ok r'" "wr r' s' w' v' = Ok r''"
  shows "rd r'' s w = Ok v \<and> rd r'' s' w' = Ok v'"
  using assms rd_wr_same rd_wr_other by metis

lemma wr_unwrap:
  assumes "field s w" "fits w v"
  shows "\<exists>r'. expect (wr r s w v) m = Ok r' \<and> rd r' s w = Ok v"
  using wr_total [OF assms] rd_wr_same [OF assms(1)] by fastforce

lemma wr_Ok_fits: "field s w \<Longrightarrow> wr r s w v = Ok r' \<Longrightarrow> fits w v"
  using wr_reject by fastforce

end

interpretation vol: field_register
  "read_bits :: 'a::len word \<Rightarrow> nat \<Rightarrow> nat \<Rightarrow> 'a word res" write_bits
  "\<lambda>w v. take_bit w v = v"
  "\<lambda>s w. 0 < w \<and> w < LENGTH('a) \<and> s + w \<le> LENGTH('a)"
proof (unfold_locales, goal_cases)
  case (1 s w r)
  then show ?case by (simp add: read_bits_eq)
next
  case (2 s w v r)
  then show ?case by (simp add: write_bits_eq)
next
  case (3 s w v r)
  then show ?case by (simp add: write_bits_eq)
next
  case (4 s w r v r')
  then have v: "take_bit w v = v"
    and r': "r' = push_bit s v OR (r AND NOT (push_bit s (mask w)))"
    by (auto simp: write_bits_eq split: if_splits)
  have "take_bit w (drop_bit s r') = take_bit w v"
    unfolding r' using 4(1) by (intro bit_eqI) (auto simp: bit_simps)
  with 4(1) v show ?case by (simp add: read_bits_eq)
next
  case (5 s w s' w' r v r')
  then have v: "take_bit w v = v"
    and r': "r' = push_bit s v OR (r AND NOT (push_bit s (mask w)))"
    by (auto simp: write_bits_eq split: if_splits)
  have vb: "\<not> bit v n" if "w \<le> n" for n
    using v that by (metis bit_take_bit_iff not_le)
  have "take_bit w' (drop_bit s' r') = take_bit w' (drop_bit s' r)"
    unfolding r' using 5(1-3) by (intro bit_eqI) (auto simp: bit_simps vb)
  with 5(2) show ?case by (simp add: read_bits_eq)
qed

section \<open>extract_bits_from_le_bytes reads a little-endian bit slice\<close>

fun le_nat :: "u8 list \<Rightarrow> nat" where
  "le_nat [] = 0"
| "le_nat (b # bs) = unat b + 256 * le_nat bs"

lemma bit_byte_plus: "bit (unat (b::u8) + 256 * m) p \<longleftrightarrow> (if p < 8 then bit b p else bit m (p - 8))"
proof -
  have "unat b + 256 * m = unat b + push_bit 8 m"
    by (simp add: push_bit_eq_mult)
  also have "\<dots> = unat b OR push_bit 8 m"
    by (rule disjunctive_add_eq_or, rule bit_eqI) (auto simp: bit_simps dest: bit_imp_le_length)
  finally show ?thesis
    by (auto simp: bit_simps dest: bit_imp_le_length)
qed

lemma bit_le_nat:
  "bit (le_nat bs) p \<longleftrightarrow> p div 8 < length bs \<and> bit (bs ! (p div 8)) (p mod 8)"
proof (induction bs arbitrary: p)
  case Nil
  show ?case by simp
next
  case (Cons b bs)
  show ?case
  proof (cases "p < 8")
    case True
    then show ?thesis by (simp add: bit_byte_plus)
  next
    case False
    then have "p div 8 = Suc ((p - 8) div 8)" "(p - 8) mod 8 = p mod 8"
      by (auto simp: le_div_geq le_mod_geq)
    with False show ?thesis by (simp add: bit_byte_plus Cons.IH)
  qed
qed

lemma div_8_eqI: "x - i * 8 < 8 \<Longrightarrow> i * 8 \<le> x \<Longrightarrow> x div 8 = (i::nat)"
  by (rule div_nat_eqI) auto

lemma bit_in_byte:
  fixes v :: u8
  shows "bit v (x - i * 8) \<and> i * 8 \<le> x \<longleftrightarrow> x div 8 = i \<and> bit v (x mod 8)" (is "?l = ?r")
proof
  assume l: ?l
  then have "x - i * 8 < 8" by (auto dest: bit_imp_le_length)
  with l have i: "x div 8 = i" by (intro div_8_eqI) auto
  have "x - i * 8 = x mod 8"
    unfolding i [symmetric] by (rule minus_div_mult_eq_mod)
  with l i show ?r by simp
next
  assume r: ?r
  then have "x - i * 8 = x mod 8" "i * 8 \<le> x"
    by (auto simp: minus_div_mult_eq_mod)
  with r show ?l by simp
qed

lemma bit_or_le_byte:
  assumes "bit_shift < 8" "i < 16" "n < 64"
  shows "bit (ucast (drop_bit bit_shift (push_bit (i * 8) (ucast (v::u8) :: u128))) :: u64) n
    \<longleftrightarrow> (n + bit_shift) div 8 = i \<and> bit v ((n + bit_shift) mod 8)"
  using assms by (auto simp: bit_simps add.commute simp flip: bit_in_byte)

lemma or_le_bytes_bit:
  assumes "bit_shift < 8" "i + length vs \<le> 16"
  shows "\<exists>r. or_le_bytes i bit_shift vs acc = Ok r \<and>
    (\<forall>n < 64. bit r n \<longleftrightarrow> bit acc n \<or>
       (let q = (n + bit_shift) div 8 in
          i \<le> q \<and> q < i + length vs \<and> bit (vs ! (q - i)) ((n + bit_shift) mod 8)))"
  using assms(2)
proof (induction vs arbitrary: i acc)
  case Nil
  then show ?case by (auto simp: Let_def)
next
  case (Cons v vs)
  let ?x = "ucast (drop_bit bit_shift (push_bit (i * 8) (ucast v :: u128))) :: u64"
  from Cons.prems have "Suc i + length vs \<le> 16" "i < 16" by auto
  with Cons.IH [of "Suc i" "acc OR ?x"] obtain r where
    r: "or_le_bytes (Suc i) bit_shift vs (acc OR ?x) = Ok r" and
    b: "\<And>n. n < 64 \<Longrightarrow> bit r n \<longleftrightarrow> bit (acc OR ?x) n \<or>
       (let q = (n + bit_shift) div 8 in
          Suc i \<le> q \<and> q < Suc i + length vs \<and> bit (vs ! (q - Suc i)) ((n + bit_shift) mod 8))"
    by blast
  from r \<open>i < 16\<close> have "or_le_bytes i bit_shift (v # vs) acc = Ok r"
    by (simp add: ushl_Ok)
  moreover have "bit r n \<longleftrightarrow> bit acc n \<or>
       (let q = (n + bit_shift) div 8 in
          i \<le> q \<and> q < i + length (v # vs) \<and> bit ((v # vs) ! (q - i)) ((n + bit_shift) mod 8))"
    if "n < 64" for n
    using b [OF that] bit_or_le_byte [OF assms(1) \<open>i < 16\<close> that, of v]
    by (cases "(n + bit_shift) div 8 = i")
       (auto simp: bit_or_iff Let_def nth_Cons' Suc_le_eq less_Suc_eq_le)
  ultimately show ?case by blast
qed

lemma less_min_diffI: "lo + q < hi \<Longrightarrow> hi \<le> n \<Longrightarrow> q < min (n - lo) (hi - lo)"
  for lo q hi n :: nat
  by auto

lemma extract_bits_from_le_bytes_eq:
  assumes w: "0 < width" "width \<le> 64" and len: "shift + width \<le> 8 * length bytes"
    and fit: "8 * length bytes + 7 < 2 ^ 64"
  shows "extract_bits_from_le_bytes bytes shift width =
    Ok (Some (word_of_nat (le_nat bytes div 2 ^ shift mod 2 ^ min 63 width)))"
proof -
  define lo hi bs where "lo = shift div 8" and "hi = (shift + width + 7) div 8"
    and "bs = shift - lo * 8"
  define vs where "vs = take (hi - lo) (drop lo bytes)"
  have bs: "bs < 8" and lo: "shift = bs + lo * 8"
    by (simp_all add: bs_def lo_def minus_div_mult_eq_mod)
  have hi: "hi \<le> length bytes" using len by (simp add: hi_def)
  have "hi * 8 \<le> shift + width + 7" by (simp add: hi_def)
  with w(2) lo bs have "hi - lo \<le> 16" by linarith
  then have "length vs \<le> 16" by (simp add: vs_def)
  with or_le_bytes_bit [OF bs, of 0 vs 0] obtain r where
    r: "or_le_bytes 0 bs vs 0 = Ok r" and
    rb: "\<And>n. n < 64 \<Longrightarrow> bit r n \<longleftrightarrow>
      (n + bs) div 8 < length vs \<and> bit (vs ! ((n + bs) div 8)) ((n + bs) mod 8)"
    by (auto simp: Let_def)
  have bit_r: "bit r n \<longleftrightarrow> bit (le_nat bytes) (shift + n)" if n: "n < min 63 width" for n
  proof -
    have s: "shift + n = (n + bs) + lo * 8" by (simp add: lo)
    have d: "(shift + n) div 8 = lo + (n + bs) div 8" "(shift + n) mod 8 = (n + bs) mod 8"
      by (simp_all only: s div_mult_self1 mod_mult_self1)
    have "(shift + n) div 8 < hi" using n unfolding hi_def by linarith
    with hi have q: "(n + bs) div 8 < length vs"
      unfolding d vs_def length_take length_drop by (intro less_min_diffI)
    have "(shift + n) div 8 < length bytes" using n len by linarith
    moreover have "vs ! ((n + bs) div 8) = bytes ! ((shift + n) div 8)"
      using q calculation by (simp add: vs_def d)
    ultimately show ?thesis using q n by (simp add: rb bit_le_nat d)
  qed
  have "take_bit (min 63 width) r =
      word_of_nat (le_nat bytes div 2 ^ shift mod 2 ^ min 63 width)"
    using bit_r
    by (intro bit_eqI) (auto simp: bit_simps simp flip: take_bit_eq_mod drop_bit_eq_div)
  then have "extract_bits r 0 width =
      word_of_nat (le_nat bytes div 2 ^ shift mod 2 ^ min 63 width)"
    by (simp add: extract_bits_eq)
  then show ?thesis
    using w len fit hi r
    by (simp add: extract_bits_from_le_bytes_def Let_def vs_def hi_def lo_def bs_def)
qed

lemma extract_bits_from_le_bytes_None:
  assumes "shift + width + 7 < 2 ^ 64"
  shows "extract_bits_from_le_bytes bytes shift width = Ok None \<longleftrightarrow>
    width = 0 \<or> 8 * length bytes < shift + width"
proof -
  have "(shift + width + 7) div 8 \<le> length bytes \<longleftrightarrow> shift + width \<le> 8 * length bytes"
    by linarith
  with assms show ?thesis
    by (auto simp: extract_bits_from_le_bytes_def Let_def)
qed


section \<open>map_value_in_range_inclusive\<close>

lemma trunc_div_nonneg: "0 \<le> a \<Longrightarrow> 0 < b \<Longrightarrow> trunc_div a b = a div b"
  by (cases "a = 0") (simp_all add: trunc_div_def)

lemma scaled_div_bounds:
  fixes x w t :: int
  assumes "0 \<le> x" "x \<le> w" "0 < w" "0 \<le> t"
  shows "0 \<le> x * t div w" "x * t div w \<le> t"
proof -
  show "0 \<le> x * t div w" using assms by (simp add: pos_imp_zdiv_nonneg_iff)
  have "x * t \<le> w * t" using assms by (simp add: mult_right_mono)
  then have "x * t div w \<le> w * t div w" using assms by (intro zdiv_mono1)
  then show "x * t div w \<le> t" using assms by simp
qed

lemma map_value_in_range_inclusive_eq:
  assumes "fs \<le> v" "v \<le> fe" "fe - fs < 2 ^ 63" "ts \<le> te" "te - ts < 2 ^ 63"
    and "- (2 ^ 63) \<le> ts" "te < 2 ^ 63"
  shows "map_value_in_range_inclusive (fs, fe) (ts, te) v =
     Ok (if fs = fe then ts else ts + (v - fs) * (te - ts) div (fe - fs))"
proof (cases "fs = fe")
  case True
  with assms show ?thesis
    by (simp add: map_value_in_range_inclusive_def chk_i64_def)
next
  case False
  with assms have b: "0 \<le> (v - fs) * (te - ts) div (fe - fs)"
      "(v - fs) * (te - ts) div (fe - fs) \<le> te - ts"
    by (intro scaled_div_bounds; simp)+
  have "0 \<le> (v - fs) * (te - ts)" using assms by simp
  with False b assms show ?thesis
    by (simp add: map_value_in_range_inclusive_def chk_i64_def trunc_div_nonneg Let_def)
qed

section \<open>Properties\<close>

text \<open>
  for every integer type of the kernel up to 64 bits, \<open>extract_bits\<close> returns the \<open>width\<close> bits
  above \<open>shift\<close>, whenever the width is below 64.
\<close>

theorem extract_bits_slice:
  fixes v :: "'a::len word"
  assumes "LENGTH('a) \<le> 64" and "shift < 2 ^ 32" and "width < 64"
  shows "unat (extract_bits v shift width) = unat v div 2 ^ shift mod 2 ^ width"
  using assms by (simp add: extract_bits_eq unat_take_bit unat_drop_bit min_absorb2)

theorem extract_bits_slice_witness:
  "unat (extract_bits (0xABCD :: u16) 4 8) = 0xABCD div 2 ^ 4 mod 2 ^ 8"
  using extract_bits_slice [of 4 8 "0xABCD :: u16"] by simp

text \<open>
  asking for all 64 bits of a \<open>u64\<close> (or for more) returns only the low 63: the mask is built
  from \<open>min(63, width)\<close>, so the top bit is lost.
\<close>

theorem extract_bits_full_width_drops_top_bit:
  "extract_bits (v :: u64) 0 (64 + n) = take_bit 63 v"
  by (simp add: extract_bits_eq)

text \<open>
  on a byte buffer of any length, \<open>extract_bits_from_le_bytes\<close> with a width of 1 to 63 yields
  \<open>None\<close> exactly when the bits reach past the end of the buffer, and otherwise the bits
  \<open>shift .. shift + width\<close> of the little-endian number the buffer spells.
\<close>

theorem extract_bits_from_le_bytes_slice:
  assumes "0 < width" and "width < 64" and "shift + width + 7 < 2 ^ 64"
    and "8 * length bytes + 7 < 2 ^ 64"
  shows "extract_bits_from_le_bytes bytes shift width =
    Ok (if shift + width \<le> 8 * length bytes
        then Some (word_of_nat (le_nat bytes div 2 ^ shift mod 2 ^ width)) else None)"
  using assms extract_bits_from_le_bytes_eq [of width shift bytes]
    extract_bits_from_le_bytes_None [of shift width bytes]
  by (auto simp: min_absorb2)

theorem extract_bits_from_le_bytes_slice_witness:
  "extract_bits_from_le_bytes [0x34, 0x12, 0xFF] 4 12 = Ok (Some 0x123) \<and>
   extract_bits_from_le_bytes [0x34, 0x12, 0xFF] 20 8 = Ok None"
  using extract_bits_from_le_bytes_slice [of 12 4 "[0x34, 0x12, 0xFF]"]
    extract_bits_from_le_bytes_slice [of 8 20 "[0x34, 0x12, 0xFF]"]
  by simp

text \<open>
  C15: a register of any width: a field (position, width) inside the register and narrower than it
  can be written exactly with the values that fit it, anything else is the error \<open>Value out of range\<close>
  and changes nothing; the field reads back what was written, and every field that does not overlap
  it reads as before.
\<close>

theorem write_bits_read_bits:
  fixes cur :: "'a::len word"
  assumes "0 < w" and "w < LENGTH('a)" and "s + w \<le> LENGTH('a)"
    and "0 < w'" and "w' < LENGTH('a)" and "s' + w' \<le> LENGTH('a)"
    and "s + w \<le> s' \<or> s' + w' \<le> s"
  shows "if unat v < 2 ^ w
    then \<exists>cur'. write_bits cur s w v = Ok cur' \<and> read_bits cur' s w = Ok v \<and>
      read_bits cur' s' w' = read_bits cur s' w'
    else write_bits cur s w v = err ''Value out of range''"
proof -
  have fits: "take_bit w v = v \<longleftrightarrow> unat v < 2 ^ w"
    by (simp add: word_unat_eq_iff unat_take_bit)
      (metis mod_less mod_less_divisor zero_less_numeral zero_less_power)
  show ?thesis
    using vol.wr_total [of w s v cur] vol.rd_wr_same [of w s cur v]
      vol.rd_wr_other [of w s w' s' cur v] vol.wr_reject [of w s v cur] assms fits
    by auto
qed

theorem write_bits_read_bits_witness:
  "\<exists>cur'. write_bits (0xFFFF :: u16) 4 4 3 = Ok cur' \<and> read_bits cur' 4 4 = Ok 3 \<and>
     read_bits cur' 8 8 = read_bits 0xFFFF 8 8"
  using write_bits_read_bits [of 4 4 8 8 "3 :: u16" "0xFFFF :: u16"] by simp

text \<open>
  \<open>map_value_in_range_inclusive\<close> between ranges whose widths fit an \<open>i64\<close> maps every value of the
  source range into the target range, in order, and the ends of the source range to the ends of the
  target range.
\<close>

theorem map_value_in_range_inclusive_monotone:
  assumes "- (2 ^ 63) \<le> fs" and "fs < fe" and "fe < 2 ^ 63" and "fe - fs < 2 ^ 63"
    and "- (2 ^ 63) \<le> ts" and "ts \<le> te" and "te < 2 ^ 63" and "te - ts < 2 ^ 63"
    and "fs \<le> u" and "u \<le> v" and "v \<le> fe"
  shows "\<exists>x y. map_value_in_range_inclusive (fs, fe) (ts, te) u = Ok x \<and>
    map_value_in_range_inclusive (fs, fe) (ts, te) v = Ok y \<and>
    ts \<le> x \<and> x \<le> y \<and> y \<le> te \<and> (u = fs \<longrightarrow> x = ts) \<and> (v = fe \<longrightarrow> y = te)"
proof -
  have "0 \<le> (u - fs) * (te - ts) div (fe - fs)" "(v - fs) * (te - ts) div (fe - fs) \<le> te - ts"
    using assms by (auto intro: scaled_div_bounds)
  moreover have "(u - fs) * (te - ts) div (fe - fs) \<le> (v - fs) * (te - ts) div (fe - fs)"
    using assms by (intro zdiv_mono1 mult_right_mono) auto
  ultimately show ?thesis
    using assms by (auto simp: map_value_in_range_inclusive_eq)
qed

theorem map_value_in_range_inclusive_monotone_witness:
  "\<exists>x y. map_value_in_range_inclusive (0, 32767) (0, 1023) 100 = Ok x \<and>
     map_value_in_range_inclusive (0, 32767) (0, 1023) 32767 = Ok y \<and> 0 \<le> x \<and> x \<le> y \<and> y = 1023"
  using map_value_in_range_inclusive_monotone [of 0 32767 0 1023 100 32767] by auto

end
