(* ===== verification/Uefi_Map.thy ===== *)
theory Uefi_Map
  imports Rust_Prelude
begin

text \<open>
  The firmware memory map of \<open>src/uefi.rs\<close>: the descriptor types, the buffer that
  \<open>GetMemoryMap\<close> fills and the iterator that walks it in steps of the firmware's descriptor
  size. Reading a descriptor is a cast of a raw pointer into the byte buffer: five little-endian
  64-bit fields, the first of which must be a discriminant of \<open>EfiMemoryType\<close>.
\<close>

datatype EfiMemoryType =
    RESERVED | LOADER_CODE | LOADER_DATA | BOOT_SERVICES_CODE | BOOT_SERVICES_DATA
  | RUNTIME_SERVICES_CODE | RUNTIME_SERVICES_DATA | CONVENTIONAL_MEMORY | UNUSABLE_MEMORY
  | ACPI_RECLAIM_MEMORY | ACPI_MEMORY_NVS | MEMORY_MAPPED_IO | MEMORY_MAPPED_IO_PORT_SPACE
  | PAL_CODE | PERSISTENT_MEMORY

definition efi_memory_types :: "EfiMemoryType list" where
  "efi_memory_types =
     [RESERVED, LOADER_CODE, LOADER_DATA, BOOT_SERVICES_CODE, BOOT_SERVICES_DATA,
      RUNTIME_SERVICES_CODE, RUNTIME_SERVICES_DATA, CONVENTIONAL_MEMORY, UNUSABLE_MEMORY,
      ACPI_RECLAIM_MEMORY, ACPI_MEMORY_NVS, MEMORY_MAPPED_IO, MEMORY_MAPPED_IO_PORT_SPACE,
      PAL_CODE, PERSISTENT_MEMORY]"

record EfiMemoryDescriptor =
  memory_type :: EfiMemoryType
  physical_start :: u64
  virtual_start :: u64
  number_of_pages :: u64
  attribute :: u64

record MemoryMapHolder =
  memory_map_buffer :: "u8 list"
  memory_map_size :: usize
  map_key :: usize
  descriptor_size :: usize
  descriptor_version :: u32

definition MEMORY_MAP_BUFFER_SIZE :: nat where
  "MEMORY_MAP_BUFFER_SIZE = 0x8000"

definition MemoryMapHolder_new :: MemoryMapHolder where
  "MemoryMapHolder_new = \<lparr> memory_map_buffer = replicate MEMORY_MAP_BUFFER_SIZE 0,
     memory_map_size = word_of_nat MEMORY_MAP_BUFFER_SIZE, map_key = 0, descriptor_size = 0,
     descriptor_version = 0 \<rparr>"

definition read_descriptor :: "u8 list \<Rightarrow> nat \<Rightarrow> EfiMemoryDescriptor res" where
  "read_descriptor buf ofs =
     rbind (read_le buf ofs 8) (\<lambda>ty :: u64.
     rbind (read_le buf (ofs + 8) 8) (\<lambda>ps.
     rbind (read_le buf (ofs + 16) 8) (\<lambda>vs.
     rbind (read_le buf (ofs + 24) 8) (\<lambda>np.
     rbind (read_le buf (ofs + 32) 8) (\<lambda>at.
       if unat ty < length efi_memory_types
       then Ok \<lparr> memory_type = efi_memory_types ! unat ty, physical_start = ps,
                 virtual_start = vs, number_of_pages = np, attribute = at \<rparr>
       else Inl UB)))))"

record MemoryMapIterator =
  iter_map :: MemoryMapHolder
  ofs :: usize

definition memory_map_iter :: "MemoryMapHolder \<Rightarrow> MemoryMapIterator" where
  "memory_map_iter m = \<lparr> iter_map = m, ofs = 0 \<rparr>"

definition memory_map_next ::
  "MemoryMapIterator \<Rightarrow> (EfiMemoryDescriptor option \<times> MemoryMapIterator) res" where
  "memory_map_next it =
     (if memory_map_size (iter_map it) \<le> ofs it then Ok (None, it)
      else rbind (read_descriptor (memory_map_buffer (iter_map it)) (unat (ofs it))) (\<lambda>e.
           rbind (uadd (ofs it) (descriptor_size (iter_map it))) (\<lambda>ofs'.
             Ok (Some e, it\<lparr>ofs := ofs'\<rparr>))))"

text \<open>
  A \<open>for\<close> loop over the iterator. A descriptor size of 0 makes the loop endless, so the loop
  carries fuel.
\<close>

fun memory_map_collect :: "nat \<Rightarrow> MemoryMapIterator \<Rightarrow> EfiMemoryDescriptor list res" where
  "memory_map_collect 0 it = Inl OutOfFuel"
| "memory_map_collect (Suc fuel) it =
     rbind (memory_map_next it) (\<lambda>(e, it').
       case e of None \<Rightarrow> Ok []
       | Some d \<Rightarrow> rbind (memory_map_collect fuel it') (\<lambda>ds. Ok (d # ds)))"

definition memory_map_entries :: "MemoryMapHolder \<Rightarrow> EfiMemoryDescriptor list res" where
  "memory_map_entries m = memory_map_collect (Suc (unat (memory_map_size m))) (memory_map_iter m)"

text \<open>
  What the firmware promises of the buffer it filled: the descriptor stride is positive and large
  enough, the descriptors fit the buffer, and every stride starts with a valid memory type.
\<close>

definition wf_memory_map :: "MemoryMapHolder \<Rightarrow> bool" where
  "wf_memory_map m \<longleftrightarrow>
     length (memory_map_buffer m) = MEMORY_MAP_BUFFER_SIZE \<and>
     0 < unat (descriptor_size m) \<and>
     unat (descriptor_size m) dvd unat (memory_map_size m) \<and>
     unat (memory_map_size m) \<le> MEMORY_MAP_BUFFER_SIZE \<and>
     (\<forall>i < unat (memory_map_size m) div unat (descriptor_size m).
        \<exists>d. read_descriptor (memory_map_buffer m) (i * unat (descriptor_size m)) = Ok d)"

lemma memory_map_next_step:
  assumes "wf_memory_map m" and "i < unat (memory_map_size m) div unat (descriptor_size m)"
    and "unat (ofs it) = i * unat (descriptor_size m)" and "iter_map it = m"
  shows "\<exists>d it'. memory_map_next it = Ok (Some d, it') \<and> iter_map it' = m \<and>
    unat (ofs it') = Suc i * unat (descriptor_size m) \<and>
    read_descriptor (memory_map_buffer m) (i * unat (descriptor_size m)) = Ok d"
proof -
  let ?sz = "unat (memory_map_size m)" and ?st = "unat (descriptor_size m)"
  from assms(1) have st: "0 < ?st" "?sz \<le> 0x8000" "?st dvd ?sz"
    by (auto simp: wf_memory_map_def MEMORY_MAP_BUFFER_SIZE_def)
  from assms(2) st have le: "Suc i * ?st \<le> ?sz"
    by (metis Suc_leI dvd_mult_div_cancel mult.commute mult_le_mono1)
  then have lt: "i * ?st < ?sz" using st(1) by simp
  from assms(1,2) obtain d where
    d: "read_descriptor (memory_map_buffer m) (i * ?st) = Ok d"
    by (auto simp: wf_memory_map_def)
  have "unat (ofs it) + ?st < 2 ^ 64" using le st(2) assms(3) by simp
  with d lt assms(3,4) show ?thesis
    by (auto simp: memory_map_next_def word_le_nat_alt uadd_def unat_word_ariths)
qed

lemma memory_map_collect_from:
  assumes "wf_memory_map m" and "n = unat (memory_map_size m) div unat (descriptor_size m)"
    and "i \<le> n" and "unat (ofs it) = i * unat (descriptor_size m)" and "iter_map it = m"
    and "n - i < fuel"
  shows "\<exists>ds. memory_map_collect fuel it = Ok ds \<and> length ds = n - i \<and>
    (\<forall>k < n - i. read_descriptor (memory_map_buffer m) ((i + k) * unat (descriptor_size m))
       = Ok (ds ! k))"
  using assms(3-6)
proof (induction fuel arbitrary: i it)
  case 0
  then show ?case by simp
next
  case (Suc fuel)
  show ?case
  proof (cases "i < n")
    case True
    with memory_map_next_step [OF assms(1), of i it] Suc.prems assms(2) obtain d it' where
      nx: "memory_map_next it = Ok (Some d, it')" "iter_map it' = m"
        "unat (ofs it') = Suc i * unat (descriptor_size m)" and
      d: "read_descriptor (memory_map_buffer m) (i * unat (descriptor_size m)) = Ok d"
      by auto
    from True Suc.prems(4) have "Suc i \<le> n" "n - Suc i < fuel" by auto
    from Suc.IH [OF this(1) nx(3,2) this(2)] obtain ds where
      ds: "memory_map_collect fuel it' = Ok ds" "length ds = n - Suc i"
        "\<forall>k < n - Suc i. read_descriptor (memory_map_buffer m)
           ((Suc i + k) * unat (descriptor_size m)) = Ok (ds ! k)"
      by blast
    have "read_descriptor (memory_map_buffer m) ((i + k) * unat (descriptor_size m))
        = Ok ((d # ds) ! k)" if "k < n - i" for k
      using that d ds(3) by (cases k) auto
    with nx ds True show ?thesis by auto
  next
    case False
    with Suc.prems(1) have "i = n" by simp
    with assms(1,2) Suc.prems have "memory_map_next it = Ok (None, it)"
      by (simp add: memory_map_next_def word_le_nat_alt wf_memory_map_def)
    with \<open>i = n\<close> show ?thesis by simp
  qed
qed

section \<open>Walking the map\<close>

text \<open>A map of one descriptor: 16 KiB of conventional memory at \<open>0x1000\<close>.\<close>

definition one_region_bytes :: "u8 list" where
  "one_region_bytes = [7, 0, 0, 0, 0, 0, 0, 0, 0, 0x10, 0, 0, 0, 0, 0, 0,
     0, 0, 0, 0, 0, 0, 0, 0, 4, 0, 0, 0, 0, 0, 0, 0, 0, 0, 0, 0, 0, 0, 0, 0]"

definition one_region_map :: MemoryMapHolder where
  "one_region_map = \<lparr> memory_map_buffer = one_region_bytes @ replicate (MEMORY_MAP_BUFFER_SIZE - 40) 0,
     memory_map_size = 40, map_key = 0, descriptor_size = 40, descriptor_version = 1 \<rparr>"

definition one_region :: EfiMemoryDescriptor where
  "one_region = \<lparr> memory_type = CONVENTIONAL_MEMORY, physical_start = 0x1000,
     virtual_start = 0, number_of_pages = 4, attribute = 0 \<rparr>"

lemma one_region_read:
  "read_descriptor (memory_map_buffer one_region_map) 0 = Ok one_region"
proof -
  have "read_descriptor (one_region_bytes @ rest) 0 = Ok one_region" for rest
    by (simp add: one_region_bytes_def read_descriptor_def read_le_def from_le_bytes_def
        efi_memory_types_def one_region_def)
  then show ?thesis by (simp add: one_region_map_def)
qed

lemma one_region_wf: "wf_memory_map one_region_map"
proof -
  have "length one_region_bytes = 40" by (simp add: one_region_bytes_def)
  then show ?thesis
    using one_region_read
    by (auto simp: wf_memory_map_def one_region_map_def MEMORY_MAP_BUFFER_SIZE_def)
qed

lemma one_region_entries: "memory_map_entries one_region_map = Ok [one_region]"
  using memory_map_collect_from [OF one_region_wf refl, of 0 "memory_map_iter one_region_map" 41]
    one_region_read
  by (auto simp: memory_map_entries_def memory_map_iter_def one_region_map_def length_Suc_conv
      simp del: memory_map_collect.simps)

text \<open>
  on a map that keeps the firmware's promises the iterator terminates and yields every descriptor,
  in order, read at its multiple of the descriptor size.
\<close>

theorem memory_map_entries_complete:
  assumes "wf_memory_map m"
  shows "\<exists>ds. memory_map_entries m = Ok ds \<and>
    length ds = unat (memory_map_size m) div unat (descriptor_size m) \<and>
    (\<forall>k < length ds. read_descriptor (memory_map_buffer m) (k * unat (descriptor_size m))
       = Ok (ds ! k))"
proof -
  let ?n = "unat (memory_map_size m) div unat (descriptor_size m)"
  have "?n - 0 < Suc (unat (memory_map_size m))" by (simp add: le_imp_less_Suc)
  from memory_map_collect_from [OF assms refl, of 0 "memory_map_iter m", OF _ _ _ this]
  obtain ds where "memory_map_entries m = Ok ds" "length ds = ?n"
    "\<forall>k < ?n. read_descriptor (memory_map_buffer m) (k * unat (descriptor_size m)) = Ok (ds ! k)"
    by (auto simp: memory_map_entries_def memory_map_iter_def simp del: memory_map_collect.simps)
  then show ?thesis by auto
qed

theorem memory_map_entries_complete_witness:
  "\<exists>ds. memory_map_entries one_region_map = Ok ds \<and> length ds = 1 \<and> ds ! 0 = one_region"
proof -
  from memory_map_entries_complete [OF one_region_wf] obtain d where
    "memory_map_entries one_region_map = Ok [d]"
    "read_descriptor (memory_map_buffer one_region_map) 0 = Ok d"
    by (auto simp: one_region_map_def length_Suc_conv)
  with one_region_read show ?thesis by simp
qed

end
