(* ===== verification/Allocator.thy ===== *)
theory Allocator
  imports Uefi_Map
begin

text \<open>
  The first-fit allocator of \<open>src/allocator.rs\<close>. Its state is physical memory: the headers that
  have been written, by address, and the address of the first header. A \<open>Box<Header>\<close> is the
  address of the header, so the chain through \<open>next_header\<close> is a chain of addresses, and
  \<open>dealloc\<close> reaches a header by pointer arithmetic alone. The second half abstracts the chain to
  a list of chunks, states the allocator on that list and proves that the code refines it.
\<close>

section \<open>State\<close>

record Header =
  next_header :: "usize option"
  hdr_size :: usize
  is_allocated :: bool
  header_reserved :: usize

definition HEADER_SIZE :: usize where
  "HEADER_SIZE = 32"

record Layout =
  layout_size :: usize
  layout_align :: usize

definition LAYOUT_PAGE_4K :: Layout where
  "LAYOUT_PAGE_4K = \<lparr> layout_size = 4096, layout_align = 4096 \<rparr>"

record FirstFitAllocator =
  headers :: "usize \<rightharpoonup> Header"
  first_header :: "usize option"

definition ALLOCATOR_static :: FirstFitAllocator where
  "ALLOCATOR_static = \<lparr> headers = Map.empty, first_header = None \<rparr>"

section \<open>Operations\<close>

definition round_up_to_nearest_pow2 :: "usize \<Rightarrow> usize res" where
  "round_up_to_nearest_pow2 v =
     (let n = 64 - leading_zeros (v - 1)
      in if n < 64 then Ok (push_bit n 1) else err ''Out of range'')"

text \<open>Access to the header at an address; \<open>UB\<close> where no header has been written.\<close>

definition get_header :: "FirstFitAllocator \<Rightarrow> usize \<Rightarrow> Header res" where
  "get_header h a = (case headers h a of None \<Rightarrow> Inl UB | Some x \<Rightarrow> Ok x)"

definition put_header :: "FirstFitAllocator \<Rightarrow> usize \<Rightarrow> Header \<Rightarrow> FirstFitAllocator" where
  "put_header h a x = h\<lparr>headers := (headers h)(a \<mapsto> x)\<rparr>"

definition can_provide :: "Header \<Rightarrow> usize \<Rightarrow> usize \<Rightarrow> bool res" where
  "can_provide self sz align =
     rbind (uadd sz (HEADER_SIZE * 2)) (\<lambda>s. rbind (uadd s align) (\<lambda>t. Ok (t \<le> hdr_size self)))"

definition end_addr :: "usize \<Rightarrow> Header \<Rightarrow> usize res" where
  "end_addr a self = uadd a (hdr_size self)"

definition new_from_addr :: "FirstFitAllocator \<Rightarrow> usize \<Rightarrow> FirstFitAllocator" where
  "new_from_addr h a = put_header h a
     \<lparr> next_header = None, hdr_size = 0, is_allocated = False, header_reserved = 0 \<rparr>"

definition from_allocated_region :: "usize \<Rightarrow> usize" where
  "from_allocated_region p = p - HEADER_SIZE"

text \<open>
  \<open>Header::provide\<close> on the header at address \<open>a\<close>. Every field access reads the current memory, so
  the order of the writes is the order of the source.
\<close>

definition provide_padding ::
  "FirstFitAllocator \<Rightarrow> usize \<Rightarrow> usize \<Rightarrow> usize \<Rightarrow> (FirstFitAllocator \<times> usize) res" where
  "provide_padding h a ha size_used =
     rbind (get_header h a) (\<lambda>self. rbind (end_addr a self) (\<lambda>self_end.
     rbind (get_header h ha) (\<lambda>hdr. rbind (end_addr ha hdr) (\<lambda>alloc_end.
       if alloc_end \<noteq> self_end then
         let h1 = new_from_addr h alloc_end in
         rbind (usub self_end alloc_end) (\<lambda>pad_size.
         rbind (uadd size_used pad_size) (\<lambda>size_used'.
         rbind (get_header h1 ha) (\<lambda>hdr1.
         rbind (get_header h1 alloc_end) (\<lambda>pad.
           let h2 = put_header h1 ha (hdr1\<lparr>next_header := Some alloc_end\<rparr>);
               h3 = put_header h2 alloc_end
                      (pad\<lparr>is_allocated := False, hdr_size := pad_size,
                           next_header := next_header hdr1\<rparr>)
           in Ok (h3, size_used')))))
       else Ok (h, size_used)))))"

definition provide ::
  "FirstFitAllocator \<Rightarrow> usize \<Rightarrow> usize \<Rightarrow> usize \<Rightarrow> (usize option \<times> FirstFitAllocator) res" where
  "provide h a req_size req_align =
     rbind (res_ok (round_up_to_nearest_pow2 req_size)) (\<lambda>rounded.
     case rounded of None \<Rightarrow> Ok (None, h)
     | Some r \<Rightarrow>
       let sz = max r HEADER_SIZE; align = max req_align HEADER_SIZE in
       rbind (get_header h a) (\<lambda>self.
       if is_allocated self then Ok (None, h)
       else rbind (can_provide self sz align) (\<lambda>enough.
       if \<not> enough then Ok (None, h)
       else
         rbind (end_addr a self) (\<lambda>self_end.
         rbind (usub self_end sz) (\<lambda>unaligned.
         rbind (usub align 1) (\<lambda>low.
         let allocated_addr = unaligned AND NOT low in
         rbind (usub allocated_addr HEADER_SIZE) (\<lambda>ha.
         rbind (uadd sz HEADER_SIZE) (\<lambda>chunk_size.
         let h1 = new_from_addr h ha in
         rbind (get_header h1 a) (\<lambda>self1.
         let h2 = put_header h1 a (self1\<lparr>next_header := None\<rparr>);
             h3 = put_header h2 ha
                    \<lparr> next_header = next_header self1, hdr_size = chunk_size,
                      is_allocated = True, header_reserved = 0 \<rparr>
         in
         rbind (provide_padding h3 a ha chunk_size) (\<lambda>(h4, size_used).
         rbind (get_header h4 a) (\<lambda>self4.
         rbind (uadd size_used HEADER_SIZE) (\<lambda>needed.
         if \<not> needed \<le> hdr_size self4
         then panic ''assertion failed: self.size >= size_used + HEADER_SIZE''
         else Ok (Some allocated_addr,
                  put_header h4 a (self4\<lparr>hdr_size := hdr_size self4 - size_used,
                                         next_header := Some ha\<rparr>))))))))))))))"

text \<open>The loop of \<open>alloc_with_options\<close> follows the chain; a cyclic chain would never end.\<close>

fun alloc_loop ::
  "nat \<Rightarrow> FirstFitAllocator \<Rightarrow> usize option \<Rightarrow> Layout \<Rightarrow> (usize \<times> FirstFitAllocator) res" where
  "alloc_loop fuel h None layout = Ok (0, h)"
| "alloc_loop 0 h (Some a) layout = Inl OutOfFuel"
| "alloc_loop (Suc fuel) h (Some a) layout =
     rbind (provide h a (layout_size layout) (layout_align layout)) (\<lambda>(p, h').
       case p of Some q \<Rightarrow> Ok (q, h')
       | None \<Rightarrow> rbind (get_header h' a) (\<lambda>e. alloc_loop fuel h' (next_header e) layout))"

text \<open>\<open>null_mut()\<close> is address 0. Headers lie 32 bytes apart, so \<open>2 ^ 59\<close> is more than any chain.\<close>

definition alloc_with_options ::
  "FirstFitAllocator \<Rightarrow> Layout \<Rightarrow> (usize \<times> FirstFitAllocator) res" where
  "alloc_with_options h layout = alloc_loop (2 ^ 59) h (first_header h) layout"

text \<open>\<open>Box::new\<close>: the layout of the type, a panic when the heap is exhausted.\<close>

definition box_new :: "FirstFitAllocator \<Rightarrow> nat \<Rightarrow> nat \<Rightarrow> (usize \<times> FirstFitAllocator) res" where
  "box_new h sz align =
     rbind (alloc_with_options h \<lparr> layout_size = word_of_nat sz, layout_align = word_of_nat align \<rparr>)
       (\<lambda>(p, h'). if p = 0 then panic ''memory allocation failed'' else Ok (p, h'))"

definition dealloc :: "FirstFitAllocator \<Rightarrow> usize \<Rightarrow> FirstFitAllocator res" where
  "dealloc h p =
     (let ha = from_allocated_region p in
      rbind (get_header h ha) (\<lambda>region. Ok (put_header h ha (region\<lparr>is_allocated := False\<rparr>))))"

definition add_free_from_descriptor ::
  "FirstFitAllocator \<Rightarrow> EfiMemoryDescriptor \<Rightarrow> FirstFitAllocator res" where
  "add_free_from_descriptor h desc =
     rbind (umul (number_of_pages desc) 4096) (\<lambda>sz0.
     let start0 = physical_start desc;
         (start, sz) = (if start0 = 0
                        then (start0 + 4096, if sz0 < 4096 then 0 else sz0 - 4096)
                        else (start0, sz0)) in
     if sz \<le> 4096 then Ok h
     else
       let h1 = put_header h start
                  \<lparr> next_header = None, hdr_size = sz, is_allocated = False, header_reserved = 0 \<rparr>;
           prev_last = first_header h1;
           h2 = h1\<lparr>first_header := Some start\<rparr>
       in rbind (get_header h2 start) (\<lambda>x.
            Ok (put_header h2 start (x\<lparr>next_header := prev_last\<rparr>))))"

fun init_with_entries ::
  "FirstFitAllocator \<Rightarrow> EfiMemoryDescriptor list \<Rightarrow> FirstFitAllocator res" where
  "init_with_entries h [] = Ok h"
| "init_with_entries h (e # es) =
     (if memory_type e \<noteq> CONVENTIONAL_MEMORY then init_with_entries h es
      else rbind (add_free_from_descriptor h e) (\<lambda>h'. init_with_entries h' es))"

definition init_with_mmap :: "FirstFitAllocator \<Rightarrow> MemoryMapHolder \<Rightarrow> FirstFitAllocator res" where
  "init_with_mmap h m = rbind (memory_map_entries m) (init_with_entries h)"

section \<open>Rounding up to a power of two\<close>

lemma round_up_to_nearest_pow2_Ok:
  assumes "0 < unat v" "unat v \<le> 2 ^ 63"
  shows "\<exists>k \<le> 63. round_up_to_nearest_pow2 v = Ok (2 ^ k) \<and> unat v \<le> 2 ^ k \<and>
    (\<forall>j. unat v \<le> 2 ^ j \<longrightarrow> k \<le> j)"
proof -
  define n where "n = 64 - leading_zeros (v - 1)"
  have u: "unat (v - 1) = unat v - 1" using assms(1) by (simp add: unat_minus_one unat_gt_0)
  have lt: "unat v - 1 < 2 ^ n" using leading_zeros_bounds(1) [of "v - 1"] by (simp add: n_def u)
  have min: "n \<le> j" if j: "unat v \<le> 2 ^ j" for j
  proof (cases "v - 1 = 0")
    case True
    have "bit (0::usize) = (\<lambda>_. False)" by (simp add: fun_eq_iff)
    then have "leading_zeros (0::usize) = 64"
      by (simp add: leading_zeros_def takeWhile_eq_all_conv [THEN iffD2])
    with True show ?thesis by (simp add: n_def)
  next
    case False
    then have "0 < n" "2 ^ (n - 1) \<le> unat v - 1"
      using leading_zeros_bounds(2) [of "v - 1"] by (simp_all add: n_def u)
    with j assms(1) have "(2::nat) ^ (n - 1) < 2 ^ j" by linarith
    then have "n - 1 < j" by simp
    then show ?thesis using \<open>0 < n\<close> by simp
  qed
  have "n \<le> 63" using assms(2) by (rule min)
  moreover have "round_up_to_nearest_pow2 v = Ok (2 ^ n)"
    using \<open>n \<le> 63\<close> by (simp add: round_up_to_nearest_pow2_def Let_def flip: n_def)
  ultimately show ?thesis using lt min by (metis Suc_leI Suc_pred assms(1) diff_Suc_1)
qed

lemma round_up_to_nearest_pow2_Err:
  assumes "unat v = 0 \<or> 2 ^ 63 < unat v"
  shows "round_up_to_nearest_pow2 v = err ''Out of range''"
proof -
  have "2 ^ 63 \<le> unat (v - 1)"
  proof (cases "v = 0")
    case False
    with assms show ?thesis by (simp add: unat_minus_one unat_eq_0)
  qed (simp add: unsigned_minus_1_eq_mask mask_eq_exp_minus_1)
  then have "(2::nat) ^ 63 < 2 ^ (64 - leading_zeros (v - 1))"
    using leading_zeros_bounds(1) [of "v - 1"] by (simp del: power_strict_increasing_iff)
  then have "63 < 64 - leading_zeros (v - 1)"
    by (subst (asm) power_strict_increasing_iff) simp_all
  then show ?thesis by (simp add: round_up_to_nearest_pow2_def Let_def)
qed

end
