(* ===== verification/Alloc_Chunks.thy ===== *)
theory Alloc_Chunks
  imports Allocator
begin

text \<open>
  What the allocator of \<open>src/allocator.rs\<close> promises. The chain of headers is abstracted to a list
  of chunks (address, size, allocated); \<open>first_fit\<close> is allocation on that list, and the lemmas
  show that \<open>alloc_with_options\<close> refines it, header write by header write: it follows the chain,
  carves the block from the end of the first chunk that is large enough, leaves the padding behind
  it as a free chunk, and changes no header outside that chunk.
\<close>

section \<open>Chunks: the abstract allocator\<close>

datatype chunk = Chunk (c_addr: nat) (c_size: nat) (c_alloc: bool)

abbreviation c_end :: "chunk \<Rightarrow> nat" where
  "c_end c \<equiv> c_addr c + c_size c"

definition wf_chunk :: "chunk \<Rightarrow> bool" where
  "wf_chunk c \<longleftrightarrow> 32 dvd c_addr c \<and> 32 dvd c_size c \<and> 32 \<le> c_size c \<and> 0 < c_addr c \<and>
     c_end c < 2 ^ 64"

definition disjoint_chunks :: "chunk \<Rightarrow> chunk \<Rightarrow> bool" where
  "disjoint_chunks c d \<longleftrightarrow> c_end c \<le> c_addr d \<or> c_end d \<le> c_addr c"

definition wf_chunks :: "chunk list \<Rightarrow> bool" where
  "wf_chunks cs \<longleftrightarrow> list_all wf_chunk cs \<and> sorted_wrt disjoint_chunks cs"

definition fits_chunk :: "nat \<Rightarrow> nat \<Rightarrow> chunk \<Rightarrow> bool" where
  "fits_chunk sz al c \<longleftrightarrow> \<not> c_alloc c \<and> sz + 64 + al \<le> c_size c"

definition place_in :: "nat \<Rightarrow> nat \<Rightarrow> chunk \<Rightarrow> nat" where
  "place_in sz al c = (c_end c - sz) - (c_end c - sz) mod al"

definition split_chunk :: "nat \<Rightarrow> nat \<Rightarrow> chunk \<Rightarrow> chunk list" where
  "split_chunk sz al c =
     (let p = place_in sz al c in
      [Chunk (c_addr c) (p - 32 - c_addr c) False, Chunk (p - 32) (sz + 32) True] @
      (if p + sz = c_end c then [] else [Chunk (p + sz) (c_end c - (p + sz)) False]))"

fun first_fit :: "nat \<Rightarrow> nat \<Rightarrow> chunk list \<Rightarrow> (nat \<times> chunk list) option" where
  "first_fit sz al [] = None"
| "first_fit sz al (c # cs) =
     (if fits_chunk sz al c then Some (place_in sz al c, split_chunk sz al c @ cs)
      else map_option (\<lambda>(p, cs'). (p, c # cs')) (first_fit sz al cs))"

lemma place_in_bounds:
  assumes "wf_chunk c" "fits_chunk sz al c" "32 dvd sz" "32 dvd al" "0 < al"
  shows "al dvd place_in sz al c" "32 dvd place_in sz al c"
    "c_addr c + 64 \<le> place_in sz al c" "place_in sz al c + sz \<le> c_end c"
proof -
  let ?x = "c_end c - sz"
  show d: "al dvd place_in sz al c"
    unfolding place_in_def by (rule dvd_minus_mod)
  then show d32: "32 dvd place_in sz al c" using assms(4) by (rule dvd_trans [rotated])
  have "?x mod al < al" using assms(5) by simp
  then have gt: "c_addr c + 64 < place_in sz al c"
    using assms(2) unfolding place_in_def fits_chunk_def by linarith
  then show "c_addr c + 64 \<le> place_in sz al c" by simp
  have "place_in sz al c \<le> ?x" by (simp add: place_in_def)
  moreover have "sz \<le> c_end c" using assms(2) by (simp add: fits_chunk_def)
  ultimately show "place_in sz al c + sz \<le> c_end c" by linarith
qed

lemma wf_split_chunk:
  assumes "wf_chunk c" "fits_chunk sz al c" "32 dvd sz" "32 dvd al" "0 < al"
  shows "wf_chunks (split_chunk sz al c)"
proof -
  define p where "p = place_in sz al c"
  note b = place_in_bounds [OF assms, folded p_def]
  from assms(1) have c: "32 dvd c_addr c" "32 dvd c_size c" "0 < c_addr c" "c_end c < 2 ^ 64"
    by (auto simp: wf_chunk_def)
  have "32 dvd p - 32 - c_addr c" "32 dvd p - 32" "32 dvd sz + 32"
    using b(2) c assms(3) by simp_all
  moreover have "32 dvd c_end c - (p + sz)" "32 dvd p + sz"
    using b(2) c assms(3) by simp_all
  moreover have "32 \<le> c_end c - (p + sz)" if "p + sz \<noteq> c_end c"
    using that b(4) calculation(4) by (intro dvd_imp_le) auto
  ultimately show ?thesis
    using b c by (auto simp: split_chunk_def Let_def wf_chunks_def wf_chunk_def
        disjoint_chunks_def simp flip: p_def)
qed

lemma split_chunk_within:
  assumes "wf_chunk c" "fits_chunk sz al c" "32 dvd sz" "32 dvd al" "0 < al"
    and "d \<in> set (split_chunk sz al c)"
  shows "c_addr c \<le> c_addr d \<and> c_end d \<le> c_end c"
  using place_in_bounds [OF assms(1-5)] assms(6)
  by (auto simp: split_chunk_def Let_def split: if_splits)

lemma disjoint_chunks_sym: "disjoint_chunks c d \<longleftrightarrow> disjoint_chunks d c"
  by (auto simp: disjoint_chunks_def)

lemma disjoint_chunks_within:
  "disjoint_chunks e c \<Longrightarrow> c_addr c \<le> c_addr d \<Longrightarrow> c_end d \<le> c_end c \<Longrightarrow> disjoint_chunks e d"
  by (auto simp: disjoint_chunks_def)

lemma first_fit_None: "first_fit sz al cs = None \<longleftrightarrow> (\<forall>c \<in> set cs. \<not> fits_chunk sz al c)"
  by (induction cs) auto

lemma first_fit_Some:
  assumes "first_fit sz al cs = Some (p, cs')"
  shows "\<exists>pre c post. cs = pre @ c # post \<and> cs' = pre @ split_chunk sz al c @ post \<and>
    p = place_in sz al c \<and> fits_chunk sz al c \<and> (\<forall>d \<in> set pre. \<not> fits_chunk sz al d)"
  using assms
proof (induction cs arbitrary: cs')
  case Nil
  then show ?case by simp
next
  case (Cons c cs)
  show ?case
  proof (cases "fits_chunk sz al c")
    case True
    with Cons.prems show ?thesis by (intro exI [of _ "[]"]) auto
  next
    case False
    with Cons.prems obtain cs1 where ff: "first_fit sz al cs = Some (p, cs1)" and "cs' = c # cs1"
      by auto
    from Cons.IH [OF ff] obtain pre d post where
      "cs = pre @ d # post" "cs1 = pre @ split_chunk sz al d @ post" "p = place_in sz al d"
      "fits_chunk sz al d" "\<forall>e \<in> set pre. \<not> fits_chunk sz al e"
      by blast
    with False \<open>cs' = c # cs1\<close> show ?thesis
      by (intro exI [of _ "c # pre"] exI [of _ d] exI [of _ post]) auto
  qed
qed

lemma wf_chunks_replace:
  assumes "wf_chunks (pre @ c # post)" "wf_chunks new"
    and "\<And>d. d \<in> set new \<Longrightarrow> c_addr c \<le> c_addr d \<and> c_end d \<le> c_end c"
  shows "wf_chunks (pre @ new @ post)"
proof -
  have "disjoint_chunks e d" if "e \<in> set pre \<or> e \<in> set post" "d \<in> set new" for e d
  proof (rule disjoint_chunks_within)
    show "disjoint_chunks e c"
      using assms(1) that(1) disjoint_chunks_sym by (auto simp: wf_chunks_def sorted_wrt_append)
  qed (use assms(3) that(2) in auto)
  with assms(1,2) show ?thesis
    using disjoint_chunks_sym by (auto simp: wf_chunks_def sorted_wrt_append)
qed

lemma first_fit_wf:
  assumes "wf_chunks cs" "first_fit sz al cs = Some (p, cs')" "32 dvd sz" "32 dvd al" "0 < al"
  shows "wf_chunks cs'"
proof -
  from first_fit_Some [OF assms(2)] obtain pre c post where
    cs: "cs = pre @ c # post" "cs' = pre @ split_chunk sz al c @ post" "fits_chunk sz al c"
    by blast
  moreover have "wf_chunk c" using assms(1) cs(1) by (simp add: wf_chunks_def)
  ultimately show ?thesis
    using assms wf_chunks_replace wf_split_chunk split_chunk_within by metis
qed

section \<open>The chain of headers\<close>

fun chain :: "(usize \<rightharpoonup> Header) \<Rightarrow> usize option \<Rightarrow> chunk list \<Rightarrow> bool" where
  "chain hs p [] \<longleftrightarrow> p = None"
| "chain hs p (c # cs) \<longleftrightarrow>
     (case p of None \<Rightarrow> False
      | Some a \<Rightarrow> (case hs a of None \<Rightarrow> False
        | Some x \<Rightarrow> unat a = c_addr c \<and> unat (hdr_size x) = c_size c \<and> is_allocated x = c_alloc c \<and>
            chain hs (next_header x) cs))"

lemma chain_Cons_iff:
  "chain hs p (c # cs) \<longleftrightarrow> (\<exists>a x. p = Some a \<and> hs a = Some x \<and> unat a = c_addr c \<and>
     unat (hdr_size x) = c_size c \<and> is_allocated x = c_alloc c \<and> chain hs (next_header x) cs)"
  by (auto split: option.splits)

lemma chain_cong:
  "chain hs p cs \<Longrightarrow> (\<And>b. \<exists>c \<in> set cs. unat b = c_addr c \<Longrightarrow> hs' b = hs b) \<Longrightarrow> chain hs' p cs"
proof (induction cs arbitrary: p)
  case Nil
  then show ?case by simp
next
  case (Cons c cs)
  from Cons.prems(1) obtain a x where ax: "p = Some a" "hs a = Some x" "unat a = c_addr c"
      "unat (hdr_size x) = c_size c" "is_allocated x = c_alloc c" "chain hs (next_header x) cs"
    by (auto simp: chain_Cons_iff simp del: chain.simps)
  have "chain hs' (next_header x) cs" by (rule Cons.IH [OF ax(6)]) (use Cons.prems(2) in auto)
  moreover have "hs' a = Some x" using Cons.prems(2) ax by auto
  ultimately show ?case using ax by (simp add: chain_Cons_iff del: chain.simps)
qed

text \<open>A heap represents a list of chunks.\<close>

definition heap_repr :: "FirstFitAllocator \<Rightarrow> chunk list \<Rightarrow> bool" where
  "heap_repr h cs \<longleftrightarrow> chain (headers h) (first_header h) cs \<and> wf_chunks cs"

text \<open>The contract of \<open>std::alloc::Layout\<close>.\<close>

definition valid_layout :: "Layout \<Rightarrow> bool" where
  "valid_layout l \<longleftrightarrow> (\<exists>k < 64. unat (layout_align l) = 2 ^ k) \<and>
     unat (layout_size l) + unat (layout_align l) \<le> 2 ^ 63"

text \<open>The size and alignment the allocator works with: a power of two, at least a header.\<close>

definition layout_sz :: "Layout \<Rightarrow> nat" where
  "layout_sz l = unat (max (projr (round_up_to_nearest_pow2 (layout_size l))) HEADER_SIZE)"

definition layout_al :: "Layout \<Rightarrow> nat" where
  "layout_al l = unat (max (layout_align l) HEADER_SIZE)"

lemma exp_dvd_32: "32 \<le> (2::nat) ^ k \<Longrightarrow> 32 dvd (2::nat) ^ k"
proof -
  assume "32 \<le> (2::nat) ^ k"
  then have "(2::nat) ^ 5 \<le> 2 ^ k" by simp
  then have "5 \<le> k" by (subst (asm) power_increasing_iff) auto
  then have "(2::nat) ^ 5 dvd 2 ^ k" by (rule le_imp_power_dvd)
  then show ?thesis by simp
qed

lemma max_exp_32: "\<exists>j. max ((2::nat) ^ k) 32 = 2 ^ j \<and> 32 dvd (2::nat) ^ j"
proof (cases "32 \<le> (2::nat) ^ k")
  case True
  then show ?thesis by (intro exI [of _ k]) (simp add: exp_dvd_32 max_def)
next
  case False
  then show ?thesis by (intro exI [of _ 5]) (simp add: max_def)
qed

lemma unat_max: "unat (max a b) = max (unat a) (unat (b :: 'a::len word))"
  by (simp add: max_def word_le_nat_alt)

lemma layout_facts:
  assumes "valid_layout l" "0 < unat (layout_size l)"
  shows "\<exists>r. round_up_to_nearest_pow2 (layout_size l) = Ok r \<and> layout_sz l = unat (max r HEADER_SIZE)"
    "unat (layout_size l) \<le> layout_sz l" "32 dvd layout_sz l"
    "\<exists>j < 64. layout_al l = 2 ^ j" "32 dvd layout_al l" "0 < layout_al l"
    "unat (layout_align l) dvd layout_al l"
    "layout_sz l + 64 + layout_al l < 2 ^ 64"
proof -
  from assms(1) obtain ka where ka: "unat (layout_align l) = 2 ^ ka" "ka < 64"
    and sum: "unat (layout_size l) + unat (layout_align l) \<le> 2 ^ 63"
    by (auto simp: valid_layout_def)
  from sum have "unat (layout_size l) \<le> 2 ^ 63" by simp
  from round_up_to_nearest_pow2_Ok [OF assms(2) this] obtain k where
    k: "k \<le> 63" "round_up_to_nearest_pow2 (layout_size l) = Ok (2 ^ k)" "unat (layout_size l) \<le> 2 ^ k"
    by blast
  have u: "unat ((2::usize) ^ k) = 2 ^ k"
    using k(1) by (simp add: unat_push_bit_nowrap [of 1 k, simplified])
  show "\<exists>r. round_up_to_nearest_pow2 (layout_size l) = Ok r \<and> layout_sz l = unat (max r HEADER_SIZE)"
    using k(2) by (simp add: layout_sz_def)
  have sz: "layout_sz l = max (2 ^ k) 32"
    by (simp add: layout_sz_def k(2) unat_max u HEADER_SIZE_def)
  have al: "layout_al l = max (2 ^ ka) 32"
    by (simp add: layout_al_def ka(1) unat_max HEADER_SIZE_def)
  show "unat (layout_size l) \<le> layout_sz l" using k(3) by (simp add: sz)
  show "32 dvd layout_sz l" using max_exp_32 [of k] by (auto simp: sz)
  show "32 dvd layout_al l" "0 < layout_al l" using max_exp_32 [of ka] by (auto simp: al)
  show "\<exists>j < 64. layout_al l = 2 ^ j"
  proof (cases "32 \<le> (2::nat) ^ ka")
    case True
    then show ?thesis using ka(2) by (auto simp: al max_def)
  next
    case False
    then show ?thesis by (intro exI [of _ 5]) (simp add: al max_def)
  qed
  show "unat (layout_align l) dvd layout_al l"
    unfolding al ka(1)
  proof (cases "32 \<le> (2::nat) ^ ka")
    case False
    then have "(2::nat) ^ ka < 2 ^ 5" by simp
    then have "ka < 5" by (subst (asm) power_strict_increasing_iff) auto
    then have "(2::nat) ^ ka dvd 2 ^ 5" by (intro le_imp_power_dvd) simp
    with False show "(2::nat) ^ ka dvd max (2 ^ ka) 32" by (simp add: max_def)
  qed simp
  have "(2::nat) ^ ka < 2 ^ 63" using sum assms(2) ka(1) by linarith
  then have "ka \<le> 62" by (subst (asm) power_strict_increasing_iff) auto
  then have "(2::nat) ^ ka \<le> 2 ^ 62" by (rule power_increasing) simp
  moreover have "(2::nat) ^ k \<le> 2 ^ 63" using k(1) by (rule power_increasing) simp
  ultimately show "layout_sz l + 64 + layout_al l < 2 ^ 64" by (simp add: sz al)
qed

section \<open>Carving a block out of a chunk\<close>

lemma get_header_put [simp]:
  "get_header (put_header h a x) b = (if b = a then Ok x else get_header h b)"
  "headers (put_header h a x) = (headers h)(a \<mapsto> x)"
  "first_header (put_header h a x) = first_header h"
  by (auto simp: get_header_def put_header_def)

lemma get_header_Ok: "headers h a = Some x \<Longrightarrow> get_header h a = Ok x"
  by (simp add: get_header_def)

lemma provide_unfit:
  assumes "headers h a = Some x" "round_up_to_nearest_pow2 rs = Ok r"
    and "unat (max r HEADER_SIZE) + 64 + unat (max ra HEADER_SIZE) < 2 ^ 64"
    and "is_allocated x \<or>
      unat (hdr_size x) < unat (max r HEADER_SIZE) + 64 + unat (max ra HEADER_SIZE)"
  shows "provide h a rs ra = Ok (None, h)"
proof -
  have "can_provide x (max r HEADER_SIZE) (max ra HEADER_SIZE) =
    Ok (unat (max r HEADER_SIZE) + 64 + unat (max ra HEADER_SIZE) \<le> unat (hdr_size x))"
    using assms(3) by (simp add: can_provide_def uadd_def unat_word_ariths HEADER_SIZE_def
        word_le_nat_alt)
  with assms(1,2,4) show ?thesis
    by (auto simp: provide_def Let_def get_header_Ok)
qed

lemma put_header_shadow:
  "put_header (put_header h a x) a y = put_header h a y"
  "a \<noteq> b \<Longrightarrow> put_header (put_header (put_header h a x) b y) a z = put_header (put_header h b y) a z"
  "a \<noteq> b \<Longrightarrow> a \<noteq> c \<Longrightarrow> put_header (put_header (put_header (put_header h a x) b y) c w) a z
     = put_header (put_header (put_header h b y) c w) a z"
  by (auto simp: put_header_def fun_upd_twist)

lemma provide_padding_eq:
  assumes s: "headers h a = Some s" "headers h ha = Some H" "ha \<noteq> a"
    and fin: "unat a + unat (hdr_size s) < 2 ^ 64"
    and le: "unat ha + unat (hdr_size H) \<le> unat a + unat (hdr_size s)"
    and pe: "pe = ha + hdr_size H" "pe \<noteq> ha" "pe \<noteq> a"
    and su: "unat su + (unat a + unat (hdr_size s) - unat pe) < 2 ^ 64"
  shows "provide_padding h a ha su =
    (if pe = a + hdr_size s then Ok (h, su)
     else Ok (put_header (put_header h ha (H\<lparr>next_header := Some pe\<rparr>)) pe
                \<lparr> next_header = next_header H, hdr_size = a + hdr_size s - pe, is_allocated = False,
                  header_reserved = 0 \<rparr>,
              su + (a + hdr_size s - pe)))"
proof -
  have ue: "unat (a + hdr_size s) = unat a + unat (hdr_size s)"
    using fin by (simp add: unat_add_nowrap)
  have up: "unat pe = unat ha + unat (hdr_size H)"
    using fin le by (simp add: pe unat_add_nowrap)
  have ea: "end_addr a s = Ok (a + hdr_size s)" "end_addr ha H = Ok pe"
    using fin le by (simp_all add: end_addr_def uadd_eq_Ok pe)
  have "usub (a + hdr_size s) pe = Ok (a + hdr_size s - pe)"
    using ue up le by (simp add: usub_eq_Ok)
  moreover have "uadd su (a + hdr_size s - pe) = Ok (su + (a + hdr_size s - pe))"
    using su ue up le by (simp add: uadd_eq_Ok unat_sub_nowrap)
  ultimately show ?thesis
    using s ea pe(2,3)
    by (simp add: provide_padding_def get_header_Ok Let_def new_from_addr_def put_header_shadow)
qed

lemma provide_fit:
  assumes x: "headers h a = Some x" and r: "round_up_to_nearest_pow2 rs = Ok r"
    and sz: "sz = unat (max r HEADER_SIZE)" and al: "al = unat (max ra HEADER_SIZE)"
    and pow: "al = 2 ^ j" "j < 64" and d32: "32 dvd sz" "32 dvd al"
    and small: "sz + 64 + al < 2 ^ 64"
    and c: "c = Chunk (unat a) (unat (hdr_size x)) False" "\<not> is_allocated x" "wf_chunk c"
    and fit: "fits_chunk sz al c"
  obtains p pe :: usize and H A P where
    "unat p = place_in sz al c" "unat pe = place_in sz al c + sz"
    "provide h a rs ra = Ok (Some p,
       put_header (if unat pe = c_end c then put_header h (p - 32) H
         else put_header (put_header h (p - 32) (H\<lparr>next_header := Some pe\<rparr>)) pe P) a A)"
    "unat (hdr_size A) = place_in sz al c - 32 - unat a" "\<not> is_allocated A"
    "next_header A = Some (p - 32)"
    "unat (hdr_size H) = sz + 32" "is_allocated H" "next_header H = next_header x"
    "unat (hdr_size P) = c_end c - unat pe" "\<not> is_allocated P" "next_header P = next_header x"
proof -
  define R where "R = max r HEADER_SIZE"
  define L where "L = max ra HEADER_SIZE"
  define e where "e = a + hdr_size x"
  define p where "p = (word_of_nat (place_in sz al c) :: usize)"
  define pe where "pe = p + R"
  have al0: "0 < al" using pow(1) by simp
  note b = place_in_bounds [OF c(3) fit d32 al0]
  have ce: "c_end c = unat a + unat (hdr_size x)" "c_end c < 2 ^ 64"
    using c(1,3) by (auto simp: wf_chunk_def)
  have uR: "unat R = sz" and uL: "unat L = al" by (simp_all add: R_def L_def sz al)
  have szpos: "32 \<le> sz" by (simp add: sz unat_max HEADER_SIZE_def)
  have ue: "unat e = c_end c" using ce by (simp add: e_def unat_add_nowrap)
  have up: "unat p = place_in sz al c"
    using b(4) ce by (simp add: p_def unat_of_nat)
  have uh: "unat (p - 32) = place_in sz al c - 32"
    using b(3) up by (simp add: unat_sub_nowrap)
  have upe: "unat pe = place_in sz al c + sz"
    using b(4) ce up uR by (simp add: pe_def unat_add_nowrap)
  have cp: "can_provide x R L = Ok True"
    using small fit c(1) uR uL by (simp add: can_provide_def uadd_def unat_word_ariths
        HEADER_SIZE_def word_le_nat_alt fits_chunk_def)
  have ea: "end_addr a x = Ok e" using ce by (simp add: end_addr_def uadd_eq_Ok e_def)
  have szle: "sz \<le> c_end c" using b(4) by simp
  have u1: "usub e R = Ok (e - R)" using szle by (simp add: usub_eq_Ok ue uR)
  have u2: "usub L 1 = Ok (L - 1)" using al0 by (simp add: usub_eq_Ok uL)
  have "L = 2 ^ j"
    using uL pow by (simp add: word_unat_eq_iff unat_push_bit_nowrap [of 1 j, simplified])
  then have "unat ((e - R) AND NOT (L - 1)) = unat (e - R) - unat (e - R) mod 2 ^ j"
    using pow(2) by (intro unat_and_not_low) auto
  also have "\<dots> = place_in sz al c"
    using szle by (simp add: place_in_def unat_sub_nowrap ue uR pow(1))
  finally have pa: "(e - R) AND NOT (L - 1) = p" by (simp add: word_unat_eq_iff up)
  have u3: "usub p HEADER_SIZE = Ok (p - 32)"
    using b(3) up by (simp add: usub_eq_Ok HEADER_SIZE_def)
  have u4: "uadd R HEADER_SIZE = Ok (R + 32)"
    using small uR by (simp add: uadd_eq_Ok HEADER_SIZE_def)
  have uR32: "unat (R + 32) = sz + 32"
    using small uR by (simp add: unat_add_nowrap)
  define H where "H = \<lparr> next_header = next_header x, hdr_size = R + 32, is_allocated = True,
    header_reserved = (0::usize) \<rparr>"
  define h3 where "h3 = put_header (put_header h a (x\<lparr>next_header := None\<rparr>)) (p - 32) H"
  have ne: "p - 32 \<noteq> a" "pe \<noteq> p - 32" "pe \<noteq> a"
    using b(3) uh upe up szpos c(1) by (auto simp: word_unat_eq_iff)
  have pe_eq: "pe = p - 32 + hdr_size H" by (simp add: pe_def H_def)
  define A where "A = x\<lparr>hdr_size := hdr_size x - (if pe = e then R + 32 else R + 32 + (e - pe)),
    next_header := Some (p - 32)\<rparr>"
  define P where "P = \<lparr> next_header = next_header x, hdr_size = e - pe, is_allocated = False,
    header_reserved = (0::usize) \<rparr>"
  have us: "unat (R + 32) + (c_end c - unat pe) = c_end c - (place_in sz al c - 32)"
    using b(3,4) upe uR32 by simp
  have uee: "unat (e - pe) = c_end c - unat pe" using b(4) upe ue by (simp add: unat_sub_nowrap)
  have uused: "unat (R + 32 + (e - pe)) = c_end c - (place_in sz al c - 32)"
    using us ce(2) uee by (simp add: unat_add_nowrap)
  have pad: "provide_padding h3 a (p - 32) (R + 32) =
    (if pe = e then Ok (h3, R + 32)
     else Ok (put_header (put_header h3 (p - 32) (H\<lparr>next_header := Some pe\<rparr>)) pe P,
              R + 32 + (e - pe)))"
    unfolding P_def e_def
    using provide_padding_eq [of h3 a "x\<lparr>next_header := None\<rparr>" "p - 32" H pe "R + 32"]
      ne ce(2) uh uR32 b(3,4) us upe pe_eq
    by (simp add: h3_def H_def ce(1))
  have full: "pe = e \<longleftrightarrow> unat pe = c_end c" by (simp add: word_unat_eq_iff ue)
  define used where "used = (if pe = e then R + 32 else R + 32 + (e - pe))"
  have uu: "unat used = c_end c - (place_in sz al c - 32)"
    using uR32 upe b(3) uused full by (auto simp: used_def)
  have u5: "uadd used HEADER_SIZE = Ok (used + 32)" "unat (used + 32) = unat used + 32"
    using uu ce(1,2) b(3) c(1) by (simp_all add: uadd_eq_Ok unat_add_nowrap HEADER_SIZE_def)
  have le: "used + 32 \<le> hdr_size x"
    using u5(2) uu ce(1) b(3,4) c(1) by (simp add: word_le_nat_alt)
  have "provide h a rs ra = Ok (Some p,
       put_header (if unat pe = c_end c then put_header h (p - 32) H
         else put_header (put_header h (p - 32) (H\<lparr>next_header := Some pe\<rparr>)) pe P) a A)"
    using x r c(2) cp ea u1 u2 u3 u4 pad u5(1) le ne full
    by (cases "unat pe = c_end c")
       (simp_all add: provide_def Let_def get_header_Ok new_from_addr_def pa put_header_shadow
        h3_def A_def used_def flip: R_def L_def H_def)
  moreover have "unat (hdr_size A) = place_in sz al c - 32 - unat a"
    using uu le u5 ce(1) b(3,4) c(1)
    by (simp add: A_def unat_sub_nowrap word_le_nat_alt flip: used_def)
  ultimately show ?thesis
    using that [OF up upe] c(2) uR32 uee by (simp add: A_def H_def P_def)
qed

section \<open>Following the chain\<close>

definition covered :: "chunk list \<Rightarrow> nat set" where
  "covered cs = (\<Union>c \<in> set cs. {c_addr c ..< c_end c})"

lemma covered_simps [simp]:
  "covered [] = {}"
  "covered (c # cs) = {c_addr c ..< c_end c} \<union> covered cs"
  "covered (cs @ ds) = covered cs \<union> covered ds"
  by (auto simp: covered_def)

lemma wf_chunks_simps [simp]:
  "wf_chunks []"
  "wf_chunks (c # cs) \<longleftrightarrow> wf_chunk c \<and> (\<forall>d \<in> set cs. disjoint_chunks c d) \<and> wf_chunks cs"
  by (auto simp: wf_chunks_def)

lemma card_covered:
  assumes "wf_chunks cs"
  shows "finite (covered cs)" and "card (covered cs) = sum_list (map c_size cs)"
proof -
  have "finite (covered cs) \<and> card (covered cs) = sum_list (map c_size cs)"
    using assms
  proof (induction cs)
    case Nil
    then show ?case by simp
  next
    case (Cons c cs)
    then have "{c_addr c ..< c_end c} \<inter> covered cs = {}"
      by (auto simp: covered_def disjoint_chunks_def wf_chunks_def list_all_iff)
    with Cons show ?case by (simp add: card_Un_disjoint)
  qed
  then show "finite (covered cs)" and "card (covered cs) = sum_list (map c_size cs)" by auto
qed

lemma wf_chunks_length: "wf_chunks cs \<Longrightarrow> length cs \<le> 2 ^ 59"
proof -
  assume wf: "wf_chunks cs"
  have "32 * length cs \<le> sum_list (map c_size cs)"
    using wf by (induction cs) (auto simp: wf_chunk_def)
  also have "\<dots> = card (covered cs)" using card_covered(2) [OF wf] by simp
  also have "\<dots> \<le> card {..< 2 ^ 64 :: nat}"
    using wf by (intro card_mono) (auto simp: covered_def wf_chunks_def list_all_iff wf_chunk_def
        dest!: bspec)
  finally show ?thesis by simp
qed

lemma alloc_loop_fit:
  assumes ch: "chain (headers h) (Some a) (c # cs)" and wf: "wf_chunks (c # cs)"
    and l: "valid_layout l" "0 < unat (layout_size l)"
    and fit: "fits_chunk (layout_sz l) (layout_al l) c"
  shows "\<exists>h'. provide h a (layout_size l) (layout_align l) =
        Ok (Some (word_of_nat (place_in (layout_sz l) (layout_al l) c)), h') \<and>
      first_header h' = first_header h \<and>
      chain (headers h') (Some a) (split_chunk (layout_sz l) (layout_al l) c @ cs) \<and>
      (\<forall>b. unat b < c_addr c \<or> c_end c \<le> unat b \<longrightarrow> headers h' b = headers h b)"
proof -
  let ?sz = "layout_sz l" and ?al = "layout_al l"
  note lf = layout_facts [OF l]
  from ch obtain x where x: "headers h a = Some x" "unat a = c_addr c"
      "unat (hdr_size x) = c_size c" "is_allocated x = c_alloc c"
      "chain (headers h) (next_header x) cs"
    by (auto simp: chain_Cons_iff simp del: chain.simps)
  from lf(1) obtain r where r: "round_up_to_nearest_pow2 (layout_size l) = Ok r"
      "?sz = unat (max r HEADER_SIZE)" by blast
  from lf(4) obtain j where j: "?al = 2 ^ j" "j < 64" by blast
  have na: "\<not> c_alloc c" using fit by (simp add: fits_chunk_def)
  then have ceq: "c = Chunk (unat a) (unat (hdr_size x)) False" using x by (cases c) simp
  have wfc: "wf_chunk c" using wf by simp
  note b = place_in_bounds [OF wfc fit lf(3,5,6)]
  obtain p pe :: usize and H A P where
    p: "unat p = place_in ?sz ?al c" "unat pe = place_in ?sz ?al c + ?sz" and
    prov: "provide h a (layout_size l) (layout_align l) = Ok (Some p,
       put_header (if unat pe = c_end c then put_header h (p - 32) H
         else put_header (put_header h (p - 32) (H\<lparr>next_header := Some pe\<rparr>)) pe P) a A)" and
    flds: "unat (hdr_size A) = place_in ?sz ?al c - 32 - unat a" "\<not> is_allocated A"
    "next_header A = Some (p - 32)"
    "unat (hdr_size H) = ?sz + 32" "is_allocated H" "next_header H = next_header x"
    "unat (hdr_size P) = c_end c - unat pe" "\<not> is_allocated P" "next_header P = next_header x"
    using provide_fit [OF x(1) r layout_al_def j lf(3,5,8) ceq _ wfc fit] x(4) na by metis
  define h' where "h' = put_header (if unat pe = c_end c then put_header h (p - 32) H
         else put_header (put_header h (p - 32) (H\<lparr>next_header := Some pe\<rparr>)) pe P) a A"
  have uh: "unat (p - 32) = place_in ?sz ?al c - 32" using b(3) p(1) by (simp add: unat_sub_nowrap)
  have szpos: "0 < ?sz" using lf(2) l(2) by simp
  have ne: "p - 32 \<noteq> a" "pe \<noteq> p - 32" "pe \<noteq> a"
    using b(3) uh p x(2) szpos by (auto simp: word_unat_eq_iff)
  have frame: "headers h' q = headers h q" if "unat q < c_addr c \<or> c_end c \<le> unat q" for q
  proof -
    have "q \<noteq> a" "q \<noteq> p - 32" "unat pe \<noteq> c_end c \<longrightarrow> q \<noteq> pe"
      using that b(3,4) uh p x(2) wfc szpos by (auto simp: wf_chunk_def)
    then show ?thesis by (simp add: h'_def)
  qed
  have rest: "chain (headers h') (next_header x) cs"
  proof (rule chain_cong [OF x(5)])
    fix q :: usize
    assume "\<exists>d \<in> set cs. unat q = c_addr d"
    then obtain d where d: "d \<in> set cs" "unat q = c_addr d" by blast
    with wf have "disjoint_chunks c d" "0 < c_size d"
      by (auto simp: wf_chunks_def list_all_iff wf_chunk_def)
    then show "headers h' q = headers h q"
      using d(2) by (intro frame) (auto simp: disjoint_chunks_def)
  qed
  have "chain (headers h') (Some a) (split_chunk ?sz ?al c @ cs)"
    using rest flds p x(2) ne uh b(3) szpos
    by (auto simp: split_chunk_def Let_def h'_def)
  moreover have "word_of_nat (place_in ?sz ?al c) = p" unfolding p(1) [symmetric] by simp
  ultimately show ?thesis
    using prov frame by (auto simp: h'_def)
qed

lemma alloc_loop_refines:
  assumes "chain (headers h) q cs" "wf_chunks cs" "length cs \<le> fuel"
    and l: "valid_layout l" "0 < unat (layout_size l)"
  shows "case first_fit (layout_sz l) (layout_al l) cs of
      None \<Rightarrow> alloc_loop fuel h q l = Ok (0, h)
    | Some (p, cs') \<Rightarrow> \<exists>h'. alloc_loop fuel h q l = Ok (word_of_nat p, h') \<and>
        first_header h' = first_header h \<and> chain (headers h') q cs' \<and>
        (\<forall>b. unat b \<notin> covered cs \<longrightarrow> headers h' b = headers h b)"
  using assms(1-3)
proof (induction cs arbitrary: q fuel)
  case Nil
  then show ?case by simp
next
  case (Cons c cs)
  from Cons.prems(1) obtain a x where x: "q = Some a" "headers h a = Some x" "unat a = c_addr c"
      "unat (hdr_size x) = c_size c" "is_allocated x = c_alloc c"
      "chain (headers h) (next_header x) cs"
    by (auto simp: chain_Cons_iff simp del: chain.simps)
  from Cons.prems(3) obtain n where n: "fuel = Suc n" "length cs \<le> n" by (cases fuel) auto
  show ?case
  proof (cases "fits_chunk (layout_sz l) (layout_al l) c")
    case True
    from alloc_loop_fit [OF Cons.prems(1) [unfolded x(1)] Cons.prems(2) l True] obtain h' where
      "provide h a (layout_size l) (layout_align l) =
        Ok (Some (word_of_nat (place_in (layout_sz l) (layout_al l) c)), h')"
      "first_header h' = first_header h"
      "chain (headers h') (Some a) (split_chunk (layout_sz l) (layout_al l) c @ cs)"
      "\<forall>b. unat b < c_addr c \<or> c_end c \<le> unat b \<longrightarrow> headers h' b = headers h b"
      by blast
    with True x(1) n show ?thesis by auto
  next
    case False
    note lf = layout_facts [OF l]
    from lf(1) obtain r where r: "round_up_to_nearest_pow2 (layout_size l) = Ok r"
      "layout_sz l = unat (max r HEADER_SIZE)" by blast
    have "provide h a (layout_size l) (layout_align l) = Ok (None, h)"
      by (rule provide_unfit [OF x(2) r(1)])
         (use lf(8) r(2) False x(4,5) in \<open>auto simp: layout_al_def fits_chunk_def\<close>)
    then have step: "alloc_loop fuel h q l = alloc_loop n h (next_header x) l"
      using x(1,2) n(1) by (simp add: get_header_Ok)
    have IH: "case first_fit (layout_sz l) (layout_al l) cs of
      None \<Rightarrow> alloc_loop n h (next_header x) l = Ok (0, h)
    | Some (p, cs') \<Rightarrow> \<exists>h'. alloc_loop n h (next_header x) l = Ok (word_of_nat p, h') \<and>
        first_header h' = first_header h \<and> chain (headers h') (next_header x) cs' \<and>
        (\<forall>b. unat b \<notin> covered cs \<longrightarrow> headers h' b = headers h b)"
      using Cons.IH [OF x(6) _ n(2)] Cons.prems(2) by simp
    have "c_addr c \<notin> covered cs"
      using Cons.prems(2) by (auto simp: covered_def disjoint_chunks_def wf_chunk_def)
    then have "headers h' a = Some x"
      if "\<forall>b. unat b \<notin> covered cs \<longrightarrow> headers h' b = headers h b" for h' :: FirstFitAllocator
      using that x(2,3) by simp
    note keep = this
    show ?thesis
    proof (cases "first_fit (layout_sz l) (layout_al l) cs")
      case None
      with IH step False show ?thesis by simp
    next
      case (Some pc)
      obtain p cs' where pc: "pc = (p, cs')" by (cases pc)
      with IH Some obtain h' where h': "alloc_loop n h (next_header x) l = Ok (word_of_nat p, h')"
        "first_header h' = first_header h" "chain (headers h') (next_header x) cs'"
        "\<forall>b. unat b \<notin> covered cs \<longrightarrow> headers h' b = headers h b"
        by auto
      from keep [OF h'(4)] h'(3) x have "chain (headers h') q (c # cs')"
        by (auto simp: chain_Cons_iff simp del: chain.simps)
      with h' step Some pc False show ?thesis by simp
    qed
  qed
qed

end
