(* ===== verification/Alloc_Refine.thy ===== *)
theory Alloc_Refine
  imports Alloc_Chunks
begin

text \<open>
  The public operations of the allocator against the chunk lists of \<open>Alloc_Chunks\<close>: allocation,
  deallocation and the construction of the heap from the firmware's memory map. The locale
  \<open>heap_provider\<close> is the contract that the clients of \<open>GlobalAlloc\<close> rely on, interpreted on
  \<open>alloc_with_options\<close>; \<open>heap_run\<close> is the set of states that any sequence of requests reaches,
  with the invariant that the chunks tile the usable memory and every live block lies in a chunk
  of its own.
\<close>

section \<open>Refinement of the public operations\<close>

lemma alloc_with_options_refines:
  assumes "heap_repr h cs" and l: "valid_layout l" "0 < unat (layout_size l)"
  shows "case first_fit (layout_sz l) (layout_al l) cs of
      None \<Rightarrow> alloc_with_options h l = Ok (0, h)
    | Some (p, cs') \<Rightarrow> \<exists>h'. alloc_with_options h l = Ok (word_of_nat p, h') \<and> heap_repr h' cs'"
proof -
  from assms(1) have ch: "chain (headers h) (first_header h) cs" and wf: "wf_chunks cs"
    by (auto simp: heap_repr_def)
  note lf = layout_facts [OF l]
  from alloc_loop_refines [OF ch wf wf_chunks_length [OF wf] l]
  show ?thesis
    using first_fit_wf [OF wf _ lf(3,5,6)]
    by (auto simp: alloc_with_options_def heap_repr_def split: option.splits prod.splits)
qed

lemma alloc_loop_zero:
  assumes "chain (headers h) q cs" "length cs \<le> fuel" "unat (layout_size l) = 0"
  shows "alloc_loop fuel h q l = Ok (0, h)"
  using assms(1,2)
proof (induction cs arbitrary: q fuel)
  case Nil
  then show ?case by simp
next
  case (Cons c cs)
  from Cons.prems(1) obtain a x where x: "q = Some a" "headers h a = Some x"
      "chain (headers h) (next_header x) cs"
    by (auto simp: chain_Cons_iff simp del: chain.simps)
  from Cons.prems(2) obtain n where n: "fuel = Suc n" "length cs \<le> n" by (cases fuel) auto
  have "provide h a (layout_size l) (layout_align l) = Ok (None, h)"
    using round_up_to_nearest_pow2_Err [of "layout_size l"] assms(3) by (simp add: provide_def)
  with Cons.IH [OF x(3) n(2)] x n(1) show ?case by (simp add: get_header_Ok)
qed

lemma alloc_with_options_zero:
  assumes "heap_repr h cs" "unat (layout_size l) = 0"
  shows "alloc_with_options h l = Ok (0, h)"
  using assms alloc_loop_zero [OF _ wf_chunks_length] by (auto simp: heap_repr_def alloc_with_options_def)

definition free_chunk :: "nat \<Rightarrow> chunk \<Rightarrow> chunk" where
  "free_chunk a c = (if c_addr c = a then Chunk a (c_size c) False else c)"

lemma free_chunk_simps [simp]:
  "c_addr (free_chunk a c) = c_addr c" "c_size (free_chunk a c) = c_size c"
  "c_alloc (free_chunk a c) \<longleftrightarrow> c_alloc c \<and> c_addr c \<noteq> a"
  by (auto simp: free_chunk_def)

lemma wf_chunks_free: "wf_chunks cs \<Longrightarrow> wf_chunks (map (free_chunk a) cs)"
  by (induction cs) (auto simp: wf_chunk_def disjoint_chunks_def)

lemma chain_free:
  assumes "chain hs q cs" "hs ha = Some x"
  shows "chain (hs(ha \<mapsto> x\<lparr>is_allocated := False\<rparr>)) q (map (free_chunk (unat ha)) cs)"
  using assms(1)
proof (induction cs arbitrary: q)
  case Nil
  then show ?case by simp
next
  case (Cons c cs)
  then obtain a y where y: "q = Some a" "hs a = Some y" "unat a = c_addr c"
      "unat (hdr_size y) = c_size c" "is_allocated y = c_alloc c" "chain hs (next_header y) cs"
    by (auto simp: chain_Cons_iff simp del: chain.simps)
  show ?case
  proof (cases "a = ha")
    case True
    with y assms(2) Cons.IH [OF y(6)] show ?thesis by simp
  next
    case False
    with y(3) have "c_addr c \<noteq> unat ha" by (metis word_unat_eq_iff)
    with False y Cons.IH [OF y(6)] show ?thesis by simp
  qed
qed

lemma chain_member:
  "chain hs q cs \<Longrightarrow> c \<in> set cs \<Longrightarrow> \<exists>a x. hs a = Some x \<and> unat a = c_addr c"
proof (induction cs arbitrary: q)
  case (Cons d cs)
  then show ?case by (auto simp: chain_Cons_iff simp del: chain.simps)
qed simp

lemma dealloc_refines:
  assumes "heap_repr h cs" "c \<in> set cs" "unat p = c_addr c + 32"
  shows "\<exists>h'. dealloc h p = Ok h' \<and> heap_repr h' (map (free_chunk (c_addr c)) cs)"
proof -
  from assms chain_member obtain a x where a: "headers h a = Some x" "unat a = c_addr c"
    by (metis heap_repr_def)
  have ha: "from_allocated_region p = a"
    using assms(3) a(2) by (simp add: from_allocated_region_def HEADER_SIZE_def word_unat_eq_iff
        unat_sub_nowrap)
  show ?thesis
    using assms(1) a wf_chunks_free chain_free [where hs = "headers h" and ha = a]
    by (auto simp: dealloc_def ha get_header_Ok heap_repr_def Let_def)
qed

section \<open>Building the heap from the memory map\<close>

definition region_chunk :: "EfiMemoryDescriptor \<Rightarrow> chunk" where
  "region_chunk e =
     (let a = unat (physical_start e); n = unat (number_of_pages e) * 4096
      in if a = 0 then Chunk 4096 (n - 4096) False else Chunk a n False)"

definition usable_region :: "EfiMemoryDescriptor \<Rightarrow> bool" where
  "usable_region e \<longleftrightarrow> memory_type e = CONVENTIONAL_MEMORY \<and> 4096 < c_size (region_chunk e)"

definition usable_chunks :: "EfiMemoryDescriptor list \<Rightarrow> chunk list" where
  "usable_chunks es = rev (map region_chunk (filter usable_region es))"

text \<open>
  What the UEFI specification promises of conventional memory: page-aligned regions below the end
  of the address space, no two of which overlap.
\<close>

definition wf_region :: "EfiMemoryDescriptor \<Rightarrow> bool" where
  "wf_region e \<longleftrightarrow> 4096 dvd unat (physical_start e) \<and>
     unat (physical_start e) + unat (number_of_pages e) * 4096 < 2 ^ 64"

definition disjoint_regions :: "EfiMemoryDescriptor \<Rightarrow> EfiMemoryDescriptor \<Rightarrow> bool" where
  "disjoint_regions d e \<longleftrightarrow>
     unat (physical_start d) + unat (number_of_pages d) * 4096 \<le> unat (physical_start e) \<or>
     unat (physical_start e) + unat (number_of_pages e) * 4096 \<le> unat (physical_start d)"

definition wf_regions :: "EfiMemoryDescriptor list \<Rightarrow> bool" where
  "wf_regions es \<longleftrightarrow> list_all wf_region es \<and> sorted_wrt disjoint_regions es"

lemma region_chunk_within:
  assumes "usable_region e"
  shows "unat (physical_start e) \<le> c_addr (region_chunk e)"
    "c_end (region_chunk e) = unat (physical_start e) + unat (number_of_pages e) * 4096"
  using assms by (auto simp: usable_region_def region_chunk_def Let_def split: if_splits)

lemma wf_region_chunk: "wf_region e \<Longrightarrow> usable_region e \<Longrightarrow> wf_chunk (region_chunk e)"
proof -
  assume wf: "wf_region e" and us: "usable_region e"
  have "32 dvd (4096::nat)" by (simp add: dvd_def)
  then have "32 dvd unat (physical_start e)" "32 dvd unat (number_of_pages e) * 4096"
    using wf dvd_trans by (auto simp: wf_region_def intro: dvd_mult)
  with wf us region_chunk_within(2) [OF us] show ?thesis
    by (auto simp: wf_chunk_def wf_region_def usable_region_def region_chunk_def Let_def
        split: if_splits)
qed

lemma disjoint_region_chunks:
  "disjoint_regions d e \<Longrightarrow> usable_region d \<Longrightarrow> usable_region e \<Longrightarrow>
   disjoint_chunks (region_chunk d) (region_chunk e)"
  using region_chunk_within [of d] region_chunk_within [of e]
  by (auto simp: disjoint_regions_def disjoint_chunks_def)

lemma add_free_from_descriptor_unusable:
  assumes "wf_region e" "memory_type e = CONVENTIONAL_MEMORY" "\<not> usable_region e"
  shows "add_free_from_descriptor h e = Ok h"
proof -
  have "umul (number_of_pages e) 4096 = Ok (number_of_pages e * 4096)"
    "unat (number_of_pages e * 4096) = unat (number_of_pages e) * 4096"
    using assms(1) by (simp_all add: wf_region_def umul_def unat_word_ariths)
  note u = this
  have zero: "number_of_pages e * 4096 - 4096 \<le> 4096"
    if "physical_start e = 0" "\<not> number_of_pages e * 4096 < 4096"
  proof -
    have "unat (number_of_pages e * 4096 - 4096) = unat (number_of_pages e) * 4096 - 4096"
      using that(2) u(2) by (simp add: word_less_nat_alt unat_sub_nowrap)
    with that(1) assms(2,3) show ?thesis
      by (simp add: word_le_nat_alt usable_region_def region_chunk_def Let_def)
  qed
  have "number_of_pages e * 4096 \<le> 4096" if "physical_start e \<noteq> 0"
    using that assms(2,3) u(2)
    by (simp add: word_le_nat_alt usable_region_def region_chunk_def Let_def unat_eq_0)
  with zero u(1) show ?thesis
    by (auto simp: add_free_from_descriptor_def Let_def)
qed

lemma add_free_from_descriptor_usable:
  assumes "wf_region e" "usable_region e" "heap_repr h cs"
    and "list_all (disjoint_chunks (region_chunk e)) cs"
  shows "\<exists>h'. add_free_from_descriptor h e = Ok h' \<and> heap_repr h' (region_chunk e # cs)"
proof -
  let ?c = "region_chunk e"
  define start where "start = (if physical_start e = 0 then 4096 else physical_start e)"
  define sz where "sz = (if physical_start e = 0 then number_of_pages e * 4096 - 4096
    else number_of_pages e * 4096)"
  have u: "umul (number_of_pages e) 4096 = Ok (number_of_pages e * 4096)"
    "unat (number_of_pages e * 4096) = unat (number_of_pages e) * 4096"
    using assms(1) by (simp_all add: wf_region_def umul_def unat_word_ariths)
  have us: "unat start = c_addr ?c" "unat sz = c_size ?c" "\<not> sz \<le> 4096" "\<not> c_alloc ?c"
    using assms(2) u(2)
    by (auto simp: start_def sz_def usable_region_def region_chunk_def Let_def unat_eq_0
        word_le_nat_alt unat_sub_nowrap split: if_splits)
  define X where "X = \<lparr> next_header = first_header h, hdr_size = sz, is_allocated = False,
    header_reserved = (0::usize) \<rparr>"
  define h' where "h' = (put_header h start X)\<lparr>first_header := Some start\<rparr>"
  have "\<not> number_of_pages e * 4096 < 4096" if "physical_start e = 0"
  proof -
    from that assms(2) have "4096 < unat (number_of_pages e) * 4096 - 4096"
      by (simp add: usable_region_def region_chunk_def Let_def)
    then show ?thesis using u(2) by (simp only: word_less_nat_alt) simp
  qed
  then have "add_free_from_descriptor h e = Ok h'"
    using u(1) us(3)
    by (auto simp: add_free_from_descriptor_def Let_def h'_def X_def start_def sz_def put_header_def
        get_header_def)
  moreover have "chain (headers h') (Some start) (?c # cs)"
  proof -
    have "chain (headers h') (first_header h) cs"
    proof (rule chain_cong)
      show "chain (headers h) (first_header h) cs" using assms(3) by (simp add: heap_repr_def)
      fix b :: usize
      assume "\<exists>c \<in> set cs. unat b = c_addr c"
      then obtain c where c: "c \<in> set cs" "unat b = c_addr c" by blast
      with assms(3,4) have "disjoint_chunks ?c c" "0 < c_size c"
        by (auto simp: heap_repr_def wf_chunks_def list_all_iff wf_chunk_def)
      with c(2) us(1,2,3) have "b \<noteq> start" by (auto simp: disjoint_chunks_def word_le_nat_alt)
      then show "headers h' b = headers h b" by (simp add: h'_def)
    qed
    with us show ?thesis by (simp add: h'_def X_def)
  qed
  moreover have "wf_chunks (?c # cs)"
    using assms wf_region_chunk by (simp add: heap_repr_def list_all_iff)
  ultimately show ?thesis by (auto simp: heap_repr_def h'_def)
qed

lemma init_with_entries_step:
  assumes "heap_repr h cs" "wf_regions es"
    and "\<forall>e \<in> set (filter usable_region es). list_all (disjoint_chunks (region_chunk e)) cs"
  shows "\<exists>h'. init_with_entries h es = Ok h' \<and> heap_repr h' (usable_chunks es @ cs)"
  using assms
proof (induction es arbitrary: h cs)
  case Nil
  then show ?case by (simp add: usable_chunks_def)
next
  case (Cons e es)
  from Cons.prems(2) have wf: "wf_region e" "wf_regions es" "list_all (disjoint_regions e) es"
    by (auto simp: wf_regions_def list_all_iff)
  show ?case
  proof (cases "usable_region e")
    case True
    with Cons.prems add_free_from_descriptor_usable [OF wf(1) True, of h cs] obtain h' where
      h': "add_free_from_descriptor h e = Ok h'" "heap_repr h' (region_chunk e # cs)"
      by auto
    have "list_all (disjoint_chunks (region_chunk d)) (region_chunk e # cs)"
      if "d \<in> set (filter usable_region es)" for d
      using that Cons.prems(3) wf(3) disjoint_region_chunks [of e d] True disjoint_chunks_sym
      by (auto simp: list_all_iff)
    with Cons.IH [OF h'(2) wf(2)] h'(1) True show ?thesis
      by (auto simp: usable_chunks_def usable_region_def)
  next
    case False
    then have "init_with_entries h (e # es) = init_with_entries h es"
      using add_free_from_descriptor_unusable [OF wf(1) _ False] by auto
    with False Cons.IH [OF Cons.prems(1) wf(2)] Cons.prems(3) show ?thesis
      by (auto simp: usable_chunks_def)
  qed
qed

lemma init_with_entries_refines:
  "wf_regions es \<Longrightarrow>
   \<exists>h. init_with_entries ALLOCATOR_static es = Ok h \<and> heap_repr h (usable_chunks es)"
  using init_with_entries_step [of ALLOCATOR_static "[]" es]
  by (simp add: heap_repr_def ALLOCATOR_static_def)

section \<open>What an allocation returns\<close>

lemma covered_split_chunk:
  assumes "wf_chunk c" "fits_chunk sz al c" "32 dvd sz" "32 dvd al" "0 < al"
  shows "covered (split_chunk sz al c) = {c_addr c ..< c_end c}"
  using place_in_bounds [OF assms] by (auto simp: split_chunk_def Let_def)

lemma chain_unique: "chain hs q cs \<Longrightarrow> chain hs q ds \<Longrightarrow> cs = ds"
proof (induction cs arbitrary: q ds)
  case Nil
  then show ?case by (cases ds) auto
next
  case (Cons c cs)
  then obtain a x where x: "q = Some a" "hs a = Some x" "unat a = c_addr c"
      "unat (hdr_size x) = c_size c" "is_allocated x = c_alloc c" "chain hs (next_header x) cs"
    by (auto simp: chain_Cons_iff simp del: chain.simps)
  with Cons.prems(2) obtain d ds' where ds: "ds = d # ds'" "unat a = c_addr d"
      "unat (hdr_size x) = c_size d" "is_allocated x = c_alloc d" "chain hs (next_header x) ds'"
    by (cases ds) auto
  with Cons.IH [OF x(6)] x show ?case by (metis chunk.expand)
qed

lemma heap_repr_unique: "heap_repr h cs \<Longrightarrow> heap_repr h ds \<Longrightarrow> cs = ds"
  by (auto simp: heap_repr_def intro: chain_unique)

text \<open>One allocation, with everything a caller may rely on.\<close>

definition alloc_outcome :: "chunk list \<Rightarrow> Layout \<Rightarrow> usize \<Rightarrow> chunk list \<Rightarrow> bool" where
  "alloc_outcome cs l p cs' \<longleftrightarrow>
     (let b = Chunk (unat p - 32) (layout_sz l + 32) True in
      unat (layout_align l) dvd unat p \<and> 32 < unat p \<and>
      unat (layout_size l) \<le> layout_sz l \<and>
      wf_chunks cs' \<and> covered cs' = covered cs \<and>
      {d \<in> set cs'. c_alloc d} = insert b {d \<in> set cs. c_alloc d} \<and>
      b \<in> set cs' \<and> (\<forall>d \<in> set cs. c_alloc d \<longrightarrow> disjoint_chunks b d) \<and>
      (\<exists>c \<in> set cs. \<not> c_alloc c \<and> c_addr c < unat p - 32 \<and> c_end b \<le> c_end c))"

lemma first_fit_outcome:
  assumes wf: "wf_chunks cs" and l: "valid_layout l" "0 < unat (layout_size l)"
    and ff: "first_fit (layout_sz l) (layout_al l) cs = Some (p, cs')"
  shows "alloc_outcome cs l (word_of_nat p) cs' \<and> unat (word_of_nat p :: usize) = p"
proof -
  let ?sz = "layout_sz l" and ?al = "layout_al l"
  note lf = layout_facts [OF l]
  from first_fit_Some [OF ff] obtain pre c post where
    cs: "cs = pre @ c # post" and cs': "cs' = pre @ split_chunk ?sz ?al c @ post" and
    p: "p = place_in ?sz ?al c" and fit: "fits_chunk ?sz ?al c"
    by blast
  have c: "wf_chunk c" "\<not> c_alloc c"
    using wf cs fit by (auto simp: wf_chunks_def fits_chunk_def)
  note b = place_in_bounds [OF c(1) fit lf(3,5,6), folded p]
  have up: "unat (word_of_nat p :: usize) = p"
    using b(4) c(1) by (simp add: unat_of_nat wf_chunk_def)
  have dis: "disjoint_chunks (Chunk (p - 32) (?sz + 32) True) d" if "d \<in> set pre \<or> d \<in> set post" for d
  proof -
    have "disjoint_chunks c d"
      using wf cs that disjoint_chunks_sym by (auto simp: wf_chunks_def sorted_wrt_append)
    then show ?thesis using b by (auto simp: disjoint_chunks_def)
  qed
  have "unat (layout_align l) dvd p" using lf(7) b(1) by (rule dvd_trans)
  moreover have "covered cs' = covered cs"
    using covered_split_chunk [OF c(1) fit lf(3,5,6)] by (simp add: cs cs')
  moreover have "{d \<in> set cs'. c_alloc d} =
      insert (Chunk (p - 32) (?sz + 32) True) {d \<in> set cs. c_alloc d}"
    using c(2) by (auto simp: cs cs' split_chunk_def Let_def simp flip: p)
  moreover have "Chunk (p - 32) (?sz + 32) True \<in> set cs'"
    by (simp add: cs' split_chunk_def Let_def flip: p)
  moreover have "wf_chunks cs'" using first_fit_wf [OF wf ff lf(3,5,6)] .
  moreover have "\<forall>d \<in> set cs. c_alloc d \<longrightarrow> disjoint_chunks (Chunk (p - 32) (?sz + 32) True) d"
    using dis c(2) by (auto simp: cs)
  moreover have "c \<in> set cs" "c_addr c < p - 32" "p - 32 + (?sz + 32) \<le> c_end c"
    using b by (simp_all add: cs)
  ultimately show ?thesis
    using lf(2) c(2) b(3) up unfolding alloc_outcome_def Let_def by auto
qed

lemma alloc_cases:
  assumes h: "heap_repr h cs" and l: "valid_layout l"
  obtains (null) "alloc_with_options h l = Ok (0, h)"
      "layout_size l = 0 \<or> (\<forall>c \<in> set cs. \<not> fits_chunk (layout_sz l) (layout_al l) c)"
  | (block) p h' cs' where "alloc_with_options h l = Ok (p, h')" "heap_repr h' cs'"
      "alloc_outcome cs l p cs'" "0 < unat (layout_size l)"
      "\<exists>c \<in> set cs. fits_chunk (layout_sz l) (layout_al l) c"
proof (cases "layout_size l = 0")
  case True
  then show thesis using null alloc_with_options_zero [OF h] by simp
next
  case False
  then have pos: "0 < unat (layout_size l)" by (simp add: unat_gt_0)
  note r = alloc_with_options_refines [OF h l pos]
  show thesis
  proof (cases "first_fit (layout_sz l) (layout_al l) cs")
    case None
    with r null first_fit_None show thesis by auto
  next
    case (Some pc)
    obtain p cs' where pc: "pc = (p, cs')" by (cases pc)
    have wf: "wf_chunks cs" using h by (simp add: heap_repr_def)
    from first_fit_outcome [OF wf l pos Some [unfolded pc]] r Some pc show thesis
      using block pos first_fit_None [of "layout_sz l" "layout_al l" cs] by auto
  qed
qed

section \<open>The interface other components allocate through\<close>

definition heap_ok :: "FirstFitAllocator \<Rightarrow> bool" where
  "heap_ok h \<longleftrightarrow> (\<exists>cs. heap_repr h cs)"

definition used_bytes :: "FirstFitAllocator \<Rightarrow> nat set" where
  "used_bytes h = {b. \<exists>cs. heap_repr h cs \<and> b \<in> covered (filter c_alloc cs)}"

lemma used_bytes_eq: "heap_repr h cs \<Longrightarrow> used_bytes h = covered (filter c_alloc cs)"
  using heap_repr_unique by (auto simp: used_bytes_def)

text \<open>
  \<open>GlobalAlloc\<close> as its clients see it: a request of a valid layout either yields null and changes
  nothing, or yields an aligned block of bytes that were not in use.
\<close>

locale heap_provider =
  fixes inv :: "'s \<Rightarrow> bool" and in_use :: "'s \<Rightarrow> nat set"
    and alloc :: "'s \<Rightarrow> Layout \<Rightarrow> (usize \<times> 's) res"
  assumes alloc_total: "inv s \<Longrightarrow> valid_layout l \<Longrightarrow> \<exists>p s'. alloc s l = Ok (p, s') \<and> inv s'"
    and alloc_null: "inv s \<Longrightarrow> valid_layout l \<Longrightarrow> alloc s l = Ok (0, s') \<Longrightarrow> s' = s"
    and alloc_block: "inv s \<Longrightarrow> valid_layout l \<Longrightarrow> alloc s l = Ok (p, s') \<Longrightarrow> p \<noteq> 0 \<Longrightarrow>
      unat (layout_align l) dvd unat p \<and> unat p + unat (layout_size l) < 2 ^ 64 \<and>
      in_use s \<subseteq> in_use s' \<and>
      {unat p ..< unat p + unat (layout_size l)} \<subseteq> in_use s' - in_use s"
begin

text \<open>A run of requests: the blocks handed out, newest first. A null ends the run.\<close>

fun alloc_many :: "'s \<Rightarrow> Layout list \<Rightarrow> (usize list \<times> 's) res" where
  "alloc_many s [] = Ok ([], s)"
| "alloc_many s (l # ls) = rbind (alloc s l) (\<lambda>(p, s').
     if p = 0 then panic ''memory allocation failed''
     else rbind (alloc_many s' ls) (\<lambda>(ps, s''). Ok (p # ps, s'')))"

definition blocks :: "usize list \<Rightarrow> Layout list \<Rightarrow> nat set list" where
  "blocks ps ls = map2 (\<lambda>p l. {unat p ..< unat p + unat (layout_size l)}) ps ls"

lemma alloc_many_fresh:
  assumes "inv s" "list_all valid_layout ls" "alloc_many s ls = Ok (ps, s')"
  shows "inv s' \<and> in_use s \<subseteq> in_use s' \<and> length ps = length ls \<and>
    (\<forall>b \<in> set (blocks ps ls). b \<subseteq> in_use s' - in_use s) \<and>
    sorted_wrt (\<lambda>b b'. b \<inter> b' = {}) (blocks ps ls)"
  using assms
proof (induction ls arbitrary: s ps)
  case Nil
  then show ?case by (simp add: blocks_def)
next
  case (Cons l ls)
  from Cons.prems(2,3) obtain p s1 qs where
    a: "alloc s l = Ok (p, s1)" "p \<noteq> 0" "alloc_many s1 ls = Ok (qs, s')" "ps = p # qs"
    by (auto split: if_splits)
  from Cons.prems(2) have v: "valid_layout l" "list_all valid_layout ls" by auto
  from alloc_total [OF Cons.prems(1) v(1)] a(1) have "inv s1" by auto
  note IH = Cons.IH [OF this v(2) a(3)]
  let ?b = "{unat p ..< unat p + unat (layout_size l)}"
  have b: "in_use s \<subseteq> in_use s1" "?b \<subseteq> in_use s1" "?b \<inter> in_use s = {}"
    using alloc_block [OF Cons.prems(1) v(1) a(1,2)] by auto
  have bl: "blocks (p # qs) (l # ls) = ?b # blocks qs ls" by (simp add: blocks_def)
  have "?b \<inter> b' = {}" "b' \<subseteq> in_use s' - in_use s" if "b' \<in> set (blocks qs ls)" for b'
    using IH that b by blast+
  moreover have "?b \<subseteq> in_use s' - in_use s" using IH b by blast
  ultimately show ?case using IH b(1) unfolding a(4) bl by auto
qed

lemma alloc_many_outcomes:
  assumes "inv s" "list_all valid_layout ls"
  shows "(\<exists>r. alloc_many s ls = Ok r) \<or> alloc_many s ls = panic ''memory allocation failed''"
  using assms
proof (induction ls arbitrary: s)
  case (Cons l ls)
  then obtain p s' where a: "alloc s l = Ok (p, s')" "inv s'" using alloc_total by fastforce
  from Cons.IH [OF a(2)] Cons.prems(2) consider
      (ok) ps s'' where "alloc_many s' ls = Ok (ps, s'')"
    | (full) "alloc_many s' ls = panic ''memory allocation failed''"
    by auto
  then show ?case by cases (simp_all add: a(1))
qed simp

end

interpretation ffa: heap_provider heap_ok used_bytes alloc_with_options
proof (unfold_locales, goal_cases)
  case (1 h l)
  then obtain cs where cs: "heap_repr h cs" by (auto simp: heap_ok_def)
  from alloc_cases [OF cs 1(2)] show ?case by cases (use cs in \<open>auto simp: heap_ok_def\<close>)
next
  case (2 h l h')
  then obtain cs where cs: "heap_repr h cs" by (auto simp: heap_ok_def)
  from alloc_cases [OF cs 2(2)] show ?case
    by cases (use 2(3) in \<open>auto simp: alloc_outcome_def Let_def\<close>)
next
  case (3 h l p h')
  then obtain cs where cs: "heap_repr h cs" by (auto simp: heap_ok_def)
  from cs 3(2) show ?case
  proof (cases rule: alloc_cases)
    case null
    with 3(3,4) show ?thesis by simp
  next
    case (block q h'' cs')
    with 3(3) have q: "q = p" "h'' = h'" by auto
    let ?b = "Chunk (unat p - 32) (layout_sz l + 32) True"
    from block(3) q have b: "{d \<in> set cs'. c_alloc d} = insert ?b {d \<in> set cs. c_alloc d}"
      "?b \<in> set cs'" "\<forall>d \<in> set cs. c_alloc d \<longrightarrow> disjoint_chunks ?b d" "wf_chunks cs'"
      "unat (layout_align l) dvd unat p" "unat (layout_size l) \<le> layout_sz l" "32 < unat p"
      by (auto simp: alloc_outcome_def Let_def)
    have u: "used_bytes h' = covered (filter c_alloc cs')" "used_bytes h = covered (filter c_alloc cs)"
      using block(2) cs q by (auto simp: used_bytes_eq)
    have cov: "covered (filter c_alloc cs') = {c_addr ?b ..< c_end ?b} \<union> covered (filter c_alloc cs)"
      using b(1) by (auto simp: covered_def)
    have "{c_addr ?b ..< c_end ?b} \<inter> covered (filter c_alloc cs) = {}"
      using b(3) by (auto simp: covered_def disjoint_chunks_def)
    moreover have "{unat p ..< unat p + unat (layout_size l)} \<subseteq> {c_addr ?b ..< c_end ?b}"
      using b(6,7) by auto
    moreover have "unat p + unat (layout_size l) < 2 ^ 64"
      using b(2,4,6,7) by (auto simp: wf_chunks_def list_all_iff wf_chunk_def dest!: bspec)
    ultimately show ?thesis using b(5) unfolding u cov by blast
  qed
qed

section \<open>Every sequence of requests\<close>

text \<open>
  The states the global allocator can be in after boot, with the blocks that are live (address and
  requested size). \<open>Layout\<close> values are valid by construction, and \<open>GlobalAlloc\<close> requires that only
  live blocks are freed, each with its own address.
\<close>

inductive heap_run ::
  "EfiMemoryDescriptor list \<Rightarrow> FirstFitAllocator \<Rightarrow> (usize \<times> usize) list \<Rightarrow> bool"
  for es :: "EfiMemoryDescriptor list" where
  boot: "init_with_entries ALLOCATOR_static es = Ok h \<Longrightarrow> heap_run es h []"
| alloc_null: "heap_run es h live \<Longrightarrow> valid_layout l \<Longrightarrow> alloc_with_options h l = Ok (0, h') \<Longrightarrow>
    heap_run es h' live"
| alloc_block: "heap_run es h live \<Longrightarrow> valid_layout l \<Longrightarrow> alloc_with_options h l = Ok (p, h') \<Longrightarrow>
    p \<noteq> 0 \<Longrightarrow> heap_run es h' ((p, layout_size l) # live)"
| free: "heap_run es h live \<Longrightarrow> (p, n) \<in> set live \<Longrightarrow> dealloc h p = Ok h' \<Longrightarrow>
    heap_run es h' (filter (\<lambda>b. fst b \<noteq> p) live)"

definition holds_block :: "chunk list \<Rightarrow> usize \<times> usize \<Rightarrow> bool" where
  "holds_block cs b \<longleftrightarrow> (\<exists>c \<in> set cs. c_alloc c \<and> c_addr c + 32 = unat (fst b) \<and>
     unat (fst b) + unat (snd b) \<le> c_end c)"

definition heap_inv ::
  "EfiMemoryDescriptor list \<Rightarrow> chunk list \<Rightarrow> (usize \<times> usize) list \<Rightarrow> bool" where
  "heap_inv es cs live \<longleftrightarrow> covered cs = covered (usable_chunks es) \<and>
     list_all (holds_block cs) live \<and> distinct (map fst live)"

lemma wf_chunks_disjoint:
  assumes "wf_chunks cs" "c \<in> set cs" "d \<in> set cs" "c \<noteq> d"
  shows "disjoint_chunks c d"
  using assms disjoint_chunks_sym by (induction cs) auto

lemma covered_free [simp]: "covered (map (free_chunk a) cs) = covered cs"
  by (auto simp: covered_def)

lemma heap_inv_alloc:
  assumes "heap_repr h cs" "heap_inv es cs live" "alloc_outcome cs l p cs'"
  shows "heap_inv es cs' ((p, layout_size l) # live)"
proof -
  let ?b = "Chunk (unat p - 32) (layout_sz l + 32) True"
  from assms(3) have o: "{d \<in> set cs'. c_alloc d} = insert ?b {d \<in> set cs. c_alloc d}"
    "\<forall>d \<in> set cs. c_alloc d \<longrightarrow> disjoint_chunks ?b d" "covered cs' = covered cs"
    "unat (layout_size l) \<le> layout_sz l" "32 < unat p" "?b \<in> set cs'"
    by (auto simp: alloc_outcome_def Let_def)
  have old: "list_all (holds_block cs') live"
  proof -
    have "c \<in> set cs'" if "c \<in> set cs" "c_alloc c" for c using that o(1) by auto
    with assms(2) show ?thesis unfolding heap_inv_def list_all_iff holds_block_def by blast
  qed
  have "fst b \<noteq> p" if "b \<in> set live" for b
  proof -
    from that assms(2) obtain c where "c \<in> set cs" "c_alloc c" "c_addr c + 32 = unat (fst b)"
        "unat (fst b) + unat (snd b) \<le> c_end c"
      by (auto simp: heap_inv_def list_all_iff holds_block_def)
    moreover have "0 < c_size c"
      using assms(1) \<open>c \<in> set cs\<close> by (auto simp: heap_repr_def wf_chunks_def list_all_iff wf_chunk_def)
    moreover have "disjoint_chunks ?b c" using o(2) calculation(1,2) by blast
    ultimately show ?thesis using o(5) by (auto simp: disjoint_chunks_def)
  qed
  moreover have "holds_block cs' (p, layout_size l)"
    unfolding holds_block_def using o(4,5,6) by (intro bexI [of _ ?b]) auto
  ultimately show ?thesis using old assms(2) o(3) by (auto simp: heap_inv_def)
qed

lemma heap_inv_free:
  assumes "heap_repr h cs" "heap_inv es cs live" "(p, n) \<in> set live"
  obtains c where "c \<in> set cs" "unat p = c_addr c + 32"
    "heap_inv es (map (free_chunk (c_addr c)) cs) (filter (\<lambda>b. fst b \<noteq> p) live)"
proof -
  from assms(2,3) have hb: "holds_block cs (p, n)" by (auto simp: heap_inv_def list_all_iff)
  then obtain c where c: "c \<in> set cs" "unat p = c_addr c + 32" by (auto simp: holds_block_def)
  have "holds_block (map (free_chunk (c_addr c)) cs) b" if "b \<in> set live" "fst b \<noteq> p" for b
  proof -
    from that assms(2) obtain d where d: "d \<in> set cs" "c_alloc d" "c_addr d + 32 = unat (fst b)"
        "unat (fst b) + unat (snd b) \<le> c_end d"
      by (auto simp: heap_inv_def list_all_iff holds_block_def)
    moreover have "c_addr d \<noteq> c_addr c" using d(3) c(2) that(2) by (metis word_unat_eq_iff)
    then have "free_chunk (c_addr c) d = d" by (simp add: free_chunk_def)
    ultimately show ?thesis unfolding holds_block_def by (metis image_eqI list.set_map)
  qed
  then have "heap_inv es (map (free_chunk (c_addr c)) cs) (filter (\<lambda>b. fst b \<noteq> p) live)"
    using assms(2) by (auto simp: heap_inv_def list_all_iff distinct_map inj_on_def)
  with that c show thesis by blast
qed

lemma heap_run_inv:
  assumes "heap_run es h live" "wf_regions es"
  shows "\<exists>cs. heap_repr h cs \<and> heap_inv es cs live"
  using assms
proof (induction rule: heap_run.induct)
  case (boot h)
  then show ?case using init_with_entries_refines [of es] by (auto simp: heap_inv_def)
next
  case (alloc_null h live l h')
  then obtain cs where cs: "heap_repr h cs" "heap_inv es cs live" by blast
  then have "heap_ok h" by (auto simp: heap_ok_def)
  from ffa.alloc_null [OF this alloc_null.hyps(2,3)] cs show ?case by auto
next
  case (alloc_block h live l p h')
  then obtain cs where cs: "heap_repr h cs" "heap_inv es cs live" by blast
  from cs(1) alloc_block.hyps(2) show ?case
  proof (cases rule: alloc_cases)
    case null
    with alloc_block.hyps show ?thesis by simp
  next
    case (block q h'' cs')
    with heap_inv_alloc [OF cs block(3)] alloc_block.hyps(3) show ?thesis by auto
  qed
next
  case (free h live p n h')
  then obtain cs where cs: "heap_repr h cs" "heap_inv es cs live" by blast
  from heap_inv_free [OF this free.hyps(2)] obtain c where
    c: "c \<in> set cs" "unat p = c_addr c + 32"
      "heap_inv es (map (free_chunk (c_addr c)) cs) (filter (\<lambda>b. fst b \<noteq> p) live)" .
  from dealloc_refines [OF cs(1) c(1,2)] free.hyps(3) c(3) show ?case by auto
qed

lemma heap_inv_separated:
  assumes "wf_chunks cs" "heap_inv es cs live" "i < j" "j < length live"
  shows "unat (fst (live ! i)) + unat (snd (live ! i)) + 32 \<le> unat (fst (live ! j)) \<or>
    unat (fst (live ! j)) + unat (snd (live ! j)) + 32 \<le> unat (fst (live ! i))"
proof -
  have "holds_block cs (live ! i)" "holds_block cs (live ! j)"
    using assms by (auto simp: heap_inv_def list_all_length)
  then obtain c d where
    c: "c \<in> set cs" "c_addr c + 32 = unat (fst (live ! i))"
      "unat (fst (live ! i)) + unat (snd (live ! i)) \<le> c_end c" and
    d: "d \<in> set cs" "c_addr d + 32 = unat (fst (live ! j))"
      "unat (fst (live ! j)) + unat (snd (live ! j)) \<le> c_end d"
    by (auto simp: holds_block_def)
  have "fst (live ! i) \<noteq> fst (live ! j)"
    using assms(2-4) by (auto simp: heap_inv_def distinct_conv_nth)
  then have "c \<noteq> d" using c(2) d(2) by (metis word_unat_eq_iff)
  from wf_chunks_disjoint [OF assms(1) c(1) d(1) this] c d show ?thesis
    by (auto simp: disjoint_chunks_def)
qed

section \<open>Properties of the allocator\<close>

lemma layout_sz_pow2:
  assumes "unat (layout_size l) = 2 ^ k" "5 \<le> k" "k \<le> 63"
  shows "layout_sz l = 2 ^ k"
proof -
  have "0 < unat (layout_size l)" "unat (layout_size l) \<le> 2 ^ 63"
    using assms power_increasing [of k 63 "2::nat"] by simp_all
  from round_up_to_nearest_pow2_Ok [OF this] obtain j where
    j: "j \<le> 63" "round_up_to_nearest_pow2 (layout_size l) = Ok (2 ^ j)"
      "unat (layout_size l) \<le> 2 ^ j" "\<forall>i. unat (layout_size l) \<le> 2 ^ i \<longrightarrow> j \<le> i"
    by blast
  have "j = k" using j(3,4) assms(1) by (metis le_antisym order_refl power_increasing_iff one_less_numeral_iff semiring_norm(76))
  moreover have "unat ((2::usize) ^ k) = 2 ^ k"
    using assms(3) by (simp add: unat_push_bit_nowrap [of 1 k, simplified])
  moreover have "(32::nat) \<le> 2 ^ k" using power_increasing [OF assms(2), of "2::nat"] by simp
  ultimately show ?thesis by (simp add: layout_sz_def j(2) unat_max HEADER_SIZE_def)
qed

lemma LAYOUT_PAGE_4K_facts:
  "valid_layout LAYOUT_PAGE_4K" "layout_sz LAYOUT_PAGE_4K = 4096" "layout_al LAYOUT_PAGE_4K = 4096"
  "layout_size LAYOUT_PAGE_4K = 4096" "layout_align LAYOUT_PAGE_4K = 4096"
proof -
  show "layout_size LAYOUT_PAGE_4K = 4096" "layout_align LAYOUT_PAGE_4K = 4096"
    by (simp_all add: LAYOUT_PAGE_4K_def)
  show "valid_layout LAYOUT_PAGE_4K"
    by (auto simp: LAYOUT_PAGE_4K_def valid_layout_def intro: exI [of _ 12])
  show "layout_sz LAYOUT_PAGE_4K = 4096"
    by (subst layout_sz_pow2 [of _ 12]) (simp_all add: LAYOUT_PAGE_4K_def)
  show "layout_al LAYOUT_PAGE_4K = 4096"
    by (simp add: LAYOUT_PAGE_4K_def layout_al_def HEADER_SIZE_def max_def)
qed

text \<open>A heap of one free chunk of 16 KiB, on which the properties are exercised.\<close>

definition one_chunk_heap :: FirstFitAllocator where
  "one_chunk_heap = \<lparr> headers = [0x1000 \<mapsto> \<lparr> next_header = None, hdr_size = 0x4000,
     is_allocated = False, header_reserved = 0 \<rparr>], first_header = Some 0x1000 \<rparr>"

lemma one_chunk_heap_repr: "heap_repr one_chunk_heap [Chunk 0x1000 0x4000 False]"
  by (simp add: heap_repr_def one_chunk_heap_def wf_chunk_def)

lemma one_chunk_heap_init: "init_with_entries ALLOCATOR_static [one_region] = Ok one_chunk_heap"
  by (simp add: one_region_def ALLOCATOR_static_def add_free_from_descriptor_def umul_def
      put_header_def get_header_def one_chunk_heap_def)

lemma one_region_wf_regions: "wf_regions [one_region]"
  by (simp add: wf_regions_def wf_region_def one_region_def)

lemma one_chunk_first_fit:
  "first_fit 4096 4096 [Chunk 0x1000 0x4000 False] =
     Some (0x4000, [Chunk 0x1000 0x2FE0 False, Chunk 0x3FE0 0x1020 True])"
  by (simp add: fits_chunk_def place_in_def split_chunk_def)

text \<open>
  \<open>round_up_to_nearest_pow2\<close> returns the least power of two that is at least its argument, and
  the error \<open>Out of range\<close> exactly for 0 and for arguments above \<open>2 ^ 63\<close>.
\<close>

theorem round_up_to_nearest_pow2_least:
  "round_up_to_nearest_pow2 v =
     (if 0 < unat v \<and> unat v \<le> 2 ^ 63 then Ok (2 ^ (LEAST k. unat v \<le> 2 ^ k))
      else err ''Out of range'')"
proof (cases "0 < unat v \<and> unat v \<le> 2 ^ 63")
  case True
  then obtain k where k: "round_up_to_nearest_pow2 v = Ok (2 ^ k)" "unat v \<le> 2 ^ k"
      "\<forall>j. unat v \<le> 2 ^ j \<longrightarrow> k \<le> j"
    using round_up_to_nearest_pow2_Ok by blast
  then have "(LEAST k. unat v \<le> 2 ^ k) = k" by (intro Least_equality) auto
  with k True show ?thesis by simp
next
  case False
  then have "unat v = 0 \<or> 2 ^ 63 < unat v" by auto
  from round_up_to_nearest_pow2_Err [OF this] False show ?thesis by simp
qed

text \<open>
  C4: on every well-formed heap and every valid layout of non-zero size, \<open>alloc_with_options\<close> does
  what first fit does on the list of chunks: the address it returns and the chunks its header writes
  leave behind are those of \<open>first_fit\<close>, and it returns null on an unchanged heap when no chunk
  fits. It neither panics nor runs out of fuel.
\<close>

theorem alloc_refines_first_fit:
  assumes "heap_repr h cs" and "valid_layout l" and "layout_size l \<noteq> 0"
  shows "case first_fit (layout_sz l) (layout_al l) cs of
      None \<Rightarrow> alloc_with_options h l = Ok (0, h)
    | Some (p, cs') \<Rightarrow> \<exists>h'. alloc_with_options h l = Ok (word_of_nat p, h') \<and> heap_repr h' cs'"
  using assms alloc_with_options_refines by (simp add: unat_gt_0)

theorem alloc_refines_first_fit_witness:
  "\<exists>h'. alloc_with_options one_chunk_heap LAYOUT_PAGE_4K = Ok (0x4000, h') \<and>
     heap_repr h' [Chunk 0x1000 0x2FE0 False, Chunk 0x3FE0 0x1020 True]"
  using alloc_refines_first_fit [OF one_chunk_heap_repr, of LAYOUT_PAGE_4K]
  by (simp add: LAYOUT_PAGE_4K_facts one_chunk_first_fit del: first_fit.simps)

text \<open>
  C11: a non-null allocation is aligned as asked, lies behind its header inside a chunk that was
  free, overlaps no allocated chunk and no header of one; the new chunks cover the same memory and
  the allocated ones are the old ones plus the new block.
\<close>

theorem alloc_block_is_fresh:
  assumes "heap_repr h cs" and "valid_layout l" and "alloc_with_options h l = Ok (p, h')" and "p \<noteq> 0"
  shows "unat (layout_align l) dvd unat p \<and>
    (\<exists>c \<in> set cs. \<not> c_alloc c \<and> c_addr c + 32 < unat p \<and>
       unat p + unat (layout_size l) \<le> c_end c) \<and>
    (\<exists>cs'. heap_repr h' cs' \<and> covered cs' = covered cs \<and>
       {d \<in> set cs'. c_alloc d} = insert (Chunk (unat p - 32) (layout_sz l + 32) True)
         {d \<in> set cs. c_alloc d} \<and>
       (\<forall>d \<in> set cs. c_alloc d \<longrightarrow>
          unat p + unat (layout_size l) \<le> c_addr d \<or> c_end d \<le> unat p - 32))"
proof -
  obtain cs' where r: "heap_repr h' cs'" and out: "alloc_outcome cs l p cs'"
    using alloc_cases [OF assms(1,2)] assms(3,4) by (metis Inr_inject prod.inject)
  let ?b = "Chunk (unat p - 32) (layout_sz l + 32) True"
  from out have o: "32 < unat p" "unat (layout_size l) \<le> layout_sz l"
    "\<forall>d \<in> set cs. c_alloc d \<longrightarrow> disjoint_chunks ?b d"
    by (auto simp: alloc_outcome_def Let_def)
  have "\<forall>d \<in> set cs. c_alloc d \<longrightarrow>
      unat p + unat (layout_size l) \<le> c_addr d \<or> c_end d \<le> unat p - 32"
  proof (intro ballI impI)
    fix d
    assume "d \<in> set cs" "c_alloc d"
    with o(3) have "disjoint_chunks ?b d" by blast
    with o(1,2) show "unat p + unat (layout_size l) \<le> c_addr d \<or> c_end d \<le> unat p - 32"
      by (auto simp: disjoint_chunks_def)
  qed
  moreover have "\<exists>c \<in> set cs. \<not> c_alloc c \<and> c_addr c + 32 < unat p \<and>
      unat p + unat (layout_size l) \<le> c_end c"
  proof -
    obtain c where "c \<in> set cs" "\<not> c_alloc c" "c_addr c < unat p - 32" "c_end ?b \<le> c_end c"
      using out by (auto simp: alloc_outcome_def Let_def)
    with o(1,2) show ?thesis by (intro bexI [of _ c]) auto
  qed
  ultimately show ?thesis using r out by (auto simp: alloc_outcome_def Let_def)
qed

theorem alloc_block_is_fresh_witness:
  "\<exists>p h'. alloc_with_options one_chunk_heap LAYOUT_PAGE_4K = Ok (p, h') \<and> p \<noteq> 0 \<and>
     4096 dvd unat p \<and> 0x1020 < unat p \<and> unat p + 4096 \<le> 0x5000"
proof -
  obtain h' where a: "alloc_with_options one_chunk_heap LAYOUT_PAGE_4K = Ok (0x4000, h')"
    using alloc_with_options_refines [OF one_chunk_heap_repr, of LAYOUT_PAGE_4K]
    by (auto simp: LAYOUT_PAGE_4K_facts one_chunk_first_fit simp del: first_fit.simps)
  from alloc_block_is_fresh [OF one_chunk_heap_repr LAYOUT_PAGE_4K_facts(1) this]
  show ?thesis using a by (simp add: LAYOUT_PAGE_4K_facts)
qed

text \<open>
  an allocation of a valid layout yields null exactly when its size is 0 or no free chunk has
  room for the rounded size, the alignment and two headers.
\<close>

theorem alloc_null_iff:
  assumes "heap_repr h cs" and "valid_layout l"
  shows "alloc_with_options h l = Ok (0, h) \<longleftrightarrow>
    layout_size l = 0 \<or>
    (\<forall>c \<in> set cs. c_alloc c \<or> c_size c < layout_sz l + layout_al l + 64)"
  using assms
proof (cases rule: alloc_cases)
  case null
  then show ?thesis by (auto simp: fits_chunk_def)
next
  case (block p h' cs')
  then have "p \<noteq> 0" "layout_size l \<noteq> 0" by (auto simp: alloc_outcome_def Let_def)
  with block(1,5) show ?thesis by (auto simp: fits_chunk_def)
qed

theorem alloc_null_iff_witness:
  "alloc_with_options one_chunk_heap \<lparr> layout_size = 0x4000, layout_align = 1 \<rparr>
     = Ok (0, one_chunk_heap)"
proof -
  have "valid_layout \<lparr> layout_size = 0x4000, layout_align = 1 \<rparr>"
    by (auto simp: valid_layout_def intro: exI [of _ 0])
  moreover have "layout_sz \<lparr> layout_size = 0x4000, layout_align = 1 \<rparr> = 0x4000"
    by (subst layout_sz_pow2 [of _ 14]) simp_all
  ultimately show ?thesis
    using alloc_null_iff [OF one_chunk_heap_repr, of "\<lparr> layout_size = 0x4000, layout_align = 1 \<rparr>"]
    by simp
qed

text \<open>
  \<open>dealloc\<close> of the address behind an allocated chunk's header succeeds and marks that chunk,
  and no other, as free.
\<close>

theorem dealloc_frees_its_chunk:
  assumes "heap_repr h cs" and "Chunk a n True \<in> set cs" and "unat p = a + 32"
  shows "\<exists>h'. dealloc h p = Ok h' \<and> heap_repr h' (map (free_chunk a) cs)"
  using dealloc_refines [OF assms(1,2)] assms(3) by simp

theorem dealloc_frees_its_chunk_witness:
  "\<exists>h'. dealloc (put_header one_chunk_heap 0x1000
      \<lparr> next_header = None, hdr_size = 0x4000, is_allocated = True, header_reserved = 0 \<rparr>) 0x1020
      = Ok h' \<and> heap_repr h' [Chunk 0x1000 0x4000 False]"
proof -
  have "heap_repr (put_header one_chunk_heap 0x1000
      \<lparr> next_header = None, hdr_size = 0x4000, is_allocated = True, header_reserved = 0 \<rparr>)
      [Chunk 0x1000 0x4000 True]"
    by (simp add: heap_repr_def one_chunk_heap_def wf_chunk_def put_header_def)
  from dealloc_frees_its_chunk [OF this, of "0x1000" "0x4000" "0x1020"] show ?thesis
    by (simp add: free_chunk_def)
qed

text \<open>
  a block that was allocated and freed becomes a free chunk that is too small for any request
  that rounds to the same size or more, whatever its alignment, because the chunk is never merged with
  its neighbours and a fit needs 32 bytes more than the chunk plus the alignment.
\<close>

theorem freed_block_never_serves_same_size:
  assumes "heap_repr h cs" and "valid_layout l" and "alloc_with_options h l = Ok (p, h1)"
    and "p \<noteq> 0"
  shows "\<exists>h2 cs2. dealloc h1 p = Ok h2 \<and> heap_repr h2 cs2 \<and> covered cs2 = covered cs \<and>
    Chunk (unat p - 32) (layout_sz l + 32) False \<in> set cs2 \<and>
    (\<forall>l'. layout_sz l \<le> layout_sz l' \<longrightarrow>
       \<not> fits_chunk (layout_sz l') (layout_al l') (Chunk (unat p - 32) (layout_sz l + 32) False))"
proof -
  let ?b = "Chunk (unat p - 32) (layout_sz l + 32) True"
  obtain cs' where r: "heap_repr h1 cs'" and out: "alloc_outcome cs l p cs'"
    using alloc_cases [OF assms(1,2)] assms(3,4) by (metis Inr_inject prod.inject)
  from out have b: "?b \<in> set cs'" "unat p = c_addr ?b + 32" "covered cs' = covered cs"
    by (simp_all add: alloc_outcome_def Let_def)
  from dealloc_refines [OF r b(1,2)] obtain h2 where
    h2: "dealloc h1 p = Ok h2" "heap_repr h2 (map (free_chunk (unat p - 32)) cs')" by auto
  moreover have "free_chunk (unat p - 32) ?b = Chunk (unat p - 32) (layout_sz l + 32) False"
    by (simp add: free_chunk_def)
  then have "Chunk (unat p - 32) (layout_sz l + 32) False \<in> set (map (free_chunk (unat p - 32)) cs')"
    using b(1) by (metis image_eqI list.set_map)
  moreover have "covered (map (free_chunk (unat p - 32)) cs') = covered cs" using b(3) by simp
  moreover have "\<not> fits_chunk sz al (Chunk (unat p - 32) (layout_sz l + 32) False)"
    if "layout_sz l \<le> sz" for sz al
    using that by (simp add: fits_chunk_def)
  ultimately show ?thesis by blast
qed

theorem freed_block_never_serves_same_size_witness:
  "\<exists>h1 h2 cs2. alloc_with_options one_chunk_heap LAYOUT_PAGE_4K = Ok (0x4000, h1) \<and>
     dealloc h1 0x4000 = Ok h2 \<and> heap_repr h2 cs2 \<and> Chunk 0x3FE0 0x1020 False \<in> set cs2"
proof -
  obtain h1 where a: "alloc_with_options one_chunk_heap LAYOUT_PAGE_4K = Ok (0x4000, h1)"
    using alloc_with_options_refines [OF one_chunk_heap_repr, of LAYOUT_PAGE_4K]
    by (auto simp: LAYOUT_PAGE_4K_facts one_chunk_first_fit simp del: first_fit.simps)
  from freed_block_never_serves_same_size [OF one_chunk_heap_repr LAYOUT_PAGE_4K_facts(1) this]
  obtain h2 cs2 where "dealloc h1 0x4000 = Ok h2" "heap_repr h2 cs2"
    "Chunk 0x3FE0 0x1020 False \<in> set cs2"
    unfolding LAYOUT_PAGE_4K_facts by auto
  with a show ?thesis by blast
qed

text \<open>
  C13: \<open>init_with_mmap\<close> turns a memory map of well-formed regions into a heap whose chunks are the
  conventional regions above one page, the last first, all free, with page 0 cut off.
\<close>

theorem init_builds_free_heap:
  assumes "memory_map_entries m = Ok es" and "wf_regions es"
  shows "\<exists>h. init_with_mmap ALLOCATOR_static m = Ok h \<and> heap_repr h (usable_chunks es) \<and>
    (\<forall>c \<in> set (usable_chunks es). \<not> c_alloc c \<and> 4096 \<le> c_addr c \<and> 4096 < c_size c)"
proof -
  have "4096 \<le> c_addr (region_chunk e)" if "wf_region e" for e
    using that dvd_imp_le [of 4096 "unat (physical_start e)"]
    by (auto simp: region_chunk_def Let_def wf_region_def)
  moreover have "\<not> c_alloc (region_chunk e)" for e by (simp add: region_chunk_def Let_def)
  ultimately have "\<forall>c \<in> set (usable_chunks es). \<not> c_alloc c \<and> 4096 \<le> c_addr c \<and> 4096 < c_size c"
    using assms(2) by (auto simp: usable_chunks_def usable_region_def wf_regions_def list_all_iff)
  with init_with_entries_refines [OF assms(2)] assms(1) show ?thesis
    by (auto simp: init_with_mmap_def)
qed

theorem init_builds_free_heap_witness:
  "\<exists>h. init_with_mmap ALLOCATOR_static one_region_map = Ok h \<and>
     heap_repr h [Chunk 0x1000 0x4000 False]"
proof -
  have "memory_map_entries one_region_map = Ok [one_region]" by (rule one_region_entries)
  from init_builds_free_heap [OF this one_region_wf_regions] show ?thesis
    by (auto simp: usable_chunks_def usable_region_def region_chunk_def one_region_def)
qed

text \<open>
  C1: whatever sequence of allocations and deallocations has run since boot, any two live blocks are
  disjoint, with at least a header between them.
\<close>

theorem live_blocks_never_overlap:
  assumes "wf_regions es" and "heap_run es h live"
    and "i < length live" and "j < length live" and "i \<noteq> j"
  shows "unat (fst (live ! i)) + unat (snd (live ! i)) + 32 \<le> unat (fst (live ! j)) \<or>
    unat (fst (live ! j)) + unat (snd (live ! j)) + 32 \<le> unat (fst (live ! i))"
proof -
  from heap_run_inv [OF assms(2,1)] obtain cs where "wf_chunks cs" "heap_inv es cs live"
    by (auto simp: heap_repr_def)
  from heap_inv_separated [OF this, of i j] heap_inv_separated [OF this, of j i] assms(3-5)
  show ?thesis by linarith
qed

lemma one_chunk_run:
  "\<exists>h p q. heap_run [one_region] h [(p, 4096), (q, 4096)]"
proof -
  have r0: "heap_run [one_region] one_chunk_heap []" by (rule heap_run.boot [OF one_chunk_heap_init])
  let ?cs = "[Chunk 0x1000 0x2FE0 False, Chunk 0x3FE0 0x1020 True]"
  have 0: "0 < unat (layout_size LAYOUT_PAGE_4K)" by (simp add: LAYOUT_PAGE_4K_facts)
  obtain h1 where a1: "alloc_with_options one_chunk_heap LAYOUT_PAGE_4K = Ok (0x4000, h1)"
      "heap_repr h1 ?cs"
    using alloc_with_options_refines [OF one_chunk_heap_repr LAYOUT_PAGE_4K_facts(1) 0]
    by (auto simp: LAYOUT_PAGE_4K_facts one_chunk_first_fit simp del: first_fit.simps)
  from heap_run.alloc_block [OF r0 LAYOUT_PAGE_4K_facts(1) a1(1)]
  have r1: "heap_run [one_region] h1 [(0x4000, 4096)]" by (simp add: LAYOUT_PAGE_4K_facts)
  have "\<exists>cs'. first_fit 4096 4096 ?cs = Some (0x2000, cs')"
    by (simp add: fits_chunk_def place_in_def)
  then obtain h2 where a2: "alloc_with_options h1 LAYOUT_PAGE_4K = Ok (0x2000, h2)"
    using alloc_with_options_refines [OF a1(2) LAYOUT_PAGE_4K_facts(1) 0]
    by (auto simp: LAYOUT_PAGE_4K_facts simp del: first_fit.simps)
  from heap_run.alloc_block [OF r1 LAYOUT_PAGE_4K_facts(1) a2]
  show ?thesis by (auto simp: LAYOUT_PAGE_4K_facts)
qed

theorem live_blocks_never_overlap_witness:
  "\<exists>h p q. heap_run [one_region] h [(p, 4096), (q, 4096)] \<and>
     (unat p + 4128 \<le> unat q \<or> unat q + 4128 \<le> unat p)"
proof -
  obtain h p q where r: "heap_run [one_region] h [(p, 4096), (q, 4096)]" using one_chunk_run by blast
  from live_blocks_never_overlap [OF one_region_wf_regions r, of 0 1]
  have "unat p + 4128 \<le> unat q \<or> unat q + 4128 \<le> unat p" by auto
  with r show ?thesis by blast
qed

text \<open>
  C10: in every state that allocations and deallocations reach, every further request returns (no
  panic, no undefined access, no endless chain), every live block can be freed, and the chunks still
  cover exactly the usable memory of the memory map.
\<close>

theorem heap_run_never_faults:
  assumes "wf_regions es" and "heap_run es h live"
  shows "(\<forall>l. valid_layout l \<longrightarrow> (\<exists>p h'. alloc_with_options h l = Ok (p, h'))) \<and>
    (\<forall>(p, n) \<in> set live. \<exists>h'. dealloc h p = Ok h') \<and>
    (\<exists>cs. heap_repr h cs \<and> covered cs = covered (usable_chunks es))"
proof -
  from heap_run_inv [OF assms(2,1)] obtain cs where cs: "heap_repr h cs" "heap_inv es cs live"
    by blast
  have "\<exists>p h'. alloc_with_options h l = Ok (p, h')" if "valid_layout l" for l
    using ffa.alloc_total that cs(1) by (metis heap_ok_def)
  moreover have "\<exists>h'. dealloc h p = Ok h'" if "(p, n) \<in> set live" for p n
    using heap_inv_free [OF cs that] dealloc_refines [OF cs(1)] by metis
  ultimately show ?thesis using cs by (auto simp: heap_inv_def)
qed

theorem heap_run_never_faults_witness:
  "\<exists>h live. heap_run [one_region] h live \<and> length live = 2 \<and>
     (\<exists>p h'. alloc_with_options h LAYOUT_PAGE_4K = Ok (p, h'))"
proof -
  obtain h p q where r: "heap_run [one_region] h [(p, 4096), (q, 4096)]" using one_chunk_run by blast
  from heap_run_never_faults [OF one_region_wf_regions r] r LAYOUT_PAGE_4K_facts(1)
  show ?thesis by (intro exI [of _ h] exI [of _ "[(p, 4096), (q, 4096)]"]) simp
qed

end
