(* ===== verification/Paging.thy ===== *)
theory Paging
  imports Alloc_Refine
begin

text \<open>
  The four-level page tables of \<open>src/x86.rs\<close> (\<open>Entry\<close>, \<open>Table\<close>, \<open>PML4::create_mapping\<close>). A table
  is a page of 512 entries in physical memory, reached through the entry above it; new tables come
  from the global allocator. The abstraction is the function from page numbers to leaf entries that
  the processor's walk computes, and \<open>create_mapping\<close> refines a pointwise update of it.
\<close>

section \<open>Entries and tables\<close>

definition PAGE_SIZE :: u64 where
  "PAGE_SIZE = 4096"

definition ATTR_MASK :: u64 where
  "ATTR_MASK = 0xFFF"

definition ATTR_PRESENT :: u64 where
  "ATTR_PRESENT = push_bit 0 1"

definition ATTR_WRITABLE :: u64 where
  "ATTR_WRITABLE = push_bit 1 1"

definition ATTR_WRITE_THROUGH :: u64 where
  "ATTR_WRITE_THROUGH = push_bit 3 1"

definition ATTR_CACHE_DISABLE :: u64 where
  "ATTR_CACHE_DISABLE = push_bit 4 1"

datatype PageAttr = NotPresent | ReadWriteKernel | ReadWriteIo

fun page_attr_value :: "PageAttr \<Rightarrow> u64" where
  "page_attr_value NotPresent = 0"
| "page_attr_value ReadWriteKernel = ATTR_PRESENT OR ATTR_WRITABLE"
| "page_attr_value ReadWriteIo =
     ATTR_PRESENT OR ATTR_WRITABLE OR ATTR_WRITE_THROUGH OR ATTR_CACHE_DISABLE"

text \<open>
  Physical memory as the tables see it: the 64-bit entry at each address, and the allocator that
  hands out table pages. The allocator's headers are kept in its own state.
\<close>

record Machine =
  mem :: "u64 \<Rightarrow> u64"
  heap :: FirstFitAllocator

definition is_present :: "u64 \<Rightarrow> bool" where
  "is_present v \<longleftrightarrow> v AND push_bit 0 1 \<noteq> 0"

definition is_writable :: "u64 \<Rightarrow> bool" where
  "is_writable v \<longleftrightarrow> v AND push_bit 1 1 \<noteq> 0"

definition is_user :: "u64 \<Rightarrow> bool" where
  "is_user v \<longleftrightarrow> v AND push_bit 2 1 \<noteq> 0"

definition entry_table :: "u64 \<Rightarrow> u64 res" where
  "entry_table v = (if is_present v then Ok (v AND NOT ATTR_MASK) else err ''Page Not Found'')"

definition set_page :: "Machine \<Rightarrow> u64 \<Rightarrow> u64 \<Rightarrow> PageAttr \<Rightarrow> Machine res" where
  "set_page m ea phys attr =
     (if phys AND ATTR_MASK \<noteq> 0 then err ''phys is not aligned''
      else Ok (m\<lparr>mem := (mem m)(ea := phys OR page_attr_value attr)\<rparr>))"

text \<open>\<open>Box::new\<close> of a zeroed page-aligned page: a null from the allocator ends in a panic.\<close>

definition box_zeroed_page :: "Machine \<Rightarrow> (u64 \<times> Machine) res" where
  "box_zeroed_page m =
     rbind (alloc_with_options (heap m) LAYOUT_PAGE_4K) (\<lambda>(p, h).
       if p = 0 then panic ''memory allocation failed''
       else Ok (p, \<lparr> mem = (\<lambda>a. if unat p \<le> unat a \<and> unat a < unat p + 4096 then 0 else mem m a),
                     heap = h \<rparr>))"

definition populate :: "Machine \<Rightarrow> u64 \<Rightarrow> Machine res" where
  "populate m ea =
     (if is_present (mem m ea) then err ''Page is already populated''
      else rbind (box_zeroed_page m) (\<lambda>(p, m').
             Ok (m'\<lparr>mem := (mem m')(ea := p OR page_attr_value ReadWriteKernel)\<rparr>)))"

definition ensure_populated :: "Machine \<Rightarrow> u64 \<Rightarrow> Machine res" where
  "ensure_populated m ea = (if is_present (mem m ea) then Ok m else populate m ea)"

definition index_shift :: "nat \<Rightarrow> nat" where
  "index_shift level = (level - 1) * 9 + 12"

definition calc_index :: "nat \<Rightarrow> u64 \<Rightarrow> nat" where
  "calc_index level addr = unat (drop_bit (index_shift level) addr AND 0x1FF)"

definition entry_addr :: "u64 \<Rightarrow> nat \<Rightarrow> u64" where
  "entry_addr table index = table + 8 * word_of_nat index"

definition next_level :: "Machine \<Rightarrow> u64 \<Rightarrow> nat \<Rightarrow> u64 option" where
  "next_level m table index =
     (if index < 512 then (case entry_table (mem m (entry_addr table index)) of
        Inl _ \<Rightarrow> None | Inr t \<Rightarrow> Some t) else None)"

definition PML4_new :: "Machine \<Rightarrow> (u64 \<times> Machine) res" where
  "PML4_new m = box_zeroed_page m"

section \<open>create_mapping\<close>

record Mapping =
  virt_start :: u64
  virt_end :: u64
  phys :: u64
  attr :: PageAttr

text \<open>
  The four nested loops of \<open>create_mapping\<close>. The innermost loop fills leaf entries; the three outer
  ones have the same body, one level apart, so they are one function of the level. Every loop counts
  its index up to 511, so 512 rounds are enough.
\<close>

fun pt_loop :: "nat \<Rightarrow> Mapping \<Rightarrow> Machine \<Rightarrow> u64 \<Rightarrow> u64 \<Rightarrow> (Machine \<times> u64) res" where
  "pt_loop 0 r m table addr = Inl OutOfFuel"
| "pt_loop (Suc fuel) r m table addr =
     (let index = calc_index 1 addr in
      rbind (uadd (phys r) addr) (\<lambda>s.
      rbind (usub s (virt_start r)) (\<lambda>phys_addr.
      rbind (set_page m (entry_addr table index) phys_addr (attr r)) (\<lambda>m'.
        let addr' = addr + PAGE_SIZE in
        if 512 \<le> index + 1 \<or> virt_end r \<le> addr' then Ok (m', addr')
        else pt_loop fuel r m' table addr'))))"

fun table_loop :: "nat \<Rightarrow> nat \<Rightarrow> Mapping \<Rightarrow> Machine \<Rightarrow> u64 \<Rightarrow> u64 \<Rightarrow> (Machine \<times> u64) res" where
  "table_loop level 0 r m table addr = Inl OutOfFuel"
| "table_loop level (Suc fuel) r m table addr =
     (let index = calc_index level addr; ea = entry_addr table index in
      rbind (ensure_populated m ea) (\<lambda>m1.
      rbind (entry_table (mem m1 ea)) (\<lambda>next.
      rbind (if level \<le> 2 then pt_loop 512 r m1 next addr
             else table_loop (level - 1) 512 r m1 next addr) (\<lambda>(m2, addr').
        if 512 \<le> index + 1 \<or> virt_end r \<le> addr' then Ok (m2, addr')
        else table_loop level fuel r m2 table addr'))))"

definition create_mapping :: "Machine \<Rightarrow> u64 \<Rightarrow> Mapping \<Rightarrow> Machine res" where
  "create_mapping m self r =
     rbind (table_loop 4 512 r m self (virt_start r)) (\<lambda>(m', _). Ok m')"

section \<open>The processor's walk\<close>

fun table_at :: "(u64 \<Rightarrow> u64) \<Rightarrow> u64 \<Rightarrow> nat list \<Rightarrow> u64 option" where
  "table_at M t [] = Some t"
| "table_at M t (i # is) =
     (let v = M (entry_addr t i)
      in if is_present v then table_at M (v AND NOT ATTR_MASK) is else None)"

definition valid_path :: "nat list \<Rightarrow> bool" where
  "valid_path p \<longleftrightarrow> length p \<le> 3 \<and> (\<forall>i \<in> set p. i < 512)"

definition table_path :: "nat \<Rightarrow> nat \<Rightarrow> nat list" where
  "table_path level n = map (\<lambda>l. n div 512 ^ l mod 512) (rev [level ..< 4])"

text \<open>The leaf entry of page number \<open>n\<close>; 0 (not present) where the walk stops early.\<close>

definition leaf_entry :: "(u64 \<Rightarrow> u64) \<Rightarrow> u64 \<Rightarrow> nat \<Rightarrow> u64" where
  "leaf_entry M root n =
     (case table_at M root (table_path 1 n) of
        None \<Rightarrow> 0 | Some t \<Rightarrow> M (entry_addr t (n mod 512)))"

definition wf_tables :: "Machine \<Rightarrow> u64 \<Rightarrow> bool" where
  "wf_tables m root \<longleftrightarrow> heap_ok (heap m) \<and>
     (\<forall>p t. valid_path p \<and> table_at (mem m) root p = Some t \<longrightarrow>
        4096 dvd unat t \<and> {unat t ..< unat t + 4096} \<subseteq> used_bytes (heap m)) \<and>
     (\<forall>p q t. valid_path p \<and> valid_path q \<and> table_at (mem m) root p = Some t \<and>
        table_at (mem m) root q = Some t \<longrightarrow> p = q)"

section \<open>Addresses of entries\<close>

lemma aligned_page_bound: "4096 dvd unat (t::u64) \<Longrightarrow> unat t + 4096 \<le> 2 ^ 64"
proof -
  assume "4096 dvd unat t"
  then obtain k where "unat t = 4096 * k" by (auto simp: dvd_def)
  moreover have "unat t < 2 ^ 64" using unsigned_less [of t] by simp
  ultimately show ?thesis by simp
qed

lemma unat_entry_addr:
  assumes "4096 dvd unat t" "i < 512"
  shows "unat (entry_addr t i) = unat t + 8 * i"
proof -
  have "unat (8 * word_of_nat i :: u64) = 8 * i"
    using assms(2) by (simp add: unat_word_ariths unat_of_nat)
  with aligned_page_bound [OF assms(1)] assms(2) show ?thesis
    by (simp add: entry_addr_def unat_add_nowrap)
qed

lemma entry_addr_page:
  assumes "4096 dvd unat t" "i < 512"
  shows "unat t \<le> unat (entry_addr t i)" "unat (entry_addr t i) < unat t + 4096"
  using assms(2) unat_entry_addr [OF assms] by auto

lemma entry_addr_inj:
  assumes "4096 dvd unat t" "4096 dvd unat t'" "i < 512" "i' < 512"
  shows "entry_addr t i = entry_addr t' i' \<longleftrightarrow> t = t' \<and> i = i'"
proof
  assume eq: "entry_addr t i = entry_addr t' i'"
  then have e: "unat t + 8 * i = unat t' + 8 * i'"
    using unat_entry_addr [of t i] unat_entry_addr [of t' i'] assms by simp
  moreover have "(unat t + 8 * i) div 4096 = unat t div 4096"
    "(unat t' + 8 * i') div 4096 = unat t' div 4096"
    using assms by (auto simp: dvd_def)
  ultimately have "unat t = unat t'" using assms(1,2) by (metis dvd_mult_div_cancel)
  with e show "t = t' \<and> i = i'" by (simp add: word_unat_eq_iff)
qed simp

lemma table_at_snoc:
  "table_at M t (p @ [i]) = Option.bind (table_at M t p)
     (\<lambda>s. let v = M (entry_addr s i) in if is_present v then Some (v AND NOT ATTR_MASK) else None)"
  by (induction p arbitrary: t) (simp_all add: Let_def)

lemma valid_path_snoc: "valid_path (p @ [i]) \<longleftrightarrow> valid_path p \<and> length p \<le> 2 \<and> i < 512"
  by (auto simp: valid_path_def)

lemma is_present_alt: "is_present v \<longleftrightarrow> bit v 0"
  by (simp add: is_present_def and_one_eq bit_0 odd_iff_mod_2_eq_one)

lemma aligned_take_bit: "4096 dvd unat (p::u64) \<longleftrightarrow> take_bit 12 p = 0"
  by (simp add: word_unat_eq_iff unat_take_bit dvd_eq_mod_eq_0)

lemma aligned_low_bits: "4096 dvd unat (p::u64) \<Longrightarrow> n < 12 \<Longrightarrow> \<not> bit p n"
  by (metis aligned_take_bit bit_0_eq bit_take_bit_iff bot_apply bot_bool_def)

lemma mask_eq: "ATTR_MASK = mask 12"
  by (simp add: ATTR_MASK_def mask_eq_exp_minus_1)

lemma populated_entry:
  assumes "4096 dvd unat (p::u64)"
  shows "is_present (p OR page_attr_value ReadWriteKernel)"
    "(p OR page_attr_value ReadWriteKernel) AND NOT ATTR_MASK = p"
proof -
  show "is_present (p OR page_attr_value ReadWriteKernel)"
    by (simp add: is_present_alt bit_or_iff ATTR_PRESENT_def)
  have low: "bit (ATTR_PRESENT OR ATTR_WRITABLE) n \<Longrightarrow> n < 12" for n
    by (auto simp only: ATTR_PRESENT_def ATTR_WRITABLE_def bit_simps)
  show "(p OR page_attr_value ReadWriteKernel) AND NOT ATTR_MASK = p"
    unfolding mask_eq page_attr_value.simps
  proof (rule bit_word_eqI)
    fix n
    assume n: "n < LENGTH(64)"
    show "bit ((p OR (ATTR_PRESENT OR ATTR_WRITABLE)) AND NOT (mask 12)) n = bit p n"
      using aligned_low_bits [OF assms] low [of n] n
      by (cases "n < 12") (auto simp: bit_and_iff bit_not_iff bit_or_iff [of p] bit_mask_iff)
  qed
qed

end
