(* ===== verification/Paging_Refine.thy ===== *)
theory Paging_Refine
  imports Paging
begin

text \<open>
  \<open>PML4::create_mapping\<close> against the processor's walk. A table is identified by the path of indices
  that leads to it; in a well-formed state different paths lead to different pages, all of them in
  memory the allocator has handed out. A leaf write changes one leaf and no table; populating an
  entry adds one empty table and changes no leaf. The loops are then one argument for all levels:
  a round at a level is the whole loop one level down.
\<close>

section \<open>Writing an entry\<close>

lemma wf_tablesD:
  assumes "wf_tables m root" "valid_path p" "table_at (mem m) root p = Some t"
  shows "4096 dvd unat t" "{unat t ..< unat t + 4096} \<subseteq> used_bytes (heap m)"
    "valid_path q \<Longrightarrow> table_at (mem m) root q = Some t \<Longrightarrow> p = q"
  using assms unfolding wf_tables_def by blast+

lemma table_at_cong:
  assumes "\<And>q j s. valid_path (q @ [j]) \<Longrightarrow> table_at M root q = Some s \<Longrightarrow>
      M' (entry_addr s j) = M (entry_addr s j)"
  shows "valid_path q \<Longrightarrow> table_at M' root q = table_at M root q"
proof (induction q rule: rev_induct)
  case Nil
  show ?case by simp
next
  case (snoc j q)
  then have "table_at M' root q = table_at M root q" by (simp add: valid_path_snoc)
  with assms [OF snoc.prems] show ?case
    by (cases "table_at M root q") (simp_all add: table_at_snoc)
qed

text \<open>A write to a leaf entry changes no table and one leaf.\<close>

lemma leaf_write:
  fixes v :: u64
  assumes wf: "wf_tables m root" and p: "valid_path p" "length p = 3"
    and t: "table_at (mem m) root p = Some t" and i: "i < 512"
  defines "m' \<equiv> m\<lparr>mem := (mem m)(entry_addr t i := v)\<rparr>"
  shows "\<And>q. valid_path q \<Longrightarrow> table_at (mem m') root q = table_at (mem m) root q"
    and "wf_tables m' root"
    and "\<And>q s j. valid_path q \<Longrightarrow> length q = 3 \<Longrightarrow> table_at (mem m) root q = Some s \<Longrightarrow> j < 512 \<Longrightarrow>
      mem m' (entry_addr s j) = (if q = p \<and> j = i then v else mem m (entry_addr s j))"
proof -
  note tw = wf_tablesD [OF wf p(1) t]
  have other: "mem m' (entry_addr s j) = (if q = p \<and> j = i then v else mem m (entry_addr s j))"
    if q: "valid_path q" "table_at (mem m) root q = Some s" and j: "j < 512" for q s j
  proof -
    note sw = wf_tablesD [OF wf q]
    have "s = t \<longleftrightarrow> q = p" using sw(3) [OF p(1)] t q(2) by auto
    with entry_addr_inj [OF sw(1) tw(1) j i] show ?thesis by (auto simp: m'_def)
  qed
  show same: "table_at (mem m') root q = table_at (mem m) root q" if "valid_path q" for q
    using that
  proof (rule table_at_cong [rotated])
    fix r j s
    assume r: "valid_path (r @ [j])" "table_at (mem m) root r = Some s"
    then have "valid_path r" "j < 512" "r \<noteq> p" using p(2) by (auto simp: valid_path_snoc)
    with other [OF _ r(2)] show "mem m' (entry_addr s j) = mem m (entry_addr s j)" by auto
  qed
  have "heap m' = heap m" by (simp add: m'_def)
  with wf same show "wf_tables m' root" unfolding wf_tables_def by metis
  show "mem m' (entry_addr s j) = (if q = p \<and> j = i then v else mem m (entry_addr s j))"
    if "valid_path q" "length q = 3" "table_at (mem m) root q = Some s" "j < 512" for q s j
    using other that by blast
qed

text \<open>The allocator's page is not the page of any table.\<close>

lemma box_zeroed_page_cases:
  assumes "heap_ok (heap m)"
  obtains "box_zeroed_page m = panic ''memory allocation failed''"
  | n m' where "box_zeroed_page m = Ok (n, m')" "n \<noteq> 0" "heap_ok (heap m')" "4096 dvd unat n"
      "used_bytes (heap m) \<subseteq> used_bytes (heap m')"
      "{unat n ..< unat n + 4096} \<subseteq> used_bytes (heap m') - used_bytes (heap m)"
      "mem m' = (\<lambda>a. if unat n \<le> unat a \<and> unat a < unat n + 4096 then 0 else mem m a)"
proof -
  note l = LAYOUT_PAGE_4K_facts
  from ffa.alloc_total [OF assms l(1)] obtain p h where
    a: "alloc_with_options (heap m) LAYOUT_PAGE_4K = Ok (p, h)" "heap_ok h" by blast
  show thesis
  proof (cases "p = 0")
    case True
    with a(1) that(1) show thesis by (simp add: box_zeroed_page_def)
  next
    case False
    let ?m = "\<lparr> mem = (\<lambda>a. if unat p \<le> unat a \<and> unat a < unat p + 4096 then 0 else mem m a),
                heap = h \<rparr>"
    have "box_zeroed_page m = Ok (p, ?m)" using a(1) False by (simp add: box_zeroed_page_def)
    from that(2) [OF this False] a(2) ffa.alloc_block [OF assms l(1) a(1) False] l(4,5)
    show thesis by simp
  qed
qed

lemma populate_step:
  assumes wf: "wf_tables m root" and p: "valid_path (p @ [i])"
    and t: "table_at (mem m) root p = Some t" and np: "\<not> is_present (mem m (entry_addr t i))"
    and n: "4096 dvd unat n" "{unat n ..< unat n + 4096} \<inter> used_bytes (heap m) = {}"
    and M: "M = (\<lambda>a. if unat n \<le> unat a \<and> unat a < unat n + 4096 then 0 else mem m a)
      (entry_addr t i := n OR page_attr_value ReadWriteKernel)"
  shows "valid_path q \<Longrightarrow> table_at M root q = (if q = p @ [i] then Some n else table_at (mem m) root q)"
    and "valid_path q \<Longrightarrow> table_at (mem m) root q = Some s \<Longrightarrow> j < 512 \<Longrightarrow> q \<noteq> p \<or> j \<noteq> i \<Longrightarrow>
      M (entry_addr s j) = mem m (entry_addr s j)"
    and "j < 512 \<Longrightarrow> M (entry_addr n j) = 0"
proof -
  from p have vp: "valid_path p" "i < 512" by (simp_all add: valid_path_snoc)
  note tw = wf_tablesD [OF wf vp(1) t]
  have tab_ne: "s \<noteq> n" if "valid_path q" "table_at (mem m) root q = Some s" for q s
  proof -
    have "unat s \<in> used_bytes (heap m)" using wf_tablesD(2) [OF wf that] by auto
    moreover have "unat n \<in> {unat n ..< unat n + 4096}" by simp
    ultimately show ?thesis using n(2) by blast
  qed
  have out: "\<not> (unat n \<le> unat (entry_addr s j) \<and> unat (entry_addr s j) < unat n + 4096)"
    if "valid_path q" "table_at (mem m) root q = Some s" "j < 512" for q s j
    using entry_addr_page [OF wf_tablesD(1) [OF wf that(1,2)] that(3)]
      wf_tablesD(2) [OF wf that(1,2)] n(2) by fastforce
  have keep: "M (entry_addr s j) = mem m (entry_addr s j)"
    if q: "valid_path q" "table_at (mem m) root q = Some s" "j < 512" "q \<noteq> p \<or> j \<noteq> i" for q s j
  proof -
    note sw = wf_tablesD [OF wf q(1,2)]
    have "entry_addr s j \<noteq> entry_addr t i"
      using entry_addr_inj [OF sw(1) tw(1) q(3) vp(2)] sw(3) [OF vp(1)] t q(4) by auto
    with out [OF q(1-3)] show ?thesis by (auto simp: M)
  qed
  show new0: "M (entry_addr n j) = 0" if "j < 512" for j
    using entry_addr_inj [OF n(1) tw(1) that vp(2)] tab_ne [OF vp(1) t] entry_addr_page [OF n(1) that]
    by (auto simp: M)
  show "M (entry_addr s j) = mem m (entry_addr s j)"
    if "valid_path q" "table_at (mem m) root q = Some s" "j < 512" "q \<noteq> p \<or> j \<noteq> i"
    using keep that by blast
  have none: "table_at (mem m) root (p @ [i]) = None" using t np by (simp add: table_at_snoc)
  have "valid_path q \<Longrightarrow> table_at M root q = (if q = p @ [i] then Some n else table_at (mem m) root q)" for q
  proof (induction q rule: rev_induct)
    case Nil
    show ?case by simp
  next
    case (snoc j q)
    then have q: "valid_path q" "j < 512" by (auto simp: valid_path_snoc)
    from snoc.IH [OF q(1)]
    have IH: "table_at M root q = (if q = p @ [i] then Some n else table_at (mem m) root q)" .
    consider (new) "q = p @ [i]" | (none) "q \<noteq> p @ [i]" "table_at (mem m) root q = None"
      | (here) "q = p" "j = i"
      | (old) s where "q \<noteq> p @ [i]" "table_at (mem m) root q = Some s" "q \<noteq> p \<or> j \<noteq> i" by fastforce
    then show ?case
    proof cases
      case new
      have "table_at M root (q @ [j]) = None" "table_at (mem m) root (q @ [j]) = None"
        using new IH new0 [OF q(2)] none unfolding table_at_snoc [of _ _ q]
        by (simp_all add: is_present_alt)
      with new show ?thesis by simp
    next
      case none
      then have "q \<noteq> p" using t by auto
      with none IH show ?thesis by (simp add: table_at_snoc)
    next
      case here
      have "M (entry_addr t i) = n OR page_attr_value ReadWriteKernel" by (simp add: M)
      then show ?thesis
        using here IH t populated_entry [OF n(1)]
        by (simp add: table_at_snoc del: page_attr_value.simps)
    next
      case (old s)
      then show ?thesis using IH keep [OF q(1) old(2) q(2) old(3)] by (auto simp: table_at_snoc)
    qed
  qed
  then show "table_at M root q = (if q = p @ [i] then Some n else table_at (mem m) root q)"
    if "valid_path q" using that by blast
qed

text \<open>
  What the loops keep: the tables stay well-formed, existing tables stay where they are, and the
  leaves change as stated.
\<close>

definition extends :: "Machine \<Rightarrow> u64 \<Rightarrow> Machine \<Rightarrow> bool" where
  "extends m root m' \<longleftrightarrow> wf_tables m' root \<and> used_bytes (heap m) \<subseteq> used_bytes (heap m') \<and>
     (\<forall>p t. valid_path p \<and> table_at (mem m) root p = Some t \<longrightarrow> table_at (mem m') root p = Some t)"

lemma extends_refl: "wf_tables m root \<Longrightarrow> extends m root m"
  by (simp add: extends_def)

lemma extends_trans: "extends m root m1 \<Longrightarrow> extends m1 root m2 \<Longrightarrow> extends m root m2"
  by (auto simp: extends_def)

lemma valid_table_path: "1 \<le> level \<Longrightarrow> valid_path (table_path level n)"
  by (auto simp: valid_path_def table_path_def)

lemma table_path_snoc:
  assumes "level < 4"
  shows "table_path level n = table_path (Suc level) n @ [n div 512 ^ level mod 512]"
proof -
  have "[level..<4] = level # [Suc level..<4]" using assms by (rule upt_conv_Cons)
  then show ?thesis by (simp add: table_path_def)
qed

lemma length_table_path: "length (table_path level n) = 4 - level"
  by (simp add: table_path_def)

lemma table_path_4: "table_path 4 n = []"
  by (simp add: table_path_def)

lemma populated_wf:
  assumes wf: "wf_tables m root" and p: "valid_path (p @ [i])"
    and t: "table_at (mem m) root p = Some t" and np: "\<not> is_present (mem m (entry_addr t i))"
    and n: "4096 dvd unat n" "heap_ok h" "used_bytes (heap m) \<subseteq> used_bytes h"
      "{unat n ..< unat n + 4096} \<subseteq> used_bytes h - used_bytes (heap m)"
    and m': "m' = \<lparr> mem = (\<lambda>a. if unat n \<le> unat a \<and> unat a < unat n + 4096 then 0 else mem m a)
      (entry_addr t i := n OR page_attr_value ReadWriteKernel), heap = h \<rparr>"
  shows "extends m root m'" "leaf_entry (mem m') root = leaf_entry (mem m) root"
    "entry_table (mem m' (entry_addr t i)) = Ok n" "table_at (mem m') root (p @ [i]) = Some n"
proof -
  from n(4) have fresh: "{unat n ..< unat n + 4096} \<inter> used_bytes (heap m) = {}" by blast
  note st = populate_step [OF wf p t np n(1) fresh refl]
  have mm: "mem m' = (\<lambda>a. if unat n \<le> unat a \<and> unat a < unat n + 4096 then 0 else mem m a)
      (entry_addr t i := n OR page_attr_value ReadWriteKernel)" "heap m' = h"
    by (simp_all add: m')
  note tab = st(1) [folded mm(1)]
  have none: "table_at (mem m) root (p @ [i]) = None" using t np by (simp add: table_at_snoc)
  show "table_at (mem m') root (p @ [i]) = Some n" using tab [OF p] by simp
  show "entry_table (mem m' (entry_addr t i)) = Ok n"
    using populated_entry [OF n(1)] by (simp add: mm entry_table_def)
  have in_n: "unat n \<in> {unat n ..< unat n + 4096}" by simp
  have ne: "s \<noteq> n" if "valid_path q" "table_at (mem m) root q = Some s" for q s
  proof -
    have "unat s \<in> used_bytes (heap m)" using wf_tablesD(2) [OF wf that] by auto
    with in_n fresh show ?thesis by blast
  qed
  have "wf_tables m' root"
    unfolding wf_tables_def mm(2)
  proof (intro conjI allI impI)
    fix q s
    assume "valid_path q \<and> table_at (mem m') root q = Some s"
    then have q: "valid_path q" "(if q = p @ [i] then Some n else table_at (mem m) root q) = Some s"
      using tab by auto
    show "4096 dvd unat s" "{unat s ..< unat s + 4096} \<subseteq> used_bytes h"
      using q wf_tablesD(1,2) [OF wf q(1)] n by (auto split: if_splits)
  next
    fix q r s
    assume a: "valid_path q \<and> valid_path r \<and> table_at (mem m') root q = Some s \<and>
      table_at (mem m') root r = Some s"
    then have "(if q = p @ [i] then Some n else table_at (mem m) root q) = Some s"
      "(if r = p @ [i] then Some n else table_at (mem m) root r) = Some s"
      using tab [of q] tab [of r] by auto
    with a show "q = r" using ne wf_tablesD(3) [OF wf, of q s r] by (auto split: if_splits)
  qed (rule n(2))
  with tab none n(3) show "extends m root m'" by (auto simp: extends_def mm(2))
  show "leaf_entry (mem m') root = leaf_entry (mem m) root"
  proof
    fix k
    have vk: "valid_path (table_path 1 k)" by (rule valid_table_path) simp
    have ne_p: "table_path 1 k \<noteq> p" using p by (auto simp: valid_path_snoc length_table_path dest: arg_cong [where f = length])
    have k: "k mod 512 < 512" by simp
    show "leaf_entry (mem m') root k = leaf_entry (mem m) root k"
    proof (cases "table_path 1 k = p @ [i]")
      case True
      then show ?thesis using tab [OF vk] st(3) [OF k] none by (simp add: leaf_entry_def mm)
    next
      case False
      then have "table_at (mem m') root (table_path 1 k) = table_at (mem m) root (table_path 1 k)"
        using tab [OF vk] by simp
      then show ?thesis
        using st(2) [OF vk _ k] ne_p
        by (cases "table_at (mem m) root (table_path 1 k)") (simp_all add: leaf_entry_def mm)
    qed
  qed
qed

text \<open>\<open>ensure_populated\<close> followed by \<open>table_mut\<close>: the table one level down, now present.\<close>

lemma ensure_populated_step:
  assumes wf: "wf_tables m root" and p: "valid_path (p @ [i])"
    and t: "table_at (mem m) root p = Some t"
  obtains "ensure_populated m (entry_addr t i) = panic ''memory allocation failed''"
  | m1 n where "ensure_populated m (entry_addr t i) = Ok m1" "extends m root m1"
      "entry_table (mem m1 (entry_addr t i)) = Ok n" "table_at (mem m1) root (p @ [i]) = Some n"
      "leaf_entry (mem m1) root = leaf_entry (mem m) root"
proof (cases "is_present (mem m (entry_addr t i))")
  case True
  show thesis
    by (rule that(2) [of m "mem m (entry_addr t i) AND NOT ATTR_MASK"])
       (use True t wf in \<open>simp_all add: ensure_populated_def extends_refl entry_table_def table_at_snoc\<close>)
next
  case False
  have hok: "heap_ok (heap m)" using wf by (simp add: wf_tables_def)
  show thesis
  proof (rule box_zeroed_page_cases [OF hok])
    assume "box_zeroed_page m = panic ''memory allocation failed''"
    with False that(1) show thesis by (simp add: ensure_populated_def populate_def)
  next
    fix n m'
    assume b: "box_zeroed_page m = Ok (n, m')" "heap_ok (heap m')" "4096 dvd unat n"
      "used_bytes (heap m) \<subseteq> used_bytes (heap m')"
      "{unat n ..< unat n + 4096} \<subseteq> used_bytes (heap m') - used_bytes (heap m)"
      "mem m' = (\<lambda>a. if unat n \<le> unat a \<and> unat a < unat n + 4096 then 0 else mem m a)"
    let ?m1 = "\<lparr> mem = (\<lambda>a. if unat n \<le> unat a \<and> unat a < unat n + 4096 then 0 else mem m a)
      (entry_addr t i := n OR page_attr_value ReadWriteKernel), heap = heap m' \<rparr>"
    have e: "ensure_populated m (entry_addr t i) = Ok ?m1"
      using False b(1,6) by (simp add: ensure_populated_def populate_def)
    show thesis
      by (rule that(2) [OF e]) (use populated_wf [OF wf p t False b(3,2,4,5) refl] in auto)
  qed
qed

section \<open>The loops of create_mapping\<close>

definition page_of :: "u64 \<Rightarrow> nat" where
  "page_of a = unat a div 4096"

text \<open>
  A mapping inside the 48-bit lower half, to page-aligned physical memory below \<open>2 ^ 52\<close>: the
  range of four-level paging.
\<close>

definition valid_mapping :: "Mapping \<Rightarrow> bool" where
  "valid_mapping r \<longleftrightarrow> unat (virt_start r) < 2 ^ 48 \<and> unat (virt_end r) \<le> 2 ^ 48 \<and>
     4096 dvd unat (phys r) \<and> unat (phys r) < 2 ^ 52"

definition mapped_entry :: "Mapping \<Rightarrow> nat \<Rightarrow> u64" where
  "mapped_entry r q =
     (phys r + 4096 * word_of_nat (q - page_of (virt_start r))) OR page_attr_value (attr r)"

text \<open>Where a loop starts: at page \<open>pn\<close>, with the table of that page's path.\<close>

definition loop_pre :: "Mapping \<Rightarrow> u64 \<Rightarrow> nat \<Rightarrow> Machine \<Rightarrow> u64 \<Rightarrow> u64 \<Rightarrow> nat \<Rightarrow> bool" where
  "loop_pre r root level m t addr pn \<longleftrightarrow> wf_tables m root \<and>
     table_at (mem m) root (table_path level pn) = Some t \<and>
     page_of (virt_start r) \<le> pn \<and> pn < 512 ^ 4 \<and>
     unat addr = unat (virt_start r) + 4096 * (pn - page_of (virt_start r))"

text \<open>Where it ends: \<open>n\<close> pages later, with those pages mapped and everything else as before.\<close>

definition loop_post ::
  "Mapping \<Rightarrow> u64 \<Rightarrow> nat \<Rightarrow> Machine \<Rightarrow> u64 \<Rightarrow> nat \<Rightarrow> Machine \<Rightarrow> u64 \<Rightarrow> nat \<Rightarrow> bool" where
  "loop_post r root level m addr pn m' addr' n \<longleftrightarrow> 1 \<le> n \<and> extends m root m' \<and>
     unat addr' = unat addr + 4096 * n \<and>
     (\<forall>q < 512 ^ 4. leaf_entry (mem m') root q =
        (if pn \<le> q \<and> q < pn + n then mapped_entry r q else leaf_entry (mem m) root q)) \<and>
     (\<forall>k. 1 \<le> k \<and> k < n \<longrightarrow> unat addr + 4096 * k < unat (virt_end r)) \<and>
     (pn + n - 1) div 512 ^ level = pn div 512 ^ level \<and>
     (unat (virt_end r) \<le> unat addr' \<or> 512 ^ level dvd pn + n)"

definition loop_ok ::
  "Mapping \<Rightarrow> u64 \<Rightarrow> nat \<Rightarrow> Machine \<Rightarrow> u64 \<Rightarrow> nat \<Rightarrow> (Machine \<times> u64) res \<Rightarrow> bool" where
  "loop_ok r root level m addr pn out \<longleftrightarrow> out = panic ''memory allocation failed'' \<or>
     (\<exists>m' addr' n. out = Ok (m', addr') \<and> loop_post r root level m addr pn m' addr' n)"

lemma calc_index_eq:
  assumes "1 \<le> level"
  shows "calc_index level addr = page_of addr div 512 ^ (level - 1) mod 512"
proof -
  have "(0x1FF :: u64) = mask 9" by (simp add: mask_eq_exp_minus_1)
  then have "calc_index level addr = unat (take_bit 9 (drop_bit (index_shift level) addr))"
    by (simp add: calc_index_def take_bit_eq_mask)
  also have "\<dots> = unat addr div 2 ^ (12 + 9 * (level - 1)) mod 512"
    by (simp add: unat_take_bit unat_drop_bit index_shift_def add.commute mult.commute)
  also have "(2::nat) ^ (12 + 9 * (level - 1)) = 4096 * 512 ^ (level - 1)"
    by (simp add: power_add power_mult)
  finally show ?thesis by (simp add: page_of_def div_mult2_eq)
qed

lemma loop_pre_page:
  assumes "loop_pre r root level m t addr pn"
  shows "page_of addr = pn"
  using assms by (simp add: loop_pre_def page_of_def)

lemma table_path_cong:
  assumes "n div 512 ^ level = n' div 512 ^ level"
  shows "table_path level n = table_path level n'"
proof -
  have "n div 512 ^ l = n' div 512 ^ l" if "level \<le> l" for l
  proof -
    have "(512::nat) ^ l = 512 ^ level * 512 ^ (l - level)" using that by (simp flip: power_add)
    then show ?thesis using assms by (simp add: div_mult2_eq)
  qed
  then show ?thesis by (simp add: table_path_def)
qed

lemma page_eq_iff:
  assumes "q < 512 ^ 4" "n < 512 ^ 4"
  shows "table_path 1 q = table_path 1 n \<and> q mod 512 = n mod 512 \<longleftrightarrow> q = n"
proof
  assume eq: "table_path 1 q = table_path 1 n \<and> q mod 512 = n mod 512"
  from eq have e: "\<forall>l \<in> {1..<4}. q div 512 ^ l mod 512 = n div 512 ^ l mod 512" "q mod 512 = n mod 512"
    by (auto simp: table_path_def)
  from e(2) bspec [OF e(1), of 1] bspec [OF e(1), of 2] bspec [OF e(1), of 3] have d: "q div 512 mod 512 = n div 512 mod 512" "q div 512 ^ 2 mod 512 = n div 512 ^ 2 mod 512"
    "q div 512 ^ 3 mod 512 = n div 512 ^ 3 mod 512" "q mod 512 = n mod 512"
    by simp_all
  have s: "(512::nat) ^ 2 = 512 * 512" "(512::nat) ^ 3 = 512 * (512 * 512)" by simp_all
  have "x = x mod 512 + 512 * (x div 512 mod 512 + 512 * (x div 512 ^ 2 mod 512 + 512 * (x div 512 ^ 3 mod 512)))"
    if "x < 512 ^ 4" for x :: nat
    using that unfolding s div_mult2_eq by simp
  from this [OF assms(1)] this [OF assms(2)] d show "q = n" by metis
qed simp

lemma mult_4096: "unat (4096 * word_of_nat k :: u64) = 4096 * k" if "k < 512 ^ 4"
  using that by (simp add: unat_word_ariths unat_of_nat)

lemma pt_step:
  assumes r: "valid_mapping r" and pre: "loop_pre r root 1 m t addr pn"
  obtains m' where
    "set_page m (entry_addr t (pn mod 512)) (phys r + addr - virt_start r) (attr r) = Ok m'"
    "uadd (phys r) addr = Ok (phys r + addr)"
    "usub (phys r + addr) (virt_start r) = Ok (phys r + addr - virt_start r)"
    "extends m root m'" "unat (addr + PAGE_SIZE) = unat addr + 4096"
    "\<forall>q < 512 ^ 4. leaf_entry (mem m') root q =
       (if q = pn then mapped_entry r q else leaf_entry (mem m) root q)"
proof -
  let ?k = "pn - page_of (virt_start r)" and ?i = "pn mod 512"
  from pre have wf: "wf_tables m root" and t: "table_at (mem m) root (table_path 1 pn) = Some t"
    and pn: "pn < 512 ^ 4" and a: "unat addr = unat (virt_start r) + 4096 * ?k"
    by (auto simp: loop_pre_def)
  have ab: "unat addr < 2 ^ 48"
    using loop_pre_page [OF pre] pn by (simp add: page_of_def div_less_iff_less_mult)
  have ph: "4096 dvd unat (phys r)" "unat (phys r) < 2 ^ 52" using r by (auto simp: valid_mapping_def)
  have s: "unat (phys r) + unat addr < 2 ^ 64" using ab ph by simp
  have k: "?k < 512 ^ 4" using pn by simp
  have pe: "phys r + addr - virt_start r = phys r + 4096 * word_of_nat ?k"
  proof -
    have "addr = virt_start r + 4096 * word_of_nat ?k"
      using a ab by (simp add: word_unat_eq_iff unat_add_nowrap mult_4096 [OF k])
    then show ?thesis by simp
  qed
  have "unat (phys r + addr - virt_start r) = unat (phys r) + 4096 * ?k"
    unfolding pe using s a by (simp add: unat_add_nowrap mult_4096 [OF k])
  then have "4096 dvd unat (phys r + addr - virt_start r)" using ph(1) by simp
  then have al: "(phys r + addr - virt_start r) AND ATTR_MASK = 0"
    by (simp add: mask_eq aligned_take_bit flip: take_bit_eq_mask)
  define m' where "m' = m\<lparr>mem := (mem m)(entry_addr t ?i := mapped_entry r pn)\<rparr>"
  have vp: "valid_path (table_path 1 pn)" "length (table_path 1 pn) = 3" "?i < 512"
    by (simp_all add: valid_table_path length_table_path)
  note lw = leaf_write [OF wf vp(1,2) t vp(3), where v = "mapped_entry r pn", folded m'_def]
  have sp: "set_page m (entry_addr t ?i) (phys r + addr - virt_start r) (attr r) = Ok m'"
    using al by (simp add: set_page_def m'_def mapped_entry_def pe)
  have ua: "uadd (phys r) addr = Ok (phys r + addr)" using s by (simp add: uadd_eq_Ok)
  have us: "usub (phys r + addr) (virt_start r) = Ok (phys r + addr - virt_start r)"
    using s a by (simp add: usub_eq_Ok unat_add_nowrap)
  have ex: "extends m root m'" using lw(1,2) by (simp add: extends_def m'_def)
  have up: "unat (addr + PAGE_SIZE) = unat addr + 4096"
    using ab by (simp add: PAGE_SIZE_def unat_add_nowrap)
  have "leaf_entry (mem m') root q = (if q = pn then mapped_entry r q else leaf_entry (mem m) root q)"
    if q: "q < 512 ^ 4" for q
  proof -
    have vq: "valid_path (table_path 1 q)" "length (table_path 1 q) = 3" "q mod 512 < 512"
      by (simp_all add: valid_table_path length_table_path)
    show ?thesis
    proof (cases "table_at (mem m) root (table_path 1 q)")
      case None
      then have "q \<noteq> pn" using t by auto
      with None lw(1) [OF vq(1)] show ?thesis by (simp add: leaf_entry_def)
    next
      case (Some s)
      from lw(3) [OF vq(1,2) Some vq(3)] lw(1) [OF vq(1)] Some page_eq_iff [OF q pn] show ?thesis
        by (auto simp: leaf_entry_def)
    qed
  qed
  then show thesis using that [OF sp ua us ex up] by blast
qed

text \<open>
  One round of the loop at level \<open>l + 1\<close> is the loop at level \<open>l\<close> (or one leaf write, at level 0);
  it either ends the loop, or leads to the next index of the same table.
\<close>

lemma loop_post_boundary:
  assumes "loop_post r root l m addr pn m1 addr1 n1" "unat addr1 < unat (virt_end r) \<or> 512 ^ l dvd pn + n1"
  shows "pn + n1 = (pn div 512 ^ l + 1) * 512 ^ l"
proof -
  define b where "b = (512::nat) ^ l"
  have b: "0 < b" by (simp add: b_def)
  from assms have d: "b dvd pn + n1" "(pn + n1 - 1) div b = pn div b" "1 \<le> n1"
    by (auto simp: loop_post_def b_def)
  from d(1) obtain k where k: "pn + n1 = k * b" by (auto simp: dvd_def mult.commute)
  have "pn + n1 - 1 < (pn div b + 1) * b"
    using d(2) b by (metis Suc_eq_plus1 dividend_less_div_times mult_Suc)
  then have "k * b \<le> (pn div b + 1) * b" using k d(3) by linarith
  then have "k \<le> pn div b + 1" using b by (metis mult_le_cancel2)
  moreover have "pn div b * b < k * b"
    using k d(3) div_times_less_eq_dividend [of pn b] by linarith
  then have "pn div b < k" using b by (metis mult_less_cancel2)
  ultimately have "k = pn div b + 1" by simp
  with k show ?thesis by (simp add: b_def)
qed

lemma div_pow_Suc: "(x::nat) div 512 ^ Suc l = x div 512 ^ l div 512"
  by (simp add: mult.commute [of 512] div_mult2_eq)

lemma loop_exit:
  assumes p: "loop_post r root l m addr pn m1 addr1 n1"
    and ex: "512 \<le> pn div 512 ^ l mod 512 + 1 \<or> unat (virt_end r) \<le> unat addr1"
  shows "loop_post r root (Suc l) m addr pn m1 addr1 n1"
proof -
  have "(pn + n1 - 1) div 512 ^ Suc l = pn div 512 ^ Suc l"
    using p unfolding div_pow_Suc by (simp add: loop_post_def)
  moreover have "512 ^ Suc l dvd pn + n1" if "\<not> unat (virt_end r) \<le> unat addr1"
  proof -
    from that ex have "512 dvd pn div 512 ^ l + 1" by (auto simp: dvd_eq_mod_eq_0 mod_Suc)
    then have "512 ^ Suc l dvd (pn div 512 ^ l + 1) * 512 ^ l"
      unfolding power_Suc by (rule mult_dvd_mono) simp
    then show ?thesis using loop_post_boundary [OF p] that by simp
  qed
  ultimately show ?thesis using p by (auto simp: loop_post_def)
qed

lemma loop_next:
  assumes r: "valid_mapping r" and l: "Suc l \<le> 4"
    and pre: "loop_pre r root (Suc l) m t addr pn" and p: "loop_post r root l m addr pn m1 addr1 n1"
    and ex: "pn div 512 ^ l mod 512 + 1 < 512" "unat addr1 < unat (virt_end r)"
  shows "(pn + n1) div 512 ^ l mod 512 = pn div 512 ^ l mod 512 + 1"
    and "(pn + n1) div 512 ^ Suc l = pn div 512 ^ Suc l"
    and "loop_pre r root (Suc l) m1 t addr1 (pn + n1)"
proof -
  have "pn + n1 = (pn div 512 ^ l + 1) * 512 ^ l" using loop_post_boundary [OF p] ex(2) by simp
  then have d: "(pn + n1) div 512 ^ l = pn div 512 ^ l + 1" by simp
  then show "(pn + n1) div 512 ^ l mod 512 = pn div 512 ^ l mod 512 + 1"
    using ex(1) by (simp add: mod_Suc)
  show s: "(pn + n1) div 512 ^ Suc l = pn div 512 ^ Suc l"
    unfolding div_pow_Suc d using ex(1) by (auto simp: div_Suc mod_Suc split: if_splits)
  have "512 ^ 4 = 512 ^ Suc l * (512::nat) ^ (4 - Suc l)" using l by (simp flip: power_add power_Suc)
  then have "(pn + n1) div 512 ^ 4 = pn div 512 ^ 4" using s by (simp only: div_mult2_eq)
  moreover have "pn div 512 ^ 4 = 0" using pre by (simp add: loop_pre_def)
  ultimately have "pn + n1 < 512 ^ 4" by (simp add: div_eq_0_iff)
  with pre p table_path_cong [OF s] valid_table_path [of "Suc l" pn]
  show "loop_pre r root (Suc l) m1 t addr1 (pn + n1)"
    by (auto simp: loop_pre_def loop_post_def extends_def algebra_simps)
qed

lemma loop_compose:
  assumes p: "loop_post r root l m addr pn m1 addr1 n1" and lt: "unat addr1 < unat (virt_end r)"
    and s: "(pn + n1) div 512 ^ l' = pn div 512 ^ l'"
    and q: "loop_post r root l' m1 addr1 (pn + n1) m2 addr2 n2"
  shows "loop_post r root l' m addr pn m2 addr2 (n1 + n2)"
proof -
  have "unat addr + 4096 * k < unat (virt_end r)" if k: "1 \<le> k" "k < n1 + n2" for k
  proof -
    consider "k < n1" | "k = n1" | "n1 < k" by linarith
    then show ?thesis
    proof cases
      case 3
      with k have "1 \<le> k - n1 \<and> k - n1 < n2" by linarith
      then have "unat addr1 + 4096 * (k - n1) < unat (virt_end r)"
        using q unfolding loop_post_def by blast
      then show ?thesis using p 3 by (simp add: loop_post_def algebra_simps)
    qed (use k p lt in \<open>auto simp: loop_post_def\<close>)
  qed
  moreover have "extends m root m2" using p q extends_trans unfolding loop_post_def by blast
  moreover have "leaf_entry (mem m2) root q =
      (if pn \<le> q \<and> q < pn + (n1 + n2) then mapped_entry r q else leaf_entry (mem m) root q)"
    if "q < 512 ^ 4" for q
  proof -
    have "leaf_entry (mem m2) root q =
      (if pn + n1 \<le> q \<and> q < pn + n1 + n2 then mapped_entry r q else leaf_entry (mem m1) root q)"
      "leaf_entry (mem m1) root q =
      (if pn \<le> q \<and> q < pn + n1 then mapped_entry r q else leaf_entry (mem m) root q)"
      using p q that unfolding loop_post_def by blast+
    then show ?thesis by auto
  qed
  moreover have "(pn + (n1 + n2) - 1) div 512 ^ l' = pn div 512 ^ l'"
    using q s by (simp add: loop_post_def add.assoc)
  moreover have "1 \<le> n1 + n2" "unat addr2 = unat addr + 4096 * (n1 + n2)"
    "unat (virt_end r) \<le> unat addr2 \<or> 512 ^ l' dvd pn + (n1 + n2)"
    using p q by (auto simp: loop_post_def add.assoc)
  ultimately show ?thesis unfolding loop_post_def by blast
qed

lemma loop_ok_compose:
  assumes "loop_post r root l m addr pn m1 addr1 n1" "unat addr1 < unat (virt_end r)"
    and "(pn + n1) div 512 ^ l' = pn div 512 ^ l'" and "loop_ok r root l' m1 addr1 (pn + n1) out"
  shows "loop_ok r root l' m addr pn out"
  using assms(4) loop_compose [OF assms(1-3)] unfolding loop_ok_def by blast

lemma pt_loop_ok:
  assumes r: "valid_mapping r"
  shows "loop_pre r root 1 m t addr pn \<Longrightarrow> 512 \<le> fuel + pn mod 512 \<Longrightarrow>
    loop_ok r root 1 m addr pn (pt_loop fuel r m t addr)"
proof (induction fuel arbitrary: m addr pn)
  case 0
  then show ?case by simp
next
  case (Suc fuel)
  note pre = Suc.prems(1)
  from pt_step [OF r pre] obtain m' where st:
    "set_page m (entry_addr t (pn mod 512)) (phys r + addr - virt_start r) (attr r) = Ok m'"
    "uadd (phys r) addr = Ok (phys r + addr)"
    "usub (phys r + addr) (virt_start r) = Ok (phys r + addr - virt_start r)"
    "extends m root m'" "unat (addr + PAGE_SIZE) = unat addr + 4096"
    "\<forall>q < 512 ^ 4. leaf_entry (mem m') root q =
       (if q = pn then mapped_entry r q else leaf_entry (mem m) root q)" .
  have ix: "calc_index 1 addr = pn mod 512" using loop_pre_page [OF pre] by (simp add: calc_index_eq)
  have p: "loop_post r root 0 m addr pn m' (addr + PAGE_SIZE) 1"
    using st(4-6) by (auto simp: loop_post_def)
  show ?case
  proof (cases "512 \<le> pn mod 512 + 1 \<or> virt_end r \<le> addr + PAGE_SIZE")
    case True
    then have "pt_loop (Suc fuel) r m t addr = Ok (m', addr + PAGE_SIZE)"
      using st(1-3) ix by simp
    with loop_exit [OF p] True show ?thesis by (auto simp: loop_ok_def word_le_nat_alt)
  next
    case False
    then have ex: "pn div 512 ^ 0 mod 512 + 1 < 512" "unat (addr + PAGE_SIZE) < unat (virt_end r)"
      by (auto simp: word_le_nat_alt)
    have step: "pt_loop (Suc fuel) r m t addr = pt_loop fuel r m' t (addr + PAGE_SIZE)"
      using st(1-3) ix False by simp
    note nx = loop_next [OF r, of 0, simplified, OF pre [simplified] p ex [simplified]]
    show ?thesis
      unfolding step
      by (rule loop_ok_compose [OF p ex(2)])
         (use nx Suc.IH [of m' "addr + PAGE_SIZE" "pn + 1"] Suc.prems(2) in simp_all)
  qed
qed

lemma table_loop_ok:
  assumes r: "valid_mapping r" and l: "1 \<le> l" "Suc l \<le> 4"
    and inner: "\<And>m t addr pn. loop_pre r root l m t addr pn \<Longrightarrow> loop_ok r root l m addr pn
      (if Suc l \<le> 2 then pt_loop 512 r m t addr else table_loop l 512 r m t addr)"
  shows "loop_pre r root (Suc l) m t addr pn \<Longrightarrow> 512 \<le> fuel + pn div 512 ^ l mod 512 \<Longrightarrow>
    loop_ok r root (Suc l) m addr pn (table_loop (Suc l) fuel r m t addr)"
proof (induction fuel arbitrary: m addr pn)
  case 0
  then show ?case by simp
next
  case (Suc fuel)
  let ?i = "pn div 512 ^ l mod 512"
  note pre = Suc.prems(1)
  have ix: "calc_index (Suc l) addr = ?i" using loop_pre_page [OF pre] by (simp add: calc_index_eq)
  have tp: "table_path l pn = table_path (Suc l) pn @ [?i]" using l(2) by (intro table_path_snoc) simp
  then have vp: "valid_path (table_path (Suc l) pn @ [?i])" using valid_table_path [OF l(1), of pn] by simp
  from pre have wf: "wf_tables m root" "table_at (mem m) root (table_path (Suc l) pn) = Some t"
    by (auto simp: loop_pre_def)
  show ?case
  proof (rule ensure_populated_step [OF wf(1) vp wf(2)])
    assume "ensure_populated m (entry_addr t ?i) = panic ''memory allocation failed''"
    then show ?thesis by (simp add: loop_ok_def ix)
  next
    fix m0 nt
    assume e: "ensure_populated m (entry_addr t ?i) = Ok m0" "extends m root m0"
      "entry_table (mem m0 (entry_addr t ?i)) = Ok nt"
      "table_at (mem m0) root (table_path (Suc l) pn @ [?i]) = Some nt"
      "leaf_entry (mem m0) root = leaf_entry (mem m) root"
    define out where "out = (if Suc l \<le> 2 then pt_loop 512 r m0 nt addr else table_loop l 512 r m0 nt addr)"
    have "loop_pre r root l m0 nt addr pn"
      using pre e tp by (simp add: loop_pre_def extends_def)
    from inner [OF this] have out: "loop_ok r root l m0 addr pn out" by (simp add: out_def)
    have whole: "loop_post r root l m addr pn m1 addr1 n1"
      if "loop_post r root l m0 addr pn m1 addr1 n1" for m1 addr1 n1
    proof -
      have "extends m root m1" using that e(2) extends_trans unfolding loop_post_def by blast
      with that show ?thesis unfolding loop_post_def e(5) by blast
    qed
    have unf: "table_loop (Suc l) (Suc fuel) r m t addr = rbind out (\<lambda>(m2, addr').
        if 512 \<le> ?i + 1 \<or> virt_end r \<le> addr' then Ok (m2, addr')
        else table_loop (Suc l) fuel r m2 t addr')"
      using e(1,3) by (simp add: ix out_def Let_def)
    from out consider "out = panic ''memory allocation failed''"
      | m1 addr1 n1 where "out = Ok (m1, addr1)" "loop_post r root l m addr pn m1 addr1 n1"
      using whole unfolding loop_ok_def by blast
    then show ?thesis
    proof cases
      case 1
      then show ?thesis unfolding unf by (simp add: loop_ok_def)
    next
      case 2
      note p = 2(2)
      show ?thesis
      proof (cases "512 \<le> ?i + 1 \<or> virt_end r \<le> addr1")
        case True
        then have "table_loop (Suc l) (Suc fuel) r m t addr = Ok (m1, addr1)"
          unfolding unf 2(1) by simp
        with loop_exit [OF p] True show ?thesis unfolding loop_ok_def word_le_nat_alt by blast
      next
        case False
        then have ex: "?i + 1 < 512" "unat addr1 < unat (virt_end r)"
          by (auto simp: word_le_nat_alt)
        have step: "table_loop (Suc l) (Suc fuel) r m t addr = table_loop (Suc l) fuel r m1 t addr1"
          unfolding unf 2(1) using False by simp
        note nx = loop_next [OF r l(2) pre p ex]
        show ?thesis
          unfolding step
          by (rule loop_ok_compose [OF p ex(2) nx(2)], rule Suc.IH [OF nx(3)])
             (use nx(1) Suc.prems(2) in simp)
      qed
    qed
  qed
qed

lemma table_loop_4_ok:
  assumes r: "valid_mapping r" and pre: "loop_pre r root 4 m t addr pn"
  shows "loop_ok r root 4 m addr pn (table_loop 4 512 r m t addr)"
proof -
  have 1: "loop_pre r root 1 m t addr pn \<Longrightarrow> loop_ok r root 1 m addr pn (pt_loop 512 r m t addr)"
    for m t addr pn using pt_loop_ok [OF r] by simp
  have 2: "loop_pre r root 2 m t addr pn \<Longrightarrow> loop_ok r root 2 m addr pn (table_loop 2 512 r m t addr)"
    for m t addr pn using table_loop_ok [OF r, of 1 root m t addr pn 512] 1
    by (simp add: numeral_2_eq_2 [symmetric] del: pt_loop.simps)
  have 3: "loop_pre r root 3 m t addr pn \<Longrightarrow> loop_ok r root 3 m addr pn (table_loop 3 512 r m t addr)"
    for m t addr pn using table_loop_ok [OF r, of 2 root m t addr pn 512] 2 by simp
  show ?thesis using table_loop_ok [OF r, of 3 root m t addr pn 512] 3 pre by simp
qed

lemma table_loop_rejects:
  assumes l: "1 \<le> l" "Suc l \<le> 4" and pre: "loop_pre r root (Suc l) m t addr pn"
    and inner: "\<And>m t. loop_pre r root l m t addr pn \<Longrightarrow>
      (if Suc l \<le> 2 then pt_loop 512 r m t addr else table_loop l 512 r m t addr) \<in> F"
    and F: "panic ''memory allocation failed'' \<in> F" "F \<subseteq> range Inl"
  shows "table_loop (Suc l) (Suc fuel) r m t addr \<in> F"
proof -
  let ?i = "pn div 512 ^ l mod 512"
  have ix: "calc_index (Suc l) addr = ?i" using loop_pre_page [OF pre] by (simp add: calc_index_eq)
  have tp: "table_path l pn = table_path (Suc l) pn @ [?i]" using l(2) by (intro table_path_snoc) simp
  then have vp: "valid_path (table_path (Suc l) pn @ [?i])" using valid_table_path [OF l(1), of pn] by simp
  from pre have wf: "wf_tables m root" "table_at (mem m) root (table_path (Suc l) pn) = Some t"
    by (auto simp: loop_pre_def)
  show ?thesis
  proof (rule ensure_populated_step [OF wf(1) vp wf(2)])
    assume "ensure_populated m (entry_addr t ?i) = panic ''memory allocation failed''"
    then show ?thesis using F(1) by (simp add: ix)
  next
    fix m0 nt
    assume e: "ensure_populated m (entry_addr t ?i) = Ok m0" "extends m root m0"
      "entry_table (mem m0 (entry_addr t ?i)) = Ok nt"
      "table_at (mem m0) root (table_path (Suc l) pn @ [?i]) = Some nt"
    have "loop_pre r root l m0 nt addr pn"
      using pre e tp by (simp add: loop_pre_def extends_def)
    note mem = inner [OF this]
    from subsetD [OF F(2) mem] obtain f where
      f: "(if Suc l \<le> 2 then pt_loop 512 r m0 nt addr else table_loop l 512 r m0 nt addr) = Inl f"
      by (rule rangeE)
    have "table_loop (Suc l) (Suc fuel) r m t addr = Inl f"
      using e(1,3) f by (cases "l \<le> 1") (simp_all add: ix Let_def)
    with mem f show ?thesis by simp
  qed
qed

lemma create_mapping_pre:
  assumes "wf_tables m root" "unat (virt_start r) < 2 ^ 48"
  shows "loop_pre r root 4 m root (virt_start r) (page_of (virt_start r))"
  using assms by (simp add: loop_pre_def table_path_4 page_of_def div_less_iff_less_mult)

section \<open>The tables the properties are exercised on\<close>

text \<open>An empty root table at \<open>0x2000\<close>, inside an allocated block of a heap.\<close>

definition root_only :: Machine where
  "root_only = \<lparr> mem = (\<lambda>_. 0), heap = \<lparr> headers = [0x1000 \<mapsto> \<lparr> next_header = None,
     hdr_size = 0x4000, is_allocated = True, header_reserved = 0 \<rparr>], first_header = Some 0x1000 \<rparr> \<rparr>"

lemma table_at_zero: "table_at (\<lambda>_. 0) root p = Some t \<longleftrightarrow> p = [] \<and> t = root"
  by (cases p) (auto simp: is_present_def)

lemma root_only_wf: "wf_tables root_only 0x2000"
proof -
  have r: "heap_repr (heap root_only) [Chunk 0x1000 0x4000 True]"
    by (simp add: heap_repr_def root_only_def wf_chunk_def)
  then have "used_bytes (heap root_only) = {0x1000 ..< 0x5000}" by (simp add: used_bytes_eq)
  with r show ?thesis
    by (auto simp: wf_tables_def heap_ok_def root_only_def table_at_zero)
qed

section \<open>Properties\<close>

lemma create_mapping_leaves:
  assumes "wf_tables m root" and "valid_mapping r"
  shows "create_mapping m root r = panic ''memory allocation failed'' \<or>
    (\<exists>m'. create_mapping m root r = Ok m' \<and> wf_tables m' root \<and> used_bytes (heap m) \<subseteq> used_bytes (heap m') \<and>
       (\<forall>q < 512 ^ 4. leaf_entry (mem m') root q =
          (if page_of (virt_start r) \<le> q \<and> q < page_of (virt_start r) +
                max 1 ((unat (virt_end r) - unat (virt_start r) + 4095) div 4096)
           then mapped_entry r q else leaf_entry (mem m) root q)))"
proof -
  let ?vs = "unat (virt_start r)" and ?ve = "unat (virt_end r)" and ?p = "page_of (virt_start r)"
  from assms(2) have b: "?vs < 2 ^ 48" "?ve \<le> 2 ^ 48" by (auto simp: valid_mapping_def)
  from table_loop_4_ok [OF assms(2) create_mapping_pre [OF assms(1) b(1)]]
  consider "table_loop 4 512 r m root (virt_start r) = panic ''memory allocation failed''"
    | m' addr' n where "table_loop 4 512 r m root (virt_start r) = Ok (m', addr')"
        "loop_post r root 4 m (virt_start r) ?p m' addr' n"
    unfolding loop_ok_def by blast
  then show ?thesis
  proof cases
    case 1
    then show ?thesis by (simp add: create_mapping_def)
  next
    case 2
    then have n: "1 \<le> n" "unat addr' = ?vs + 4096 * n" "(?p + n - 1) div 512 ^ 4 = ?p div 512 ^ 4"
      "?ve \<le> unat addr' \<or> 512 ^ 4 dvd ?p + n" "\<forall>k. 1 \<le> k \<and> k < n \<longrightarrow> ?vs + 4096 * k < ?ve"
      unfolding loop_post_def by blast+
    have end_reached: "?ve \<le> ?vs + 4096 * n"
    proof (cases "512 ^ 4 dvd ?p + n")
      case True
      then have "512 ^ 4 \<le> ?p + n" using n(1) by (intro dvd_imp_le) auto
      then have "4096 * 512 ^ 4 \<le> 4096 * ?p + 4096 * n" by linarith
      moreover have "4096 * ?p \<le> ?vs" unfolding page_of_def by (rule times_div_less_eq_dividend)
      ultimately show ?thesis using b(2) by simp
    next
      case False
      then show ?thesis using n(2,4) by simp
    qed
    have "max 1 ((?ve - ?vs + 4095) div 4096) = n"
    proof (cases "n = 1")
      case True
      with end_reached have "(?ve - ?vs + 4095) div 4096 \<le> 1" by simp
      with True show ?thesis by simp
    next
      case False
      then have "?vs + 4096 * (n - 1) < ?ve" using n(1,5) by auto
      with end_reached n(1) have "(?ve - ?vs + 4095) div 4096 = n" by (intro div_nat_eqI) auto
      with n(1) show ?thesis by simp
    qed
    with 2 show ?thesis by (simp add: create_mapping_def loop_post_def extends_def)
  qed
qed


definition sample_mapping :: Mapping where
  "sample_mapping = \<lparr> virt_start = 0, virt_end = 0x2000, phys = 0x100000, attr = ReadWriteKernel \<rparr>"


text \<open>
  a mapping to physical memory that is not page-aligned is refused with \<open>phys is not aligned\<close>
  (or panics for want of a table page before it gets there).
\<close>

lemma create_mapping_unaligned:
  assumes "wf_tables m root" and "unat (virt_start r) < 2 ^ 48" and "unat (phys r) < 2 ^ 52"
    and "\<not> 4096 dvd unat (phys r)"
  shows "create_mapping m root r = err ''phys is not aligned'' \<or>
    create_mapping m root r = panic ''memory allocation failed''"
proof -
  let ?F = "{err ''phys is not aligned'', panic ''memory allocation failed''} :: (Machine \<times> u64) res set"
  let ?a = "virt_start r" and ?p = "page_of (virt_start r)"
  have F: "panic ''memory allocation failed'' \<in> ?F" "?F \<subseteq> range Inl" by auto
  have u: "uadd (phys r) ?a = Ok (phys r + ?a)" using assms(2,3) by (simp add: uadd_eq_Ok)
  have v: "usub (phys r + ?a) ?a = Ok (phys r)"
    using assms(2,3) by (simp add: usub_eq_Ok unat_add_nowrap)
  have na: "phys r AND ATTR_MASK \<noteq> 0"
    using assms(4) by (simp add: mask_eq aligned_take_bit flip: take_bit_eq_mask)
  have 1: "pt_loop 512 r m t ?a \<in> ?F" for m t
    using u v na by (simp add: pt_loop.simps(2) [of 511, simplified] set_page_def)
  have 2: "loop_pre r root 2 m t ?a ?p \<Longrightarrow> table_loop 2 512 r m t ?a \<in> ?F" for m t
    using table_loop_rejects [of 1 r root m t ?a ?p ?F 511] 1 F by (simp add: numeral_2_eq_2 [symmetric])
  have 3: "loop_pre r root 3 m t ?a ?p \<Longrightarrow> table_loop 3 512 r m t ?a \<in> ?F" for m t
    using table_loop_rejects [of 2 r root m t ?a ?p ?F 511] 2 F by simp
  have "table_loop 4 512 r m root ?a \<in> ?F"
    using table_loop_rejects [of 3 r root m root ?a ?p ?F 511] 3 F
      create_mapping_pre [OF assms(1,2)] by simp
  then show ?thesis by (auto simp: create_mapping_def)
qed

text \<open>
  a new PML4 is a well-formed root that maps nothing, in a page that nothing else uses.
\<close>

lemma PML4_new_empty:
  assumes "heap_ok (heap m)"
  shows "PML4_new m = panic ''memory allocation failed'' \<or>
    (\<exists>root m'. PML4_new m = Ok (root, m') \<and> wf_tables m' root \<and>
       (\<forall>q. leaf_entry (mem m') root q = 0) \<and>
       {unat root ..< unat root + 4096} \<inter> used_bytes (heap m) = {})"
  using assms
proof (cases rule: box_zeroed_page_cases)
  case 1
  then show ?thesis by (simp add: PML4_new_def)
next
  case (2 root m')
  have z: "mem m' (entry_addr root i) = 0" if "i < 512" for i
    using entry_addr_page [OF 2(4) that] by (simp add: 2(7))
  have tab: "table_at (mem m') root p = Some t \<longleftrightarrow> p = [] \<and> t = root" if "valid_path p" for p t
    using that z by (cases p) (auto simp: valid_path_def is_present_def)
  have "wf_tables m' root"
    unfolding wf_tables_def using 2(3,4,6) tab by auto
  moreover have "leaf_entry (mem m') root q = 0" for q
    using tab [OF valid_table_path [of 1 q]]
    by (cases "table_at (mem m') root (table_path 1 q)")
       (auto simp: leaf_entry_def length_table_path dest!: arg_cong [where f = length])
  ultimately show ?thesis using 2(1,6) unfolding PML4_new_def by blast
qed

end
