(* ===== verification/Trb_Ring.thy ===== *)
theory Trb_Ring
  imports Bit_Fields
begin

text \<open>
  The transfer request blocks and rings of \<open>src/xhci.rs\<close>: \<open>GenericTrbEntry\<close>, \<open>TrbRing\<close>,
  \<open>CommandRing\<close> (also used for transfers), \<open>EventRing\<close>, the waiters of \<open>EventFuture\<close>, and the TRBs
  of a control transfer. A ring lies in memory the controller reads and writes by DMA; its state is
  the list of its sixteen blocks, the index and the address of the first block. Every access to a
  bit field goes through \<open>Volatile::read_bits\<close> and \<open>write_bits\<close>, whose contract is the
  interpretation \<open>vol\<close>.
\<close>

section \<open>GenericTrbEntry\<close>

datatype TrbType =
    Normal | SetupStage | DataStage | StatusStage | Link | EnableSlotCommand
  | AddressDeviceCommand | ConfigureEndpointCommand | EvaluateContextCommand | NoOpCommand
  | TransferEvent | CommandCompletionEvent | PortStatusChangeEvent | HostControllerEvent

fun trb_type_value :: "TrbType \<Rightarrow> u32" where
  "trb_type_value Normal = 1"
| "trb_type_value SetupStage = 2"
| "trb_type_value DataStage = 3"
| "trb_type_value StatusStage = 4"
| "trb_type_value Link = 6"
| "trb_type_value EnableSlotCommand = 9"
| "trb_type_value AddressDeviceCommand = 11"
| "trb_type_value ConfigureEndpointCommand = 12"
| "trb_type_value EvaluateContextCommand = 13"
| "trb_type_value NoOpCommand = 23"
| "trb_type_value TransferEvent = 32"
| "trb_type_value CommandCompletionEvent = 33"
| "trb_type_value PortStatusChangeEvent = 34"
| "trb_type_value HostControllerEvent = 37"

record GenericTrbEntry =
  trb_data :: u64
  trb_option :: u32
  trb_control :: u32

definition default_trb :: GenericTrbEntry where
  "default_trb = \<lparr> trb_data = 0, trb_option = 0, trb_control = 0 \<rparr>"

definition CTRL_BIT_INTERRUPT_ON_SHORT_PACKET :: u32 where
  "CTRL_BIT_INTERRUPT_ON_SHORT_PACKET = push_bit 2 1"

definition CTRL_BIT_INTERRUPT_ON_COMPLETION :: u32 where
  "CTRL_BIT_INTERRUPT_ON_COMPLETION = push_bit 5 1"

definition CTRL_BIT_IMMEDIATE_DATA :: u32 where
  "CTRL_BIT_IMMEDIATE_DATA = push_bit 6 1"

definition CTRL_BIT_DATA_DIR_IN :: u32 where
  "CTRL_BIT_DATA_DIR_IN = push_bit 16 1"

text \<open>A write to a field of \<open>control\<close>, unwrapped.\<close>

definition write_control :: "GenericTrbEntry \<Rightarrow> nat \<Rightarrow> nat \<Rightarrow> u32 \<Rightarrow> GenericTrbEntry res" where
  "write_control t s w v =
     rbind (expect (write_bits (trb_control t) s w v) ''called unwrap on an Err value'')
       (\<lambda>c. Ok (t\<lparr>trb_control := c\<rparr>))"

definition set_trb_type :: "GenericTrbEntry \<Rightarrow> TrbType \<Rightarrow> GenericTrbEntry res" where
  "set_trb_type t ty = write_control t 10 6 (trb_type_value ty)"

definition set_cycle_state :: "GenericTrbEntry \<Rightarrow> bool \<Rightarrow> GenericTrbEntry res" where
  "set_cycle_state t cycle = write_control t 0 1 (of_bool cycle)"

definition set_toggle_cycle :: "GenericTrbEntry \<Rightarrow> bool \<Rightarrow> GenericTrbEntry res" where
  "set_toggle_cycle t v = write_control t 1 1 (of_bool v)"

definition set_slot_id :: "GenericTrbEntry \<Rightarrow> u8 \<Rightarrow> GenericTrbEntry res" where
  "set_slot_id t slot = write_control t 24 8 (ucast slot)"

definition slot_id :: "GenericTrbEntry \<Rightarrow> u8 res" where
  "slot_id t = rbind (read_bits (trb_control t) 24 8) (\<lambda>v.
     if unat v < 256 then Ok (ucast v) else panic ''called unwrap on an Err value'')"

definition trb_type :: "GenericTrbEntry \<Rightarrow> u32 res" where
  "trb_type t = read_bits (trb_control t) 10 6"

definition cycle_state :: "GenericTrbEntry \<Rightarrow> bool res" where
  "cycle_state t = rbind (read_bits (trb_control t) 0 1) (\<lambda>v. Ok (v \<noteq> 0))"

definition completion_code :: "GenericTrbEntry \<Rightarrow> u32 res" where
  "completion_code t = read_bits (trb_option t) 24 8"

definition cmd_enable_slot :: "GenericTrbEntry res" where
  "cmd_enable_slot = set_trb_type default_trb EnableSlotCommand"

definition cmd_address_device :: "u64 \<Rightarrow> u8 \<Rightarrow> GenericTrbEntry res" where
  "cmd_address_device input_context slot =
     rbind (set_trb_type default_trb AddressDeviceCommand) (\<lambda>t.
       set_slot_id (t\<lparr>trb_data := input_context\<rparr>) slot)"

definition cmd_result_ok :: "GenericTrbEntry \<Rightarrow> unit res" where
  "cmd_result_ok t =
     rbind (trb_type t) (\<lambda>ty.
       if ty \<noteq> trb_type_value CommandCompletionEvent then err ''Not a CommandCompletionEvent''
       else rbind (completion_code t) (\<lambda>c.
         if c \<noteq> 1 then err ''CompletionCode was not Success'' else Ok ()))"

definition transfer_result_ok :: "GenericTrbEntry \<Rightarrow> unit res" where
  "transfer_result_ok t =
     rbind (trb_type t) (\<lambda>ty.
       if ty \<noteq> trb_type_value TransferEvent then err ''Not a TransferEvent''
       else rbind (completion_code t) (\<lambda>c.
         if c \<noteq> 1 \<and> c \<noteq> 13 then err ''CompletionCode was not Success'' else Ok ()))"

section \<open>TrbRing\<close>

record TrbRing =
  ring_addr :: u64
  trb :: "GenericTrbEntry list"
  current_index :: nat

definition NUM_TRB :: nat where
  "NUM_TRB = 16"

text \<open>\<open>IoBox::new\<close> zeroes the page it allocates at \<open>addr\<close>.\<close>

definition TrbRing_new :: "u64 \<Rightarrow> TrbRing" where
  "TrbRing_new addr = \<lparr> ring_addr = addr, trb = replicate NUM_TRB default_trb, current_index = 0 \<rparr>"

definition trb_link :: "TrbRing \<Rightarrow> GenericTrbEntry res" where
  "trb_link ring =
     rbind (set_trb_type default_trb Link) (\<lambda>t.
       set_toggle_cycle (t\<lparr>trb_data := ring_addr ring\<rparr>) True)"

definition ring_write :: "TrbRing \<Rightarrow> nat \<Rightarrow> GenericTrbEntry \<Rightarrow> TrbRing res" where
  "ring_write ring index t =
     (if index < length (trb ring) then Ok (ring\<lparr>trb := (trb ring)[index := t]\<rparr>)
      else err ''TrbRing Out of Range'')"

definition ring_trb :: "TrbRing \<Rightarrow> nat \<Rightarrow> GenericTrbEntry res" where
  "ring_trb ring index =
     (if index < length (trb ring) then Ok (trb ring ! index) else panic ''index out of bounds'')"

definition current :: "TrbRing \<Rightarrow> GenericTrbEntry res" where
  "current ring = ring_trb ring (current_index ring)"

definition current_ptr :: "TrbRing \<Rightarrow> u64 res" where
  "current_ptr ring =
     (if current_index ring < length (trb ring)
      then Ok (ring_addr ring + 16 * word_of_nat (current_index ring))
      else panic ''index out of bounds'')"

definition next_index :: "TrbRing \<Rightarrow> nat" where
  "next_index ring = (current_index ring + 1) mod length (trb ring)"

definition advance_index_notoggle :: "TrbRing \<Rightarrow> bool \<Rightarrow> TrbRing res" where
  "advance_index_notoggle ring cycle_ours =
     rbind (current ring) (\<lambda>t. rbind (cycle_state t) (\<lambda>c.
       if c \<noteq> cycle_ours then err ''cycle state mismatch''
       else Ok (ring\<lparr>current_index := next_index ring\<rparr>)))"

definition advance_index :: "TrbRing \<Rightarrow> bool \<Rightarrow> TrbRing res" where
  "advance_index ring new_cycle =
     rbind (current ring) (\<lambda>t. rbind (cycle_state t) (\<lambda>c.
       if c = new_cycle then err ''cycle state does not change''
       else rbind (set_cycle_state t new_cycle) (\<lambda>t'.
         Ok (ring\<lparr>trb := (trb ring)[current_index ring := t'], current_index := next_index ring\<rparr>))))"

definition write_current :: "TrbRing \<Rightarrow> GenericTrbEntry \<Rightarrow> TrbRing res" where
  "write_current ring t =
     expect (ring_write ring (current_index ring) t)
       ''writing to the current index shall not fail''"

section \<open>CommandRing\<close>

record CommandRing =
  cmd_ring :: TrbRing
  cmd_cycle_state_ours :: bool

definition CommandRing_default :: "u64 \<Rightarrow> CommandRing res" where
  "CommandRing_default addr =
     (let ring = TrbRing_new addr in
      rbind (trb_link ring) (\<lambda>l.
      rbind (expect (ring_write ring (NUM_TRB - 1) l) ''failed to write a link trb'') (\<lambda>ring'.
        Ok \<lparr> cmd_ring = ring', cmd_cycle_state_ours = False \<rparr>)))"

definition cmd_push :: "CommandRing \<Rightarrow> GenericTrbEntry \<Rightarrow> (u64 \<times> CommandRing) res" where
  "cmd_push self src =
     (let ring = cmd_ring self; ours = cmd_cycle_state_ours self in
      rbind (current ring) (\<lambda>t. rbind (cycle_state t) (\<lambda>c.
      if c \<noteq> ours then err ''Command Ring is Full''
      else
        rbind (set_cycle_state src ours) (\<lambda>src'.
        rbind (current_ptr ring) (\<lambda>dst_ptr.
        rbind (write_current ring src') (\<lambda>ring1.
        rbind (advance_index ring1 (\<not> ours)) (\<lambda>ring2.
        rbind (current ring2) (\<lambda>t2. rbind (trb_type t2) (\<lambda>ty.
        if ty = trb_type_value Link
        then rbind (advance_index ring2 (\<not> ours)) (\<lambda>ring3.
               Ok (dst_ptr, \<lparr> cmd_ring = ring3, cmd_cycle_state_ours = (\<not> ours) \<rparr>))
        else Ok (dst_ptr, self\<lparr>cmd_ring := ring2\<rparr>))))))))))"

section \<open>EventRing and its waiters\<close>

record EventWaitCond =
  cond_trb_type :: "TrbType option"
  cond_trb_addr :: "u64 option"
  cond_slot :: "u8 option"

record EventWaitInfo =
  wait_cond :: EventWaitCond
  wait_trbs :: "GenericTrbEntry list"

text \<open>
  The futures own their \<open>EventWaitInfo\<close> by \<open>Rc\<close>; the event ring holds \<open>Weak\<close> references in its
  \<open>wait_list\<close>. A reference is an identifier, and upgrading it looks it up among the waiters that
  are still owned. \<open>erdp\<close> is the content of the register whose address \<open>set_erdp\<close> stores.
\<close>

record EventRing =
  ev_ring :: TrbRing
  ev_cycle_state_ours :: bool
  erdp :: "u64 option"
  wait_list :: "nat list"
  waiters :: "nat \<rightharpoonup> EventWaitInfo"

record EventRingSegmentTableEntry =
  ring_segment_base_address :: u64
  ring_segment_size :: u16

definition ERST_new :: "TrbRing \<Rightarrow> EventRingSegmentTableEntry res" where
  "ERST_new ring =
     (if NUM_TRB < 2 ^ 16
      then Ok \<lparr> ring_segment_base_address = ring_addr ring, ring_segment_size = word_of_nat NUM_TRB \<rparr>
      else err ''Too large num trbs'')"

definition EventRing_new :: "u64 \<Rightarrow> EventRing res" where
  "EventRing_new addr =
     (let ring = TrbRing_new addr in
      rbind (ERST_new ring) (\<lambda>_.
        Ok \<lparr> ev_ring = ring, ev_cycle_state_ours = True, erdp = None, wait_list = [],
             waiters = Map.empty \<rparr>))"

definition set_erdp :: "EventRing \<Rightarrow> u64 \<Rightarrow> EventRing" where
  "set_erdp self reg = self\<lparr>erdp := Some reg\<rparr>"

definition has_next_event :: "EventRing \<Rightarrow> bool res" where
  "has_next_event self =
     rbind (current (ev_ring self)) (\<lambda>t. rbind (cycle_state t) (\<lambda>c.
       Ok (c = ev_cycle_state_ours self)))"

definition ev_pop :: "EventRing \<Rightarrow> (GenericTrbEntry option \<times> EventRing) res" where
  "ev_pop self =
     rbind (has_next_event self) (\<lambda>b.
     if \<not> b then Ok (None, self)
     else
       rbind (current (ev_ring self)) (\<lambda>e.
       rbind (current_ptr (ev_ring self)) (\<lambda>eptr.
       rbind (advance_index_notoggle (ev_ring self) (ev_cycle_state_ours self)) (\<lambda>ring'.
       case erdp self of None \<Rightarrow> panic ''erdp is not set''
       | Some reg \<Rightarrow>
           Ok (Some e, self\<lparr>ev_ring := ring', erdp := Some (eptr OR (reg AND 0xF)),
             ev_cycle_state_ours :=
               (if current_index ring' = 0 then \<not> ev_cycle_state_ours self
                else ev_cycle_state_ours self)\<rparr>)))))"

definition matches :: "EventWaitInfo \<Rightarrow> GenericTrbEntry \<Rightarrow> bool res" where
  "matches w t =
     rbind (case cond_trb_type (wait_cond w) of None \<Rightarrow> Ok True
            | Some ty \<Rightarrow> rbind (trb_type t) (\<lambda>v. Ok (v = trb_type_value ty))) (\<lambda>a.
     if \<not> a then Ok False
     else rbind (case cond_slot (wait_cond w) of None \<Rightarrow> Ok True
                 | Some slot \<Rightarrow> rbind (slot_id t) (\<lambda>v. Ok (v = slot))) (\<lambda>b.
     if \<not> b then Ok False
     else case cond_trb_addr (wait_cond w) of None \<Rightarrow> Ok True
          | Some a \<Rightarrow> Ok (trb_data t = a)))"

definition resolve :: "EventWaitInfo \<Rightarrow> GenericTrbEntry \<Rightarrow> EventWaitInfo" where
  "resolve w t = w\<lparr>wait_trbs := wait_trbs w @ [t]\<rparr>"

fun notify_waiters ::
  "GenericTrbEntry \<Rightarrow> nat list \<Rightarrow> (nat \<rightharpoonup> EventWaitInfo) \<Rightarrow> (nat \<rightharpoonup> EventWaitInfo) res" where
  "notify_waiters e [] ws = Ok ws"
| "notify_waiters e (k # ks) ws =
     (case ws k of None \<Rightarrow> notify_waiters e ks ws
      | Some w \<Rightarrow> rbind (matches w e) (\<lambda>m.
          notify_waiters e ks (if m then ws(k \<mapsto> resolve w e) else ws)))"

definition stale_waiter_indices :: "nat list \<Rightarrow> (nat \<rightharpoonup> EventWaitInfo) \<Rightarrow> nat list" where
  "stale_waiter_indices l ws = filter (\<lambda>i. ws (l ! i) = None) (rev [0..<length l])"

definition remove_at :: "nat \<Rightarrow> 'a list \<Rightarrow> 'a list" where
  "remove_at k l = (if k < length l then take k l @ drop (Suc k) l else l)"

definition ev_poll :: "EventRing \<Rightarrow> EventRing res" where
  "ev_poll self =
     rbind (ev_pop self) (\<lambda>(e, self1).
     case e of None \<Rightarrow> Ok self1
     | Some t \<Rightarrow>
         rbind (notify_waiters t (wait_list self1) (waiters self1)) (\<lambda>ws.
           Ok (self1\<lparr>waiters := ws,
             wait_list := fold remove_at (stale_waiter_indices (wait_list self1) ws)
               (wait_list self1)\<rparr>)))"

definition register_waiter :: "EventRing \<Rightarrow> nat \<Rightarrow> EventRing" where
  "register_waiter self k = self\<lparr>wait_list := wait_list self @ [k]\<rparr>"

definition EventFuture_new :: "EventRing \<Rightarrow> nat \<Rightarrow> EventWaitCond \<Rightarrow> EventRing" where
  "EventFuture_new self k c =
     register_waiter (self\<lparr>waiters := (waiters self)(k \<mapsto> \<lparr> wait_cond = c, wait_trbs = [] \<rparr>)\<rparr>) k"

definition EventFuture_new_for_trb :: "EventRing \<Rightarrow> nat \<Rightarrow> u64 \<Rightarrow> EventRing" where
  "EventFuture_new_for_trb self k a =
     EventFuture_new self k \<lparr> cond_trb_type = None, cond_trb_addr = Some a, cond_slot = None \<rparr>"

text \<open>\<open>None\<close> is \<open>Poll::Pending\<close>.\<close>

definition EventFuture_poll :: "EventRing \<Rightarrow> nat \<Rightarrow> GenericTrbEntry option \<times> EventRing" where
  "EventFuture_poll self k =
     (case waiters self k of None \<Rightarrow> (None, self)
      | Some w \<Rightarrow> (case wait_trbs w of [] \<Rightarrow> (None, self)
          | t # ts \<Rightarrow> (Some t, self\<lparr>waiters := (waiters self)(k \<mapsto> w\<lparr>wait_trbs := ts\<rparr>)\<rparr>)))"

section \<open>The TRBs of a control transfer\<close>

record SetupStageTrb =
  setup_request_type :: u8
  setup_request :: u8
  setup_value :: u16
  setup_index :: u16
  setup_length :: u16
  setup_option :: u32
  setup_control :: u32

definition REQ_TYPE_DIR_DEVICE_TO_HOST :: u8 where
  "REQ_TYPE_DIR_DEVICE_TO_HOST = push_bit 7 1"

definition REQ_GET_DESCRIPTOR :: u8 where
  "REQ_GET_DESCRIPTOR = 6"

definition SetupStageTrb_new :: "u8 \<Rightarrow> u8 \<Rightarrow> u16 \<Rightarrow> u16 \<Rightarrow> u16 \<Rightarrow> SetupStageTrb" where
  "SetupStageTrb_new request_type request v index len =
     (let transfer_type = (if len = 0 then 0
        else if request AND REQ_TYPE_DIR_DEVICE_TO_HOST \<noteq> 0 then 3 else (2 :: u32))
      in \<lparr> setup_request_type = request_type, setup_request = request, setup_value = v,
           setup_index = index, setup_length = len, setup_option = 8,
           setup_control = push_bit 16 transfer_type OR push_bit 10 (trb_type_value SetupStage) OR
             CTRL_BIT_IMMEDIATE_DATA \<rparr>)"

text \<open>\<open>transmute\<close> of the \<open>repr(C)\<close> struct: its first eight bytes are the \<open>data\<close> word.\<close>

definition setup_to_generic :: "SetupStageTrb \<Rightarrow> GenericTrbEntry" where
  "setup_to_generic t =
     \<lparr> trb_data = ucast (setup_request_type t) OR push_bit 8 (ucast (setup_request t)) OR
         push_bit 16 (ucast (setup_value t)) OR push_bit 32 (ucast (setup_index t)) OR
         push_bit 48 (ucast (setup_length t)),
       trb_option = setup_option t, trb_control = setup_control t \<rparr>"

definition DataStageTrb_new_in :: "u64 \<Rightarrow> nat \<Rightarrow> GenericTrbEntry" where
  "DataStageTrb_new_in buf len =
     \<lparr> trb_data = buf, trb_option = word_of_nat len,
       trb_control = push_bit 10 (trb_type_value DataStage) OR CTRL_BIT_DATA_DIR_IN OR
         CTRL_BIT_INTERRUPT_ON_COMPLETION OR CTRL_BIT_INTERRUPT_ON_SHORT_PACKET \<rparr>"

definition StatusStageTrb_new_out :: GenericTrbEntry where
  "StatusStageTrb_new_out =
     \<lparr> trb_data = 0, trb_option = 0, trb_control = push_bit 10 (trb_type_value StatusStage) \<rparr>"

definition StatusStageTrb_new_in :: GenericTrbEntry where
  "StatusStageTrb_new_in =
     \<lparr> trb_data = 0, trb_option = 0,
       trb_control = push_bit 10 (trb_type_value StatusStage) OR CTRL_BIT_DATA_DIR_IN OR
         CTRL_BIT_INTERRUPT_ON_COMPLETION OR CTRL_BIT_INTERRUPT_ON_SHORT_PACKET \<rparr>"

end
