(* ===== verification/Trb_Fifo.thy ===== *)
theory Trb_Fifo
  imports Trb_Ring
begin

text \<open>
  The rings as queues. Producer and consumer share nothing but the blocks and their cycle bits: the
  producer stamps the bit and flips it on every lap, the consumer takes a block when the bit is the
  one of its lap. The locale \<open>cycle_ring\<close> is that protocol, \<open>cycle_producer\<close> and \<open>cycle_consumer\<close>
  its two sides; \<open>CommandRing::push\<close> is shown to be a producer and \<open>EventRing::pop\<close> a consumer.
  The other side is the controller, as the xHCI specification describes it.
\<close>

section \<open>Fields of a block\<close>

definition with_cycle :: "bool \<Rightarrow> GenericTrbEntry \<Rightarrow> GenericTrbEntry" where
  "with_cycle c t = t\<lparr>trb_control := (trb_control t AND NOT 1) OR of_bool c\<rparr>"

definition has_cycle :: "GenericTrbEntry \<Rightarrow> bool" where
  "has_cycle t \<longleftrightarrow> bit (trb_control t) 0"

definition type_field :: "GenericTrbEntry \<Rightarrow> u32" where
  "type_field t = take_bit 6 (drop_bit 10 (trb_control t))"

lemma set_cycle_state_eq [simp]: "set_cycle_state t c = Ok (with_cycle c t)"
proof -
  have "take_bit 1 (of_bool c :: u32) = of_bool c" by (cases c) simp_all
  then show ?thesis
    by (simp add: set_cycle_state_def write_control_def write_bits_eq with_cycle_def or.commute)
qed

lemma take_bit_1_neq_0: "take_bit 1 (w::u32) \<noteq> 0 \<longleftrightarrow> bit w 0"
  by (simp add: take_bit_Suc bit_0 odd_iff_mod_2_eq_one even_iff_mod_2_eq_zero)

lemma cycle_state_eq [simp]: "cycle_state t = Ok (has_cycle t)"
  using take_bit_1_neq_0 [of "trb_control t"]
  by (simp add: cycle_state_def read_bits_eq has_cycle_def)

lemma trb_type_eq [simp]: "trb_type t = Ok (type_field t)"
  by (simp add: trb_type_def read_bits_eq type_field_def)

lemma has_cycle_with_cycle [simp]: "has_cycle (with_cycle c t) = c"
  by (simp add: has_cycle_def with_cycle_def bit_simps)

lemma type_field_with_cycle [simp]: "type_field (with_cycle c t) = type_field t"
proof -
  have "drop_bit 10 ((w AND NOT 1) OR of_bool c) = drop_bit 10 (w::u32)" for w
  proof (rule bit_eqI)
    fix n
    have "bit ((w AND NOT 1) OR of_bool c) (10 + n) = bit w (10 + n)"
      by (auto simp: bit_simps dest: bit_imp_le_length)
    then show "bit (drop_bit 10 ((w AND NOT 1) OR of_bool c)) n = bit (drop_bit 10 w) n"
      unfolding bit_drop_bit_eq comp_def .
  qed
  then show ?thesis by (simp add: type_field_def with_cycle_def)
qed

lemma with_cycle_with_cycle [simp]: "with_cycle c (with_cycle d t) = with_cycle c t"
proof -
  have "((w AND NOT 1) OR of_bool d) AND NOT 1 = w AND NOT (1::u32)" for w
    by (rule bit_eqI) (auto simp: bit_simps)
  then show ?thesis by (simp add: with_cycle_def)
qed

lemma set_trb_type_field:
  assumes "set_trb_type t ty = Ok t'"
  shows "type_field t' = trb_type_value ty" "trb_data t' = trb_data t" "trb_option t' = trb_option t"
    "has_cycle t' = has_cycle t"
proof -
  from assms obtain c where c: "write_bits (trb_control t) 10 6 (trb_type_value ty) = Ok c"
      "t' = t\<lparr>trb_control := c\<rparr>"
    by (auto simp: set_trb_type_def write_control_def)
  have "read_bits c 10 6 = Ok (trb_type_value ty)"
    by (rule vol.rd_wr_same [OF _ c(1)]) simp
  then show "type_field t' = trb_type_value ty" using c(2) by (simp add: type_field_def read_bits_eq)
  have "read_bits c 0 1 = read_bits (trb_control t) 0 1"
    by (rule vol.rd_wr_other [OF _ _ _ c(1)]) simp_all
  then have "cycle_state t' = cycle_state t" using c(2) by (simp only: cycle_state_def) simp
  then show "has_cycle t' = has_cycle t" by simp
  show "trb_data t' = trb_data t" "trb_option t' = trb_option t" using c(2) by simp_all
qed

section \<open>The cycle-bit protocol\<close>

locale cycle_ring =
  fixes N :: nat and cyc :: "'e \<Rightarrow> bool"
  assumes N_pos: "0 < N"
begin

text \<open>\<open>slots\<close> is the ring after the items \<open>xs\<close> have been written to it, starting from clear bits.\<close>

definition holds :: "(nat \<Rightarrow> 'e) \<Rightarrow> 'e list \<Rightarrow> bool" where
  "holds slots xs \<longleftrightarrow>
     (\<forall>k < length xs. cyc (xs ! k) = even (k div N) \<and>
        (length xs \<le> k + N \<longrightarrow> slots (k mod N) = xs ! k)) \<and>
     (\<forall>k. length xs \<le> k \<and> k < length xs + N \<longrightarrow> cyc (slots (k mod N)) \<noteq> even (k div N))"

lemma holds_initial: "\<forall>i < N. \<not> cyc (slots i) \<Longrightarrow> holds slots []"
  by (simp add: holds_def)

lemma mod_neq: "a < b \<Longrightarrow> b < a + N \<Longrightarrow> a mod N \<noteq> b mod N"
proof
  assume ab: "a < b" "b < a + N" and eq: "a mod N = b mod N"
  then have "N dvd b - a" by (metis less_imp_le mod_eq_dvd_iff_nat)
  then have "N \<le> b - a" by (rule dvd_imp_le) (use ab in simp)
  with ab show False by linarith
qed

lemma holds_snoc:
  assumes h: "holds slots xs" and c: "cyc x = even (length xs div N)"
  shows "holds (slots(length xs mod N := x)) (xs @ [x])"
proof -
  let ?n = "length xs"
  have "cyc ((xs @ [x]) ! k) = even (k div N) \<and>
      (?n + 1 \<le> k + N \<longrightarrow> (slots(?n mod N := x)) (k mod N) = (xs @ [x]) ! k)" if "k < ?n + 1" for k
  proof (cases "k = ?n")
    case False
    with that have k: "k < ?n" by simp
    then have "k mod N \<noteq> ?n mod N" if "?n + 1 \<le> k + N" using that by (intro mod_neq) auto
    with h k show ?thesis by (auto simp: holds_def nth_append)
  qed (simp add: c)
  moreover have "cyc ((slots(?n mod N := x)) (k mod N)) \<noteq> even (k div N)"
    if k: "?n + 1 \<le> k" "k < ?n + 1 + N" for k
  proof (cases "k = ?n + N")
    case True
    then show ?thesis using c N_pos by (simp add: div_add_self2)
  next
    case False
    with k have "?n < k" "k < ?n + N" by auto
    then have "?n mod N \<noteq> k mod N" by (rule mod_neq)
    with h \<open>?n < k\<close> \<open>k < ?n + N\<close> show ?thesis by (auto simp: holds_def)
  qed
  ultimately show ?thesis by (simp add: holds_def)
qed

text \<open>A reader that has taken \<open>c\<close> items and is less than a lap behind finds the next item or nothing.\<close>

lemma holds_fetch:
  assumes "holds slots xs" "c \<le> length xs" "length xs \<le> c + N"
  shows "cyc (slots (c mod N)) = even (c div N) \<longleftrightarrow> c < length xs"
    and "c < length xs \<Longrightarrow> slots (c mod N) = xs ! c"
  using assms N_pos by (auto simp: holds_def le_less)

lemma step_counter:
  "Suc c mod N = (if Suc (c mod N) = N then 0 else Suc (c mod N))"
  "even (Suc c div N) \<longleftrightarrow> (if Suc (c mod N) = N then odd (c div N) else even (c div N))"
  by (auto simp: mod_Suc div_Suc)

end

locale cycle_producer = cycle_ring N cyc
  for N :: nat and cyc :: "'e \<Rightarrow> bool" +
  fixes inv :: "'s \<Rightarrow> bool" and slot :: "'s \<Rightarrow> nat \<Rightarrow> 'e" and pos :: "'s \<Rightarrow> nat"
    and phase :: "'s \<Rightarrow> bool" and stamp :: "bool \<Rightarrow> 'e \<Rightarrow> 'e" and item :: "'e \<Rightarrow> bool"
    and put :: "'s \<Rightarrow> 'e \<Rightarrow> ('p \<times> 's) res" and ptr :: "'s \<Rightarrow> nat \<Rightarrow> 'p"
  assumes cyc_stamp: "cyc (stamp c x) = c"
    and put_law: "inv s \<Longrightarrow> item x \<Longrightarrow> \<exists>s'. put s x = Ok (ptr s (pos s), s') \<and> inv s' \<and>
      ptr s' = ptr s \<and> (\<forall>i < N. slot s' i = (if i = pos s then stamp (phase s) x else slot s i)) \<and>
      pos s' = (if Suc (pos s) = N then 0 else Suc (pos s)) \<and>
      phase s' = (if Suc (pos s) = N then \<not> phase s else phase s)"
    and pos_less: "inv s \<Longrightarrow> pos s < N"
begin

fun put_all :: "'s \<Rightarrow> 'e list \<Rightarrow> ('p list \<times> 's) res" where
  "put_all s [] = Ok ([], s)"
| "put_all s (x # xs) = rbind (put s x) (\<lambda>(p, s'). rbind (put_all s' xs) (\<lambda>(ps, s''). Ok (p # ps, s'')))"

definition stamped :: "nat \<Rightarrow> 'e list \<Rightarrow> 'e list" where
  "stamped n xs = map (\<lambda>k. stamp (even ((n + k) div N)) (xs ! k)) [0..<length xs]"

lemma stamped_Cons: "stamped n (x # xs) = stamp (even (n div N)) x # stamped (Suc n) xs"
  by (simp add: stamped_def map_upt_Suc del: upt_Suc)

lemma put_all_holds:
  assumes "inv s" "list_all item xs" "holds (slot s) ys" "pos s = length ys mod N"
    "phase s = even (length ys div N)"
  shows "\<exists>s'. put_all s xs = Ok (map (\<lambda>k. ptr s ((length ys + k) mod N)) [0..<length xs], s') \<and>
    inv s' \<and> holds (slot s') (ys @ stamped (length ys) xs) \<and>
    pos s' = (length ys + length xs) mod N \<and> ptr s' = ptr s"
  using assms
proof (induction xs arbitrary: s ys)
  case Nil
  then show ?case by (simp add: stamped_def)
next
  case (Cons x xs)
  let ?n = "length ys" and ?x = "stamp (phase s) x"
  from Cons.prems(2) have x: "item x" "list_all item xs" by auto
  from put_law [OF Cons.prems(1) x(1)] obtain s' where s': "put s x = Ok (ptr s (pos s), s')" "inv s'"
      "ptr s' = ptr s" "\<forall>i < N. slot s' i = (if i = pos s then ?x else slot s i)"
      "pos s' = (if Suc (pos s) = N then 0 else Suc (pos s))"
      "phase s' = (if Suc (pos s) = N then \<not> phase s else phase s)" by blast
  have "holds ((slot s)(?n mod N := ?x)) (ys @ [?x])"
    using Cons.prems(3,5) by (intro holds_snoc) (auto simp: cyc_stamp)
  moreover have "slot s' (k mod N) = ((slot s)(?n mod N := ?x)) (k mod N)" for k
    using s'(4) N_pos Cons.prems(4) by auto
  ultimately have h: "holds (slot s') (ys @ [?x])" by (simp add: holds_def)
  have p: "pos s' = length (ys @ [?x]) mod N" "phase s' = even (length (ys @ [?x]) div N)"
    using s'(5,6) Cons.prems(4,5) step_counter [of ?n] by auto
  from Cons.IH [OF s'(2) x(2) h p] obtain s'' where
    s'': "put_all s' xs = Ok (map (\<lambda>k. ptr s' ((Suc ?n + k) mod N)) [0..<length xs], s'')" "inv s''"
      "holds (slot s'') ((ys @ [?x]) @ stamped (Suc ?n) xs)"
      "pos s'' = (Suc ?n + length xs) mod N" "ptr s'' = ptr s'" by auto
  have "map (\<lambda>k. ptr s ((?n + k) mod N)) [0..<length (x # xs)] =
      ptr s (?n mod N) # map (\<lambda>k. ptr s ((Suc ?n + k) mod N)) [0..<length xs]"
    by (simp add: map_upt_Suc del: upt_Suc)
  with s'(1,3) s'' Cons.prems(4,5) show ?case by (simp add: stamped_Cons)
qed

end

locale cycle_consumer = cycle_ring N cyc
  for N :: nat and cyc :: "'e \<Rightarrow> bool" +
  fixes inv :: "'s \<Rightarrow> bool" and slot :: "'s \<Rightarrow> nat \<Rightarrow> 'e" and pos :: "'s \<Rightarrow> nat"
    and phase :: "'s \<Rightarrow> bool" and get :: "'s \<Rightarrow> ('e option \<times> 's) res"
  assumes get_none: "inv s \<Longrightarrow> cyc (slot s (pos s)) \<noteq> phase s \<Longrightarrow> get s = Ok (None, s)"
    and get_some: "inv s \<Longrightarrow> cyc (slot s (pos s)) = phase s \<Longrightarrow>
      \<exists>s'. get s = Ok (Some (slot s (pos s)), s') \<and> inv s' \<and> slot s' = slot s \<and>
        pos s' = (if Suc (pos s) = N then 0 else Suc (pos s)) \<and>
        phase s' = (if Suc (pos s) = N then \<not> phase s else phase s)"
begin

definition taken :: "'s \<Rightarrow> nat \<Rightarrow> bool" where
  "taken s c \<longleftrightarrow> inv s \<and> pos s = c mod N \<and> phase s = even (c div N)"

lemma get_fifo:
  assumes t: "taken s c" and h: "holds (slot s) xs" "c \<le> length xs" "length xs \<le> c + N"
  shows "if c < length xs
    then \<exists>s'. get s = Ok (Some (xs ! c), s') \<and> taken s' (Suc c) \<and> slot s' = slot s
    else get s = Ok (None, s)"
proof (cases "c < length xs")
  case True
  with holds_fetch [OF h] t have "cyc (slot s (pos s)) = phase s" "slot s (pos s) = xs ! c"
    by (auto simp: taken_def)
  with get_some t obtain s' where "get s = Ok (Some (xs ! c), s')" "inv s'" "slot s' = slot s"
      "pos s' = (if Suc (pos s) = N then 0 else Suc (pos s))"
      "phase s' = (if Suc (pos s) = N then \<not> phase s else phase s)"
    by (metis taken_def)
  with True t step_counter [of c] show ?thesis by (auto simp: taken_def)
next
  case False
  with holds_fetch [OF h] t get_none show ?thesis by (auto simp: taken_def)
qed

text \<open>Taking everything: the items come out in the order they went in, and nothing follows.\<close>

fun get_many :: "nat \<Rightarrow> 's \<Rightarrow> ('e list \<times> 's) res" where
  "get_many 0 s = Ok ([], s)"
| "get_many (Suc n) s = rbind (get s) (\<lambda>(e, s'). case e of None \<Rightarrow> Ok ([], s')
     | Some x \<Rightarrow> rbind (get_many n s') (\<lambda>(xs, s''). Ok (x # xs, s'')))"

lemma get_many_fifo:
  assumes "taken s c" "holds (slot s) xs" "c \<le> length xs" "length xs \<le> c + N"
  shows "\<exists>s'. get_many n s = Ok (take n (drop c xs), s') \<and> slot s' = slot s \<and>
    taken s' (min (c + n) (length xs))"
  using assms
proof (induction n arbitrary: s c)
  case 0
  then show ?case by (simp add: min_absorb1)
next
  case (Suc n)
  show ?case
  proof (cases "c < length xs")
    case True
    with get_fifo [OF Suc.prems] obtain s1 where
      s1: "get s = Ok (Some (xs ! c), s1)" "taken s1 (Suc c)" "slot s1 = slot s" by auto
    from Suc.IH [of s1 "Suc c"] s1 Suc.prems True obtain s2 where
      "get_many n s1 = Ok (take n (drop (Suc c) xs), s2)" "slot s2 = slot s"
      "taken s2 (min (Suc c + n) (length xs))" by auto
    with s1 True show ?thesis by (simp add: Cons_nth_drop_Suc [symmetric])
  next
    case False
    with get_fifo [OF Suc.prems] Suc.prems show ?thesis by simp
  qed
qed

end

section \<open>CommandRing::push is a producer\<close>

abbreviation is_link :: "GenericTrbEntry \<Rightarrow> bool" where
  "is_link t \<equiv> type_field t = 6"

definition cmd_inv :: "CommandRing \<Rightarrow> bool" where
  "cmd_inv s \<longleftrightarrow>
     (let r = cmd_ring s; ours = cmd_cycle_state_ours s in
      length (trb r) = 16 \<and> current_index r < 15 \<and> is_link (trb r ! 15) \<and>
      has_cycle (trb r ! 15) = ours \<and>
      (\<forall>i < 15. \<not> is_link (trb r ! i) \<and>
         has_cycle (trb r ! i) = (if i < current_index r then \<not> ours else ours)))"

definition trb_ptr :: "CommandRing \<Rightarrow> nat \<Rightarrow> u64" where
  "trb_ptr s i = ring_addr (cmd_ring s) + 16 * word_of_nat i"

lemma advance_index_eq:
  assumes "current_index r < length (trb r)" "has_cycle (trb r ! current_index r) \<noteq> c"
  shows "advance_index r c = Ok (r\<lparr>trb := (trb r)[current_index r := with_cycle c (trb r ! current_index r)],
    current_index := next_index r\<rparr>)"
  using assms by (simp add: advance_index_def current_def ring_trb_def)

lemma cmd_push_step:
  assumes inv: "cmd_inv s" and x: "\<not> is_link x"
  defines "r \<equiv> cmd_ring s" and "ours \<equiv> cmd_cycle_state_ours s" and "i \<equiv> current_index (cmd_ring s)"
  shows "cmd_push s x = Ok (trb_ptr s i,
    if i = 14
    then \<lparr> cmd_ring = r\<lparr>trb := (trb r)[14 := with_cycle (\<not> ours) x,
             15 := with_cycle (\<not> ours) (trb r ! 15)], current_index := 0\<rparr>,
           cmd_cycle_state_ours = (\<not> ours) \<rparr>
    else \<lparr> cmd_ring = r\<lparr>trb := (trb r)[i := with_cycle (\<not> ours) x], current_index := Suc i\<rparr>,
           cmd_cycle_state_ours = ours \<rparr>)"
proof -
  from inv have r: "length (trb r) = 16" "i < 15" "is_link (trb r ! 15)"
      "has_cycle (trb r ! 15) = ours" "\<forall>k < 15. \<not> is_link (trb r ! k)"
      "has_cycle (trb r ! i) = ours"
    by (simp_all add: cmd_inv_def Let_def r_def ours_def i_def)
  define r1 where "r1 = r\<lparr>trb := (trb r)[i := with_cycle ours x]\<rparr>"
  define r2 where "r2 = r\<lparr>trb := (trb r)[i := with_cycle (\<not> ours) x], current_index := Suc i\<rparr>"
  have i: "current_index r = i" by (simp add: r_def i_def)
  have cur: "current r = Ok (trb r ! i)" using r(1,2) by (simp add: current_def ring_trb_def i)
  have ptr: "current_ptr r = Ok (trb_ptr s i)"
    using r(1,2) by (simp add: current_ptr_def trb_ptr_def i flip: r_def)
  have w: "write_current r (with_cycle ours x) = Ok r1"
    using r(1,2) by (simp add: write_current_def ring_write_def r1_def i)
  have a: "advance_index r1 (\<not> ours) = Ok r2"
    using r(1,2) by (subst advance_index_eq) (simp_all add: r1_def r2_def i next_index_def)
  have cur2: "current r2 = Ok (trb r ! Suc i)"
    using r(1,2) by (simp add: current_def ring_trb_def r2_def)
  have link: "is_link (trb r ! Suc i) \<longleftrightarrow> i = 14"
    using r(2,3,5) by (cases "i = 14") auto
  have a2: "advance_index r2 (\<not> ours) = Ok (r\<lparr>trb := (trb r)[14 := with_cycle (\<not> ours) x,
             15 := with_cycle (\<not> ours) (trb r ! 15)], current_index := 0\<rparr>)" if "i = 14"
    using r(1,4) that by (subst advance_index_eq) (simp_all add: r2_def next_index_def)
  show ?thesis
    using cur ptr w a cur2 link a2 r(6)
    by (simp add: cmd_push_def flip: r_def ours_def) (simp add: r2_def ours_def)
qed

definition cmd_slot :: "CommandRing \<Rightarrow> nat \<Rightarrow> GenericTrbEntry" where
  "cmd_slot s i = trb (cmd_ring s) ! i"

interpretation cmdq: cycle_producer 15 has_cycle cmd_inv cmd_slot
  "\<lambda>s. current_index (cmd_ring s)" "\<lambda>s. \<not> cmd_cycle_state_ours s" with_cycle
  "\<lambda>t. \<not> is_link t" cmd_push trb_ptr
proof (unfold_locales, goal_cases)
  case (3 s x)
  let ?i = "current_index (cmd_ring s)" and ?ours = "cmd_cycle_state_ours s"
  note inv = 3(1) [unfolded cmd_inv_def Let_def]
  let ?s' = "if ?i = 14
    then \<lparr> cmd_ring = (cmd_ring s)\<lparr>trb := (trb (cmd_ring s))[14 := with_cycle (\<not> ?ours) x,
             15 := with_cycle (\<not> ?ours) (trb (cmd_ring s) ! 15)], current_index := 0\<rparr>,
           cmd_cycle_state_ours = (\<not> ?ours) \<rparr>
    else \<lparr> cmd_ring = (cmd_ring s)\<lparr>trb := (trb (cmd_ring s))[?i := with_cycle (\<not> ?ours) x],
             current_index := Suc ?i\<rparr>, cmd_cycle_state_ours = ?ours \<rparr>"
  have "cmd_inv ?s'"
    using inv 3(2) by (auto simp: cmd_inv_def Let_def nth_list_update less_Suc_eq)
  moreover have "trb_ptr ?s' = trb_ptr s" by (auto simp: trb_ptr_def)
  moreover have "\<forall>k < 15. cmd_slot ?s' k = (if k = ?i then with_cycle (\<not> ?ours) x else cmd_slot s k)"
    using inv by (auto simp: cmd_slot_def nth_list_update)
  ultimately show ?case
    using cmd_push_step [OF 3] by (intro exI [of _ ?s']) auto
qed (simp_all add: cmd_inv_def Let_def)

lemma trb_link_eq: "\<exists>t. trb_link ring = Ok t \<and> is_link t \<and> \<not> has_cycle t"
proof -
  obtain t where t: "set_trb_type default_trb Link = Ok t"
    by (auto simp: set_trb_type_def write_control_def write_bits_eq default_trb_def)
  note f = set_trb_type_field [OF t]
  obtain c where c: "write_bits (trb_control t) 1 1 1 = Ok c"
    using vol.wr_total [of 1 1 "1::u32" "trb_control t"] by auto
  define u where "u = t\<lparr>trb_data := ring_addr ring, trb_control := c\<rparr>"
  have u: "set_toggle_cycle (t\<lparr>trb_data := ring_addr ring\<rparr>) True = Ok u"
      "write_bits (trb_control t) 1 1 1 = Ok (trb_control u)"
    using c by (simp_all add: set_toggle_cycle_def write_control_def u_def)
  have "read_bits (trb_control u) 10 6 = read_bits (trb_control t) 10 6"
    "read_bits (trb_control u) 0 1 = read_bits (trb_control t) 0 1"
    by (rule vol.rd_wr_other [OF _ _ _ u(2)]; simp)+
  then have "trb_type u = trb_type t" "cycle_state u = cycle_state t"
    by (simp_all only: trb_type_def cycle_state_def)
  moreover have "\<not> has_cycle default_trb" by (simp add: has_cycle_def default_trb_def)
  ultimately show ?thesis using t u(1) f by (simp add: trb_link_def)
qed

lemma CommandRing_default_inv:
  "\<exists>s. CommandRing_default addr = Ok s \<and> cmd_inv s \<and> current_index (cmd_ring s) = 0 \<and>
     \<not> cmd_cycle_state_ours s \<and> ring_addr (cmd_ring s) = addr"
proof -
  obtain l where l: "trb_link (TrbRing_new addr) = Ok l" "is_link l" "\<not> has_cycle l"
    using trb_link_eq by blast
  have "\<not> is_link default_trb" "\<not> has_cycle default_trb"
    by (simp_all add: type_field_def has_cycle_def default_trb_def)
  with l show ?thesis
    by (simp add: CommandRing_default_def Let_def ring_write_def TrbRing_new_def NUM_TRB_def
        cmd_inv_def nth_list_update)
qed

text \<open>Pushing a sequence of blocks.\<close>

fun cmd_push_all :: "CommandRing \<Rightarrow> GenericTrbEntry list \<Rightarrow> (u64 list \<times> CommandRing) res" where
  "cmd_push_all s [] = Ok ([], s)"
| "cmd_push_all s (x # xs) =
     rbind (cmd_push s x) (\<lambda>(p, s'). rbind (cmd_push_all s' xs) (\<lambda>(ps, s''). Ok (p # ps, s'')))"

lemma cmd_push_all_eq: "cmd_push_all = cmdq.put_all"
proof (intro ext)
  show "cmd_push_all s xs = cmdq.put_all s xs" for s xs
    by (induction xs arbitrary: s) simp_all
qed

section \<open>EventRing::pop is a consumer\<close>

definition ev_inv :: "EventRing \<Rightarrow> bool" where
  "ev_inv s \<longleftrightarrow> length (trb (ev_ring s)) = 16 \<and> current_index (ev_ring s) < 16 \<and> erdp s \<noteq> None"

definition ev_slot :: "EventRing \<Rightarrow> nat \<Rightarrow> GenericTrbEntry" where
  "ev_slot s i = trb (ev_ring s) ! i"

interpretation evq: cycle_consumer 16 has_cycle ev_inv ev_slot
  "\<lambda>s. current_index (ev_ring s)" ev_cycle_state_ours ev_pop
proof (unfold_locales, goal_cases)
  case (2 s)
  then show ?case
    by (auto simp: ev_inv_def ev_pop_def has_next_event_def current_def ring_trb_def ev_slot_def)
next
  case (3 s)
  let ?i = "current_index (ev_ring s)"
  from 3(1) obtain reg where s: "length (trb (ev_ring s)) = 16" "?i < 16" "erdp s = Some reg"
    by (auto simp: ev_inv_def)
  have n: "next_index (ev_ring s) = (if Suc ?i = 16 then 0 else Suc ?i)"
    using s(1,2) by (simp add: next_index_def)
  show ?case
    using s n 3(2)
    by (simp add: ev_pop_def has_next_event_def current_def ring_trb_def current_ptr_def
        advance_index_notoggle_def ev_inv_def ev_slot_def fun_eq_iff)
qed simp

text \<open>
  The controller, as the xHCI specification describes the event ring (4.9.4): it writes event
  \<open>k\<close> to block \<open>k mod 16\<close> with the producer cycle state, which starts at 1 and flips on every lap, and
  never gets more than the ring ahead of the software.
\<close>

definition hw_write :: "EventRing \<Rightarrow> nat \<Rightarrow> GenericTrbEntry \<Rightarrow> EventRing" where
  "hw_write s k e = s\<lparr>ev_ring := (ev_ring s)\<lparr>trb := (trb (ev_ring s))[k mod 16 :=
     with_cycle (even (k div 16)) e]\<rparr>\<rparr>"

inductive ev_run :: "EventRing \<Rightarrow> GenericTrbEntry list \<Rightarrow> GenericTrbEntry list \<Rightarrow> bool" where
  start: "EventRing_new addr = Ok s \<Longrightarrow> ev_run (set_erdp s reg) [] []"
| hw_writes: "ev_run s ws ps \<Longrightarrow> length ws < length ps + 16 \<Longrightarrow>
    ev_run (hw_write s (length ws) e) (ws @ [with_cycle (even (length ws div 16)) e]) ps"
| pops: "ev_run s ws ps \<Longrightarrow> ev_pop s = Ok (Some e, s') \<Longrightarrow> ev_run s' ws (ps @ [e])"
| idles: "ev_run s ws ps \<Longrightarrow> ev_pop s = Ok (None, s') \<Longrightarrow> ev_run s' ws ps"

definition ev_run_inv :: "EventRing \<Rightarrow> GenericTrbEntry list \<Rightarrow> GenericTrbEntry list \<Rightarrow> bool" where
  "ev_run_inv s ws ps \<longleftrightarrow> evq.taken s (length ps) \<and> evq.holds (ev_slot s) ws \<and>
     length ps \<le> length ws \<and> length ws \<le> length ps + 16 \<and> ps = take (length ps) ws"

lemma hw_write_inv:
  assumes "ev_run_inv s ws ps" "length ws < length ps + 16"
  shows "ev_run_inv (hw_write s (length ws) e) (ws @ [with_cycle (even (length ws div 16)) e]) ps"
proof -
  let ?n = "length ws" and ?e = "with_cycle (even (length ws div 16)) e"
  from assms(1) have l: "length (trb (ev_ring s)) = 16"
    by (simp add: ev_run_inv_def evq.taken_def ev_inv_def)
  have "evq.holds ((ev_slot s)(?n mod 16 := ?e)) (ws @ [?e])"
    using assms(1) by (intro evq.holds_snoc) (auto simp: ev_run_inv_def)
  moreover have "ev_slot (hw_write s ?n e) (k mod 16) = ((ev_slot s)(?n mod 16 := ?e)) (k mod 16)" for k
    using l by (simp add: ev_slot_def hw_write_def nth_list_update)
  ultimately have "evq.holds (ev_slot (hw_write s ?n e)) (ws @ [?e])" by (simp add: evq.holds_def)
  moreover have "evq.taken (hw_write s ?n e) (length ps)"
    using assms(1) by (simp add: ev_run_inv_def evq.taken_def ev_inv_def hw_write_def)
  ultimately show ?thesis using assms by (auto simp: ev_run_inv_def)
qed

lemma ev_run_inv_pop:
  assumes "ev_run_inv s ws ps"
  shows "if length ps < length ws
    then \<exists>s'. ev_pop s = Ok (Some (ws ! length ps), s') \<and> ev_run_inv s' ws (ps @ [ws ! length ps])
    else ev_pop s = Ok (None, s)"
proof -
  from assms have i: "evq.taken s (length ps)" "evq.holds (ev_slot s) ws" "length ps \<le> length ws"
      "length ws \<le> length ps + 16" "ps = take (length ps) ws" by (auto simp: ev_run_inv_def)
  from evq.get_fifo [OF i(1-4)] i show ?thesis
    by (auto simp: ev_run_inv_def take_Suc_conv_app_nth split: if_splits)
qed

lemma ev_run_inv: "ev_run s ws ps \<Longrightarrow> ev_run_inv s ws ps"
proof (induction rule: ev_run.induct)
  case (start addr s reg)
  then have "s = \<lparr> ev_ring = TrbRing_new addr, ev_cycle_state_ours = True, erdp = None,
      wait_list = [], waiters = Map.empty \<rparr>"
    by (simp add: EventRing_new_def ERST_new_def Let_def NUM_TRB_def)
  then show ?case
    by (auto simp: ev_run_inv_def evq.taken_def evq.holds_def ev_inv_def set_erdp_def TrbRing_new_def
        NUM_TRB_def ev_slot_def has_cycle_def default_trb_def)
next
  case (hw_writes s ws ps e)
  then show ?case by (blast intro: hw_write_inv)
next
  case (pops s ws ps e s')
  then show ?case using ev_run_inv_pop [of s ws ps] by (auto split: if_splits)
next
  case (idles s ws ps s')
  then show ?case using ev_run_inv_pop [of s ws ps] by (auto split: if_splits)
qed

end
