(* ===== verification/Trb_Queues.thy ===== *)
theory Trb_Queues
  imports Trb_Fifo
begin

text \<open>
  The properties of the rings of \<open>src/xhci.rs\<close>: both directions are first-in first-out, the event
  poll wakes the right waiters, and what the modelling showed of \<open>CommandRing::push\<close> and
  \<open>SetupStageTrb::new\<close>.
\<close>

section \<open>Waking the waiters\<close>

definition cond_holds :: "EventWaitCond \<Rightarrow> GenericTrbEntry \<Rightarrow> bool" where
  "cond_holds c t \<longleftrightarrow>
     (\<forall>ty. cond_trb_type c = Some ty \<longrightarrow> type_field t = trb_type_value ty) \<and>
     (\<forall>s. cond_slot c = Some s \<longrightarrow> ucast (drop_bit 24 (trb_control t)) = s) \<and>
     (\<forall>a. cond_trb_addr c = Some a \<longrightarrow> trb_data t = a)"

lemma slot_id_eq: "slot_id t = Ok (ucast (drop_bit 24 (trb_control t)))"
proof -
  have "take_bit 8 (drop_bit 24 (w::u32)) = drop_bit 24 w" for w
    by (rule bit_eqI) (auto simp: bit_simps dest: bit_imp_le_length)
  moreover have "unat (drop_bit 24 (w::u32)) < 256" for w
    using unsigned_less [of w] by (simp add: unat_drop_bit div_less_iff_less_mult)
  ultimately show ?thesis by (simp add: slot_id_def read_bits_eq)
qed

lemma with_cycle_fields [simp]:
  "trb_data (with_cycle c t) = trb_data t" "trb_option (with_cycle c t) = trb_option t"
  by (simp_all add: with_cycle_def)

lemma slot_id_with_cycle [simp]: "slot_id (with_cycle c t) = slot_id t"
proof -
  have "drop_bit 24 ((w AND NOT 1) OR of_bool c) = drop_bit 24 (w::u32)" for w
  proof (rule bit_eqI)
    fix n
    have "bit ((w AND NOT 1) OR of_bool c) (24 + n) = bit w (24 + n)"
      by (auto simp: bit_simps dest: bit_imp_le_length)
    then show "bit (drop_bit 24 ((w AND NOT 1) OR of_bool c)) n = bit (drop_bit 24 w) n"
      unfolding bit_drop_bit_eq comp_def .
  qed
  then show ?thesis by (simp add: slot_id_eq with_cycle_def)
qed

lemma results_with_cycle [simp]:
  "transfer_result_ok (with_cycle c t) = transfer_result_ok t"
  "cmd_result_ok (with_cycle c t) = cmd_result_ok t"
  by (simp_all add: transfer_result_ok_def cmd_result_ok_def completion_code_def)

lemma matches_eq: "matches w t = Ok (cond_holds (wait_cond w) t)"
  by (cases "cond_trb_type (wait_cond w)"; cases "cond_slot (wait_cond w)";
      cases "cond_trb_addr (wait_cond w)")
     (simp_all add: matches_def cond_holds_def slot_id_eq del: rbind_eq_Ok)

definition delivered :: "GenericTrbEntry \<Rightarrow> nat \<Rightarrow> EventWaitInfo \<Rightarrow> EventWaitInfo" where
  "delivered e n w =
     (if cond_holds (wait_cond w) e then w\<lparr>wait_trbs := wait_trbs w @ replicate n e\<rparr> else w)"

lemma notify_waiters_eq:
  "notify_waiters e ks ws = Ok (\<lambda>k. map_option (delivered e (count_list ks k)) (ws k))"
proof (induction ks arbitrary: ws)
  case Nil
  have "map_option (delivered e 0) x = x" for x by (cases x) (simp_all add: delivered_def)
  then show ?case by simp
next
  case (Cons k ks)
  show ?case
  proof (cases "ws k")
    case None
    then show ?thesis by (auto simp: Cons.IH fun_eq_iff)
  next
    case (Some w)
    have "delivered e n (resolve w e) = delivered e (Suc n) w" if "cond_holds (wait_cond w) e" for n
      using that by (simp add: delivered_def resolve_def)
    with Some show ?thesis
      by (auto simp: Cons.IH matches_eq fun_eq_iff delivered_def resolve_def)
  qed
qed

lemma fold_remove_at_snoc:
  "sorted_wrt (>) is \<Longrightarrow> \<forall>i \<in> set is. i < length l \<Longrightarrow>
   fold remove_at is (l @ [x]) = fold remove_at is l @ [x]"
proof (induction "is" arbitrary: l)
  case (Cons i "is")
  then have i: "i < length l" "\<forall>j \<in> set is. j < length (remove_at i l)"
    by (auto simp: remove_at_def)
  have "remove_at i (l @ [x]) = remove_at i l @ [x]" using i(1) by (simp add: remove_at_def)
  with Cons.IH [OF _ i(2)] Cons.prems(1) show ?case by simp
qed simp

lemma cleanup_is_filter:
  "fold remove_at (stale_waiter_indices l ws) l = filter (\<lambda>k. ws k \<noteq> None) l"
proof (induction l rule: rev_induct)
  case Nil
  show ?case by (simp add: stale_waiter_indices_def)
next
  case (snoc x l)
  let ?is = "stale_waiter_indices l ws"
  have "filter (\<lambda>i. ws ((l @ [x]) ! i) = None) (rev [0..<length l]) = ?is"
    unfolding stale_waiter_indices_def by (rule filter_cong) (auto simp: nth_append)
  then have s: "stale_waiter_indices (l @ [x]) ws = (if ws x = None then [length l] else []) @ ?is"
    by (simp add: stale_waiter_indices_def)
  have "fold remove_at ?is (l @ [x]) = fold remove_at ?is l @ [x]"
  proof (rule fold_remove_at_snoc)
    have "sorted_wrt (>) (rev [0..<length l])" by (simp add: sorted_wrt_rev)
    then show "sorted_wrt (>) ?is" unfolding stale_waiter_indices_def by (rule sorted_wrt_filter)
  qed (auto simp: stale_waiter_indices_def)
  moreover have "remove_at (length l) (l @ [x]) = l" by (simp add: remove_at_def)
  ultimately show ?case using snoc.IH by (simp add: s)
qed

lemma ev_poll_eq:
  "ev_pop s = Ok (Some e, s1) \<Longrightarrow> ev_poll s = Ok (s1\<lparr>
     waiters := (\<lambda>k. map_option (delivered e (count_list (wait_list s1) k)) (waiters s1 k)),
     wait_list := filter (\<lambda>k. waiters s1 k \<noteq> None) (wait_list s1)\<rparr>)"
  by (simp add: ev_poll_def notify_waiters_eq cleanup_is_filter)

section \<open>Properties\<close>

definition no_op :: GenericTrbEntry where
  "no_op = \<lparr> trb_data = 0, trb_option = 0, trb_control = push_bit 10 (trb_type_value NoOpCommand) \<rparr>"

lemma no_op_not_link: "\<not> is_link no_op"
  by (simp add: no_op_def type_field_def)

text \<open>
  C8: any number of blocks (other than link blocks) can be pushed on a new command ring without a
  fault. Block \<open>k\<close> goes to slot \<open>k mod 15\<close>, its address is returned, and its cycle bit is the one of
  its lap. So a controller that has taken \<open>c\<close> blocks and is at most a lap of 15 behind finds exactly
  block \<open>c\<close> at its dequeue position, valid by its cycle bit, and nothing when it has taken them all.
\<close>

theorem command_ring_is_fifo:
  assumes "CommandRing_default addr = Ok s" and "\<forall>x \<in> set xs. type_field x \<noteq> 6"
    and "c \<le> length xs" and "length xs \<le> c + 15"
  shows "\<exists>s'. cmd_push_all s xs =
      Ok (map (\<lambda>k. addr + 16 * word_of_nat (k mod 15)) [0..<length xs], s') \<and>
    (has_cycle (trb (cmd_ring s') ! (c mod 15)) = even (c div 15) \<longleftrightarrow> c < length xs) \<and>
    (c < length xs \<longrightarrow> trb (cmd_ring s') ! (c mod 15) = with_cycle (even (c div 15)) (xs ! c))"
proof -
  from CommandRing_default_inv [of addr] assms(1) have s: "cmd_inv s" "current_index (cmd_ring s) = 0"
      "\<not> cmd_cycle_state_ours s" "ring_addr (cmd_ring s) = addr" by auto
  have "cmdq.holds (cmd_slot s) []"
    using s by (intro cmdq.holds_initial) (auto simp: cmd_inv_def Let_def cmd_slot_def)
  with cmdq.put_all_holds [of s xs "[]"] s assms(2) obtain s' where
    p: "cmd_push_all s xs = Ok (map (\<lambda>k. trb_ptr s (k mod 15)) [0..<length xs], s')" and
    h: "cmdq.holds (cmd_slot s') (cmdq.stamped 0 xs)"
    by (auto simp: cmd_push_all_eq list_all_iff)
  have len: "length (cmdq.stamped 0 xs) = length xs" by (simp add: cmdq.stamped_def)
  have nth: "cmdq.stamped 0 xs ! c = with_cycle (even (c div 15)) (xs ! c)" if "c < length xs"
    using that by (simp add: cmdq.stamped_def)
  from cmdq.holds_fetch [OF h, of c] assms(3,4) p nth s(4) show ?thesis
    by (simp add: len cmd_slot_def trb_ptr_def)
qed

theorem command_ring_is_fifo_witness:
  "\<exists>s s' ps. CommandRing_default 0x8000 = Ok s \<and> cmd_push_all s (replicate 20 no_op) = Ok (ps, s') \<and>
     trb (cmd_ring s') ! 2 = with_cycle False no_op"
proof -
  obtain s where s: "CommandRing_default 0x8000 = Ok s" using CommandRing_default_inv by blast
  from command_ring_is_fifo [OF s, of "replicate 20 no_op" 17] no_op_not_link s
  show ?thesis by auto
qed

text \<open>
  the guard \<open>Command Ring is Full\<close> never fires. The ring cannot see how far the controller has
  got, and after any pushes the block at the index carries the ring's own cycle state; so the
  sixteenth block overwrites the first, whether or not the controller has taken it.
\<close>

theorem command_ring_never_full:
  assumes "CommandRing_default addr = Ok s" and "\<forall>x \<in> set xs. type_field x \<noteq> 6"
    and "type_field y \<noteq> 6"
  shows "\<exists>ps s1 p s2. cmd_push_all s xs = Ok (ps, s1) \<and> cmd_push s1 y = Ok (p, s2) \<and>
    p = addr + 16 * word_of_nat (length xs mod 15)"
proof -
  from CommandRing_default_inv [of addr] assms(1) have s: "cmd_inv s" "current_index (cmd_ring s) = 0"
      "\<not> cmd_cycle_state_ours s" "ring_addr (cmd_ring s) = addr" by auto
  have h0: "cmdq.holds (cmd_slot s) []"
    using s by (intro cmdq.holds_initial) (auto simp: cmd_inv_def Let_def cmd_slot_def)
  from cmdq.put_all_holds [of s xs "[]"] h0 s assms(2) obtain ps s1 where
    p: "cmd_push_all s xs = Ok (ps, s1)" "cmd_inv s1" "trb_ptr s1 = trb_ptr s"
      "current_index (cmd_ring s1) = length xs mod 15"
    by (auto simp: cmd_push_all_eq list_all_iff)
  from cmdq.put_law [OF p(2) assms(3)] p s(4) show ?thesis by (auto simp: trb_ptr_def)
qed

theorem command_ring_never_full_witness:
  "\<exists>s ps s1 s2. CommandRing_default 0x8000 = Ok s \<and>
     cmd_push_all s (replicate 15 no_op) = Ok (ps, s1) \<and> cmd_push s1 no_op = Ok (0x8000, s2)"
proof -
  obtain s where s: "CommandRing_default 0x8000 = Ok s" using CommandRing_default_inv by blast
  from command_ring_never_full [OF s, of "replicate 15 no_op" no_op] no_op_not_link s
  show ?thesis by auto
qed

text \<open>
  C7: whatever the interleaving of the controller's writes and the driver's pops, the driver has
  popped a prefix of the events written, in order and without loss or duplicates; the next pop never
  fails and yields an event exactly when one is outstanding.
\<close>

theorem event_ring_is_fifo:
  assumes "ev_run s ws ps"
  shows "ps = take (length ps) ws \<and> length ws \<le> length ps + 16 \<and>
    (\<exists>r s'. ev_pop s = Ok (r, s') \<and>
       r = (if length ps < length ws then Some (ws ! length ps) else None))"
proof -
  from ev_run_inv [OF assms] have i: "evq.taken s (length ps)" "evq.holds (ev_slot s) ws"
      "length ps \<le> length ws" "length ws \<le> length ps + 16" "ps = take (length ps) ws"
    by (auto simp: ev_run_inv_def)
  from evq.get_fifo [OF i(1-4)] i(4,5) show ?thesis by (auto split: if_splits)
qed

theorem event_ring_is_fifo_witness:
  "\<exists>s ws. ev_run s ws [] \<and> length ws = 1 \<and> (\<exists>r s'. ev_pop s = Ok (r, s') \<and> r = Some (ws ! 0))"
proof -
  obtain s where "EventRing_new 0x9000 = Ok s"
    by (simp add: EventRing_new_def ERST_new_def Let_def NUM_TRB_def)
  then have "ev_run (set_erdp s 0) [] []" by (rule ev_run.start)
  from ev_run.hw_writes [OF this, of no_op]
  have r: "ev_run (hw_write (set_erdp s 0) 0 no_op) [with_cycle True no_op] []" by simp
  from event_ring_is_fifo [OF this] r show ?thesis by fastforce
qed

lemma ev_poll_deliver:
  assumes "ev_pop s = Ok (Some e, s1)"
  shows "\<exists>s2. ev_poll s = Ok s2 \<and> ev_ring s2 = ev_ring s1 \<and>
    (\<forall>k. waiters s2 k = map_option (\<lambda>w. if cond_holds (wait_cond w) e
       then w\<lparr>wait_trbs := wait_trbs w @ replicate (count_list (wait_list s1) k) e\<rparr> else w)
       (waiters s1 k)) \<and>
    wait_list s2 = filter (\<lambda>k. waiters s1 k \<noteq> None) (wait_list s1)"
  by (simp add: ev_poll_eq [OF assms] delivered_def cong: map_option_cong)

text \<open>
  C14: a poll that pops an event appends it to the queue of every waiter that is still owned and
  whose condition the event meets, once per registration, changes no other waiter, and drops
  exactly the stale references from the list, keeping the order of the rest.
\<close>

theorem event_poll_delivers:
  assumes "ev_pop s = Ok (Some e, s1)"
  shows "\<exists>s2. ev_poll s = Ok s2 \<and> ev_ring s2 = ev_ring s1 \<and>
    (\<forall>k. waiters s2 k = map_option (\<lambda>w. if cond_holds (wait_cond w) e
       then w\<lparr>wait_trbs := wait_trbs w @ replicate (count_list (wait_list s1) k) e\<rparr> else w)
       (waiters s1 k)) \<and>
    wait_list s2 = filter (\<lambda>k. waiters s1 k \<noteq> None) (wait_list s1)"
  using assms by (rule ev_poll_deliver)

definition waiting_ring :: EventRing where
  "waiting_ring = EventFuture_new_for_trb (hw_write (set_erdp \<lparr> ev_ring = TrbRing_new 0x9000,
     ev_cycle_state_ours = True, erdp = None, wait_list = [], waiters = Map.empty \<rparr> 0) 0 no_op) 7 0"

theorem event_poll_delivers_witness:
  "\<exists>s2. ev_poll waiting_ring = Ok s2 \<and>
     map_option wait_trbs (waiters s2 7) = Some [with_cycle True no_op]"
proof -
  have "\<exists>s1. ev_pop waiting_ring = Ok (Some (with_cycle True no_op), s1) \<and>
      waiters s1 = waiters waiting_ring \<and> wait_list s1 = wait_list waiting_ring"
    by (simp add: waiting_ring_def EventFuture_new_for_trb_def EventFuture_new_def
        register_waiter_def hw_write_def set_erdp_def TrbRing_new_def NUM_TRB_def ev_pop_def
        has_next_event_def current_def ring_trb_def current_ptr_def advance_index_notoggle_def)
  then obtain s1 where s1: "ev_pop waiting_ring = Ok (Some (with_cycle True no_op), s1)"
      "waiters s1 = waiters waiting_ring" "wait_list s1 = wait_list waiting_ring" by blast
  have "waiters waiting_ring 7 = Some \<lparr> wait_cond = \<lparr> cond_trb_type = None, cond_trb_addr = Some 0,
      cond_slot = None \<rparr>, wait_trbs = [] \<rparr>" "wait_list waiting_ring = [7]"
    by (simp_all add: waiting_ring_def EventFuture_new_for_trb_def EventFuture_new_def
        register_waiter_def hw_write_def set_erdp_def)
  with event_poll_delivers [OF s1(1)] s1(2,3) show ?thesis
    by (auto simp: cond_holds_def no_op_def with_cycle_def)
qed

text \<open>
  \<open>SetupStageTrb::new\<close> takes the direction from the request number instead of the request type:
  a request with a data stage and a number below 128 (all that the driver sends, \<open>GET_DESCRIPTOR\<close>
  among them) is always announced as an OUT data stage, whatever its direction bit says.
\<close>

theorem setup_stage_direction_ignored:
  assumes "len \<noteq> 0" and "unat request < 128"
  shows "take_bit 2 (drop_bit 16 (setup_control (SetupStageTrb_new request_type request v index len))) = 2"
proof -
  have "\<not> bit request 7"
    using bit_imp_exp_le [of request 7] assms(2) by auto
  then have "request AND REQ_TYPE_DIR_DEVICE_TO_HOST = 0"
    using and_exp_eq_0_iff_not_bit [of request 7] by (simp add: REQ_TYPE_DIR_DEVICE_TO_HOST_def)
  with assms(1) show ?thesis
    by (simp add: SetupStageTrb_new_def Let_def CTRL_BIT_IMMEDIATE_DATA_def)
qed

theorem setup_stage_direction_ignored_witness:
  "take_bit 2 (drop_bit 16 (setup_control
     (SetupStageTrb_new REQ_TYPE_DIR_DEVICE_TO_HOST REQ_GET_DESCRIPTOR 0x100 0 18))) = 2"
  using setup_stage_direction_ignored [of 18 REQ_GET_DESCRIPTOR REQ_TYPE_DIR_DEVICE_TO_HOST "0x100" 0]
  by (simp add: REQ_GET_DESCRIPTOR_def)

end
