(* ===== verification/Usb_Desc.thy ===== *)
theory Usb_Desc
  imports Rust_Prelude
begin

text \<open>
  The USB descriptors of \<open>src/usb.rs\<close> and \<open>Sliceable::copy_from_slice\<close> of \<open>src/slice.rs\<close>: packed
  structs read from a byte buffer, the iterator over a configuration's descriptors, and the choice
  of an interface. The transfers that fill the buffers belong to the controller.
\<close>

section \<open>Descriptors\<close>

record ConfigDescriptor =
  cfg_desc_length :: u8
  cfg_desc_type :: u8
  total_length :: u16
  num_of_interfaces :: u8
  config_value :: u8
  config_string_index :: u8
  cfg_attribute :: u8
  max_power :: u8

record InterfaceDescriptor =
  if_desc_length :: u8
  if_desc_type :: u8
  interface_number :: u8
  alt_setting :: u8
  num_of_endpoints :: u8
  interface_class :: u8
  interface_subclass :: u8
  interface_protocol :: u8
  interface_index :: u8

record EndpointDescriptor =
  ep_desc_length :: u8
  ep_desc_type :: u8
  endpoint_address :: u8
  attributes :: u8
  ep_max_packet_size :: u16
  interval :: u8

record HidDescriptor =
  hid_desc_length :: u8
  hid_desc_type :: u8
  hid_release :: u16
  country_code :: u8
  num_descriptors :: u8
  descriptor_type :: u8
  report_descriptor_length :: u16

record UsbDeviceDescriptor =
  dev_desc_length :: u8
  dev_desc_type :: u8
  dev_version :: u16
  device_class :: u8
  device_subclass :: u8
  device_protocol :: u8
  dev_max_packet_size :: u8
  dev_vendor_id :: u16
  dev_product_id :: u16
  device_version :: u16
  manufacturer_idx :: u8
  product_idx :: u8
  serial_idx :: u8
  num_of_config :: u8

datatype UsbDescriptor =
    Config ConfigDescriptor
  | Endpoint EndpointDescriptor
  | Interface InterfaceDescriptor
  | Hid HidDescriptor
  | Unknown u8 u8

datatype UsbDescriptorType = TDevice | TConfig | TString | TInterface | TEndpoint | THid | TReport

fun descriptor_type_value :: "UsbDescriptorType \<Rightarrow> u8" where
  "descriptor_type_value TDevice = 1"
| "descriptor_type_value TConfig = 2"
| "descriptor_type_value TString = 3"
| "descriptor_type_value TInterface = 4"
| "descriptor_type_value TEndpoint = 5"
| "descriptor_type_value THid = 0x21"
| "descriptor_type_value TReport = 0x22"

text \<open>A little-endian \<open>u16\<close> at an offset of a packed struct.\<close>

definition u16_at :: "u8 list \<Rightarrow> nat \<Rightarrow> u16" where
  "u16_at b i = ucast (b ! i) OR push_bit 8 (ucast (b ! Suc i))"

text \<open>\<open>copy_from_slice\<close> at a packed struct of \<open>sz\<close> bytes.\<close>

definition copy_from_slice :: "nat \<Rightarrow> (u8 list \<Rightarrow> 'a) \<Rightarrow> u8 list \<Rightarrow> 'a res" where
  "copy_from_slice sz f data = (if length data < sz then err ''data is too short'' else Ok (f data))"

definition ConfigDescriptor_from :: "u8 list \<Rightarrow> ConfigDescriptor" where
  "ConfigDescriptor_from b =
     \<lparr> cfg_desc_length = b ! 0, cfg_desc_type = b ! 1, total_length = u16_at b 2,
       num_of_interfaces = b ! 4, config_value = b ! 5, config_string_index = b ! 6,
       cfg_attribute = b ! 7, max_power = b ! 8 \<rparr>"

definition InterfaceDescriptor_from :: "u8 list \<Rightarrow> InterfaceDescriptor" where
  "InterfaceDescriptor_from b =
     \<lparr> if_desc_length = b ! 0, if_desc_type = b ! 1, interface_number = b ! 2, alt_setting = b ! 3,
       num_of_endpoints = b ! 4, interface_class = b ! 5, interface_subclass = b ! 6,
       interface_protocol = b ! 7, interface_index = b ! 8 \<rparr>"

definition EndpointDescriptor_from :: "u8 list \<Rightarrow> EndpointDescriptor" where
  "EndpointDescriptor_from b =
     \<lparr> ep_desc_length = b ! 0, ep_desc_type = b ! 1, endpoint_address = b ! 2, attributes = b ! 3,
       ep_max_packet_size = u16_at b 4, interval = b ! 6 \<rparr>"

definition HidDescriptor_from :: "u8 list \<Rightarrow> HidDescriptor" where
  "HidDescriptor_from b =
     \<lparr> hid_desc_length = b ! 0, hid_desc_type = b ! 1, hid_release = u16_at b 2,
       country_code = b ! 4, num_descriptors = b ! 5, descriptor_type = b ! 6,
       report_descriptor_length = u16_at b 7 \<rparr>"

definition UsbDeviceDescriptor_from :: "u8 list \<Rightarrow> UsbDeviceDescriptor" where
  "UsbDeviceDescriptor_from b =
     \<lparr> dev_desc_length = b ! 0, dev_desc_type = b ! 1, dev_version = u16_at b 2,
       device_class = b ! 4, device_subclass = b ! 5, device_protocol = b ! 6,
       dev_max_packet_size = b ! 7, dev_vendor_id = u16_at b 8, dev_product_id = u16_at b 10,
       device_version = u16_at b 12, manufacturer_idx = b ! 14, product_idx = b ! 15,
       serial_idx = b ! 16, num_of_config = b ! 17 \<rparr>"

section \<open>DescriptorIterator\<close>

record DescriptorIterator =
  desc_buf :: "u8 list"
  desc_index :: nat

definition DescriptorIterator_new :: "u8 list \<Rightarrow> DescriptorIterator" where
  "DescriptorIterator_new buf = \<lparr> desc_buf = buf, desc_index = 0 \<rparr>"

definition read_one :: "u8 list \<Rightarrow> u8 \<Rightarrow> u8 \<Rightarrow> UsbDescriptor option res" where
  "read_one buf desc_len desc_type =
     (if desc_type = descriptor_type_value TConfig
      then rbind (res_ok (copy_from_slice 9 ConfigDescriptor_from buf)) (\<lambda>d. Ok (map_option Config d))
      else if desc_type = descriptor_type_value TInterface
      then rbind (res_ok (copy_from_slice 9 InterfaceDescriptor_from buf)) (\<lambda>d. Ok (map_option Interface d))
      else if desc_type = descriptor_type_value TEndpoint
      then rbind (res_ok (copy_from_slice 7 EndpointDescriptor_from buf)) (\<lambda>d. Ok (map_option Endpoint d))
      else if desc_type = descriptor_type_value THid
      then rbind (res_ok (copy_from_slice 9 HidDescriptor_from buf)) (\<lambda>d. Ok (map_option Hid d))
      else Ok (Some (Unknown desc_len desc_type)))"

definition descriptor_next ::
  "DescriptorIterator \<Rightarrow> (UsbDescriptor option \<times> DescriptorIterator) res" where
  "descriptor_next it =
     (if length (desc_buf it) \<le> desc_index it then Ok (None, it)
      else
        let buf = drop (desc_index it) (desc_buf it) in
        if length buf < 2 then panic ''index out of bounds''
        else
          rbind (read_one buf (buf ! 0) (buf ! 1)) (\<lambda>d.
          case d of None \<Rightarrow> Ok (None, it)
          | Some desc \<Rightarrow> Ok (Some desc, it\<lparr>desc_index := desc_index it + unat (buf ! 0)\<rparr>)))"

text \<open>\<open>iter.collect()\<close>: a descriptor length of 0 makes it endless, so it carries fuel.\<close>

fun descriptors_collect :: "nat \<Rightarrow> DescriptorIterator \<Rightarrow> UsbDescriptor list res" where
  "descriptors_collect 0 it = Inl OutOfFuel"
| "descriptors_collect (Suc fuel) it =
     rbind (descriptor_next it) (\<lambda>(d, it').
       case d of None \<Rightarrow> Ok []
       | Some x \<Rightarrow> rbind (descriptors_collect fuel it') (\<lambda>xs. Ok (x # xs)))"

section \<open>pick_interface_with_triple\<close>

definition triple :: "InterfaceDescriptor \<Rightarrow> u8 \<times> u8 \<times> u8" where
  "triple i = (interface_class i, interface_subclass i, interface_protocol i)"

fun pick_loop ::
  "u8 \<times> u8 \<times> u8 \<Rightarrow> UsbDescriptor list \<Rightarrow>
   ConfigDescriptor option \<times> InterfaceDescriptor option \<times> UsbDescriptor list \<Rightarrow>
   ConfigDescriptor option \<times> InterfaceDescriptor option \<times> UsbDescriptor list" where
  "pick_loop t [] s = s"
| "pick_loop t (Config e # ds) (config, interface, desc_list) =
     (if interface \<noteq> None then (config, interface, desc_list)
      else pick_loop t ds (Some e, interface, []))"
| "pick_loop t (Interface e # ds) (config, interface, desc_list) =
     pick_loop t ds (config, if t = triple e then Some e else interface, desc_list)"
| "pick_loop t (d # ds) (config, interface, desc_list) =
     pick_loop t ds (config, interface, if interface \<noteq> None then desc_list @ [d] else desc_list)"

definition pick_interface_with_triple ::
  "UsbDescriptor list \<Rightarrow> u8 \<times> u8 \<times> u8 \<Rightarrow>
   (ConfigDescriptor \<times> InterfaceDescriptor \<times> UsbDescriptor list) option" where
  "pick_interface_with_triple ds t =
     (case pick_loop t ds (None, None, []) of
        (Some config, Some interface, desc_list) \<Rightarrow> Some (config, interface, desc_list)
      | _ \<Rightarrow> None)"

section \<open>Encoding, the inverse of the iterator\<close>

definition u16_bytes :: "u16 \<Rightarrow> u8 list" where
  "u16_bytes v = [ucast v, ucast (drop_bit 8 v)]"

fun encode_descriptor :: "UsbDescriptor \<Rightarrow> u8 list" where
  "encode_descriptor (Config d) =
     [cfg_desc_length d, cfg_desc_type d] @ u16_bytes (total_length d) @
     [num_of_interfaces d, config_value d, config_string_index d, cfg_attribute d, max_power d]"
| "encode_descriptor (Interface d) =
     [if_desc_length d, if_desc_type d, interface_number d, alt_setting d, num_of_endpoints d,
      interface_class d, interface_subclass d, interface_protocol d, interface_index d]"
| "encode_descriptor (Endpoint d) =
     [ep_desc_length d, ep_desc_type d, endpoint_address d, attributes d] @
     u16_bytes (ep_max_packet_size d) @ [interval d]"
| "encode_descriptor (Hid d) =
     [hid_desc_length d, hid_desc_type d] @ u16_bytes (hid_release d) @
     [country_code d, num_descriptors d, descriptor_type d] @ u16_bytes (report_descriptor_length d)"
| "encode_descriptor (Unknown n ty) = n # ty # replicate (unat n - 2) 0"

text \<open>A descriptor whose length and type bytes are those of its kind.\<close>

fun wf_descriptor :: "UsbDescriptor \<Rightarrow> bool" where
  "wf_descriptor (Config d) \<longleftrightarrow> cfg_desc_length d = 9 \<and> cfg_desc_type d = 2"
| "wf_descriptor (Interface d) \<longleftrightarrow> if_desc_length d = 9 \<and> if_desc_type d = 4"
| "wf_descriptor (Endpoint d) \<longleftrightarrow> ep_desc_length d = 7 \<and> ep_desc_type d = 5"
| "wf_descriptor (Hid d) \<longleftrightarrow> hid_desc_length d = 9 \<and> hid_desc_type d = 0x21"
| "wf_descriptor (Unknown n ty) \<longleftrightarrow> 2 \<le> unat n \<and> ty \<notin> {2, 4, 5, 0x21}"

lemma u16_join: "ucast (ucast v :: u8) OR push_bit 8 (ucast (ucast (drop_bit 8 v) :: u8)) = (v :: u16)"
proof (rule bit_word_eqI)
  fix n
  assume "n < LENGTH(16)"
  then show "bit (ucast (ucast v :: u8) OR push_bit 8 (ucast (ucast (drop_bit 8 v) :: u8)) :: u16) n = bit v n"
    by (cases "n < 8") (auto simp: bit_simps dest: bit_imp_le_length)
qed

lemma length_encode:
  "wf_descriptor d \<Longrightarrow> length (encode_descriptor d) = unat (encode_descriptor d ! 0) \<and>
     2 \<le> length (encode_descriptor d)"
  by (cases d) (auto simp: u16_bytes_def)

lemma read_one_encode:
  assumes "wf_descriptor d"
  shows "read_one (encode_descriptor d @ rest) ((encode_descriptor d @ rest) ! 0)
    ((encode_descriptor d @ rest) ! 1) = Ok (Some d)"
  using assms
  by (cases d) (simp_all add: read_one_def copy_from_slice_def u16_bytes_def u16_at_def u16_join
      ConfigDescriptor_from_def InterfaceDescriptor_from_def EndpointDescriptor_from_def
      HidDescriptor_from_def del: rbind_eq_Ok)

lemma descriptor_next_encode:
  assumes "wf_descriptor d" "drop (desc_index it) (desc_buf it) = encode_descriptor d @ rest"
  shows "descriptor_next it = Ok (Some d, it\<lparr>desc_index := desc_index it + length (encode_descriptor d)\<rparr>)"
proof -
  note l = length_encode [OF assms(1)]
  have "\<not> length (desc_buf it) \<le> desc_index it"
    using assms(2) l by (metis append_is_Nil_conv drop_all list.size(3) not_numeral_le_zero)
  moreover have "\<not> length (encode_descriptor d @ rest) < 2" using l by simp
  moreover have "(encode_descriptor d @ rest) ! 0 = encode_descriptor d ! 0"
    using l by (cases "encode_descriptor d") auto
  ultimately show ?thesis
    using read_one_encode [OF assms(1), of rest] l
    by (simp add: descriptor_next_def assms(2) Let_def del: rbind_eq_Ok)
qed

lemma descriptors_collect_encode:
  assumes "list_all wf_descriptor ds"
    "drop (desc_index it) (desc_buf it) = concat (map encode_descriptor ds)"
    "desc_index it \<le> length (desc_buf it)" "length ds < fuel"
  shows "descriptors_collect fuel it = Ok ds"
  using assms
proof (induction ds arbitrary: it fuel)
  case Nil
  then obtain n where "fuel = Suc n" by (cases fuel) auto
  with Nil show ?case by (simp add: descriptor_next_def)
next
  case (Cons d ds)
  then obtain n where n: "fuel = Suc n" "length ds < n" by (cases fuel) auto
  let ?it = "it\<lparr>desc_index := desc_index it + length (encode_descriptor d)\<rparr>"
  from Cons.prems have nx: "descriptor_next it = Ok (Some d, ?it)"
    by (intro descriptor_next_encode) auto
  have dr: "drop (desc_index ?it) (desc_buf ?it) = concat (map encode_descriptor ds)"
  proof -
    have "drop (length (encode_descriptor d)) (drop (desc_index it) (desc_buf it)) =
        concat (map encode_descriptor ds)"
      unfolding Cons.prems(2) by simp
    then show ?thesis by (simp add: add.commute)
  qed
  have "length (drop (desc_index it) (desc_buf it)) = length (concat (map encode_descriptor (d # ds)))"
    using Cons.prems(2) by simp
  then have "desc_index ?it \<le> length (desc_buf ?it)" using Cons.prems(3) by simp
  from Cons.IH [OF _ dr this n(2)] Cons.prems(1) nx n(1) show ?case by simp
qed

section \<open>Properties\<close>

text \<open>
  C16: the iterator inverts the encoding: a buffer that is a sequence of well-formed descriptors is
  read back as that sequence, in order, and the iteration ends.
\<close>

theorem descriptors_roundtrip:
  assumes "list_all wf_descriptor ds" and "length ds < fuel"
  shows "descriptors_collect fuel (DescriptorIterator_new (concat (map encode_descriptor ds))) = Ok ds"
  by (rule descriptors_collect_encode) (use assms in \<open>simp_all add: DescriptorIterator_new_def\<close>)

definition sample_interface :: InterfaceDescriptor where
  "sample_interface = \<lparr> if_desc_length = 9, if_desc_type = 4, interface_number = 0, alt_setting = 0,
     num_of_endpoints = 1, interface_class = 3, interface_subclass = 0, interface_protocol = 0,
     interface_index = 0 \<rparr>"

definition sample_config :: ConfigDescriptor where
  "sample_config = \<lparr> cfg_desc_length = 9, cfg_desc_type = 2, total_length = 0x22, num_of_interfaces = 1,
     config_value = 1, config_string_index = 0, cfg_attribute = 0xA0, max_power = 50 \<rparr>"

theorem descriptors_roundtrip_witness:
  "descriptors_collect 3 (DescriptorIterator_new
     [9, 2, 0x22, 0, 1, 1, 0, 0xA0, 50, 9, 4, 0, 0, 1, 3, 0, 0, 0])
   = Ok [Config sample_config, Interface sample_interface]"
  using descriptors_roundtrip [of "[Config sample_config, Interface sample_interface]" 3]
  by (simp add: sample_config_def sample_interface_def u16_bytes_def)

text \<open>
  a descriptor that claims length 0 is never left behind: the iteration over it does not end,
  whatever the fuel.
\<close>

theorem zero_length_descriptor_never_ends:
  "descriptors_collect fuel (DescriptorIterator_new (0 # 0xFF # rest)) = Inl OutOfFuel"
proof (induction fuel)
  case (Suc fuel)
  have "descriptor_next (DescriptorIterator_new (0 # 0xFF # rest)) =
      Ok (Some (Unknown 0 0xFF), DescriptorIterator_new (0 # 0xFF # rest))"
    by (simp add: descriptor_next_def DescriptorIterator_new_def read_one_def)
  with Suc show ?case by simp
qed simp

lemma pick_loop_found:
  "pick_loop t ds (config, Some i, l) = (config', i', l') \<Longrightarrow> triple i = t \<Longrightarrow>
   config' = config \<and> (\<exists>j. i' = Some j \<and> triple j = t)"
proof (induction ds arbitrary: i l)
  case (Cons d ds)
  then show ?case by (cases d) (auto split: if_splits)
qed auto

fun last_config :: "UsbDescriptor list \<Rightarrow> ConfigDescriptor option \<Rightarrow> ConfigDescriptor option" where
  "last_config [] c = c"
| "last_config (Config e # ds) c = last_config ds (Some e)"
| "last_config (d # ds) c = last_config ds c"

definition has_triple :: "u8 \<times> u8 \<times> u8 \<Rightarrow> UsbDescriptor \<Rightarrow> bool" where
  "has_triple t d \<longleftrightarrow> (\<exists>i. d = Interface i \<and> triple i = t)"

lemma pick_loop_prefix:
  "\<not> list_ex (has_triple t) pre \<Longrightarrow>
   pick_loop t (pre @ ds) (c, None, []) = pick_loop t ds (last_config pre c, None, [])"
proof (induction pre arbitrary: c)
  case (Cons d pre)
  then show ?case by (cases d) (auto simp: has_triple_def)
qed simp

text \<open>
  an interface is picked exactly when the first interface with the triple follows a
  configuration; the configuration is then the last one before it, and the interface has the triple.
\<close>

theorem pick_interface_spec:
  "case pick_interface_with_triple ds t of
     None \<Rightarrow> list_ex (has_triple t) ds \<longrightarrow>
       last_config (takeWhile (\<lambda>d. \<not> has_triple t d) ds) None = None
   | Some (c, i, l) \<Rightarrow> triple i = t \<and> list_ex (has_triple t) ds \<and>
       last_config (takeWhile (\<lambda>d. \<not> has_triple t d) ds) None = Some c"
proof (cases "list_ex (has_triple t) ds")
  case False
  then have "pick_loop t ds (None, None, []) = (last_config ds None, None, [])"
    using pick_loop_prefix [of t ds "[]" None] by simp
  with False show ?thesis by (simp add: pick_interface_with_triple_def split: option.splits)
next
  case True
  let ?pre = "takeWhile (\<lambda>d. \<not> has_triple t d) ds"
  let ?c = "last_config ?pre None"
  obtain i post where ds: "ds = ?pre @ Interface i # post" and ti: "triple i = t"
  proof -
    have "dropWhile (\<lambda>d. \<not> has_triple t d) ds \<noteq> []"
      using True by (simp add: list_ex_iff)
    then obtain d post where dw: "dropWhile (\<lambda>d. \<not> has_triple t d) ds = d # post" by (cases "dropWhile (\<lambda>d. \<not> has_triple t d) ds") auto
    then have "has_triple t d" by (metis dropWhile_eq_Cons_conv)
    with dw that show thesis by (metis has_triple_def takeWhile_dropWhile_id)
  qed
  have npre: "\<not> list_ex (has_triple t) ?pre" by (auto simp: list_ex_iff dest: set_takeWhileD)
  have "pick_loop t ds (None, None, []) = pick_loop t (Interface i # post) (?c, None, [])"
    using pick_loop_prefix [OF npre, of "Interface i # post" None] ds by simp
  also have "\<dots> = pick_loop t post (?c, Some i, [])" using ti by simp
  finally have p: "pick_loop t ds (None, None, []) = pick_loop t post (?c, Some i, [])" .
  obtain c' i' l' where r: "pick_loop t post (?c, Some i, []) = (c', i', l')"
    by (cases "pick_loop t post (?c, Some i, [])") auto
  from pick_loop_found [OF this ti] p r True show ?thesis
    by (auto simp: pick_interface_with_triple_def split: option.splits)
qed

theorem pick_interface_spec_witness:
  "\<exists>c i l. pick_interface_with_triple [Config sample_config, Interface sample_interface] (3, 0, 0)
     = Some (c, i, l) \<and> triple i = (3, 0, 0)"
  using pick_interface_spec [of "(3, 0, 0)" "[Config sample_config, Interface sample_interface]"]
  by (simp add: pick_interface_with_triple_def triple_def sample_interface_def)

end
