(* ===== verification/Hid_Report.thy ===== *)
theory Hid_Report
  imports Bit_Fields Usb_Desc
begin

text \<open>
  The HID report descriptor parser and the tablet driver of \<open>src/tablet.rs\<close>. The parser is a loop
  over the bytes of the descriptor with a state of eleven variables; every input item it emits
  names a bit slice of the reports that the device will send. \<open>usize\<close> values are natural numbers,
  and the one sum that could leave 64 bits (the bit offset) is checked as the debug build does.
\<close>

section \<open>Items\<close>

datatype UsbHidUsagePage = GenericDesktop | ButtonPage | UnknownUsagePage nat

datatype UsbHidUsage =
  Pointer | Mouse | X | Y | Wheel | Button nat | UnknownUsage nat | Constant

record UsbHidReportInputItem =
  usage :: UsbHidUsage
  bit_size :: nat
  is_array :: bool
  is_absolute :: bool
  bit_offset :: nat
  logical_min :: u32
  logical_max :: u32

record ParserState =
  input_report_items :: "UsbHidReportInputItem list"
  usage_queue :: "UsbHidUsage list"
  usage_page :: "UsbHidUsagePage option"
  usage_min :: "nat option"
  usage_max :: "nat option"
  report_size :: nat
  report_count :: nat
  cur_bit_offset :: nat
  cur_logical_min :: u32
  cur_logical_max :: u32

definition parser_init :: ParserState where
  "parser_init = \<lparr> input_report_items = [], usage_queue = [], usage_page = None, usage_min = None,
     usage_max = None, report_size = 0, report_count = 0, cur_bit_offset = 0,
     cur_logical_min = 0, cur_logical_max = 0 \<rparr>"

section \<open>parse_hid_report_descriptor\<close>

text \<open>The usage of the \<open>i\<close>-th field of an input item, and the queue of usages that is left.\<close>

definition next_usage ::
  "ParserState \<Rightarrow> UsbHidUsagePage \<Rightarrow> bool \<Rightarrow> nat \<Rightarrow> UsbHidUsage \<times> UsbHidUsage list" where
  "next_usage s page is_constant i =
     (case usage_queue s of
        u # us \<Rightarrow> (u, us)
      | [] \<Rightarrow>
          (case (page, usage_min s, usage_max s) of
             (ButtonPage, Some mn, Some mx) \<Rightarrow>
               (if mn + i \<le> mx then Button (mn + i) else UnknownUsage (mn + i), [])
           | _ \<Rightarrow> (if is_constant then Constant else UnknownUsage 0, [])))"

fun input_loop ::
  "nat \<Rightarrow> nat \<Rightarrow> UsbHidUsagePage \<Rightarrow> bool \<Rightarrow> bool \<Rightarrow> bool \<Rightarrow> ParserState \<Rightarrow> ParserState res" where
  "input_loop 0 i page cst arr ab s = Ok s"
| "input_loop (Suc n) i page cst arr ab s =
     (let (u, q) = next_usage s page cst i;
          item = \<lparr> usage = u, bit_size = report_size s, is_array = arr, is_absolute = ab,
                   bit_offset = cur_bit_offset s, logical_min = cur_logical_min s,
                   logical_max = cur_logical_max s \<rparr>;
          ofs' = cur_bit_offset s + report_size s
      in if ofs' < 2 ^ 64
         then input_loop n (Suc i) page cst arr ab
                (s\<lparr>usage_queue := q, input_report_items := input_report_items s @ [item],
                   cur_bit_offset := ofs'\<rparr>)
         else panic ''attempt to add with overflow'')"

definition usage_page_of :: "u32 \<Rightarrow> UsbHidUsagePage" where
  "usage_page_of v = (if v = 0x01 then GenericDesktop else if v = 0x09 then ButtonPage
     else UnknownUsagePage (unat v))"

definition usage_of :: "UsbHidUsagePage option \<Rightarrow> u32 \<Rightarrow> UsbHidUsage" where
  "usage_of page v =
     (case page of
        Some GenericDesktop \<Rightarrow>
          (if v = 0x01 then Pointer else if v = 0x02 then Mouse else if v = 0x30 then X
           else if v = 0x31 then Y else if v = 0x38 then Wheel else UnknownUsage (unat v))
      | _ \<Rightarrow> UnknownUsage (unat v))"

text \<open>One item: its type (0 main, 1 global, 2 local), tag and data.\<close>

definition parse_item :: "nat \<Rightarrow> nat \<Rightarrow> u32 \<Rightarrow> ParserState \<Rightarrow> ParserState res" where
  "parse_item b_type b_tag v s =
     (if b_type = 0 \<and> b_tag = 8 then
        (case usage_page s of None \<Rightarrow> Ok s
         | Some page \<Rightarrow>
             input_loop (report_count s) 0 page (extract_bits v 0 1 = 1) (extract_bits v 1 1 = 1)
               (extract_bits v 2 1 = 0) s)
      else if b_type = 1 \<and> b_tag = 0 then Ok (s\<lparr>usage_page := Some (usage_page_of v)\<rparr>)
      else if b_type = 1 \<and> b_tag = 1 then Ok (s\<lparr>cur_logical_min := v\<rparr>)
      else if b_type = 1 \<and> b_tag = 2 then Ok (s\<lparr>cur_logical_max := v\<rparr>)
      else if b_type = 1 \<and> b_tag = 7 then Ok (s\<lparr>report_size := unat v\<rparr>)
      else if b_type = 1 \<and> b_tag = 9 then Ok (s\<lparr>report_count := unat v\<rparr>)
      else if b_type = 2 \<and> b_tag = 0
      then Ok (s\<lparr>usage_queue := usage_queue s @ [usage_of (usage_page s) v]\<rparr>)
      else if b_type = 2 \<and> b_tag = 1 then Ok (s\<lparr>usage_min := Some (unat v)\<rparr>)
      else if b_type = 2 \<and> b_tag = 2 then Ok (s\<lparr>usage_max := Some (unat v)\<rparr>)
      else Ok s)"

definition clear_local :: "nat \<Rightarrow> ParserState \<Rightarrow> ParserState" where
  "clear_local b_type s =
     (if b_type = 0 then s\<lparr>usage_queue := [], usage_min := None, usage_max := None\<rparr> else s)"

definition item_data_size :: "u8 \<Rightarrow> nat" where
  "item_data_size prefix = (if prefix AND 3 = 3 then 4 else unat (prefix AND 3))"

definition item_data_value :: "u8 list \<Rightarrow> u32" where
  "item_data_value data = from_le_bytes (take 4 (data @ replicate 4 0))"

function parse_loop :: "u8 list \<Rightarrow> ParserState \<Rightarrow> ParserState res" where
  "parse_loop [] s = Ok s"
| "parse_loop (prefix # rest) s =
     (let b_size = item_data_size prefix;
          b_type = unat (drop_bit 2 prefix AND 3);
          b_tag = unat (drop_bit 4 prefix);
          v = item_data_value (take b_size rest)
      in if b_type = 3 then Ok s
         else rbind (parse_item b_type b_tag v s) (\<lambda>s'.
                parse_loop (drop b_size rest) (clear_local b_type s')))"
  by pat_completeness auto
termination by (relation "measure (\<lambda>(bs, s). length bs)") auto

definition parse_hid_report_descriptor :: "u8 list \<Rightarrow> UsbHidReportInputItem list res" where
  "parse_hid_report_descriptor report =
     rbind (parse_loop report parser_init) (\<lambda>s. Ok (input_report_items s))"

section \<open>Values of a report\<close>

text \<open>\<open>as i64\<close> of a \<open>u64\<close>, and the negation and subtraction on \<open>i64\<close> of the debug build.\<close>

definition value_from_report :: "UsbHidReportInputItem \<Rightarrow> u8 list \<Rightarrow> int option res" where
  "value_from_report self report =
     rbind (extract_bits_from_le_bytes report (bit_offset self) (bit_size self)) (\<lambda>ov.
     case ov of None \<Rightarrow> Ok None
     | Some v \<Rightarrow>
         if 2 \<le> bit_size self \<and> extract_bits v (bit_size self - 1) 1 = 1
         then rbind (chk_i64 (- sint (NOT (extract_bits v 0 (bit_size self - 1))))) (\<lambda>n.
              rbind (chk_i64 (n - 1)) (\<lambda>r. Ok (Some r)))
         else Ok (Some (sint v)))"

definition mapped_range_from_report ::
  "UsbHidReportInputItem \<Rightarrow> u8 list \<Rightarrow> int \<times> int \<Rightarrow> int res" where
  "mapped_range_from_report self report to_range =
     rbind (value_from_report self report) (\<lambda>ov.
     rbind (ok_or ov ''value was empty'') (\<lambda>v.
       map_value_in_range_inclusive
         (int (unat (logical_min self)), int (unat (logical_max self))) to_range v))"

section \<open>UsbTabletDriver\<close>

record TabletItems =
  tablet_report_size :: nat
  desc_button_l :: UsbHidReportInputItem
  desc_button_r :: UsbHidReportInputItem
  desc_button_c :: UsbHidReportInputItem
  desc_abs_x :: UsbHidReportInputItem
  desc_abs_y :: UsbHidReportInputItem

definition find_item ::
  "(UsbHidReportInputItem \<Rightarrow> bool) \<Rightarrow> UsbHidReportInputItem list \<Rightarrow> string \<Rightarrow>
   UsbHidReportInputItem res" where
  "find_item P items msg = ok_or (List.find P items) msg"

definition first_hid :: "UsbDescriptor list \<Rightarrow> HidDescriptor option" where
  "first_hid ds = (case List.find (\<lambda>d. case d of Hid _ \<Rightarrow> True | _ \<Rightarrow> False) ds of
     Some (Hid h) \<Rightarrow> Some h | _ \<Rightarrow> None)"

text \<open>
  \<open>run\<close> up to its loop. The report descriptor comes from the device, so the transfer is a parameter:
  the interface number and the length it is asked for, to the bytes it returns.
\<close>

definition tablet_setup ::
  "(u8 \<Rightarrow> nat \<Rightarrow> u8 list res) \<Rightarrow> UsbDescriptor list \<Rightarrow> TabletItems res" where
  "tablet_setup request descriptors =
     rbind (ok_or (pick_interface_with_triple descriptors (3, 0, 0)) ''No USB KBD Boot interface found'')
       (\<lambda>(_, interface_desc, others).
     rbind (ok_or (first_hid others) ''No HID Descriptor found'') (\<lambda>hid.
     rbind (request (interface_number interface_desc) (unat (report_descriptor_length hid))) (\<lambda>report.
     rbind (parse_hid_report_descriptor report) (\<lambda>items.
     rbind (if items = [] then err ''report size is zero''
            else Ok ((bit_offset (last items) + bit_size (last items) + 7) div 8)) (\<lambda>sz.
     rbind (find_item (\<lambda>e. usage e = Button 1) items ''Button(1) not found'') (\<lambda>l.
     rbind (find_item (\<lambda>e. usage e = Button 2) items ''Button(2) not found'') (\<lambda>r.
     rbind (find_item (\<lambda>e. usage e = Button 3) items ''Button(3) not found'') (\<lambda>c.
     rbind (find_item (\<lambda>e. usage e = X \<and> is_absolute e) items ''Absolute pointer X not found'') (\<lambda>x.
     rbind (find_item (\<lambda>e. usage e = Y \<and> is_absolute e) items ''Absolute pointer Y not found'') (\<lambda>y.
       Ok \<lparr> tablet_report_size = sz, desc_button_l = l, desc_button_r = r, desc_button_c = c,
            desc_abs_x = x, desc_abs_y = y \<rparr>))))))))))"

record TabletEvent =
  ev_l :: "int option"
  ev_r :: "int option"
  ev_c :: "int option"
  ev_ax :: "string + int"
  ev_ay :: "string + int"

text \<open>A \<open>Result\<close> that is kept as a value: an \<open>Err\<close> is one, a panic is not.\<close>

definition as_result :: "'a res \<Rightarrow> (string + 'a) res" where
  "as_result m = (case m of Inl (Err e) \<Rightarrow> Ok (Inl e) | Inl f \<Rightarrow> Inl f | Inr x \<Rightarrow> Ok (Inr x))"

text \<open>One round of the loop: \<open>None\<close> when the report has not changed.\<close>

definition tablet_round ::
  "TabletItems \<Rightarrow> int \<Rightarrow> int \<Rightarrow> u8 list \<Rightarrow> u8 list \<Rightarrow> (TabletEvent option \<times> u8 list) res" where
  "tablet_round t vw vh prev_report report =
     (if report = prev_report then Ok (None, prev_report)
      else
        rbind (value_from_report (desc_button_l t) report) (\<lambda>l.
        rbind (value_from_report (desc_button_r t) report) (\<lambda>r.
        rbind (value_from_report (desc_button_c t) report) (\<lambda>c.
        rbind (chk_i64 (vw - 1)) (\<lambda>xmax.
        rbind (as_result (mapped_range_from_report (desc_abs_x t) report (0, xmax))) (\<lambda>ax.
        rbind (chk_i64 (vh - 1)) (\<lambda>ymax.
        rbind (as_result (mapped_range_from_report (desc_abs_y t) report (0, ymax))) (\<lambda>ay.
          Ok (Some \<lparr> ev_l = l, ev_r = r, ev_c = c, ev_ax = ax, ev_ay = ay \<rparr>, report)))))))))"

definition UsbTabletDriver_is_compatible :: "UsbDescriptor list \<Rightarrow> UsbDeviceDescriptor \<Rightarrow> bool" where
  "UsbTabletDriver_is_compatible ds d \<longleftrightarrow>
     device_class d = 0 \<and> device_subclass d = 0 \<and> device_protocol d = 0 \<and>
     dev_vendor_id d = 0x0627 \<and> dev_product_id d = 0x0001 \<and>
     pick_interface_with_triple ds (3, 0, 0) \<noteq> None"

section \<open>Layout of the items\<close>

definition laid_out :: "ParserState \<Rightarrow> bool" where
  "laid_out s \<longleftrightarrow> cur_bit_offset s = sum_list (map bit_size (input_report_items s)) \<and>
     cur_bit_offset s < 2 ^ 64 \<and>
     (\<forall>k < length (input_report_items s). bit_offset (input_report_items s ! k) =
        sum_list (map bit_size (take k (input_report_items s))))"

lemma laid_out_cong:
  "laid_out s \<Longrightarrow> input_report_items s' = input_report_items s \<Longrightarrow>
   cur_bit_offset s' = cur_bit_offset s \<Longrightarrow> laid_out s'"
  by (simp add: laid_out_def)

lemma laid_out_push:
  assumes "laid_out s" "bit_offset it = cur_bit_offset s" "bit_size it = report_size s"
    "cur_bit_offset s + report_size s < 2 ^ 64"
    "input_report_items s' = input_report_items s @ [it]"
    "cur_bit_offset s' = cur_bit_offset s + report_size s"
  shows "laid_out s'"
  using assms by (auto simp: laid_out_def nth_append less_Suc_eq)

lemma input_loop_outcome:
  assumes "laid_out s"
  shows "input_loop n i page cst arr ab s = panic ''attempt to add with overflow'' \<or>
    (\<exists>s'. input_loop n i page cst arr ab s = Ok s' \<and> laid_out s')"
  using assms
proof (induction n arbitrary: i s)
  case (Suc n)
  obtain u q where u: "next_usage s page cst i = (u, q)" by (cases "next_usage s page cst i")
  show ?case
  proof (cases "cur_bit_offset s + report_size s < 2 ^ 64")
    case True
    let ?it = "\<lparr> usage = u, bit_size = report_size s, is_array = arr, is_absolute = ab,
                 bit_offset = cur_bit_offset s, logical_min = cur_logical_min s,
                 logical_max = cur_logical_max s \<rparr>"
    let ?s = "s\<lparr>usage_queue := q, input_report_items := input_report_items s @ [?it],
                cur_bit_offset := cur_bit_offset s + report_size s\<rparr>"
    have "laid_out ?s" by (rule laid_out_push [OF Suc.prems, of ?it]) (use True in simp_all)
    from Suc.IH [OF this, of "Suc i"] True u show ?thesis by simp
  qed (simp add: u)
qed simp

lemma parse_item_outcome:
  assumes "laid_out s"
  shows "parse_item ty tag v s = panic ''attempt to add with overflow'' \<or>
    (\<exists>s'. parse_item ty tag v s = Ok s' \<and> laid_out s')"
proof (cases "ty = 0 \<and> tag = 8")
  case True
  then show ?thesis
    using input_loop_outcome [OF assms] assms by (auto simp: parse_item_def split: option.split)
next
  case False
  then show ?thesis
    using assms by (auto simp: parse_item_def intro: laid_out_cong)
qed

lemma parse_loop_outcome:
  "laid_out s \<Longrightarrow> parse_loop bs s = panic ''attempt to add with overflow'' \<or>
     (\<exists>s'. parse_loop bs s = Ok s' \<and> laid_out s')"
proof (induction bs s rule: parse_loop.induct)
  case (1 s)
  then show ?case by simp
next
  case (2 prefix rest s)
  define b_size b_type b_tag v where "b_size = item_data_size prefix"
    and "b_type = unat (drop_bit 2 prefix AND 3)" and "b_tag = unat (drop_bit 4 prefix)"
    and "v = item_data_value (take b_size rest)"
  show ?case
  proof (cases "b_type = 3")
    case True
    with 2 show ?thesis by (simp add: b_type_def)
  next
    case False
    have unf: "parse_loop (prefix # rest) s = rbind (parse_item b_type b_tag v s) (\<lambda>s'.
        parse_loop (drop b_size rest) (clear_local b_type s'))"
      using False by (simp add: b_size_def b_type_def b_tag_def v_def Let_def)
    have cl: "laid_out (clear_local b_type s')" if "laid_out s'" for s'
      using that by (auto simp: clear_local_def intro: laid_out_cong)
    from parse_item_outcome [OF 2(2), of b_type b_tag v] show ?thesis
    proof (elim disjE exE conjE)
      fix s'
      assume s': "parse_item b_type b_tag v s = Ok s'" "laid_out s'"
      from 2(1) [OF b_size_def b_type_def b_tag_def v_def False cl [OF s'(2)]]
      show ?thesis unfolding unf s'(1) by simp
    next
      assume "parse_item b_type b_tag v s = panic ''attempt to add with overflow''"
      then show ?thesis unfolding unf by simp
    qed
  qed
qed

lemma parser_init_laid_out: "laid_out parser_init"
  by (simp add: laid_out_def parser_init_def)

section \<open>Values\<close>

lemma sint_of_int: "sint (word_of_int k :: u64) = signed_take_bit 63 k"
  by (simp add: signed_of_int)

lemma signed_take_bit_63_eq: "- (2 ^ 63) \<le> k \<Longrightarrow> k < 2 ^ 63 \<Longrightarrow> signed_take_bit 63 k = (k::int)"
  by (rule signed_take_bit_int_eq_self)

lemma unat_int_bound: "unat (x::u64) < 2 ^ 63 \<Longrightarrow> 0 \<le> int (unat x) \<and> int (unat x) < 2 ^ 63"
proof -
  assume "unat x < 2 ^ 63"
  then have "int (unat x) < int (2 ^ 63)" by (simp only: of_nat_less_iff)
  then show ?thesis by simp
qed

lemma sint_small:
  assumes "unat (x::u64) < 2 ^ 63"
  shows "sint x = int (unat x)"
proof -
  have "sint x = signed_take_bit 63 (int (unat x))" using sint_of_int [of "uint x"] by simp
  also have "\<dots> = int (unat x)" using unat_int_bound [OF assms] by (intro signed_take_bit_63_eq) linarith+
  finally show ?thesis .
qed

lemma sint_not_small:
  assumes "unat (x::u64) < 2 ^ 63"
  shows "sint (NOT x) = - int (unat x) - 1"
proof -
  have "NOT x = word_of_int (- int (unat x) - 1)"
    by (simp add: not_eq_complement)
  then have "sint (NOT x) = signed_take_bit 63 (- int (unat x) - 1)"
    by (simp only: sint_of_int)
  also have "\<dots> = - int (unat x) - 1"
    using unat_int_bound [OF assms] by (intro signed_take_bit_63_eq) linarith+
  finally show ?thesis .
qed

lemma extract_top_bit:
  assumes "0 < n" "n < 64" "unat (v::u64) < 2 ^ n"
  shows "extract_bits v (n - 1) 1 = 1 \<longleftrightarrow> 2 ^ (n - 1) \<le> unat v"
proof -
  have "unat v div 2 ^ (n - 1) < 2"
    using assms by (simp add: div_less_iff_less_mult flip: power_Suc)
  then have "unat (extract_bits v (n - 1) 1) = unat v div 2 ^ (n - 1)"
    using assms(2) by (subst extract_bits_eq) (simp_all add: unat_take_bit unat_drop_bit del: take_bit_Suc_0 One_nat_def)
  then have "extract_bits v (n - 1) 1 = 1 \<longleftrightarrow> unat v div 2 ^ (n - 1) = 1"
    by (simp add: word_unat_eq_iff)
  also have "\<dots> \<longleftrightarrow> 2 ^ (n - 1) \<le> unat v"
    using \<open>unat v div 2 ^ (n - 1) < 2\<close> div_eq_0_iff [of "unat v" "2 ^ (n - 1)"]
    by (cases "unat v div 2 ^ (n - 1) = 0") (auto simp: less_2_cases_iff)
  finally show ?thesis .
qed

lemma value_from_report_eq:
  assumes n: "2 \<le> bit_size it" "bit_size it < 64"
    and fit: "bit_offset it + bit_size it \<le> 8 * length report" "8 * length report + 7 < 2 ^ 64"
  shows "value_from_report it report =
    Ok (Some (int (le_nat report div 2 ^ bit_offset it mod 2 ^ (bit_size it - 1))))"
proof -
  let ?n = "bit_size it"
  define sl where "sl = le_nat report div 2 ^ bit_offset it mod 2 ^ ?n"
  define v where "v = (word_of_nat sl :: u64)"
  have sl: "sl < 2 ^ ?n" by (simp add: sl_def)
  have p: "(2::nat) ^ ?n \<le> 2 ^ 63" using n(2) by (intro power_increasing) auto
  have uv: "unat v = sl" using sl p by (simp add: v_def unat_of_nat)
  have ex: "extract_bits_from_le_bytes report (bit_offset it) ?n = Ok (Some v)"
    using extract_bits_from_le_bytes_eq [of ?n "bit_offset it" report] n fit
    by (simp add: v_def sl_def min_absorb2)
  define x where "x = extract_bits v 0 (?n - 1)"
  have ux: "unat x = sl mod 2 ^ (?n - 1)"
    using n uv by (simp add: x_def extract_bits_eq unat_take_bit min_absorb2)
  have "sl mod 2 ^ (?n - 1) < 2 ^ (?n - 1)" by simp
  also have "(2::nat) ^ (?n - 1) \<le> 2 ^ 62" using n(2) by (intro power_increasing) auto
  finally have x62: "unat x < 2 ^ 62" by (simp add: ux)
  have mm: "le_nat report div 2 ^ bit_offset it mod 2 ^ (?n - 1) = sl mod 2 ^ (?n - 1)"
    unfolding sl_def by (rule mod_mod_cancel [symmetric]) (simp add: le_imp_power_dvd)
  show ?thesis
  proof (cases "2 ^ (?n - 1) \<le> sl")
    case True
    then have "extract_bits v (?n - 1) 1 = 1" using extract_top_bit [of ?n v] n sl uv by simp
    moreover have "sint (NOT x) = - int (sl mod 2 ^ (?n - 1)) - 1"
      using sint_not_small [of x] x62 by (simp add: ux)
    ultimately show ?thesis
      using ex n(1) x62 [unfolded ux] unfolding value_from_report_def mm x_def
      by (simp add: chk_i64_def del: rbind_eq_Ok)
  next
    case False
    then have "extract_bits v (?n - 1) 1 \<noteq> 1" using extract_top_bit [of ?n v] n sl uv by simp
    with ex False sl p uv show ?thesis
      unfolding value_from_report_def mm by (simp add: sint_small del: rbind_eq_Ok)
  qed
qed

lemma map_value_in_range_bounds:
  assumes "map_value_in_range_inclusive (fs, fe) (ts, te) v = Ok y" "ts \<le> te"
    "- (2 ^ 63) \<le> ts" "te < 2 ^ 63"
  shows "ts \<le> y \<and> y \<le> te"
proof -
  from assms(1) have h: "fs \<le> v" "v \<le> fe" "fe - fs < 2 ^ 63" "te - ts < 2 ^ 63"
    by (auto simp: map_value_in_range_inclusive_def Let_def split: if_splits)
  from map_value_in_range_inclusive_eq [OF h(1-3) assms(2) h(4) assms(3,4)] assms(1)
  have y: "y = (if fs = fe then ts else ts + (v - fs) * (te - ts) div (fe - fs))" by simp
  show ?thesis
  proof (cases "fs = fe")
    case False
    with h assms(2) scaled_div_bounds [of "v - fs" "fe - fs" "te - ts"] y show ?thesis by simp
  qed (use y assms(2) in simp)
qed

section \<open>Properties\<close>

text \<open>
  the parser accepts every descriptor (it can only stop at a bit offset beyond 64 bits), and the
  items it returns lie side by side from bit 0: each starts where the sizes of those before it end.
\<close>

theorem report_items_contiguous:
  "parse_hid_report_descriptor report = panic ''attempt to add with overflow'' \<or>
   (\<exists>items. parse_hid_report_descriptor report = Ok items \<and>
      list_all (\<lambda>k. bit_offset (items ! k) = sum_list (map bit_size (take k items))) [0..<length items] \<and>
      sum_list (map bit_size items) < 2 ^ 64)"
  using parse_loop_outcome [OF parser_init_laid_out, of report]
  by (auto simp: parse_hid_report_descriptor_def laid_out_def list_all_iff)

text \<open>
  a field of 2 to 63 bits is never read as a negative number: when its top bit is set, the value
  is the field without that bit instead of its two's complement (an 8-bit \<open>0xFF\<close> reads as 127).
\<close>

theorem value_from_report_drops_sign:
  assumes "2 \<le> bit_size it" and "bit_size it < 64"
    and "bit_offset it + bit_size it \<le> 8 * length report" and "8 * length report + 7 < 2 ^ 64"
  shows "value_from_report it report =
    Ok (Some (int (le_nat report div 2 ^ bit_offset it mod 2 ^ (bit_size it - 1))))"
  using assms by (rule value_from_report_eq)

definition signed_byte_item :: UsbHidReportInputItem where
  "signed_byte_item = \<lparr> usage = Wheel, bit_size = 8, is_array = False, is_absolute = False,
     bit_offset = 8, logical_min = 0xFFFFFF81, logical_max = 0x7F \<rparr>"

theorem value_from_report_drops_sign_witness:
  "value_from_report signed_byte_item [0, 0xFF] = Ok (Some 127)"
  using value_from_report_drops_sign [of signed_byte_item "[0, 0xFF]"]
  by (simp add: signed_byte_item_def del: rbind_eq_Ok)

text \<open>
  the pointer position that a changed report yields is always on the screen: an axis value that
  the driver does not reject lies between 0 and the last column or row.
\<close>

theorem tablet_position_on_screen:
  assumes "0 < vw" and "vw \<le> 2 ^ 63" and "0 < vh" and "vh \<le> 2 ^ 63"
    and "tablet_round t vw vh prev report = Ok (Some e, prev')"
  shows "prev' = report \<and> (\<forall>x. ev_ax e = Inr x \<longrightarrow> 0 \<le> x \<and> x < vw) \<and>
    (\<forall>y. ev_ay e = Inr y \<longrightarrow> 0 \<le> y \<and> y < vh)"
proof -
  have keep: "m = Ok x" if "as_result m = Ok (Inr x)" for m :: "int res" and x
    using that by (auto simp: as_result_def split: sum.splits fault.splits)
  have rng: "0 \<le> x \<and> x \<le> hi"
    if "mapped_range_from_report it report (0, hi) = Ok x" "0 \<le> hi" "hi < 2 ^ 63" for it x hi
    using that map_value_in_range_bounds [of _ _ 0 hi] by (auto simp: mapped_range_from_report_def)
  from assms(5) have "as_result (mapped_range_from_report (desc_abs_x t) report (0, vw - 1)) = Ok (ev_ax e)"
    "as_result (mapped_range_from_report (desc_abs_y t) report (0, vh - 1)) = Ok (ev_ay e)" "prev' = report"
    by (auto simp: tablet_round_def split: if_splits)
  with assms(1-4) keep rng [of "desc_abs_x t" "vw - 1"] rng [of "desc_abs_y t" "vh - 1"]
  show ?thesis by fastforce
qed

definition axis_item :: "nat \<Rightarrow> UsbHidUsage \<Rightarrow> UsbHidReportInputItem" where
  "axis_item ofs u = \<lparr> usage = u, bit_size = 16, is_array = False, is_absolute = True,
     bit_offset = ofs, logical_min = 0, logical_max = 0x7FFF \<rparr>"

definition button_item :: "nat \<Rightarrow> UsbHidReportInputItem" where
  "button_item k = \<lparr> usage = Button k, bit_size = 1, is_array = False, is_absolute = True,
     bit_offset = k - 1, logical_min = 0, logical_max = 1 \<rparr>"

definition sample_tablet :: TabletItems where
  "sample_tablet = \<lparr> tablet_report_size = 6, desc_button_l = button_item 1, desc_button_r = button_item 2,
     desc_button_c = button_item 3, desc_abs_x = axis_item 8 X, desc_abs_y = axis_item 24 Y \<rparr>"

theorem tablet_position_on_screen_witness:
  "\<exists>e. tablet_round sample_tablet 1024 768 [] [1, 0xFF, 0x7F, 0, 0, 0] = Ok (Some e, [1, 0xFF, 0x7F, 0, 0, 0]) \<and>
     (\<forall>x. ev_ax e = Inr x \<longrightarrow> 0 \<le> x \<and> x < 1024)"
proof -
  let ?r = "[1, 0xFF, 0x7F, 0, 0, 0] :: u8 list"
  have b: "\<exists>v. value_from_report (button_item k) ?r = Ok (Some v)" if "k \<in> {1, 2, 3}" for k
    using that extract_bits_from_le_bytes_eq [of 1 "k - 1" ?r]
    by (auto simp: value_from_report_def button_item_def simp del: rbind_eq_Ok)
  have x: "\<exists>x. mapped_range_from_report (axis_item ofs u) ?r (0, hi) = Ok x"
    if "ofs \<in> {8, 24}" "0 \<le> hi" "hi < 2 ^ 63" for ofs u hi
  proof -
    define v where "v = int (le_nat ?r div 2 ^ ofs mod 2 ^ 15)"
    have "value_from_report (axis_item ofs u) ?r = Ok (Some v)"
      using that(1) value_from_report_eq [of "axis_item ofs u" ?r]
      by (auto simp: axis_item_def v_def simp del: rbind_eq_Ok)
    moreover have "0 \<le> v" "v \<le> 0x7FFF"
    proof -
      have "le_nat ?r div 2 ^ ofs mod 2 ^ 15 < 2 ^ 15" by (rule mod_less_divisor) simp
      then have "v < 2 ^ 15" unfolding v_def by (metis of_nat_less_numeral_power_cancel_iff)
      then show "0 \<le> v" "v \<le> 0x7FFF" by (simp_all add: v_def)
    qed
    ultimately show ?thesis
      using that map_value_in_range_inclusive_eq [of 0 v "0x7FFF" 0 hi]
      by (simp add: mapped_range_from_report_def axis_item_def)
  qed
  obtain l r c where "value_from_report (button_item 1) ?r = Ok (Some l)"
    "value_from_report (button_item 2) ?r = Ok (Some r)"
    "value_from_report (button_item 3) ?r = Ok (Some c)" using b by fastforce
  moreover obtain ax ay where
    "mapped_range_from_report (axis_item 8 X) ?r (0, 1023) = Ok ax"
    "mapped_range_from_report (axis_item 24 Y) ?r (0, 767) = Ok ay" using x by fastforce
  ultimately have t: "tablet_round sample_tablet 1024 768 [] ?r =
      Ok (Some \<lparr> ev_l = Some l, ev_r = Some r, ev_c = Some c, ev_ax = Inr ax, ev_ay = Inr ay \<rparr>, ?r)"
    by (simp add: tablet_round_def sample_tablet_def as_result_def chk_i64_def del: rbind_eq_Ok)
  from tablet_position_on_screen [OF _ _ _ _ t] t show ?thesis by auto
qed

end
