(* ===== verification/Pci_Config.thy ===== *)
theory Pci_Config
  imports Rust_Prelude
begin

text \<open>
  PCI configuration space of \<open>src/pci.rs\<close>: bus/device/function identifiers and their enumeration,
  register access through the memory-mapped configuration area, and the sizing of BAR0. The
  registers belong to the devices, so reading and writing them are parameters (\<open>rd\<close>, \<open>wr\<close>); a
  property that depends on how a BAR answers states it as the hypothesis \<open>bar0_register\<close>.
\<close>

section \<open>BusDeviceFunction\<close>

record VendorDeviceId =
  vendor :: u16
  device_id :: u16

record BusDeviceFunction =
  bdf_id :: u16

text \<open>The derived order: by identifier.\<close>

instantiation BusDeviceFunction_ext :: (linorder) linorder
begin

definition less_eq_BusDeviceFunction_ext ::
  "'a BusDeviceFunction_scheme \<Rightarrow> 'a BusDeviceFunction_scheme \<Rightarrow> bool" where
  "less_eq_BusDeviceFunction_ext a b \<longleftrightarrow>
     bdf_id a < bdf_id b \<or> bdf_id a = bdf_id b \<and> BusDeviceFunction.more a \<le> BusDeviceFunction.more b"

definition less_BusDeviceFunction_ext ::
  "'a BusDeviceFunction_scheme \<Rightarrow> 'a BusDeviceFunction_scheme \<Rightarrow> bool" where
  "less_BusDeviceFunction_ext a b \<longleftrightarrow>
     bdf_id a < bdf_id b \<or> bdf_id a = bdf_id b \<and> BusDeviceFunction.more a < BusDeviceFunction.more b"

instance
  by standard (auto simp: less_eq_BusDeviceFunction_ext_def less_BusDeviceFunction_ext_def)

end

definition MASK_BUS :: usize where "MASK_BUS = 0xFF00"

definition SHIFT_BUS :: nat where "SHIFT_BUS = 8"

definition MASK_DEVICE :: usize where "MASK_DEVICE = 0xF8"

definition SHIFT_DEVICE :: nat where "SHIFT_DEVICE = 3"

definition MASK_FUNCTION :: usize where "MASK_FUNCTION = 7"

definition SHIFT_FUNCTION :: nat where "SHIFT_FUNCTION = 0"

definition BDF_new :: "usize \<Rightarrow> usize \<Rightarrow> usize \<Rightarrow> BusDeviceFunction res" where
  "BDF_new bus device func =
     (if \<not> (bus < 256) \<or> \<not> (device < 32) \<or> \<not> (func < 8)
      then err ''PCI bus device function out of range''
      else Ok \<lparr> bdf_id = ucast (push_bit SHIFT_BUS bus OR push_bit SHIFT_DEVICE device OR
             push_bit SHIFT_FUNCTION func) \<rparr>)"

definition bdf_bus :: "BusDeviceFunction \<Rightarrow> usize" where
  "bdf_bus self = drop_bit SHIFT_BUS (ucast (bdf_id self) AND MASK_BUS)"

definition bdf_device :: "BusDeviceFunction \<Rightarrow> usize" where
  "bdf_device self = drop_bit SHIFT_DEVICE (ucast (bdf_id self) AND MASK_DEVICE)"

definition bdf_function :: "BusDeviceFunction \<Rightarrow> usize" where
  "bdf_function self = drop_bit SHIFT_FUNCTION (ucast (bdf_id self) AND MASK_FUNCTION)"

definition bdf_next :: "nat \<Rightarrow> (BusDeviceFunction \<times> nat) option" where
  "bdf_next next_id = (if 0xFFFF < next_id then None
     else Some (\<lparr> bdf_id = word_of_nat next_id \<rparr>, next_id + 1))"

text \<open>The loop over \<open>BusDeviceFunction::iter()\<close>.\<close>

function bdf_collect :: "nat \<Rightarrow> BusDeviceFunction list" where
  "bdf_collect next_id =
     (case bdf_next next_id of None \<Rightarrow> [] | Some (b, n) \<Rightarrow> b # bdf_collect n)"
  by pat_completeness auto
termination
  by (relation "measure (\<lambda>n. 0x10000 - n)") (auto simp: bdf_next_def split: if_splits)

section \<open>Registers\<close>

definition config_in_range :: "nat \<Rightarrow> nat \<Rightarrow> bool" where
  "config_in_range sz byte_offset \<longleftrightarrow> byte_offset < 256 \<and> byte_offset mod sz = 0"

definition config_read ::
  "('d \<Rightarrow> u64 \<Rightarrow> 't) \<Rightarrow> nat \<Rightarrow> 'd \<Rightarrow> u64 \<Rightarrow> nat \<Rightarrow> 't res" where
  "config_read rd sz dev ecm_base byte_offset =
     (if \<not> config_in_range sz byte_offset then err ''PCI ConfigRegisters read out of range''
      else Ok (rd dev (ecm_base + word_of_nat (byte_offset div sz * sz))))"

definition config_write ::
  "('d \<Rightarrow> u64 \<Rightarrow> 't \<Rightarrow> 'd) \<Rightarrow> nat \<Rightarrow> 'd \<Rightarrow> u64 \<Rightarrow> nat \<Rightarrow> 't \<Rightarrow> 'd res" where
  "config_write wr sz dev ecm_base byte_offset data =
     (if \<not> config_in_range sz byte_offset then err ''PCI ConfigRegisters write out of range''
      else Ok (wr dev (ecm_base + word_of_nat (byte_offset div sz * sz)) data))"

record Pci =
  ecm_start :: u64
  ecm_end :: u64

text \<open>\<open>Pci::new\<close> on the entries of the MCFG table, as base addresses.\<close>

definition Pci_new :: "u64 list \<Rightarrow> Pci res" where
  "Pci_new entries =
     (if length entries \<noteq> 1 then panic ''assertion failed: mcfg.num_of_entries() == 1''
      else rbind (uadd (hd entries) (push_bit 24 1)) (\<lambda>e.
             Ok \<lparr> ecm_start = hd entries, ecm_end = e \<rparr>))"

definition ecm_base :: "Pci \<Rightarrow> BusDeviceFunction \<Rightarrow> u64 res" where
  "ecm_base self i = uadd (ecm_start self) (push_bit 12 (ucast (bdf_id i)))"

definition read_register_u16 ::
  "('d \<Rightarrow> u64 \<Rightarrow> u16) \<Rightarrow> Pci \<Rightarrow> 'd \<Rightarrow> BusDeviceFunction \<Rightarrow> nat \<Rightarrow> u16 res" where
  "read_register_u16 rd self dev bdf ofs = rbind (ecm_base self bdf) (\<lambda>b. config_read rd 2 dev b ofs)"

definition read_register_u32 ::
  "('d \<Rightarrow> u64 \<Rightarrow> u32) \<Rightarrow> Pci \<Rightarrow> 'd \<Rightarrow> BusDeviceFunction \<Rightarrow> nat \<Rightarrow> u32 res" where
  "read_register_u32 rd self dev bdf ofs = rbind (ecm_base self bdf) (\<lambda>b. config_read rd 4 dev b ofs)"

definition write_register_u32 ::
  "('d \<Rightarrow> u64 \<Rightarrow> u32 \<Rightarrow> 'd) \<Rightarrow> Pci \<Rightarrow> 'd \<Rightarrow> BusDeviceFunction \<Rightarrow> nat \<Rightarrow> u32 \<Rightarrow> 'd res" where
  "write_register_u32 wr self dev bdf ofs data =
     rbind (ecm_base self bdf) (\<lambda>b. config_write wr 4 dev b ofs data)"

definition read_vendor_id_and_device_id ::
  "('d \<Rightarrow> u64 \<Rightarrow> u16) \<Rightarrow> Pci \<Rightarrow> 'd \<Rightarrow> BusDeviceFunction \<Rightarrow> VendorDeviceId option res" where
  "read_vendor_id_and_device_id rd self dev bdf =
     rbind (res_ok (read_register_u16 rd self dev bdf 0)) (\<lambda>v.
     case v of None \<Rightarrow> Ok None
     | Some ven \<Rightarrow>
         rbind (res_ok (read_register_u16 rd self dev bdf 2)) (\<lambda>d.
         case d of None \<Rightarrow> Ok None
         | Some dv \<Rightarrow>
             if ven = 0xFFFF \<or> dv = 0xFFFF then Ok None
             else Ok (Some \<lparr> vendor = ven, device_id = dv \<rparr>)))"

definition read_register_u64 ::
  "('d \<Rightarrow> u64 \<Rightarrow> u32) \<Rightarrow> Pci \<Rightarrow> 'd \<Rightarrow> BusDeviceFunction \<Rightarrow> nat \<Rightarrow> u64 res" where
  "read_register_u64 rd self dev bdf ofs =
     rbind (read_register_u32 rd self dev bdf ofs) (\<lambda>lo.
     rbind (read_register_u32 rd self dev bdf (ofs + 4)) (\<lambda>hi.
       Ok (push_bit 32 (ucast hi) OR ucast lo)))"

definition write_register_u64 ::
  "('d \<Rightarrow> u64 \<Rightarrow> u32 \<Rightarrow> 'd) \<Rightarrow> Pci \<Rightarrow> 'd \<Rightarrow> BusDeviceFunction \<Rightarrow> nat \<Rightarrow> u64 \<Rightarrow> 'd res" where
  "write_register_u64 wr self dev bdf ofs data =
     (let lo = ucast data; hi = ucast (drop_bit 32 data) in
      rbind (write_register_u32 wr self dev bdf ofs lo) (\<lambda>dev1.
        write_register_u32 wr self dev1 bdf (ofs + 4) hi))"

record BarMem64 =
  bar_addr :: u64
  bar_size :: u64

definition try_bar0_mem64 ::
  "('d \<Rightarrow> u64 \<Rightarrow> u32) \<Rightarrow> ('d \<Rightarrow> u64 \<Rightarrow> u32 \<Rightarrow> 'd) \<Rightarrow> Pci \<Rightarrow> 'd \<Rightarrow> BusDeviceFunction \<Rightarrow>
   (BarMem64 \<times> 'd) res" where
  "try_bar0_mem64 rd wr self dev bdf =
     rbind (read_register_u64 rd self dev bdf 0x10) (\<lambda>bar0.
     if bar0 AND 7 = 4 then
       let addr = bar0 AND NOT 0xF in
       rbind (write_register_u64 wr self dev bdf 0x10 (NOT 0)) (\<lambda>dev1.
       rbind (read_register_u64 rd self dev1 bdf 0x10) (\<lambda>probe.
       rbind (uadd 1 (NOT (probe AND NOT 0xF))) (\<lambda>sz.
       rbind (write_register_u64 wr self dev1 bdf 0x10 bar0) (\<lambda>dev2.
         Ok (\<lparr> bar_addr = addr, bar_size = sz \<rparr>, dev2)))))
     else err ''Unexpected BAR0 Type'')"

definition set_command_and_status_flags ::
  "('d \<Rightarrow> u64 \<Rightarrow> u32) \<Rightarrow> ('d \<Rightarrow> u64 \<Rightarrow> u32 \<Rightarrow> 'd) \<Rightarrow> Pci \<Rightarrow> 'd \<Rightarrow> BusDeviceFunction \<Rightarrow> u32 \<Rightarrow> 'd res" where
  "set_command_and_status_flags rd wr self dev bdf flags =
     rbind (read_register_u32 rd self dev bdf 4) (\<lambda>cur.
       write_register_u32 wr self dev bdf 4 (flags OR cur))"

definition enable_bus_master ::
  "('d \<Rightarrow> u64 \<Rightarrow> u32) \<Rightarrow> ('d \<Rightarrow> u64 \<Rightarrow> u32 \<Rightarrow> 'd) \<Rightarrow> Pci \<Rightarrow> 'd \<Rightarrow> BusDeviceFunction \<Rightarrow> 'd res" where
  "enable_bus_master rd wr self dev bdf =
     set_command_and_status_flags rd wr self dev bdf (push_bit 2 1)"

definition disable_interrupt ::
  "('d \<Rightarrow> u64 \<Rightarrow> u32) \<Rightarrow> ('d \<Rightarrow> u64 \<Rightarrow> u32 \<Rightarrow> 'd) \<Rightarrow> Pci \<Rightarrow> 'd \<Rightarrow> BusDeviceFunction \<Rightarrow> 'd res" where
  "disable_interrupt rd wr self dev bdf =
     set_command_and_status_flags rd wr self dev bdf (push_bit 10 1)"

section \<open>Identifiers\<close>

lemma bdf_bits:
  assumes "bus < 256" "device < 32" "func < 8"
  shows "\<not> bit (bus :: usize) n \<or> n < 8" "\<not> bit (device :: usize) n \<or> n < 5" "\<not> bit (func :: usize) n \<or> n < 3"
proof -
  have gen: "n < k" if "bit (w::usize) n" "unat w < 2 ^ k" for w k n
  proof -
    have "2 ^ n \<le> unat w" using that(1) by (rule bit_imp_exp_le)
    with that(2) have "(2::nat) ^ n < 2 ^ k" by linarith
    then show ?thesis by simp
  qed
  show "\<not> bit bus n \<or> n < 8" using gen [of bus n 8] assms(1) by (auto simp: word_less_nat_alt)
  show "\<not> bit device n \<or> n < 5" using gen [of device n 5] assms(2) by (auto simp: word_less_nat_alt)
  show "\<not> bit func n \<or> n < 3" using gen [of func n 3] assms(3) by (auto simp: word_less_nat_alt)
qed

lemma mask_bits:
  "bit MASK_BUS n \<longleftrightarrow> 8 \<le> n \<and> n < 16" "bit MASK_DEVICE n \<longleftrightarrow> 3 \<le> n \<and> n < 8"
  "bit MASK_FUNCTION n \<longleftrightarrow> n < 3"
proof -
  have e: "MASK_BUS = push_bit 8 (mask 8)" "MASK_DEVICE = push_bit 3 (mask 5)" "MASK_FUNCTION = mask 3"
    by (simp_all add: MASK_BUS_def MASK_DEVICE_def MASK_FUNCTION_def mask_eq_exp_minus_1)
  show "bit MASK_BUS n \<longleftrightarrow> 8 \<le> n \<and> n < 16" unfolding e by (auto simp only: bit_simps) auto
  show "bit MASK_DEVICE n \<longleftrightarrow> 3 \<le> n \<and> n < 8" unfolding e by (auto simp only: bit_simps) auto
  show "bit MASK_FUNCTION n \<longleftrightarrow> n < 3" unfolding e by (auto simp only: bit_simps) auto
qed

lemma bdf_fields:
  assumes "BDF_new bus device func = Ok b"
  shows "bdf_bus b = bus" "bdf_device b = device" "bdf_function b = func"
proof -
  from assms have r: "bus < 256" "device < 32" "func < 8"
    and b: "bdf_id b = ucast (push_bit 8 bus OR push_bit 3 device OR func)"
    by (auto simp: BDF_new_def SHIFT_BUS_def SHIFT_DEVICE_def SHIFT_FUNCTION_def split: if_splits)
  note bits = bdf_bits [OF r]
  show "bdf_bus b = bus"
  proof (rule bit_word_eqI)
    fix n assume "n < LENGTH(64)"
    then show "bit (bdf_bus b) n = bit bus n"
      using bits(1) [of n] bits(2) [of "5 + n"] bits(3) [of "8 + n"]
      by (auto simp: bdf_bus_def b SHIFT_BUS_def bit_drop_bit_eq bit_and_iff mask_bits
          bit_ucast_iff bit_or_iff bit_push_bit_iff)
  qed
  show "bdf_device b = device"
  proof (rule bit_word_eqI)
    fix n assume "n < LENGTH(64)"
    then show "bit (bdf_device b) n = bit device n"
      using bits(2) [of n] bits(3) [of "3 + n"]
      by (auto simp: bdf_device_def b SHIFT_DEVICE_def bit_drop_bit_eq bit_and_iff mask_bits
          bit_ucast_iff bit_or_iff bit_push_bit_iff)
  qed
  show "bdf_function b = func"
  proof (rule bit_word_eqI)
    fix n assume "n < LENGTH(64)"
    then show "bit (bdf_function b) n = bit func n"
      using bits(3) [of n]
      by (auto simp: bdf_function_def b SHIFT_FUNCTION_def bit_and_iff mask_bits
          bit_ucast_iff bit_or_iff bit_push_bit_iff)
  qed
qed

declare bdf_collect.simps [simp del]

lemma bdf_collect_eq:
  "n \<le> 0x10000 \<Longrightarrow> bdf_collect n = map (\<lambda>i. \<lparr> bdf_id = word_of_nat i \<rparr>) [n..<0x10000]"
proof (induction n rule: bdf_collect.induct)
  case (1 n)
  show ?case
  proof (cases "n = 0x10000")
    case True
    then show ?thesis by (simp add: bdf_collect.simps bdf_next_def)
  next
    case False
    then have "bdf_next n = Some (\<lparr> bdf_id = word_of_nat n \<rparr>, n + 1)"
      using 1(2) by (simp add: bdf_next_def)
    with 1 False show ?thesis by (subst bdf_collect.simps) (simp add: upt_conv_Cons)
  qed
qed

text \<open>The functions come in increasing order, so each once.\<close>

lemma bdf_collect_sorted: "sorted_wrt (<) (bdf_collect 0)"
  by (auto simp: bdf_collect_eq sorted_wrt_iff_nth_less less_BusDeviceFunction_ext_def word_less_nat_alt unat_of_nat)

section \<open>Register addresses\<close>

definition register_addr :: "Pci \<Rightarrow> BusDeviceFunction \<Rightarrow> nat \<Rightarrow> nat" where
  "register_addr p b ofs = unat (ecm_start p) + 4096 * unat (bdf_id b) + ofs"

lemma ecm_base_Ok:
  assumes "unat (ecm_start p) + 2 ^ 28 \<le> 2 ^ 64"
  shows "\<exists>a. ecm_base p b = Ok a \<and> unat a = unat (ecm_start p) + 4096 * unat (bdf_id b)"
proof -
  have id: "unat (bdf_id b) < 65536" using unsigned_less [of "bdf_id b"] by simp
  have u: "unat (ucast (bdf_id b) :: u64) = unat (bdf_id b)"
    using id by (simp add: unsigned_ucast_eq take_bit_nat_eq_self)
  have "unat (push_bit 12 (ucast (bdf_id b) :: u64)) = unat (bdf_id b) * 2 ^ 12"
    using id u by (subst unat_push_bit_nowrap) simp_all
  with assms id show ?thesis
    by (simp add: ecm_base_def uadd_def unat_word_ariths)
qed

lemma config_access:
  assumes p: "unat (ecm_start p) + 2 ^ 28 \<le> 2 ^ 64" and o: "config_in_range 4 ofs"
  obtains a where "unat a = register_addr p b ofs"
    "\<And>rd dev. read_register_u32 rd p dev b ofs = Ok (rd dev a)"
    "\<And>wr dev v. write_register_u32 wr p dev b ofs v = Ok (wr dev a v)"
proof -
  from ecm_base_Ok [OF p, of b] obtain e where
    e: "ecm_base p b = Ok e" "unat e = unat (ecm_start p) + 4096 * unat (bdf_id b)" by blast
  have id: "unat (bdf_id b) < 65536" using unsigned_less [of "bdf_id b"] by simp
  from o have ofs: "ofs < 256" "ofs div 4 * 4 = ofs" by (auto simp: config_in_range_def)
  have "unat (e + word_of_nat ofs) = register_addr p b ofs"
    using e(2) ofs(1) p id by (simp add: unat_add_nowrap unat_of_nat register_addr_def)
  then show thesis
    using that [of "e + word_of_nat ofs"] e(1) o ofs
    by (simp add: read_register_u32_def write_register_u32_def config_read_def config_write_def)
qed

section \<open>The answer of a BAR\<close>

text \<open>
  The PCI specification on a 64-bit memory BAR of \<open>2 ^ k\<close> bytes (6.2.5.1): of the register pair at
  \<open>lo\<close>, \<open>hi\<close> the address bits from \<open>k\<close> up can be written, the low four bits are read-only type bits,
  the bits in between read as 0, and a write to one register does not change the other.
\<close>

definition bar0_register ::
  "('d \<Rightarrow> u64 \<Rightarrow> u32) \<Rightarrow> ('d \<Rightarrow> u64 \<Rightarrow> u32 \<Rightarrow> 'd) \<Rightarrow> u64 \<Rightarrow> u64 \<Rightarrow> nat \<Rightarrow> bool" where
  "bar0_register rd wr lo hi k \<longleftrightarrow>
     (\<forall>dev. rd dev lo AND NOT (ucast (NOT (mask k :: u64)) OR 0xF) = 0 \<and>
        rd dev hi AND NOT (ucast (drop_bit 32 (NOT (mask k :: u64)))) = 0) \<and>
     (\<forall>dev v. rd (wr dev lo v) lo = (v AND ucast (NOT (mask k :: u64))) OR (rd dev lo AND 0xF) \<and>
        rd (wr dev lo v) hi = rd dev hi \<and>
        rd (wr dev hi v) hi = v AND ucast (drop_bit 32 (NOT (mask k :: u64))) \<and>
        rd (wr dev hi v) lo = rd dev lo)"

lemma F_eq_mask: "(0xF :: 'a::len word) = mask 4"
  by (simp add: mask_eq_exp_minus_1)

lemma bar_restore:
  fixes v w :: u32
  assumes "v AND NOT (w OR 0xF) = 0" and "u AND 0xF = v AND 0xF"
  shows "(v AND w) OR (u AND 0xF) = v"
proof (rule bit_word_eqI)
  fix n
  have a: "\<not> (bit v n \<and> \<not> bit w n \<and> \<not> n < 4)" if "n < 32"
    using arg_cong [OF assms(1), of "\<lambda>x. bit x n"] that
    by (auto simp: F_eq_mask bit_and_iff bit_not_iff bit_or_iff bit_mask_iff)
  have b: "bit u n = bit v n" if "n < 4"
    using arg_cong [OF assms(2), of "\<lambda>x. bit x n"] that
    by (auto simp: F_eq_mask bit_and_iff bit_mask_iff)
  assume "n < LENGTH(32)"
  with a b show "bit ((v AND w) OR (u AND 0xF)) n = bit v n"
    unfolding F_eq_mask by (auto simp only: bit_and_iff bit_or_iff bit_mask_iff) auto
qed

lemma and_not_zero:
  fixes x w :: u32
  assumes "x AND NOT w = 0"
  shows "x AND w = x"
proof (rule bit_word_eqI)
  fix n
  assume "n < LENGTH(32)"
  then show "bit (x AND w) n = bit x n"
    using arg_cong [OF assms, of "\<lambda>y. bit y n"] by (auto simp: bit_and_iff bit_not_iff)
qed

lemma join_probe:
  "(push_bit 32 (ucast (ucast (drop_bit 32 w) :: u32)) OR ucast ((ucast w OR (t AND 0xF)) :: u32)) AND NOT 0xF
    = (w AND NOT 0xF :: u64)"
proof (rule bit_word_eqI)
  fix n
  assume "n < LENGTH(64)"
  then show "bit ((push_bit 32 (ucast (ucast (drop_bit 32 w) :: u32)) OR
      ucast ((ucast w OR (t AND 0xF)) :: u32)) AND NOT (0xF :: u64)) n = bit (w AND NOT 0xF) n"
    unfolding F_eq_mask
    by (cases "n < 32") (auto simp: bit_simps)
qed

lemma join_halves:
  "push_bit 32 (ucast (ucast (drop_bit 32 w) :: u32)) OR ucast (ucast w :: u32) = (w :: u64)"
proof (rule bit_word_eqI)
  fix n
  assume "n < LENGTH(64)"
  then show "bit (push_bit 32 (ucast (ucast (drop_bit 32 w) :: u32)) OR ucast (ucast w :: u32) :: u64) n = bit w n"
    by (cases "n < 32") (auto simp: bit_simps)
qed

lemma bar_size_eq:
  assumes "4 \<le> k" "k < 64"
  shows "uadd 1 (NOT (NOT (mask k) AND NOT 0xF)) = Ok ((2::u64) ^ k)"
proof -
  have m: "NOT (NOT (mask k) AND NOT 0xF) = (mask k :: u64)"
    unfolding F_eq_mask
    by (rule bit_word_eqI) (use assms in \<open>auto simp: bit_simps\<close>)
  have u: "unat (mask k :: u64) = 2 ^ k - 1"
  proof -
    have e: "unat ((2::u64) ^ k) = 2 ^ k"
      using assms(2) by (simp add: unat_push_bit_nowrap [of 1 k, simplified])
    then have "unat ((2::u64) ^ k - 1) = 2 ^ k - 1" by (subst unat_sub_nowrap) simp_all
    then show ?thesis by (simp add: mask_eq_exp_minus_1)
  qed
  have "(2::nat) ^ k \<le> 2 ^ 63" using assms(2) by (intro power_increasing) auto
  then have "unat (mask k :: u64) + 1 < 2 ^ 64" using u by simp
  then show ?thesis unfolding m by (simp add: uadd_def mask_eq_exp_minus_1)
qed

lemma try_bar0_restores:
  assumes p: "unat (ecm_start p) + 2 ^ 28 \<le> 2 ^ 64"
    and lo: "unat lo = register_addr p b 0x10" and hi: "unat hi = register_addr p b 0x14"
    and bar: "bar0_register rd wr lo hi k" and k: "4 \<le> k" "k < 64"
    and ty: "rd dev lo AND 7 = 4"
  shows "\<exists>dev'. try_bar0_mem64 rd wr p dev b =
      Ok (\<lparr> bar_addr = (push_bit 32 (ucast (rd dev hi)) OR ucast (rd dev lo)) AND NOT 0xF,
            bar_size = 2 ^ k \<rparr>, dev') \<and> rd dev' lo = rd dev lo \<and> rd dev' hi = rd dev hi \<and>
    (\<exists>v1 v2 v3 v4. dev' = wr (wr (wr (wr dev lo v1) hi v2) lo v3) hi v4)"
proof -
  have o: "config_in_range 4 0x10" "config_in_range 4 (0x10 + 4)" by (simp_all add: config_in_range_def)
  obtain a where a: "unat a = register_addr p b 0x10"
    "\<And>rd :: 'a \<Rightarrow> u64 \<Rightarrow> u32. \<And>dev. read_register_u32 rd p dev b 0x10 = Ok (rd dev a)"
    "\<And>wr :: 'a \<Rightarrow> u64 \<Rightarrow> u32 \<Rightarrow> 'a. \<And>dev v. write_register_u32 wr p dev b 0x10 v = Ok (wr dev a v)"
    using config_access [OF p o(1)] by metis
  obtain c where c: "unat c = register_addr p b (0x10 + 4)"
    "\<And>rd :: 'a \<Rightarrow> u64 \<Rightarrow> u32. \<And>dev. read_register_u32 rd p dev b (0x10 + 4) = Ok (rd dev c)"
    "\<And>wr :: 'a \<Rightarrow> u64 \<Rightarrow> u32 \<Rightarrow> 'a. \<And>dev v. write_register_u32 wr p dev b (0x10 + 4) v = Ok (wr dev c v)"
    using config_access [OF p o(2)] by metis
  have eq: "a = lo" "c = hi" using a(1) c(1) lo hi by (simp_all add: word_unat_eq_iff)
  let ?w = "NOT (mask k) :: u64"
  let ?v = "push_bit 32 (ucast (rd dev hi)) OR ucast (rd dev lo) :: u64"
  define dev1 where "dev1 = wr (wr dev lo (ucast (NOT 0 :: u64))) hi (ucast (drop_bit 32 (NOT 0 :: u64)))"
  define dev2 where "dev2 = wr (wr dev1 lo (ucast ?v)) hi (ucast (drop_bit 32 ?v))"
  have ones: "(ucast (NOT 0 :: u64) :: u32) = NOT 0" "(ucast (drop_bit 32 (NOT 0 :: u64)) :: u32) = NOT 0"
    by (rule bit_word_eqI; simp add: bit_simps)+
  have d1: "rd dev1 lo = ucast ?w OR (rd dev lo AND 0xF)" "rd dev1 hi = ucast (drop_bit 32 ?w)"
    using bar unfolding bar0_register_def dev1_def ones by simp_all
  have lohi: "ucast ?v = rd dev lo" "ucast (drop_bit 32 ?v) = rd dev hi"
    by (rule bit_word_eqI; auto simp: bit_simps dest: bit_imp_le_length)+
  have "rd dev2 lo = (rd dev lo AND ucast ?w) OR (rd dev1 lo AND 0xF)"
    "rd dev2 hi = rd dev hi AND ucast (drop_bit 32 ?w)"
    using bar unfolding bar0_register_def dev2_def lohi by simp_all
  moreover have "rd dev1 lo AND 0xF = rd dev lo AND 0xF"
    unfolding d1(1) F_eq_mask by (rule bit_word_eqI) (use k(1) in \<open>auto simp: bit_simps\<close>)
  moreover have "rd dev lo AND NOT (ucast ?w OR 0xF) = 0" "rd dev hi AND NOT (ucast (drop_bit 32 ?w)) = 0"
    using bar unfolding bar0_register_def by blast+
  ultimately have restored: "rd dev2 lo = rd dev lo" "rd dev2 hi = rd dev hi"
    using bar_restore [of "rd dev lo" "ucast ?w" "rd dev1 lo"] and_not_zero by simp_all
  have r0: "read_register_u64 rd p dev b 0x10 = Ok ?v"
    using a(2) c(2) by (simp add: read_register_u64_def eq)
  have w1: "write_register_u64 wr p dev b 0x10 (NOT 0) = Ok dev1"
    using a(3) c(3) by (simp add: write_register_u64_def eq dev1_def del: drop_bit_of_1 bit.compl_zero)
  have r1: "read_register_u64 rd p dev1 b 0x10 = Ok (push_bit 32 (ucast (rd dev1 hi)) OR ucast (rd dev1 lo))"
    using a(2) c(2) by (simp add: read_register_u64_def eq)
  have w2: "write_register_u64 wr p dev1 b 0x10 ?v = Ok dev2"
    using a(3) c(3) by (simp add: write_register_u64_def eq dev2_def Let_def)
  have sz: "uadd 1 (NOT ((push_bit 32 (ucast (rd dev1 hi)) OR ucast (rd dev1 lo)) AND NOT 0xF)) = Ok ((2::u64) ^ k)"
    unfolding d1 join_probe by (rule bar_size_eq [OF k])
  have t7: "?v AND 7 = 4"
  proof -
    have "ucast (rd dev lo AND 7) = (4 :: u64)" using ty by simp
    moreover have "?v AND 7 = ucast (rd dev lo AND 7)"
    proof (rule bit_word_eqI)
      fix n assume "n < LENGTH(64)"
      have m: "(7::'b::len word) = mask 3" by (simp add: mask_eq_exp_minus_1)
      show "bit (?v AND 7) n = bit (ucast (rd dev lo AND 7) :: u64) n"
        unfolding m by (auto simp: bit_simps)
    qed
    ultimately show ?thesis by simp
  qed
  have "try_bar0_mem64 rd wr p dev b = Ok (\<lparr> bar_addr = ?v AND NOT 0xF, bar_size = 2 ^ k \<rparr>, dev2)"
    unfolding try_bar0_mem64_def r0 rbind_simps if_P [OF t7] Let_def w1 r1 sz w2 ..
  with restored show ?thesis unfolding dev1_def dev2_def by blast
qed

section \<open>Properties\<close>

text \<open>
  an identifier is built exactly from a bus below 256, a device below 32 and a function below 8,
  and its accessors give them back; anything else is the error of the source.
\<close>

theorem bdf_roundtrip:
  "if bus < 256 \<and> device < 32 \<and> func < 8
   then \<exists>b. BDF_new bus device func = Ok b \<and> bdf_bus b = bus \<and> bdf_device b = device \<and>
     bdf_function b = func
   else BDF_new bus device func = err ''PCI bus device function out of range''"
proof (cases "bus < 256 \<and> device < 32 \<and> func < 8")
  case True
  then obtain b where b: "BDF_new bus device func = Ok b" by (auto simp: BDF_new_def)
  from bdf_fields [OF this] b True show ?thesis by auto
next
  case False
  then show ?thesis by (auto simp: BDF_new_def)
qed

text \<open>
  the enumeration ends and visits every identifier exactly once.
\<close>

theorem bdf_iter_visits_all_once:
  "distinct (bdf_collect 0) \<and> set (bdf_collect 0) = UNIV"
proof -
  have e: "bdf_collect 0 = map (\<lambda>i. \<lparr> bdf_id = word_of_nat i \<rparr>) [0..<0x10000]"
    by (rule bdf_collect_eq) simp
  have "inj_on (\<lambda>i. \<lparr> bdf_id = word_of_nat i :: u16 \<rparr>) {0..<0x10000}"
  proof (rule inj_onI)
    fix i j
    assume ij: "i \<in> {0..<0x10000}" "j \<in> {0..<0x10000}"
      "\<lparr> bdf_id = word_of_nat i :: u16 \<rparr> = \<lparr> bdf_id = word_of_nat j \<rparr>"
    then have "unat (word_of_nat i :: u16) = unat (word_of_nat j :: u16)" by simp
    with ij(1,2) show "i = j" by (simp add: unat_of_nat)
  qed
  then have "distinct (bdf_collect 0)" unfolding e distinct_map by simp
  moreover have "b \<in> set (bdf_collect 0)" for b
  proof -
    have "unat (bdf_id b) < 0x10000" using unsigned_less [of "bdf_id b"] by simp
    moreover have "b = \<lparr> bdf_id = word_of_nat (unat (bdf_id b)) \<rparr>" by simp
    ultimately show ?thesis unfolding e set_map set_upt by (metis atLeastLessThan_iff imageI le0)
  qed
  ultimately show ?thesis by blast
qed

text \<open>
  with a configuration area of 256 MiB below the end of the address space, every aligned
  register of every function is read and written at an address of its own inside that area.
\<close>

theorem config_registers_disjoint:
  assumes "unat (ecm_start p) + 2 ^ 28 \<le> 2 ^ 64"
    and "config_in_range 4 o1" and "config_in_range 4 o2" and "(b1, o1) \<noteq> (b2, o2)"
  shows "\<exists>a1 a2. a1 \<noteq> a2 \<and>
    (\<forall>(rd :: 'd \<Rightarrow> u64 \<Rightarrow> u32) dev. read_register_u32 rd p dev b1 o1 = Ok (rd dev a1)) \<and>
    (\<forall>(wr :: 'd \<Rightarrow> u64 \<Rightarrow> u32 \<Rightarrow> 'd) dev v. write_register_u32 wr p dev b2 o2 v = Ok (wr dev a2 v)) \<and>
    unat (ecm_start p) \<le> unat a1 \<and> unat a1 + 4 \<le> unat (ecm_start p) + 2 ^ 28"
proof -
  obtain a1 where a1: "unat a1 = register_addr p b1 o1"
    "\<And>rd :: 'd \<Rightarrow> u64 \<Rightarrow> u32. \<And>dev. read_register_u32 rd p dev b1 o1 = Ok (rd dev a1)"
    using config_access [OF assms(1,2)] by metis
  obtain a2 where a2: "unat a2 = register_addr p b2 o2"
    "\<And>wr :: 'd \<Rightarrow> u64 \<Rightarrow> u32 \<Rightarrow> 'd. \<And>dev v. write_register_u32 wr p dev b2 o2 v = Ok (wr dev a2 v)"
    using config_access [OF assms(1,3)] by metis
  have o: "o1 < 256" "o2 < 256" "4 dvd o1" using assms(2,3) by (auto simp: config_in_range_def)
  have id: "unat (bdf_id b1) < 65536" using unsigned_less [of "bdf_id b1"] by simp
  have "a1 \<noteq> a2"
  proof
    assume "a1 = a2"
    then have "4096 * unat (bdf_id b1) + o1 = 4096 * unat (bdf_id b2) + o2"
      using a1(1) a2(1) by (simp add: register_addr_def)
    then have e: "4096 * unat (bdf_id b1) + o1 = 4096 * unat (bdf_id b2) + o2" .
    have "(4096 * x + y) div 4096 = x" "(4096 * x + y) mod 4096 = y" if "y < 256" for x y :: nat
      using that by simp_all
    from this [OF o(1), of "unat (bdf_id b1)"] this [OF o(2), of "unat (bdf_id b2)"] e
    have "unat (bdf_id b1) = unat (bdf_id b2) \<and> o1 = o2" by metis
    then show False using assms(4) by (auto simp: word_unat_eq_iff)
  qed
  moreover have "o1 \<le> 252" using o(1,3) by presburger
  ultimately show ?thesis using a1 a2 id by (intro exI [of _ a1] exI [of _ a2]) (auto simp: register_addr_def)
qed

definition sample_pci :: Pci where
  "sample_pci = \<lparr> ecm_start = 0xB0000000, ecm_end = 0xB1000000 \<rparr>"

theorem config_registers_disjoint_witness:
  "\<exists>a1 a2. a1 \<noteq> a2 \<and>
     (\<forall>(rd :: unit \<Rightarrow> u64 \<Rightarrow> u32) dev. read_register_u32 rd sample_pci dev \<lparr> bdf_id = 8 \<rparr> 0 = Ok (rd dev a1)) \<and>
     (\<forall>(wr :: unit \<Rightarrow> u64 \<Rightarrow> u32 \<Rightarrow> unit) dev v.
        write_register_u32 wr sample_pci dev \<lparr> bdf_id = 8 \<rparr> 4 v = Ok (wr dev a2 v))"
  using config_registers_disjoint [where 'd = unit, of sample_pci 0 4 "\<lparr> bdf_id = 8 \<rparr>" "\<lparr> bdf_id = 8 \<rparr>"]
  by (auto simp: sample_pci_def config_in_range_def)

text \<open>
  C17: on a function whose BAR0 is a 64-bit memory BAR of \<open>2 ^ k\<close> bytes, \<open>try_bar0_mem64\<close> returns
  its address and its size and leaves both registers as it found them.
\<close>

theorem try_bar0_sizes_and_restores:
  assumes "unat (ecm_start p) + 2 ^ 28 \<le> 2 ^ 64"
    and "unat lo = register_addr p b 0x10" and "unat hi = register_addr p b 0x14"
    and "bar0_register rd wr lo hi k" and "4 \<le> k" and "k < 64" and "rd dev lo AND 7 = 4"
  shows "\<exists>dev'. try_bar0_mem64 rd wr p dev b =
      Ok (\<lparr> bar_addr = (push_bit 32 (ucast (rd dev hi)) OR ucast (rd dev lo)) AND NOT 0xF,
            bar_size = 2 ^ k \<rparr>, dev') \<and> rd dev' lo = rd dev lo \<and> rd dev' hi = rd dev hi"
  using try_bar0_restores [OF assms] by blast

text \<open>A BAR of 16 KiB at \<open>0xC0000000\<close>: its two address words, of which bits 14 and up are kept.\<close>

definition sample_lo :: u64 where "sample_lo = 0xB0008010"

definition sample_rd :: "u64 \<times> unit \<Rightarrow> u64 \<Rightarrow> u32" where
  "sample_rd dev a = (if a = sample_lo then ucast (fst dev AND NOT (mask 14)) OR 4
     else ucast (drop_bit 32 (fst dev)))"

definition sample_wr :: "u64 \<times> unit \<Rightarrow> u64 \<Rightarrow> u32 \<Rightarrow> u64 \<times> unit" where
  "sample_wr dev a v = (if a = sample_lo
     then ((push_bit 32 (drop_bit 32 (fst dev)) OR ucast v), ())
     else (push_bit 32 (ucast v) OR take_bit 32 (fst dev), ()))"

lemma sample_bar: "bar0_register sample_rd sample_wr sample_lo 0xB0008014 14"
proof -
  have F: "(0xF::u32) = mask 4" by (rule F_eq_mask)
  have hi_ne: "(0xB0008014::u64) \<noteq> sample_lo" by (simp add: sample_lo_def)
  have m: "drop_bit 32 (NOT (mask 14 :: u64)) = mask 32"
    by (rule bit_word_eqI) (auto simp: bit_simps)
  have four: "(4::u32) = push_bit 2 1" by simp
  have 1: "(ucast (x AND NOT (mask 14 :: u64)) OR 4) AND NOT (ucast (NOT (mask 14 :: u64)) OR 0xF) = (0 :: u32)" for x
    unfolding F four by (rule bit_word_eqI) (auto simp only: bit_simps, auto)
  have 2: "(ucast (drop_bit 32 x) :: u32) AND NOT (ucast (mask 32 :: u64)) = 0" for x :: u64
    by (rule bit_word_eqI) (auto simp: bit_simps)
  have 3: "ucast ((push_bit 32 h OR ucast v) AND NOT (mask 14 :: u64)) OR 4 =
      (v AND ucast (NOT (mask 14 :: u64))) OR ((ucast (x AND NOT (mask 14 :: u64)) OR 4) AND 0xF)"
    for v :: u32 and h x :: u64
    unfolding F four by (rule bit_word_eqI) (auto simp only: bit_simps, auto)
  have 4: "ucast (drop_bit 32 (push_bit 32 (drop_bit 32 x) OR ucast v)) = (ucast (drop_bit 32 x) :: u32)"
    for x :: u64 and v :: u32
    by (rule bit_word_eqI) (auto simp: bit_simps dest: bit_imp_le_length)
  have 5: "ucast (drop_bit 32 (push_bit 32 (ucast v) OR take_bit 32 x)) = v AND ucast (mask 32 :: u64)"
    for x :: u64 and v :: u32
    by (rule bit_word_eqI) (auto simp: bit_simps)
  have 6: "ucast ((push_bit 32 (ucast v) OR take_bit 32 x) AND NOT (mask 14 :: u64)) = (ucast (x AND NOT (mask 14)) :: u32)"
    for x :: u64 and v :: u32
    by (rule bit_word_eqI) (auto simp: bit_simps)
  show ?thesis
    using hi_ne unfolding bar0_register_def sample_rd_def sample_wr_def m
    by (simp only: if_True if_False simp_thms fst_conv 1 2 3 [of _ _ "_ :: u64"] 4 5 6 refl) 
qed

theorem try_bar0_sizes_and_restores_witness:
  "\<exists>dev'. try_bar0_mem64 sample_rd sample_wr sample_pci (0xC0000000, ()) \<lparr> bdf_id = 8 \<rparr> =
     Ok (\<lparr> bar_addr = 0xC0000000, bar_size = 0x4000 \<rparr>, dev')"
proof -
  have l: "sample_rd (0xC0000000, ()) sample_lo = 0xC0000004"
    "sample_rd (0xC0000000, ()) 0xB0008014 = 0"
    by (simp_all add: sample_rd_def sample_lo_def mask_eq_exp_minus_1)
  have "\<exists>dev'. try_bar0_mem64 sample_rd sample_wr sample_pci (0xC0000000, ()) \<lparr> bdf_id = 8 \<rparr> =
      Ok (\<lparr> bar_addr = (push_bit 32 (ucast (sample_rd (0xC0000000, ()) 0xB0008014)) OR
              ucast (sample_rd (0xC0000000, ()) sample_lo)) AND NOT 0xF, bar_size = 2 ^ 14 \<rparr>, dev') \<and>
      sample_rd dev' sample_lo = sample_rd (0xC0000000, ()) sample_lo \<and>
      sample_rd dev' 0xB0008014 = sample_rd (0xC0000000, ()) 0xB0008014"
    by (rule try_bar0_sizes_and_restores [OF _ _ _ sample_bar])
       (simp_all add: sample_pci_def register_addr_def sample_lo_def [symmetric] l, simp_all add: sample_lo_def)
  then show ?thesis by (auto simp: l)
qed

text \<open>
  the range that \<open>Pci::new\<close> records ends 16 MiB after its start, but the registers of a function
  whose identifier is 4096 or more (bus 16 and up) lie at or beyond that end.
\<close>

theorem ecm_range_misses_upper_buses:
  assumes "Pci_new [base] = Ok p" and "unat base + 2 ^ 28 \<le> 2 ^ 64" and "4096 \<le> unat (bdf_id b)"
  shows "\<exists>a. ecm_base p b = Ok a \<and> ecm_end p \<le> a"
proof -
  from assms(1) have p: "ecm_start p = base" "unat (ecm_end p) = unat base + 2 ^ 24"
    by (auto simp: Pci_new_def dest: uadd_Ok)
  from ecm_base_Ok [of p b] assms(2) obtain a where
    "ecm_base p b = Ok a" "unat a = unat base + 4096 * unat (bdf_id b)" by (auto simp: p)
  with p(2) assms(3) show ?thesis by (simp add: word_le_nat_alt)
qed

theorem ecm_range_misses_upper_buses_witness:
  "\<exists>p a. Pci_new [0xB0000000] = Ok p \<and> ecm_base p \<lparr> bdf_id = 0x1000 \<rparr> = Ok a \<and> ecm_end p \<le> a"
proof -
  obtain p where p: "Pci_new [0xB0000000] = Ok p" by (simp add: Pci_new_def uadd_def)
  from ecm_range_misses_upper_buses [OF this, of "\<lparr> bdf_id = 0x1000 \<rparr>"] p show ?thesis by auto
qed

end
