(* ===== verification/Hpet_Clock.thy ===== *)
theory Hpet_Clock
  imports Rust_Prelude
begin

text \<open>
  The clock of the kernel, \<open>src/hpet.rs\<close>: the register block of the timer, its initialisation and
  the timestamp that is computed from the main counter. A \<open>Duration\<close> is its number of nanoseconds.
\<close>

section \<open>Definitions\<close>

text \<open>
  The register block: the writable registers and the configuration words of the 32 timers (the
  other three words of a timer and the reserved words are never accessed).
\<close>

record HpetRegisters =
  capabilities_and_id :: u64
  hpet_configuration :: u64
  main_counter_value :: u64
  timers :: "u64 list"

record Hpet =
  hpet_registers :: HpetRegisters
  num_of_timers :: nat
  freq :: u64

definition globally_disable :: "HpetRegisters \<Rightarrow> HpetRegisters" where
  "globally_disable r = r\<lparr>hpet_configuration := hpet_configuration r AND NOT 3\<rparr>"

definition globally_enable :: "HpetRegisters \<Rightarrow> HpetRegisters" where
  "globally_enable r = r\<lparr>hpet_configuration := hpet_configuration r OR 1\<rparr>"

definition TIMER_CONFIG_LEVEL_TRIGGER :: u64 where "TIMER_CONFIG_LEVEL_TRIGGER = push_bit 1 1"
definition TIMER_CONFIG_INT_ENABLE :: u64 where "TIMER_CONFIG_INT_ENABLE = push_bit 2 1"
definition TIMER_CONFIG_USE_PERIODIC_MODE :: u64 where "TIMER_CONFIG_USE_PERIODIC_MODE = push_bit 3 1"

definition timer_config_off :: "u64 \<Rightarrow> u64" where
  "timer_config_off config = config AND NOT (TIMER_CONFIG_INT_ENABLE OR TIMER_CONFIG_USE_PERIODIC_MODE
     OR TIMER_CONFIG_LEVEL_TRIGGER OR push_bit 9 0x1F)"

fun disable_timers :: "nat \<Rightarrow> nat \<Rightarrow> HpetRegisters \<Rightarrow> HpetRegisters res" where
  "disable_timers 0 i r = Ok r"
| "disable_timers (Suc n) i r =
     (if i < length (timers r)
      then disable_timers n (Suc i) (r\<lparr>timers := (timers r)[i := timer_config_off (timers r ! i)]\<rparr>)
      else panic ''index out of bounds'')"

definition Hpet_new :: "HpetRegisters \<Rightarrow> Hpet res" where
  "Hpet_new registers =
     (let fs_per_count = drop_bit 32 (capabilities_and_id registers);
          n = unat (drop_bit 8 (capabilities_and_id registers) AND 0x1F) + 1 in
      rbind (udiv 1000000000000000 fs_per_count) (\<lambda>f.
      rbind (disable_timers n 0 (globally_disable registers)) (\<lambda>r.
        Ok \<lparr> hpet_registers = globally_enable (r\<lparr>main_counter_value := 0\<rparr>), num_of_timers = n,
             freq = f \<rparr>)))"

text \<open>The global clock: set once, read by \<open>global_timestamp\<close>.\<close>

definition set_global_hpet :: "Hpet option \<Rightarrow> Hpet \<Rightarrow> Hpet option res" where
  "set_global_hpet g hpet =
     (if g = None then Ok (Some hpet) else panic ''assertion failed: HPET.lock().is_none()'')"

definition global_timestamp :: "Hpet option \<Rightarrow> nat res" where
  "global_timestamp g =
     (case g of None \<Rightarrow> Ok 0
      | Some hpet \<Rightarrow>
          rbind (umul (ucast (main_counter_value (hpet_registers hpet)) :: u128) 1000000000) (\<lambda>n.
          rbind (udiv n (ucast (freq hpet))) (\<lambda>ns. Ok (unat (ucast ns :: u64)))))"

section \<open>Initialisation\<close>

lemma unat_u64_lt: "unat (x :: u64) < 18446744073709551616"
  using unsigned_less [of x] by simp

lemma disable_timers_Ok:
  "i + n \<le> length (timers r) \<Longrightarrow>
   \<exists>r'. disable_timers n i r = Ok r' \<and> length (timers r') = length (timers r) \<and>
     hpet_configuration r' = hpet_configuration r \<and> capabilities_and_id r' = capabilities_and_id r \<and>
     (\<forall>j < length (timers r). timers r' ! j =
        (if i \<le> j \<and> j < i + n then timer_config_off (timers r ! j) else timers r ! j))"
proof (induction n arbitrary: i r)
  case 0
  then show ?case by auto
next
  case (Suc n)
  let ?r = "r\<lparr>timers := (timers r)[i := timer_config_off (timers r ! i)]\<rparr>"
  have "Suc i + n \<le> length (timers ?r)" using Suc.prems by simp
  from Suc.IH [OF this] obtain r' where r': "disable_timers n (Suc i) ?r = Ok r'"
    "length (timers r') = length (timers r)" "hpet_configuration r' = hpet_configuration r"
    "capabilities_and_id r' = capabilities_and_id r"
    "\<forall>j < length (timers r). timers r' ! j =
       (if Suc i \<le> j \<and> j < Suc i + n then timer_config_off (timers ?r ! j) else timers ?r ! j)"
    by auto
  have "timers r' ! j = (if i \<le> j \<and> j < i + Suc n then timer_config_off (timers r ! j) else timers r ! j)"
    if "j < length (timers r)" for j
    using r'(5) that by (cases "j = i") (auto simp: nth_list_update)
  with r' Suc.prems show ?case by (intro exI [of _ r']) simp
qed

text \<open>What is left of a timer that \<open>Hpet::new\<close> went over: no interrupt, no periodic mode, route 0.\<close>

definition timer_quiet :: "u64 \<Rightarrow> bool" where
  "timer_quiet c \<longleftrightarrow> \<not> bit c 1 \<and> \<not> bit c 2 \<and> \<not> bit c 3 \<and> take_bit 5 (drop_bit 9 c) = 0"

lemma timer_config_off_bit:
  "bit (timer_config_off c) k \<longleftrightarrow> bit c k \<and> k \<notin> {1, 2, 3} \<and> \<not> (9 \<le> k \<and> k < 14)"
proof -
  have m: "(0x1F :: u64) = mask 5" by (simp add: mask_eq_exp_minus_1)
  have e: "push_bit i (1 :: u64) = 2 ^ i" for i by (simp add: push_bit_eq_mult)
  show ?thesis
    unfolding e timer_config_off_def TIMER_CONFIG_INT_ENABLE_def TIMER_CONFIG_USE_PERIODIC_MODE_def
      TIMER_CONFIG_LEVEL_TRIGGER_def m
    by (cases "k < 64")
       (auto simp: bit_simps simp del: power_numeral push_bit_numeral dest: bit_imp_le_length)
qed

lemma timer_config_off_quiet: "timer_quiet (timer_config_off c)"
proof -
  have "take_bit 5 (drop_bit 9 (timer_config_off c)) = 0"
    by (rule bit_eqI) (auto simp: bit_simps timer_config_off_bit)
  then show ?thesis by (simp add: timer_quiet_def timer_config_off_bit)
qed

lemma num_timers_le: "unat (drop_bit 8 (c :: u64) AND 0x1F) + 1 \<le> 32"
proof -
  have "drop_bit 8 c AND 0x1F = take_bit 5 (drop_bit 8 c)"
    by (simp add: take_bit_eq_mask mask_eq_exp_minus_1)
  then have "unat (drop_bit 8 c AND 0x1F) < 2 ^ 5" by (simp only: unat_take_bit) simp
  then show ?thesis by simp
qed

lemma Hpet_new_spec:
  assumes "length (timers r) = 32"
  defines "period \<equiv> drop_bit 32 (capabilities_and_id r)"
    and "n \<equiv> unat (drop_bit 8 (capabilities_and_id r) AND 0x1F) + 1"
  shows "(period = 0 \<longrightarrow> Hpet_new r = panic ''attempt to divide by zero'') \<and>
    (period \<noteq> 0 \<longrightarrow> (\<exists>h. Hpet_new r = Ok h \<and> num_of_timers h = n \<and>
       (\<forall>j < n. timer_quiet (timers (hpet_registers h) ! j)) \<and>
       (\<forall>j. n \<le> j \<and> j < 32 \<longrightarrow> timers (hpet_registers h) ! j = timers r ! j) \<and>
       main_counter_value (hpet_registers h) = 0 \<and>
       hpet_configuration (hpet_registers h) = (hpet_configuration r AND NOT 3) OR 1 \<and>
       unat (freq h) = 10 ^ 15 div unat period \<and> 232830 \<le> unat (freq h)))"
proof (cases "period = 0")
  case True
  then show ?thesis by (simp add: Hpet_new_def Let_def udiv_def period_def)
next
  case False
  have "0 + n \<le> length (timers (globally_disable r))"
    using num_timers_le assms(1) by (simp add: n_def globally_disable_def)
  from disable_timers_Ok [OF this] obtain r' where r': "disable_timers n 0 (globally_disable r) = Ok r'"
    "hpet_configuration r' = hpet_configuration r AND NOT 3"
    "\<forall>j < 32. timers r' ! j = (if j < n then timer_config_off (timers r ! j) else timers r ! j)"
    using assms(1) by (auto simp: globally_disable_def)
  have h: "Hpet_new r = Ok \<lparr> hpet_registers = globally_enable (r'\<lparr>main_counter_value := 0\<rparr>),
      num_of_timers = n, freq = 1000000000000000 div period \<rparr>"
    using False r'(1) by (simp add: Hpet_new_def Let_def udiv_def period_def n_def)
  have p: "0 < unat period" using False by (simp add: unat_gt_0)
  have q: "unat period < 2 ^ 32"
    using unat_u64_lt [of "capabilities_and_id r"] by (simp add: period_def unat_drop_bit)
  have f: "unat (1000000000000000 div period) = 10 ^ 15 div unat period"
    by (simp add: unat_div)
  have "(232830 :: nat) \<le> 10 ^ 15 div 2 ^ 32" by simp
  also have "\<dots> \<le> 10 ^ 15 div unat period" using p q by (intro div_le_mono2) auto
  finally have "232830 \<le> unat (1000000000000000 div period)" by (simp only: f)
  moreover have "n \<le> 32" using num_timers_le by (simp add: n_def)
  ultimately show ?thesis
    using False h r' f by (simp add: globally_enable_def timer_config_off_quiet)
qed

text \<open>
  \<open>Hpet::new\<close> on a register block with its 32 timers and a non-zero counter period returns: every
  timer that the hardware has is left without interrupt, periodic mode and routing, the others are
  not touched, the counter restarts at zero with the main enable bit set and legacy routing off, and
  the stored frequency is the whole number of counts per second, which is at least 232830. A zero
  period is a division by zero.\<close>

theorem Hpet_new_quiesces_timers:
  assumes "length (timers r) = 32"
  defines "period \<equiv> drop_bit 32 (capabilities_and_id r)"
    and "n \<equiv> unat (drop_bit 8 (capabilities_and_id r) AND 0x1F) + 1"
  shows "(period = 0 \<longrightarrow> Hpet_new r = panic ''attempt to divide by zero'') \<and>
    (period \<noteq> 0 \<longrightarrow> (\<exists>h. Hpet_new r = Ok h \<and> num_of_timers h = n \<and>
       (\<forall>j < n. timer_quiet (timers (hpet_registers h) ! j)) \<and>
       (\<forall>j. n \<le> j \<and> j < 32 \<longrightarrow> timers (hpet_registers h) ! j = timers r ! j) \<and>
       main_counter_value (hpet_registers h) = 0 \<and>
       hpet_configuration (hpet_registers h) = (hpet_configuration r AND NOT 3) OR 1 \<and>
       unat (freq h) = 10 ^ 15 div unat period \<and> 232830 \<le> unat (freq h)))"
  using assms(1) unfolding period_def n_def by (rule Hpet_new_spec)

definition sample_hpet :: HpetRegisters where
  "sample_hpet = \<lparr> capabilities_and_id = 0x0989680080860201, hpet_configuration = 2,
     main_counter_value = 77, timers = replicate 32 0x1F04 \<rparr>"

theorem Hpet_new_quiesces_timers_witness:
  "\<exists>h. Hpet_new sample_hpet = Ok h \<and> num_of_timers h = 3 \<and> timers (hpet_registers h) ! 3 = 0x1F04 \<and>
     timer_quiet (timers (hpet_registers h) ! 2) \<and> unat (freq h) = 10 ^ 15 div 0x09896800"
proof -
  have "length (timers sample_hpet) = 32" by (simp add: sample_hpet_def)
  from Hpet_new_quiesces_timers [OF this] show ?thesis by (auto simp: sample_hpet_def)
qed

section \<open>The timestamp\<close>

lemma global_timestamp_eq:
  assumes "freq h \<noteq> 0"
  shows "global_timestamp (Some h) =
    Ok (unat (main_counter_value (hpet_registers h)) * 10 ^ 9 div unat (freq h) mod 2 ^ 64)"
proof -
  let ?c = "main_counter_value (hpet_registers h)"
  have lt: "unat ?c * 1000000000 < 2 ^ 128"
    using unat_u64_lt [of ?c] by simp
  have u: "unat (ucast ?c :: u128) = unat ?c" "unat (ucast (freq h) :: u128) = unat (freq h)"
    by (simp_all add: unsigned_ucast_eq take_bit_nat_eq_self order_less_trans [OF unat_u64_lt])
  have "(ucast (freq h) :: u128) \<noteq> 0" using assms u(2) by (metis unat_eq_0)
  moreover have "unat ((ucast ?c :: u128) * 1000000000) = unat ?c * 10 ^ 9"
    using lt u(1) by (simp add: unat_word_ariths)
  ultimately show ?thesis
    using lt u by (simp add: global_timestamp_def umul_def udiv_def unat_div unsigned_ucast_eq
        take_bit_eq_mod)
qed

text \<open>The clock after the counter has advanced to \<open>c\<close>.\<close>

definition at_count :: "Hpet \<Rightarrow> u64 \<Rightarrow> Hpet" where
  "at_count h c = h\<lparr>hpet_registers := (hpet_registers h)\<lparr>main_counter_value := c\<rparr>\<rparr>"

lemma mult_div_div_cancel: "0 < k \<Longrightarrow> x * k div f div k = (x :: nat) div f"
  by (simp add: div_mult2_eq [symmetric])

lemma exact_time_le: "0 < period \<Longrightarrow> period \<le> 10 ^ 15 \<Longrightarrow>
  c * period div 10 ^ 6 \<le> (c :: nat) * 10 ^ 9 div (10 ^ 15 div period)"
proof -
  assume p: "0 < period" "period \<le> 10 ^ 15"
  let ?f = "10 ^ 15 div period"
  have f: "0 < ?f" using p by (simp add: div_greater_zero_iff)
  have "?f * period \<le> 10 ^ 15" by (rule div_times_less_eq_dividend)
  then have "c * period * ?f \<le> c * 10 ^ 9 * 10 ^ 6" by simp
  then have "c * period * ?f div ?f \<le> c * 10 ^ 9 * 10 ^ 6 div ?f" by (rule div_le_mono)
  then have "c * period \<le> c * 10 ^ 9 * 10 ^ 6 div ?f" using f by simp
  then have "c * period div 10 ^ 6 \<le> c * 10 ^ 9 * 10 ^ 6 div ?f div 10 ^ 6" by (rule div_le_mono)
  also have "\<dots> = c * 10 ^ 9 div ?f" by (rule mult_div_div_cancel) simp
  finally show ?thesis .
qed

text \<open>
  After \<open>Hpet::new\<close> a timestamp never panics. Up to the count at which the nanoseconds exceed 64
  bits it is the count in nanoseconds by the stored frequency, at least the time that has passed
  (the frequency is rounded down), and never less than an earlier timestamp.\<close>

theorem global_timestamp_sound:
  assumes "Hpet_new r = Ok h" "length (timers r) = 32"
    and "unat c * 10 ^ 9 div unat (freq h) < 2 ^ 64" "c0 \<le> c"
  shows "\<exists>t t0. global_timestamp (Some (at_count h c)) = Ok t \<and>
    global_timestamp (Some (at_count h c0)) = Ok t0 \<and> t0 \<le> t \<and>
    t = unat c * 10 ^ 9 div unat (freq h) \<and>
    unat c * unat (drop_bit 32 (capabilities_and_id r)) div 10 ^ 6 \<le> t"
proof -
  let ?p = "drop_bit 32 (capabilities_and_id r)"
  have p: "?p \<noteq> 0" using assms(1) by (auto simp: Hpet_new_def Let_def udiv_def)
  have f: "unat (freq h) = 10 ^ 15 div unat ?p" and f0: "freq h \<noteq> 0"
    using Hpet_new_spec [OF assms(2)] assms(1) p by (auto simp: unat_eq_0)
  have le: "unat c0 * 10 ^ 9 div unat (freq h) \<le> unat c * 10 ^ 9 div unat (freq h)"
    using assms(4) by (intro div_le_mono) (simp add: word_le_nat_alt)
  have "unat ?p < 2 ^ 32" using unat_u64_lt [of "capabilities_and_id r"] by (simp add: unat_drop_bit)
  then have "unat c * unat ?p div 10 ^ 6 \<le> unat c * 10 ^ 9 div unat (freq h)"
    unfolding f using p by (intro exact_time_le) (simp_all add: unat_gt_0)
  then show ?thesis
    using assms(3) le f0 le_less_trans [OF le assms(3)]
    by (simp add: global_timestamp_eq at_count_def del: div_less)
qed

theorem global_timestamp_sound_witness:
  "\<exists>h t t0. Hpet_new sample_hpet = Ok h \<and> global_timestamp (Some (at_count h 1000)) = Ok t \<and>
     global_timestamp (Some (at_count h 10)) = Ok t0 \<and> t0 \<le> t \<and> 1000 * 0x09896800 div 10 ^ 6 \<le> t"
proof -
  have l: "length (timers sample_hpet) = 32" by (simp add: sample_hpet_def)
  have cap: "drop_bit 32 (capabilities_and_id sample_hpet) = 0x09896800" by (simp add: sample_hpet_def)
  from Hpet_new_spec [OF l] cap obtain h where h: "Hpet_new sample_hpet = Ok h" by auto
  have "freq h = 1000000000000000 div 0x09896800"
    using h cap by (auto simp: Hpet_new_def Let_def udiv_def)
  then have "unat (freq h) = 6250000" by simp
  then have "unat (1000 :: u64) * 10 ^ 9 div unat (freq h) < 2 ^ 64" by simp
  from global_timestamp_sound [OF h l this, of 10] cap h show ?thesis by auto
qed

end
