(* ===== verification/Spin_Lock.thy ===== *)
theory Spin_Lock
  imports Rust_Prelude
begin

text \<open>
  The spin lock of \<open>src/mutex.rs\<close>. The atomic operations of the lock are the functions
  \<open>try_lock\<close> (one compare-and-exchange) and \<open>guard_drop\<close> (one store); \<open>lock\<close> is the bounded loop
  around them. The last section runs any number of threads, each of which executes \<open>under_locked\<close>
  as separate steps (an attempt, a read of the data, a write of the data, the drop of the guard), in
  every interleaving.
\<close>

section \<open>Definitions\<close>

record 'a Mutex =
  mutex_data :: 'a
  is_taken :: bool
  taker_line_num :: u32
  created_at_file :: string
  created_at_line :: u32

definition Mutex_new :: "string \<Rightarrow> u32 \<Rightarrow> 'a \<Rightarrow> 'a Mutex" where
  "Mutex_new file line d =
     \<lparr> mutex_data = d, is_taken = False, taker_line_num = 0, created_at_file = file,
       created_at_line = line \<rparr>"

definition try_lock :: "'a Mutex \<Rightarrow> u32 \<Rightarrow> 'a Mutex res" where
  "try_lock self line =
     (if \<not> is_taken self then Ok (self\<lparr>is_taken := True, taker_line_num := line\<rparr>)
      else err ''Lock failed'')"

text \<open>
  Other threads may take and release the lock between two attempts, so the loop reads a sequence of
  lock states: \<open>seen i\<close> is the lock as attempt \<open>i\<close> finds it.
\<close>

fun lock_loop :: "nat \<Rightarrow> (nat \<Rightarrow> 'a Mutex) \<Rightarrow> nat \<Rightarrow> u32 \<Rightarrow> 'a Mutex res" where
  "lock_loop 0 seen i line = panic ''Failed to lock Mutex''"
| "lock_loop (Suc n) seen i line =
     (case try_lock (seen i) line of
        Inr locked \<Rightarrow> Ok locked
      | Inl _ \<Rightarrow> lock_loop n seen (Suc i) line)"

definition lock :: "(nat \<Rightarrow> 'a Mutex) \<Rightarrow> u32 \<Rightarrow> 'a Mutex res" where
  "lock seen line = lock_loop 10000 seen 0 line"

text \<open>\<open>Drop\<close> of the guard.\<close>

definition guard_drop :: "'a Mutex \<Rightarrow> 'a Mutex" where
  "guard_drop self = self\<lparr>is_taken := False\<rparr>"

text \<open>
  \<open>under_locked\<close> with a closure that returns its result and the data it leaves; the guard is
  dropped when the closure returns, whatever it returns.
\<close>

definition under_locked :: "'a Mutex \<Rightarrow> u32 \<Rightarrow> ('a \<Rightarrow> 'r res \<times> 'a) \<Rightarrow> ('r res \<times> 'a Mutex) res" where
  "under_locked self line f =
     rbind (lock (\<lambda>_. self) line) (\<lambda>locked.
       let (r, d) = f (mutex_data locked)
       in Ok (r, guard_drop (locked\<lparr>mutex_data := d\<rparr>)))"

section \<open>The bounded loop\<close>

lemma lock_loop_Ok_iff:
  "lock_loop n seen i line = Ok m \<longleftrightarrow>
   (\<exists>k < n. (\<forall>j < k. is_taken (seen (i + j))) \<and> \<not> is_taken (seen (i + k)) \<and>
            m = (seen (i + k))\<lparr>is_taken := True, taker_line_num := line\<rparr>)"
proof (induction n arbitrary: i)
  case 0
  then show ?case by simp
next
  case (Suc n)
  show ?case
  proof (cases "is_taken (seen i)")
    case True
    then have "lock_loop (Suc n) seen i line = lock_loop n seen (Suc i) line"
      by (simp add: try_lock_def)
    then show ?thesis using True
      by (simp add: Suc.IH Ex_less_Suc2 All_less_Suc2)
  next
    case False
    then show ?thesis by (auto simp: try_lock_def Ex_less_Suc2 All_less_Suc2)
  qed
qed

lemma lock_loop_cases:
  "lock_loop n seen i line = panic ''Failed to lock Mutex'' \<or> (\<exists>m. lock_loop n seen i line = Ok m)"
  by (induction n arbitrary: i) (auto simp: try_lock_def)

lemma ex_first: "(\<exists>k < (n::nat). P k) \<longleftrightarrow> (\<exists>k < n. (\<forall>j < k. \<not> P j) \<and> P k)"
proof
  assume "\<exists>k < n. P k"
  then have "\<exists>k. k < n \<and> P k" by blast
  from this [unfolded exists_least_iff [of "\<lambda>k. k < n \<and> P k"]]
  show "\<exists>k < n. (\<forall>j < k. \<not> P j) \<and> P k" by (meson less_trans)
qed blast

lemma lock_Ok_iff:
  "(\<exists>m. lock seen line = Ok m) \<longleftrightarrow> (\<exists>k < 10000. \<not> is_taken (seen k))"
  unfolding lock_def lock_loop_Ok_iff add_0
  by (subst (2) ex_first) auto

lemma lock_constant: "lock (\<lambda>_. m) line = (if is_taken m then panic ''Failed to lock Mutex''
    else Ok (m\<lparr>is_taken := True, taker_line_num := line\<rparr>))"
proof (cases "is_taken m")
  case True
  then show ?thesis
    using lock_loop_cases [of 10000 "\<lambda>_. m" 0 line] lock_Ok_iff [of "\<lambda>_. m" line]
    by (auto simp: lock_def)
next
  case False
  then show ?thesis
    unfolding lock_def if_not_P [OF False] lock_loop_Ok_iff by (intro exI [of _ 0]) simp
qed

text \<open>
  \<open>Mutex::lock\<close> returns a guard exactly when one of its 10000 attempts finds the lock free, and
  panics otherwise; the guard comes from the first attempt that found it free, with the data as that
  attempt found it and the caller's line recorded. In particular a lock that its own caller holds
  panics.\<close>

theorem lock_takes_first_free:
  assumes "k < 10000" "\<not> is_taken (seen k)" "\<forall>j < k. is_taken (seen j)"
    and "\<forall>j < 10000. is_taken (held j)"
  shows "lock seen line = Ok ((seen k)\<lparr>is_taken := True, taker_line_num := line\<rparr>) \<and>
    rbind (lock seen line) (\<lambda>m. lock (\<lambda>_. m) line') = panic ''Failed to lock Mutex'' \<and>
    lock held line = panic ''Failed to lock Mutex''"
proof -
  have 1: "lock seen line = Ok ((seen k)\<lparr>is_taken := True, taker_line_num := line\<rparr>)"
    unfolding lock_def lock_loop_Ok_iff using assms(1-3) by auto
  have "lock held line = panic ''Failed to lock Mutex''"
    using lock_loop_cases [of 10000 held 0 line] lock_Ok_iff [of held line] assms(4)
    by (auto simp: lock_def)
  then show ?thesis unfolding 1 by (simp add: lock_constant)
qed

theorem lock_takes_first_free_witness:
  "lock (\<lambda>i. (Mutex_new ''a.rs'' 1 (5::nat))\<lparr>is_taken := i < 3\<rparr>) 42 =
     Ok ((Mutex_new ''a.rs'' 1 5)\<lparr>is_taken := True, taker_line_num := 42\<rparr>)"
  using lock_takes_first_free
    [of 3 "\<lambda>i. (Mutex_new ''a.rs'' 1 (5::nat))\<lparr>is_taken := i < 3\<rparr>"
        "\<lambda>_. (Mutex_new ''a.rs'' 1 (5::nat))\<lparr>is_taken := True\<rparr>" 42]
  by (simp add: Mutex_new_def)

lemma under_locked_free:
  assumes "\<not> is_taken m"
  shows "under_locked m line f =
    (let (r, d) = f (mutex_data m) in Ok (r, m\<lparr>mutex_data := d, taker_line_num := line\<rparr>))"
  using assms by (cases m) (simp add: under_locked_def lock_constant guard_drop_def split: prod.split)

lemma under_locked_taken:
  "is_taken m \<Longrightarrow> under_locked m line f = panic ''Failed to lock Mutex''"
  by (simp add: under_locked_def lock_constant)

section \<open>Threads\<close>

text \<open>
  Where a thread is in \<open>under_locked\<close>: not holding the lock, holding it, holding it with the data
  read, or holding it with the new data written.
\<close>

datatype 'a pc = Outside | Locked | Loaded 'a | Stored

text \<open>
  The lock, the position of every thread and, as history, the closures whose new data was written,
  in that order (\<open>upd t\<close> is what the closure of thread \<open>t\<close> makes of the data).
\<close>

record ('t, 'a) sys =
  the_lock :: "'a Mutex"
  pcs :: "'t \<Rightarrow> 'a pc"
  log :: "'t list"

inductive sys_step :: "('t \<Rightarrow> 'a \<Rightarrow> 'a) \<Rightarrow> ('t, 'a) sys \<Rightarrow> ('t, 'a) sys \<Rightarrow> bool"
  for upd :: "'t \<Rightarrow> 'a \<Rightarrow> 'a" where
  attempt_ok: "pcs s t = Outside \<Longrightarrow> try_lock (the_lock s) line = Ok m \<Longrightarrow>
    sys_step upd s (s\<lparr>the_lock := m, pcs := (pcs s)(t := Locked)\<rparr>)"
| attempt_fail: "pcs s t = Outside \<Longrightarrow> try_lock (the_lock s) line = Inl e \<Longrightarrow> sys_step upd s s"
| load: "pcs s t = Locked \<Longrightarrow>
    sys_step upd s (s\<lparr>pcs := (pcs s)(t := Loaded (mutex_data (the_lock s)))\<rparr>)"
| store: "pcs s t = Loaded d \<Longrightarrow>
    sys_step upd s (s\<lparr>the_lock := (the_lock s)\<lparr>mutex_data := upd t d\<rparr>,
                     pcs := (pcs s)(t := Stored), log := log s @ [t]\<rparr>)"
| release: "pcs s t = Stored \<Longrightarrow>
    sys_step upd s (s\<lparr>the_lock := guard_drop (the_lock s), pcs := (pcs s)(t := Outside)\<rparr>)"

inductive_cases sys_stepE: "sys_step upd s s'"

definition sys_init :: "'a Mutex \<Rightarrow> ('t, 'a) sys" where
  "sys_init m = \<lparr> the_lock = m, pcs = \<lambda>_. Outside, log = [] \<rparr>"

text \<open>
  At most one thread is inside, the flag says whether one is, a value that was read is still the
  data, and the data is what the logged closures make of the initial data one after the other.
\<close>

definition sys_inv :: "('t \<Rightarrow> 'a \<Rightarrow> 'a) \<Rightarrow> 'a \<Rightarrow> ('t, 'a) sys \<Rightarrow> bool" where
  "sys_inv upd d s \<longleftrightarrow>
     (\<forall>t u. pcs s t \<noteq> Outside \<longrightarrow> pcs s u \<noteq> Outside \<longrightarrow> t = u) \<and>
     (is_taken (the_lock s) \<longleftrightarrow> (\<exists>t. pcs s t \<noteq> Outside)) \<and>
     (\<forall>t v. pcs s t = Loaded v \<longrightarrow> v = mutex_data (the_lock s)) \<and>
     mutex_data (the_lock s) = fold upd (log s) d"

lemma sys_inv_init: "\<not> is_taken m \<Longrightarrow> sys_inv upd (mutex_data m) (sys_init m)"
  by (simp add: sys_inv_def sys_init_def)

lemma sys_inv_alone: "sys_inv upd d s \<Longrightarrow> pcs s t \<noteq> Outside \<Longrightarrow> u \<noteq> t \<Longrightarrow> pcs s u = Outside"
  unfolding sys_inv_def by metis

lemma sys_inv_step: "sys_step upd s s' \<Longrightarrow> sys_inv upd d s \<Longrightarrow> sys_inv upd d s'"
proof (induction rule: sys_step.induct)
  case (attempt_ok s t line m)
  then show ?case
    by (auto simp: sys_inv_def try_lock_def split: if_splits)
next
  case (attempt_fail s t line e)
  then show ?case by simp
next
  case (load s t)
  then have "pcs s u = Outside" if "u \<noteq> t" for u using sys_inv_alone that by fastforce
  with load show ?case by (auto simp: sys_inv_def)
next
  case (store s t d)
  then have "pcs s u = Outside" if "u \<noteq> t" for u using sys_inv_alone that by fastforce
  with store show ?case by (auto simp: sys_inv_def)
next
  case (release s t)
  then have "pcs s u = Outside" if "u \<noteq> t" for u using sys_inv_alone that by fastforce
  with release show ?case by (auto simp: sys_inv_def guard_drop_def)
qed

lemma sys_inv_reachable: "(sys_step upd)\<^sup>*\<^sup>* s s' \<Longrightarrow> sys_inv upd d s \<Longrightarrow> sys_inv upd d s'"
  by (induction rule: rtranclp_induct) (auto intro: sys_inv_step)

text \<open>
  C18: Threads that run \<open>under_locked\<close> on a lock that is free at the start, in any interleaving of their
  atomic steps, are never inside it together; a value that a thread has read stays the data until
  the thread writes; no update is lost: the data is what the closures make of the initial data one
  after the other, in the order they wrote; and whenever no thread is inside, the lock is free.\<close>

theorem mutex_serialises_updates:
  assumes "\<not> is_taken m" "(sys_step upd)\<^sup>*\<^sup>* (sys_init m) s"
  shows "(\<forall>t u. pcs s t \<noteq> Outside \<longrightarrow> pcs s u \<noteq> Outside \<longrightarrow> t = u) \<and>
    (\<forall>t v. pcs s t = Loaded v \<longrightarrow> v = mutex_data (the_lock s)) \<and>
    mutex_data (the_lock s) = fold upd (log s) (mutex_data m) \<and>
    (is_taken (the_lock s) \<longleftrightarrow> (\<exists>t. pcs s t \<noteq> Outside))"
  using sys_inv_reachable [OF assms(2) sys_inv_init [OF assms(1)]]
  unfolding sys_inv_def by blast

definition counter_run :: "(bool, nat) sys" where
  "counter_run = \<lparr> the_lock = (Mutex_new ''init.rs'' 7 0)\<lparr>is_taken := True, mutex_data := 1, taker_line_num := 9\<rparr>,
     pcs = (\<lambda>t. if t then Stored else Outside), log = [True] \<rparr>"

lemma three_steps: "r a b \<Longrightarrow> r b c \<Longrightarrow> r c d \<Longrightarrow> r\<^sup>*\<^sup>* a d"
  by (meson converse_rtranclp_into_rtranclp r_into_rtranclp)

lemma counter_run_reached: "(sys_step (\<lambda>_. Suc))\<^sup>*\<^sup>* (sys_init (Mutex_new ''init.rs'' 7 0)) counter_run"
proof -
  let ?m = "Mutex_new ''init.rs'' 7 (0::nat)"
  let ?l = "?m\<lparr>is_taken := True, taker_line_num := 9\<rparr>"
  let ?s0 = "sys_init ?m :: (bool, nat) sys"
  let ?s1 = "?s0\<lparr>the_lock := ?l, pcs := (pcs ?s0)(True := Locked)\<rparr>"
  let ?s2 = "?s1\<lparr>pcs := (pcs ?s1)(True := Loaded (mutex_data (the_lock ?s1)))\<rparr>"
  let ?s3 = "?s2\<lparr>the_lock := (the_lock ?s2)\<lparr>mutex_data := Suc 0\<rparr>,
                 pcs := (pcs ?s2)(True := Stored), log := log ?s2 @ [True]\<rparr>"
  have 1: "sys_step (\<lambda>_. Suc) ?s0 ?s1"
    by (rule sys_step.attempt_ok [where line = 9]) (simp_all add: sys_init_def try_lock_def Mutex_new_def)
  have 2: "sys_step (\<lambda>_. Suc) ?s1 ?s2" by (rule sys_step.load) simp
  have 3: "sys_step (\<lambda>_. Suc) ?s2 ?s3" by (rule sys_step.store) (simp add: sys_init_def Mutex_new_def)
  have 4: "?s3 = counter_run"
    by (auto simp: counter_run_def sys_init_def Mutex_new_def)
  have "(sys_step (\<lambda>_. Suc))\<^sup>*\<^sup>* ?s0 ?s3"
    by (rule three_steps [of "sys_step (\<lambda>_. Suc)" ?s0 ?s1 ?s2 ?s3, OF 1 2 3])
  then show ?thesis by (simp only: 4)
qed

theorem mutex_serialises_updates_witness:
  "(sys_step (\<lambda>_. Suc))\<^sup>*\<^sup>* (sys_init (Mutex_new ''init.rs'' 7 0)) counter_run \<and>
   pcs counter_run True = Stored \<and>
   mutex_data (the_lock counter_run) = fold (\<lambda>_. Suc) (log counter_run) 0"
proof -
  have "\<not> is_taken (Mutex_new ''init.rs'' 7 (0::nat))" by (simp add: Mutex_new_def)
  from mutex_serialises_updates [OF this counter_run_reached] counter_run_reached
  show ?thesis by (simp add: counter_run_def Mutex_new_def)
qed

end
