(* ===== verification/Executor.thy ===== *)
theory Executor
  imports Spin_Lock
begin

text \<open>
  The cooperative executor of \<open>src/executor.rs\<close> over the lock of \<open>Spin_Lock\<close>. A future is compiled
  code, so polling one is a parameter: from the future and the world it runs in to the future left,
  the new world, the tasks it asked \<open>spawn_global\<close> for and the outcome; a poll may also panic. The
  loop of \<open>Executor::run\<close> never ends, so it is described by its first \<open>n\<close> rounds.
\<close>

section \<open>Definitions\<close>

record 'f Task =
  future :: 'f
  task_file :: string
  task_line :: u32

definition Task_new :: "string \<Rightarrow> u32 \<Rightarrow> 'f \<Rightarrow> 'f Task" where
  "Task_new file line f = \<lparr> future = f, task_file = file, task_line = line \<rparr>"

datatype 'r poll = Ready 'r | Pending

type_synonym ('f, 'w, 'r) poller =
  "'f \<Rightarrow> 'w \<Rightarrow> ('f \<times> 'w \<times> (string \<times> u32 \<times> 'f) list \<times> 'r poll) res"

record 'f Executor =
  task_queue :: "'f Task list option"

definition Executor_new :: "'f Executor" where
  "Executor_new = \<lparr> task_queue = None \<rparr>"

definition the_queue :: "'f Executor \<Rightarrow> 'f Task list" where
  "the_queue e = (case task_queue e of None \<Rightarrow> [] | Some q \<Rightarrow> q)"

definition enqueue :: "'f Executor \<Rightarrow> 'f Task \<Rightarrow> 'f Executor" where
  "enqueue e t = e\<lparr>task_queue := Some (the_queue e @ [t])\<rparr>"

text \<open>A statement that locks a mutex for its own duration, with its value and its effect on the data.\<close>

definition with_guard :: "'a Mutex \<Rightarrow> u32 \<Rightarrow> ('a \<Rightarrow> 'r \<times> 'a) \<Rightarrow> ('r \<times> 'a Mutex) res" where
  "with_guard m line f =
     rbind (lock (\<lambda>_. m) line) (\<lambda>locked.
       let (r, d) = f (mutex_data locked) in Ok (r, guard_drop (locked\<lparr>mutex_data := d\<rparr>)))"

definition spawn_global ::
  "string \<Rightarrow> u32 \<Rightarrow> 'f \<Rightarrow> 'f Executor option Mutex \<Rightarrow> 'f Executor option Mutex res" where
  "spawn_global file line f g =
     (let task = Task_new file line f in
      rbind (with_guard g line
               (\<lambda>e. ((), Some (enqueue (case e of None \<Rightarrow> Executor_new | Some e \<Rightarrow> e) task))))
            (\<lambda>(_, g'). Ok g'))"

fun spawn_all ::
  "(string \<times> u32 \<times> 'f) list \<Rightarrow> 'f Executor option Mutex \<Rightarrow> 'f Executor option Mutex res" where
  "spawn_all [] g = Ok g"
| "spawn_all ((file, line, f) # rest) g = rbind (spawn_global file line f g) (spawn_all rest)"

text \<open>\<open>block_on\<close>: poll until the future is ready; the fuel bounds the number of polls.\<close>

fun block_on ::
  "nat \<Rightarrow> ('f, 'w, 'r) poller \<Rightarrow> 'f Executor option Mutex \<Rightarrow> 'f \<Rightarrow> 'w \<Rightarrow>
   ('r \<times> 'f Executor option Mutex \<times> 'w) res" where
  "block_on 0 p g f w = Inl OutOfFuel"
| "block_on (Suc n) p g f w =
     rbind (p f w) (\<lambda>(f', w', spawned, outcome).
     rbind (spawn_all spawned g) (\<lambda>g'.
       case outcome of Ready r \<Rightarrow> Ok (r, g', w') | Pending \<Rightarrow> block_on n p g' f' w'))"

text \<open>\<open>e.task_queue().pop_front()\<close> under \<open>Option::map\<close>.\<close>

definition pop_front :: "'f Executor option \<Rightarrow> 'f Task option option \<times> 'f Executor option" where
  "pop_front g =
     (case g of None \<Rightarrow> (None, None)
      | Some e \<Rightarrow>
          (case the_queue e of
             [] \<Rightarrow> (Some None, Some (e\<lparr>task_queue := Some []\<rparr>))
           | t # ts \<Rightarrow> (Some (Some t), Some (e\<lparr>task_queue := Some ts\<rparr>))))"

text \<open>
  One round of the loop of \<open>Executor::run\<close>: the task that was polled with its outcome, if there was
  one, the mutex of the executor and the world afterwards.
\<close>

definition run_round ::
  "('f, 'w, 'r) poller \<Rightarrow> 'f Executor option Mutex \<Rightarrow> 'w \<Rightarrow>
   (('f Task \<times> 'r poll) option \<times> 'f Executor option Mutex \<times> 'w) res" where
  "run_round p g w =
     rbind (with_guard g 94 pop_front) (\<lambda>(task, g1).
       case task of
         Some (Some task) \<Rightarrow>
           rbind (p (future task) w) (\<lambda>(f', w', spawned, outcome).
           rbind (spawn_all spawned g1) (\<lambda>g2.
             (case outcome of
                Ready result \<Rightarrow> Ok (Some (task, outcome), g2, w')
              | Pending \<Rightarrow>
                  rbind (with_guard g2 103
                           (\<lambda>e. ((), case e of None \<Rightarrow> None
                                 | Some e \<Rightarrow> Some (enqueue e (task\<lparr>future := f'\<rparr>)))))
                        (\<lambda>(_, g3). Ok (Some (task, outcome), g3, w')))))
       | _ \<Rightarrow> Ok (None, g1, w))"

fun run_rounds ::
  "nat \<Rightarrow> ('f, 'w, 'r) poller \<Rightarrow> 'f Executor option Mutex \<Rightarrow> 'w \<Rightarrow>
   (('f Task \<times> 'r poll) option list \<times> 'f Executor option Mutex \<times> 'w) res" where
  "run_rounds 0 p g w = Ok ([], g, w)"
| "run_rounds (Suc n) p g w =
     rbind (run_round p g w) (\<lambda>(o1, g1, w1).
     rbind (run_rounds n p g1 w1) (\<lambda>(os, g2, w2). Ok (o1 # os, g2, w2)))"

text \<open>\<open>Yield\<close>: its state is whether it has been polled.\<close>

definition Yield_poll :: "(bool, 'w, unit) poller" where
  "Yield_poll polled w = Ok (True, w, [], if polled then Ready () else Pending)"

text \<open>
  \<open>sleep\<close>: its \<open>TimeoutFuture\<close> is made at the first poll. A \<open>Duration\<close> is its number of nanoseconds,
  which must leave the seconds in 64 bits. The world is the sequence of readings of the clock and
  the number of readings taken.
\<close>

record TimeoutFuture =
  time_out :: nat

definition TimeoutFuture_new :: "nat \<Rightarrow> nat \<Rightarrow> TimeoutFuture res" where
  "TimeoutFuture_new now duration =
     (if now + duration < 2 ^ 64 * 10 ^ 9 then Ok \<lparr> time_out = now + duration \<rparr>
      else panic ''overflow when adding durations'')"

definition TimeoutFuture_poll :: "TimeoutFuture \<Rightarrow> nat \<Rightarrow> unit poll" where
  "TimeoutFuture_poll self now = (if time_out self < now then Ready () else Pending)"

datatype SleepFuture = NotStarted nat | Awaiting TimeoutFuture

type_synonym clock = "(nat \<Rightarrow> nat) \<times> nat"

definition sleep_poll :: "(SleepFuture, clock, unit) poller" where
  "sleep_poll f w =
     (let (clk, i) = w in
      case f of
        NotStarted d \<Rightarrow>
          rbind (TimeoutFuture_new (clk i) d) (\<lambda>t.
            Ok (Awaiting t, (clk, Suc (Suc i)), [], TimeoutFuture_poll t (clk (Suc i))))
      | Awaiting t \<Rightarrow> Ok (Awaiting t, (clk, Suc i), [], TimeoutFuture_poll t (clk i)))"

section \<open>The queue behind the lock\<close>

text \<open>The tasks that wait in the global executor, front first.\<close>

definition waiting :: "'f Executor option Mutex \<Rightarrow> 'f Task list" where
  "waiting g = (case mutex_data g of None \<Rightarrow> [] | Some e \<Rightarrow> the_queue e)"

lemma with_guard_free:
  "\<not> is_taken g \<Longrightarrow> f (mutex_data g) = (r, d) \<Longrightarrow>
   with_guard g line f = Ok (r, g\<lparr>mutex_data := d, taker_line_num := line\<rparr>)"
  by (cases g) (simp add: with_guard_def lock_constant guard_drop_def)

lemma the_queue_enqueue [simp]: "the_queue (enqueue e t) = the_queue e @ [t]"
  by (simp add: enqueue_def the_queue_def)

lemma spawn_global_free:
  assumes "\<not> is_taken g"
  shows "\<exists>g'. spawn_global file line f g = Ok g' \<and> \<not> is_taken g' \<and> mutex_data g' \<noteq> None \<and>
    waiting g' = waiting g @ [Task_new file line f]"
  using assms
  by (cases "mutex_data g")
     (auto simp: spawn_global_def with_guard_free waiting_def Executor_new_def the_queue_def
        enqueue_def)

definition tasks_of :: "(string \<times> u32 \<times> 'f) list \<Rightarrow> 'f Task list" where
  "tasks_of sp = map (\<lambda>(file, line, f). Task_new file line f) sp"

lemma spawn_all_free:
  assumes "\<not> is_taken g"
  shows "\<exists>g'. spawn_all sp g = Ok g' \<and> \<not> is_taken g' \<and> (mutex_data g \<noteq> None \<longrightarrow> mutex_data g' \<noteq> None) \<and>
    waiting g' = waiting g @ tasks_of sp"
  using assms
proof (induction sp arbitrary: g)
  case Nil
  then show ?case by (simp add: tasks_of_def)
next
  case (Cons s sp)
  obtain fl line f where s: "s = (fl, line, f)" by (cases s)
  from spawn_global_free [OF Cons.prems, of fl line f] obtain g1 where g1:
    "spawn_global fl line f g = Ok g1" "\<not> is_taken g1" "mutex_data g1 \<noteq> None"
    "waiting g1 = waiting g @ [Task_new fl line f]" by blast
  from Cons.IH [OF g1(2)] g1 show ?case by (auto simp: s tasks_of_def)
qed

text \<open>What a poll leaves in the queue: the tasks it spawned, then itself if it is pending.\<close>

definition left_behind ::
  "'f Task \<Rightarrow> ('f \<times> 'w \<times> (string \<times> u32 \<times> 'f) list \<times> 'r poll) \<Rightarrow> 'f Task list" where
  "left_behind t = (\<lambda>(f', _, sp, out).
     tasks_of sp @ (case out of Ready _ \<Rightarrow> [] | Pending \<Rightarrow> [t\<lparr>future := f'\<rparr>]))"

lemma run_round_front:
  assumes "\<not> is_taken g" "waiting g = t # ts" "p (future t) w = Ok (f', w', sp, out)"
  shows "\<exists>g'. run_round p g w = Ok (Some (t, out), g', w') \<and> \<not> is_taken g' \<and>
    waiting g' = ts @ left_behind t (f', w', sp, out)"
proof -
  obtain e where e: "mutex_data g = Some e" "the_queue e = t # ts"
    using assms(2) by (auto simp: waiting_def split: option.splits)
  let ?g1 = "g\<lparr>mutex_data := Some (e\<lparr>task_queue := Some ts\<rparr>), taker_line_num := 94\<rparr>"
  have 1: "with_guard g 94 pop_front = Ok (Some (Some t), ?g1)"
    using assms(1) e by (intro with_guard_free) (simp_all add: pop_front_def)
  have free1: "\<not> is_taken ?g1" using assms(1) by simp
  from spawn_all_free [OF free1, of sp] obtain g2 e2 where g2:
    "spawn_all sp ?g1 = Ok g2" "\<not> is_taken g2" "mutex_data g2 = Some e2"
    "waiting g2 = ts @ tasks_of sp"
    by (auto simp: waiting_def the_queue_def)
  show ?thesis
  proof (cases out)
    case (Ready r)
    then show ?thesis using 1 g2 assms(3) by (simp add: run_round_def left_behind_def)
  next
    case Pending
    then show ?thesis
      using 1 g2 assms(3)
      by (simp add: run_round_def left_behind_def with_guard_free waiting_def)
  qed
qed

section \<open>Laps of the queue\<close>

text \<open>
  The reference: poll the tasks of a list once each, in order, and collect the outcomes and what
  they leave behind.
\<close>

fun lap ::
  "('f, 'w, 'r) poller \<Rightarrow> 'f Task list \<Rightarrow> 'w \<Rightarrow>
   (('f Task \<times> 'r poll) list \<times> 'f Task list \<times> 'w) res" where
  "lap p [] w = Ok ([], [], w)"
| "lap p (t # ts) w =
     rbind (p (future t) w) (\<lambda>(f', w', sp, out).
     rbind (lap p ts w') (\<lambda>(os, q, w2).
       Ok ((t, out) # os, left_behind t (f', w', sp, out) @ q, w2)))"

lemma lap_polls_each_once: "lap p ts w = Ok (os, q, w') \<Longrightarrow> map fst os = ts"
  by (induction ts arbitrary: w os q) (auto split: prod.splits)

lemma run_rounds_lap:
  assumes "\<not> is_taken g" "waiting g = ts @ rest" "lap p ts w = Ok (os, q, w')"
  shows "\<exists>g'. run_rounds (length ts) p g w = Ok (map Some os, g', w') \<and> \<not> is_taken g' \<and>
    waiting g' = rest @ q"
  using assms
proof (induction ts arbitrary: g rest w os q)
  case Nil
  then show ?case by simp
next
  case (Cons t ts)
  from Cons.prems(3) obtain f' w1 sp out os1 q1 where p: "p (future t) w = Ok (f', w1, sp, out)"
    and l: "lap p ts w1 = Ok (os1, q1, w')"
    and os: "os = (t, out) # os1" "q = left_behind t (f', w1, sp, out) @ q1"
    by (auto split: prod.splits)
  have w: "waiting g = t # ts @ rest" using Cons.prems(2) by simp
  from run_round_front [where p = p, OF Cons.prems(1) w p] obtain g1 where g1:
    "run_round p g w = Ok (Some (t, out), g1, w1)" "\<not> is_taken g1"
    "waiting g1 = ts @ (rest @ left_behind t (f', w1, sp, out))" by auto
  from Cons.IH [OF g1(2,3) l] g1(1) os show ?case by auto
qed

text \<open>
  C20: The global executor is a fair round-robin scheduler. From a queue that starts with the tasks \<open>ts\<close>,
  whatever is behind them, the next \<open>length ts\<close> rounds poll each of these tasks once, in order, as the
  reference lap does; afterwards the tasks that were behind are at the front, followed by the tasks
  spawned and the tasks still pending in the order of their polls, so no task is lost, starved or
  polled twice. The lock is free after each round.\<close>

theorem executor_is_round_robin:
  assumes "\<not> is_taken g" "waiting g = ts @ rest" "lap p ts w = Ok (os, q, w')"
  shows "\<exists>g'. run_rounds (length ts) p g w = Ok (map Some os, g', w') \<and> map fst os = ts \<and>
    \<not> is_taken g' \<and> waiting g' = rest @ q"
  using run_rounds_lap [OF assms] lap_polls_each_once [OF assms(3)] by blast

text \<open>Two tasks that yield and one that is behind them.\<close>

definition yielding :: "bool Executor option Mutex" where
  "yielding = Mutex_new ''executor.rs'' 160
     (Some \<lparr> task_queue = Some [Task_new ''a'' 1 False, Task_new ''b'' 2 True, Task_new ''c'' 3 False] \<rparr>)"

theorem executor_is_round_robin_witness:
  "\<exists>g'. run_rounds 2 Yield_poll yielding () =
     Ok ([Some (Task_new ''a'' 1 False, Pending), Some (Task_new ''b'' 2 True, Ready ())], g', ()) \<and>
     waiting g' = [Task_new ''c'' 3 False, Task_new ''a'' 1 True]"
proof -
  let ?ts = "[Task_new ''a'' 1 False, Task_new ''b'' 2 True]"
  have "\<not> is_taken yielding" "waiting yielding = ?ts @ [Task_new ''c'' 3 False]"
    by (simp_all add: yielding_def Mutex_new_def waiting_def the_queue_def)
  moreover have "lap Yield_poll ?ts () =
      Ok ([(Task_new ''a'' 1 False, Pending), (Task_new ''b'' 2 True, Ready ())], [Task_new ''a'' 1 True], ())"
    by (simp add: Yield_poll_def Task_new_def left_behind_def tasks_of_def)
  ultimately have "\<exists>g'. run_rounds (length ?ts) Yield_poll yielding () =
      Ok (map Some [(Task_new ''a'' 1 False, Pending), (Task_new ''b'' 2 True, Ready ())], g', ()) \<and>
      map fst [(Task_new ''a'' 1 False, Pending), (Task_new ''b'' 2 True, Ready ())] = ?ts \<and>
      \<not> is_taken g' \<and> waiting g' = [Task_new ''c'' 3 False] @ [Task_new ''a'' 1 True]"
    by (rule executor_is_round_robin)
  then show ?thesis by (auto simp: numeral_2_eq_2 simp del: run_rounds.simps)
qed

section \<open>Blocking\<close>

lemma block_on_sleeping:
  assumes "\<forall>j. i \<le> j \<and> j < i + k \<longrightarrow> clk j \<le> time_out t" "time_out t < clk (i + k)" "k < n"
  shows "block_on n sleep_poll g (Awaiting t) (clk, i) = Ok ((), g, (clk, Suc (i + k)))"
  using assms
proof (induction k arbitrary: i n)
  case 0
  then show ?case by (cases n) (simp_all add: sleep_poll_def TimeoutFuture_poll_def)
next
  case (Suc k)
  obtain m where n: "n = Suc m" using Suc.prems(3) by (cases n) auto
  have "clk i \<le> time_out t" using Suc.prems(1) by simp
  then have "block_on n sleep_poll g (Awaiting t) (clk, i) =
      block_on m sleep_poll g (Awaiting t) (clk, Suc i)"
    by (simp add: n sleep_poll_def TimeoutFuture_poll_def)
  also have "\<dots> = Ok ((), g, (clk, Suc (Suc i + k)))"
    using Suc.prems n by (intro Suc.IH) auto
  finally show ?case by simp
qed

text \<open>
  C21: \<open>block_on (sleep d)\<close> returns exactly at the first reading of the clock that lies strictly after the
  first reading plus \<open>d\<close>, whatever the clock showed before, provided that some reading does and the
  end of the sleep is a representable \<open>Duration\<close>; with an end that is not representable it panics.
  So it never returns early.\<close>

theorem sleep_returns_after_duration:
  assumes "0 < k" "\<forall>j. 0 < j \<and> j < k \<longrightarrow> clk j \<le> clk 0 + d" "clk 0 + d < clk k" "k \<le> n"
  shows "block_on n sleep_poll g (NotStarted d) (clk, 0) =
    (if clk 0 + d < 2 ^ 64 * 10 ^ 9 then Ok ((), g, (clk, Suc k))
     else panic ''overflow when adding durations'')"
proof -
  obtain m where n: "n = Suc m" using assms(1,4) by (cases n) auto
  let ?t = "\<lparr> time_out = clk 0 + d \<rparr>"
  have start: "block_on n sleep_poll g (NotStarted d) (clk, 0) =
      (case TimeoutFuture_poll ?t (clk 1) of Ready r \<Rightarrow> Ok (r, g, (clk, Suc (Suc 0)))
       | Pending \<Rightarrow> block_on m sleep_poll g (Awaiting ?t) (clk, Suc (Suc 0)))"
    if "clk 0 + d < 2 ^ 64 * 10 ^ 9"
    using that by (simp add: n sleep_poll_def TimeoutFuture_new_def)
  have "(case TimeoutFuture_poll ?t (clk 1) of Ready r \<Rightarrow> Ok (r, g, (clk, Suc (Suc 0)))
       | Pending \<Rightarrow> block_on m sleep_poll g (Awaiting ?t) (clk, Suc (Suc 0))) = Ok ((), g, (clk, Suc k))"
  proof (cases "k = 1")
    case True
    then show ?thesis using assms(3) by (simp add: TimeoutFuture_poll_def)
  next
    case False
    then have k: "Suc (Suc 0) + (k - 2) = k" using assms(1) by simp
    have "block_on m sleep_poll g (Awaiting ?t) (clk, Suc (Suc 0)) = Ok ((), g, (clk, Suc (Suc (Suc 0) + (k - 2))))"
      using assms False n k by (intro block_on_sleeping) auto
    moreover have "clk 1 \<le> clk 0 + d" using assms(1,2) False by simp
    ultimately show ?thesis using k by (simp add: TimeoutFuture_poll_def)
  qed
  with start show ?thesis
    by (simp add: n sleep_poll_def TimeoutFuture_new_def)
qed

definition idle_executor :: "SleepFuture Executor option Mutex" where
  "idle_executor = Mutex_new ''executor.rs'' 160 None"

theorem sleep_returns_after_duration_witness:
  "block_on 50 sleep_poll idle_executor (NotStarted 10) (\<lambda>i. 3 * i, 0) =
     Ok ((), idle_executor, (\<lambda>i. 3 * i, 5))"
  using sleep_returns_after_duration [of 4 "\<lambda>i. 3 * i" 10 50 idle_executor] by simp

end
