(* ===== verification/Graphics.thy ===== *)
theory Graphics
  imports Complex_Main Rust_Prelude "HOL-Library.Char_ord"
begin

text \<open>
  Drawing, \<open>src/graphics.rs\<close>: a bitmap with its frame buffer as bytes, points, rectangles, lines,
  glyphs and the text writer. Coordinates are \<open>i64\<close>, kept as integers with the overflow checks of
  the debug build. A character is its code point. The text of the font file is a parameter.
\<close>

section \<open>Bitmaps\<close>

text \<open>The methods of the trait \<open>Bitmap\<close>; \<open>buf\<close> is the memory behind \<open>buf_mut()\<close>.\<close>

record Bitmap =
  bytes_per_pixel :: int
  pixels_per_line :: int
  width :: int
  height :: int
  buf :: "u8 list"

definition u32_bytes :: "u32 \<Rightarrow> u8 list" where
  "u32_bytes v = [ucast v, ucast (drop_bit 8 v), ucast (drop_bit 16 v), ucast (drop_bit 24 v)]"

text \<open>A write of four bytes at an offset; outside the buffer there is nothing to write to.\<close>

definition put_u32 :: "u8 list \<Rightarrow> nat \<Rightarrow> u32 \<Rightarrow> u8 list res" where
  "put_u32 b ofs v =
     (if ofs + 4 \<le> length b then Ok (take ofs b @ u32_bytes v @ drop (ofs + 4) b) else Inl UB)"

definition is_in_x_range :: "Bitmap \<Rightarrow> int \<Rightarrow> bool" where
  "is_in_x_range self px \<longleftrightarrow> 0 \<le> px \<and> px < min (width self) (pixels_per_line self)"

definition is_in_y_range :: "Bitmap \<Rightarrow> int \<Rightarrow> bool" where
  "is_in_y_range self py \<longleftrightarrow> 0 \<le> py \<and> py < height self"

text \<open>The offset that \<open>unchecked_pixel_at_mut\<close> adds to the buffer, as an unsigned number.\<close>

definition unchecked_pixel_at_mut :: "Bitmap \<Rightarrow> int \<Rightarrow> int \<Rightarrow> nat res" where
  "unchecked_pixel_at_mut self x y =
     rbind (chk_i64 (y * pixels_per_line self)) (\<lambda>a.
     rbind (chk_i64 (a + x)) (\<lambda>b.
     rbind (chk_i64 (b * bytes_per_pixel self)) (\<lambda>c.
       Ok (unat (word_of_int c :: usize)))))"

definition pixel_at_mut :: "Bitmap \<Rightarrow> int \<Rightarrow> int \<Rightarrow> nat option res" where
  "pixel_at_mut self x y =
     (if is_in_x_range self x \<and> is_in_y_range self y
      then rbind (unchecked_pixel_at_mut self x y) (\<lambda>p. Ok (Some p))
      else Ok None)"

definition store_pixel :: "Bitmap \<Rightarrow> nat \<Rightarrow> u32 \<Rightarrow> Bitmap res" where
  "store_pixel self ofs color = rbind (put_u32 (buf self) ofs color) (\<lambda>b. Ok (self\<lparr>buf := b\<rparr>))"

definition unchecked_draw_point :: "Bitmap \<Rightarrow> u32 \<Rightarrow> int \<Rightarrow> int \<Rightarrow> Bitmap res" where
  "unchecked_draw_point b color x y =
     rbind (unchecked_pixel_at_mut b x y) (\<lambda>ofs. store_pixel b ofs color)"

definition draw_point :: "Bitmap \<Rightarrow> u32 \<Rightarrow> int \<Rightarrow> int \<Rightarrow> Bitmap res" where
  "draw_point b color x y =
     rbind (pixel_at_mut b x y) (\<lambda>p.
     rbind (ok_or p ''Out of Range'') (\<lambda>ofs. store_pixel b ofs color))"

section \<open>Rectangles\<close>

text \<open>A \<open>for\<close> loop over a list of items, with the bitmap as its state.\<close>

fun for_each :: "('x \<Rightarrow> 's \<Rightarrow> 's res) \<Rightarrow> 'x list \<Rightarrow> 's \<Rightarrow> 's res" where
  "for_each f [] s = Ok s"
| "for_each f (x # xs) s = rbind (f x s) (for_each f xs)"

definition fill_rect :: "Bitmap \<Rightarrow> u32 \<Rightarrow> int \<Rightarrow> int \<Rightarrow> int \<Rightarrow> int \<Rightarrow> Bitmap res" where
  "fill_rect b color px py w h =
     (if \<not> is_in_x_range b px \<or> \<not> is_in_y_range b py then err ''Out of Range'' else
      rbind (chk_i64 (px + w)) (\<lambda>xe. rbind (chk_i64 (xe - 1)) (\<lambda>xl.
      if \<not> is_in_x_range b xl then err ''Out of Range'' else
      rbind (chk_i64 (py + h)) (\<lambda>ye. rbind (chk_i64 (ye - 1)) (\<lambda>yl.
      if \<not> is_in_y_range b yl then err ''Out of Range'' else
        for_each (\<lambda>y. for_each (\<lambda>x b. unchecked_draw_point b color x y) [px..xe - 1]) [py..ye - 1] b)))))"

section \<open>Lines\<close>

definition calc_slope_point :: "int \<Rightarrow> int \<Rightarrow> int \<Rightarrow> int option res" where
  "calc_slope_point da db ia =
     (if da < db then Ok None
      else if da = 0 then Ok (Some 0)
      else if 0 \<le> ia \<and> ia \<le> da then
        rbind (chk_i64 (2 * db)) (\<lambda>a. rbind (chk_i64 (a * ia)) (\<lambda>p. rbind (chk_i64 (p + da)) (\<lambda>n.
          Ok (Some (n div da div 2)))))
      else Ok None)"

text \<open>The points of the iterator, drawn as they are produced; \<open>place\<close> turns the pair into a position.\<close>

definition slope_step ::
  "int \<Rightarrow> int \<Rightarrow> (int \<Rightarrow> int \<Rightarrow> int \<times> int) \<Rightarrow> u32 \<Rightarrow> int \<Rightarrow> Bitmap \<Rightarrow> Bitmap res" where
  "slope_step da db place color ia b =
     rbind (calc_slope_point da db ia) (\<lambda>ib.
       case ib of None \<Rightarrow> Ok b
       | Some ib \<Rightarrow> (case place ia ib of (x, y) \<Rightarrow> draw_point b color x y))"

definition draw_line :: "Bitmap \<Rightarrow> u32 \<Rightarrow> int \<Rightarrow> int \<Rightarrow> int \<Rightarrow> int \<Rightarrow> Bitmap res" where
  "draw_line b color x0 y0 x1 y1 =
     (if \<not> is_in_x_range b x0 \<or> \<not> is_in_x_range b x1 \<or> \<not> is_in_y_range b y0 \<or> \<not> is_in_y_range b y1
      then err ''Out of Range'' else
      let dx = \<bar>x1 - x0\<bar>; sx = sgn (x1 - x0); dy = \<bar>y1 - y0\<bar>; sy = sgn (y1 - y0) in
      if dx \<ge> dy
      then for_each (slope_step dx dy (\<lambda>rx ry. (x0 + rx * sx, y0 + ry * sy)) color) [0..dx - 1] b
      else for_each (slope_step dy dx (\<lambda>ry rx. (x0 + rx * sx, y0 + ry * sy)) color) [0..dy - 1] b)"

section \<open>Glyphs and text\<close>

type_synonym glyph = "string list"

fun hex_digit :: "char \<Rightarrow> nat option" where
  "hex_digit c =
     (if CHR ''0'' \<le> c \<and> c \<le> CHR ''9'' then Some (of_char c - of_char CHR ''0'')
      else if CHR ''a'' \<le> c \<and> c \<le> CHR ''f'' then Some (of_char c - of_char CHR ''a'' + 10)
      else if CHR ''A'' \<le> c \<and> c \<le> CHR ''F'' then Some (of_char c - of_char CHR ''A'' + 10)
      else None)"

text \<open>\<open>u8::from_str_radix(_, 16)\<close>: \<open>None\<close> stands for its error.\<close>

fun hex_digits_u8 :: "nat \<Rightarrow> string \<Rightarrow> nat option" where
  "hex_digits_u8 acc [] = Some acc"
| "hex_digits_u8 acc (c # cs) =
     (case hex_digit c of None \<Rightarrow> None
      | Some d \<Rightarrow> if acc * 16 + d < 256 then hex_digits_u8 (acc * 16 + d) cs else None)"

fun u8_from_str_radix_16 :: "string \<Rightarrow> nat option" where
  "u8_from_str_radix_16 [] = None"
| "u8_from_str_radix_16 (c # cs) =
     (if c = CHR ''+'' then (if cs = [] then None else hex_digits_u8 0 cs) else hex_digits_u8 0 (c # cs))"

fun split_lines :: "string \<Rightarrow> string list" where
  "split_lines [] = [[]]"
| "split_lines (c # cs) =
     (if c = CHR 0x0A then [] # split_lines cs
      else case split_lines cs of [] \<Rightarrow> [[c]] | l # ls \<Rightarrow> (c # l) # ls)"

definition strip_prefix_0x :: "string \<Rightarrow> string option" where
  "strip_prefix_0x line = (if take 2 line = ''0x'' then Some (drop 2 line) else None)"

text \<open>A row and a glyph start as asterisks and are overwritten by what the file has for them.\<close>

definition glyph_row :: "string \<Rightarrow> string" where
  "glyph_row line = take 8 line @ replicate (8 - length line) CHR ''*''"

definition read_glyph :: "string list \<Rightarrow> glyph" where
  "read_glyph lines =
     map glyph_row (take 16 lines) @ replicate (16 - length lines) (replicate 8 CHR ''*'')"

fun load_font :: "string list \<Rightarrow> glyph list \<Rightarrow> glyph list" where
  "load_font [] font = font"
| "load_font (line # rest) font =
     load_font rest
       (case strip_prefix_0x line of None \<Rightarrow> font
        | Some l \<Rightarrow> (case u8_from_str_radix_16 l of None \<Rightarrow> font
                    | Some idx \<Rightarrow> font[idx := read_glyph rest]))"

text \<open>The cache of the source only saves the work of loading the same file again.\<close>

definition lookup_font :: "string \<Rightarrow> nat \<Rightarrow> glyph option" where
  "lookup_font FONT_SOURCE c =
     (if c < 256
      then Some (load_font (split_lines FONT_SOURCE)
                   (replicate 256 (replicate 16 (replicate 8 CHR ''*''))) ! c)
      else None)"

text \<open>\<open>let _ = e\<close> for a fallible \<open>e\<close>: an error leaves the bitmap as it was.\<close>

definition ignore_err :: "'s \<Rightarrow> 's res \<Rightarrow> 's res" where
  "ignore_err s m = (case m of Inl (Err _) \<Rightarrow> Ok s | _ \<Rightarrow> m)"

definition draw_font_fg :: "string \<Rightarrow> Bitmap \<Rightarrow> int \<Rightarrow> int \<Rightarrow> u32 \<Rightarrow> nat \<Rightarrow> Bitmap res" where
  "draw_font_fg font b x y color c =
     (case lookup_font font c of None \<Rightarrow> Ok b
      | Some font \<Rightarrow>
          for_each (\<lambda>(dy, row). for_each (\<lambda>(dx, pixel) b.
            if pixel = CHR ''*'' then
              rbind (chk_i64 (x + int dx)) (\<lambda>px. rbind (chk_i64 (y + int dy)) (\<lambda>py.
                ignore_err b (draw_point b color px py)))
            else Ok b) (enumerate 0 row)) (enumerate 0 font) b)"

definition draw_str_fg :: "string \<Rightarrow> Bitmap \<Rightarrow> int \<Rightarrow> int \<Rightarrow> u32 \<Rightarrow> nat list \<Rightarrow> Bitmap res" where
  "draw_str_fg font b x y color s =
     for_each (\<lambda>(i, c) b.
       rbind (chk_i64 (int i * 8)) (\<lambda>ofs. rbind (chk_i64 (x + ofs)) (\<lambda>px.
         draw_font_fg font b px y color c))) (enumerate 0 s) b"

text \<open>The sums of the test pattern stay below the width, so only its first subtraction can overflow.\<close>

definition code_points :: "string \<Rightarrow> nat list" where
  "code_points s = map of_char s"

definition draw_test_pattern :: "string \<Rightarrow> Bitmap \<Rightarrow> Bitmap res" where
  "draw_test_pattern font b0 =
     rbind (chk_i64 (width b0 - 128)) (\<lambda>l. rbind (chk_i64 (l - 1)) (\<lambda>left.
     let h = 64; colors = [0x000000, 0xff0000, 0x00ff00, 0x0000ff]; points = [(0, 0), (0, 128), (128, 0), (128, 128)]
     in rbind (for_each (\<lambda>(i, c) b.
          rbind (expect (fill_rect b c left (int i * h) h h) ''fill_rect failed'') (\<lambda>b.
            expect (fill_rect b (NOT c) (left + h) (int i * h) h h) ''fill_rect failed''))
          (enumerate 0 colors) b0) (\<lambda>b.
        rbind (for_each (\<lambda>(x0, y0). for_each (\<lambda>(x1, y1) b.
          ignore_err b (draw_line b 0xffffff (left + x0) y0 (left + x1) y1)) points) points b) (\<lambda>b.
        rbind (draw_str_fg font b left (h * 4) 0x00ff00 (code_points ''0123456789'')) (\<lambda>b.
          draw_str_fg font b left (h * 4 + 16) 0x00ff00 (code_points ''ABCDEF''))))))"

record BitmapTextWriter =
  tw_buf :: Bitmap
  cursor_x :: int
  cursor_y :: int

definition BitmapTextWriter_new :: "Bitmap \<Rightarrow> BitmapTextWriter" where
  "BitmapTextWriter_new b = \<lparr> tw_buf = b, cursor_x = 0, cursor_y = 0 \<rparr>"

definition write_char :: "string \<Rightarrow> nat \<Rightarrow> BitmapTextWriter \<Rightarrow> BitmapTextWriter res" where
  "write_char font c self =
     (if c = 10 then
        rbind (chk_i64 (cursor_y self + 16)) (\<lambda>y. Ok (self\<lparr>cursor_y := y, cursor_x := 0\<rparr>))
      else
        rbind (draw_font_fg font (tw_buf self) (cursor_x self) (cursor_y self) 0xffffff c) (\<lambda>b.
        rbind (chk_i64 (cursor_x self + 8)) (\<lambda>x. Ok (self\<lparr>tw_buf := b, cursor_x := x\<rparr>))))"

definition write_str :: "string \<Rightarrow> BitmapTextWriter \<Rightarrow> nat list \<Rightarrow> BitmapTextWriter res" where
  "write_str font self s = for_each (write_char font) s self"

section \<open>Pixels of the buffer\<close>

definition pixel_offset :: "Bitmap \<Rightarrow> int \<Rightarrow> int \<Rightarrow> nat" where
  "pixel_offset b x y = nat ((y * pixels_per_line b + x) * 4)"

definition pixel :: "Bitmap \<Rightarrow> int \<Rightarrow> int \<Rightarrow> u32" where
  "pixel b x y = from_le_bytes (take 4 (drop (pixel_offset b x y) (buf b)))"

text \<open>
  What the callers guarantee of a frame buffer: four bytes per pixel, dimensions that came from 32-bit
  fields, and a buffer that holds every line.
\<close>

definition wf_bitmap :: "Bitmap \<Rightarrow> bool" where
  "wf_bitmap b \<longleftrightarrow> bytes_per_pixel b = 4 \<and> 0 \<le> pixels_per_line b \<and> pixels_per_line b < 2 ^ 32 \<and>
     0 \<le> width b \<and> width b < 2 ^ 32 \<and> 0 \<le> height b \<and> height b < 2 ^ 32 \<and>
     height b * pixels_per_line b * 4 \<le> int (length (buf b)) \<and> length (buf b) < 2 ^ 63"

text \<open>The positions that have a pixel in the buffer, and those of them that the screen shows.\<close>

definition on_grid :: "Bitmap \<Rightarrow> int \<Rightarrow> int \<Rightarrow> bool" where
  "on_grid b x y \<longleftrightarrow> 0 \<le> x \<and> x < pixels_per_line b \<and> 0 \<le> y \<and> y < height b"

definition visible :: "Bitmap \<Rightarrow> int \<Rightarrow> int \<Rightarrow> bool" where
  "visible b x y \<longleftrightarrow> is_in_x_range b x \<and> is_in_y_range b y"

lemma visible_on_grid: "visible b x y \<Longrightarrow> on_grid b x y"
  by (simp add: visible_def on_grid_def is_in_x_range_def is_in_y_range_def)

lemma from_u32_bytes: "from_le_bytes (u32_bytes v) = v"
proof -
  have ub: "unat (ucast (drop_bit k v) :: u8) = unat v div 2 ^ k mod 256" for k
    by (simp add: unsigned_ucast_eq take_bit_eq_mod unat_drop_bit)
  have ub0: "unat (ucast v :: u8) = unat v mod 256"
    using ub [of 0] by simp
  have arith: "n mod 256 + 256 * (n div 256 mod 256 + 256 * (n div 65536 mod 256 + 256 * (n div 16777216))) = n" for n :: nat
  proof -
    have d: "n div 65536 = n div 256 div 256" "n div 16777216 = n div 256 div 256 div 256"
      by (simp_all add: div_mult2_eq [symmetric])
    show ?thesis unfolding d by (simp only: mod_mult_div_eq)
  qed
  have "unat v < 4294967296" using unsigned_less [of v] by simp
  then have "unat v div 16777216 mod 256 = unat v div 16777216" by simp
  with arith [of "unat v"] have "foldr (\<lambda>b n. unat b + 256 * n) (u32_bytes v) 0 = unat v"
    unfolding u32_bytes_def list.map foldr.simps o_apply id_apply ub ub0 by simp
  then show ?thesis by (simp add: from_le_bytes_def)
qed

lemma length_u32_bytes [simp]: "length (u32_bytes v) = 4"
  by (simp add: u32_bytes_def)

lemma put_u32_same:
  "put_u32 b ofs v = Ok b' \<Longrightarrow> length b' = length b \<and> take 4 (drop ofs b') = u32_bytes v"
  by (auto simp: put_u32_def split: if_splits)

lemma put_u32_other:
  assumes "put_u32 b ofs v = Ok b'" "o' + 4 \<le> ofs \<or> ofs + 4 \<le> o'"
  shows "take 4 (drop o' b') = take 4 (drop o' b)"
proof -
  have b': "b' = take ofs b @ u32_bytes v @ drop (ofs + 4) b" and l: "ofs + 4 \<le> length b"
    using assms(1) by (auto simp: put_u32_def split: if_splits)
  from assms(2) show ?thesis
  proof
    assume "o' + 4 \<le> ofs"
    then show ?thesis using l by (simp add: b' min_def take_drop)
  next
    assume "ofs + 4 \<le> o'"
    then have "drop o' b' = drop (o' - (ofs + 4)) (drop (ofs + 4) b)"
      using l by (simp add: b')
    then show ?thesis using \<open>ofs + 4 \<le> o'\<close> by simp
  qed
qed

subsection \<open>Painting a set of positions\<close>

text \<open>The bitmap \<open>b'\<close> is \<open>b\<close> with the positions of \<open>S\<close>, and no others, set to a colour.\<close>

definition painted :: "Bitmap \<Rightarrow> (int \<times> int) set \<Rightarrow> u32 \<Rightarrow> Bitmap \<Rightarrow> bool" where
  "painted b S color b' \<longleftrightarrow>
     bytes_per_pixel b' = bytes_per_pixel b \<and> pixels_per_line b' = pixels_per_line b \<and>
     width b' = width b \<and> height b' = height b \<and> length (buf b') = length (buf b) \<and>
     (\<forall>x y. on_grid b x y \<longrightarrow> pixel b' x y = (if (x, y) \<in> S then color else pixel b x y))"

lemma painted_refl [simp]: "painted b {} color b"
  by (simp add: painted_def)

lemma painted_shape:
  assumes "painted b S color b'"
  shows "wf_bitmap b' = wf_bitmap b" "on_grid b' = on_grid b" "visible b' = visible b"
    "is_in_x_range b' = is_in_x_range b" "is_in_y_range b' = is_in_y_range b"
  using assms
  by (auto simp: painted_def wf_bitmap_def on_grid_def visible_def is_in_x_range_def is_in_y_range_def
      fun_eq_iff)

lemma painted_trans:
  assumes "painted b S color b1" "painted b1 T color b2"
  shows "painted b (S \<union> T) color b2"
proof -
  have "on_grid b1 = on_grid b" using painted_shape(2) [OF assms(1)] .
  then show ?thesis using assms by (auto simp: painted_def)
qed

lemma for_each_paints:
  assumes "\<And>x b'. x \<in> set xs \<Longrightarrow> wf_bitmap b' \<Longrightarrow> visible b' = visible b \<Longrightarrow>
      \<exists>b''. f x b' = Ok b'' \<and> painted b' (S x) color b''"
    and "wf_bitmap b"
  shows "\<exists>b'. for_each f xs b = Ok b' \<and> painted b (\<Union>x \<in> set xs. S x) color b'"
  using assms
proof (induction xs arbitrary: b)
  case Nil
  then show ?case by simp
next
  case (Cons x xs)
  from Cons.prems obtain b1 where b1: "f x b = Ok b1" "painted b (S x) color b1" by force
  note sh = painted_shape [OF b1(2)]
  have "\<exists>b'. for_each f xs b1 = Ok b' \<and> painted b1 (\<Union>x \<in> set xs. S x) color b'"
    using Cons.prems sh by (intro Cons.IH) auto
  then show ?case using b1 painted_trans by fastforce
qed

lemma pixel_index_inj:
  fixes x y x' y' l :: int
  assumes "0 \<le> x" "x < l" "0 \<le> x'" "x' < l" "y * l + x = y' * l + x'"
  shows "x = x' \<and> y = y'"
proof -
  have d: "(y * l + x) div l = y" if "0 \<le> x" "x < l" for x y using that by simp
  from d [OF assms(1,2)] d [OF assms(3,4)] assms(5) show ?thesis by (metis add_left_cancel)
qed

lemma pixel_index_bounds:
  assumes "wf_bitmap b" "on_grid b x y"
  shows "0 \<le> y * pixels_per_line b" "0 \<le> y * pixels_per_line b + x"
    "(y * pixels_per_line b + x) * 4 + 4 \<le> int (length (buf b))"
proof -
  let ?l = "pixels_per_line b"
  from assms have p: "0 \<le> x" "x < ?l" "0 \<le> y" "y + 1 \<le> height b" by (simp_all add: on_grid_def)
  then show "0 \<le> y * ?l" by simp
  then show "0 \<le> y * ?l + x" using p by simp
  have "(y + 1) * ?l \<le> height b * ?l" using p by (intro mult_right_mono) auto
  then have "y * ?l + x + 1 \<le> height b * ?l" using p(2) by (simp add: algebra_simps)
  then show "(y * ?l + x) * 4 + 4 \<le> int (length (buf b))"
    using assms(1) by (auto simp: wf_bitmap_def)
qed

lemma chk_i64_nonneg: "0 \<le> v \<Longrightarrow> v < 2 ^ 63 \<Longrightarrow> chk_i64 v = Ok v"
  by (simp add: chk_i64_def)

lemma unat_word_of_int_nonneg: "0 \<le> v \<Longrightarrow> v < 2 ^ 63 \<Longrightarrow> unat (word_of_int v :: usize) = nat v"
proof -
  assume "0 \<le> v" "v < 2 ^ 63"
  then have "take_bit 64 v = v" by (intro take_bit_int_eq_self) auto
  then have "uint (word_of_int v :: usize) = v" by (simp add: uint_word_of_int_eq)
  then show ?thesis by (metis nat_uint_eq)
qed

lemma unchecked_pixel_at_mut_Ok:
  assumes "wf_bitmap b" "on_grid b x y"
  shows "unchecked_pixel_at_mut b x y = Ok (pixel_offset b x y)"
    "pixel_offset b x y + 4 \<le> length (buf b)"
proof -
  define a where "a = y * pixels_per_line b"
  define i where "i = a + x"
  note bd = pixel_index_bounds [OF assms, folded a_def, folded i_def]
  have x: "0 \<le> x" using assms(2) by (simp add: on_grid_def)
  have lt: "i * 4 < 2 ^ 63" using bd(3) assms(1) by (simp add: wf_bitmap_def)
  have "a < 2 ^ 63" "i < 2 ^ 63" using lt bd x by (simp_all add: i_def)
  moreover have "unat (word_of_int (i * 4) :: usize) = nat (i * 4)"
    using lt bd(2) by (intro unat_word_of_int_nonneg) simp_all
  moreover have "bytes_per_pixel b = 4" using assms(1) by (simp add: wf_bitmap_def)
  ultimately show "unchecked_pixel_at_mut b x y = Ok (pixel_offset b x y)"
    using bd lt by (simp add: unchecked_pixel_at_mut_def pixel_offset_def chk_i64_nonneg
        flip: a_def i_def)
  show "pixel_offset b x y + 4 \<le> length (buf b)"
    using bd by (simp add: pixel_offset_def flip: a_def i_def)
qed

lemma store_pixel_paints:
  assumes "wf_bitmap b" "on_grid b x y"
  shows "\<exists>b'. store_pixel b (pixel_offset b x y) color = Ok b' \<and> painted b {(x, y)} color b'"
proof -
  obtain bs where bs: "put_u32 (buf b) (pixel_offset b x y) color = Ok bs"
    using unchecked_pixel_at_mut_Ok(2) [OF assms] by (simp add: put_u32_def)
  let ?b = "b\<lparr>buf := bs\<rparr>"
  have ofs: "pixel_offset ?b = pixel_offset b" by (simp add: fun_eq_iff pixel_offset_def)
  have "pixel ?b x' y' = (if (x', y') = (x, y) then color else pixel b x' y')" if g: "on_grid b x' y'" for x' y'
  proof (cases "(x', y') = (x, y)")
    case True
    then show ?thesis using put_u32_same [OF bs] by (simp add: pixel_def ofs from_u32_bytes)
  next
    case False
    let ?i = "y * pixels_per_line b + x" and ?i' = "y' * pixels_per_line b + x'"
    have "?i \<noteq> ?i'"
      using pixel_index_inj [of x "pixels_per_line b" x' y y'] False assms(2) g by (auto simp: on_grid_def)
    then have "pixel_offset b x' y' + 4 \<le> pixel_offset b x y \<or> pixel_offset b x y + 4 \<le> pixel_offset b x' y'"
      using pixel_index_bounds(2) [OF assms] pixel_index_bounds(2) [OF assms(1) g]
      by (auto simp: pixel_offset_def nat_le_iff)
    then show ?thesis using put_u32_other [OF bs] False by (auto simp: pixel_def ofs)
  qed
  then have "painted b {(x, y)} color ?b" using put_u32_same [OF bs] by (auto simp: painted_def)
  with bs show ?thesis by (auto simp: store_pixel_def)
qed

lemma unchecked_draw_point_paints:
  assumes "wf_bitmap b" "on_grid b x y"
  shows "\<exists>b'. unchecked_draw_point b color x y = Ok b' \<and> painted b {(x, y)} color b'"
  using store_pixel_paints [OF assms] unchecked_pixel_at_mut_Ok(1) [OF assms]
  by (simp add: unchecked_draw_point_def)

lemma draw_point_paints:
  assumes "wf_bitmap b" "visible b x y"
  shows "\<exists>b'. draw_point b color x y = Ok b' \<and> painted b {(x, y)} color b'"
  using store_pixel_paints [OF assms(1) visible_on_grid [OF assms(2)]] assms
    unchecked_pixel_at_mut_Ok(1) [OF assms(1) visible_on_grid [OF assms(2)]]
  by (simp add: draw_point_def pixel_at_mut_def visible_def)

lemma draw_point_clips: "\<not> visible b x y \<Longrightarrow> draw_point b color x y = err ''Out of Range''"
  by (auto simp: draw_point_def pixel_at_mut_def visible_def)

end
