(* ===== verification/Graphics_Paint.thy ===== *)
theory Graphics_Paint
  imports Graphics
begin

text \<open>
  What the drawing operations of \<open>Graphics\<close> do to the frame buffer: rectangles, lines, glyphs and text
  paint exactly a set of positions. The reference for a line rounds the exact slope.
\<close>

section \<open>Rectangles and lines paint exactly their points\<close>

lemma chk_i64_small: "- (2 ^ 63) \<le> v \<Longrightarrow> v < 2 ^ 63 \<Longrightarrow> chk_i64 v = Ok v"
  by (simp add: chk_i64_def)

lemma in_range_below:
  assumes "wf_bitmap b"
  shows "is_in_x_range b x \<Longrightarrow> 0 \<le> x \<and> x < 2 ^ 32" "is_in_y_range b y \<Longrightarrow> 0 \<le> y \<and> y < 2 ^ 32"
  using assms by (auto simp: wf_bitmap_def is_in_x_range_def is_in_y_range_def)

lemma fill_rect_paints:
  assumes "wf_bitmap b" "\<bar>w\<bar> < 2 ^ 62" "\<bar>h\<bar> < 2 ^ 62"
  shows "if is_in_x_range b px \<and> is_in_y_range b py \<and> is_in_x_range b (px + w - 1) \<and>
      is_in_y_range b (py + h - 1)
    then \<exists>b'. fill_rect b color px py w h = Ok b' \<and>
      painted b ({px..<px + w} \<times> {py..<py + h}) color b'
    else fill_rect b color px py w h = err ''Out of Range''"
proof (cases "is_in_x_range b px \<and> is_in_y_range b py")
  case False
  then show ?thesis by (auto simp: fill_rect_def)
next
  case True
  have cx: "chk_i64 (px + w) = Ok (px + w)" "chk_i64 (px + w - 1) = Ok (px + w - 1)"
    using in_range_below(1) [OF assms(1), of px] True assms(2) by (auto intro!: chk_i64_small)
  have cy: "chk_i64 (py + h) = Ok (py + h)" "chk_i64 (py + h - 1) = Ok (py + h - 1)"
    using in_range_below(2) [OF assms(1), of py] True assms(3) by (auto intro!: chk_i64_small)
  let ?f = "\<lambda>y. for_each (\<lambda>x b. unchecked_draw_point b color x y) [px..px + w - 1]"
  have eq: "fill_rect b color px py w h = (if is_in_x_range b (px + w - 1) \<and> is_in_y_range b (py + h - 1)
      then for_each ?f [py..py + h - 1] b else err ''Out of Range'')"
    using True by (simp add: fill_rect_def cx cy)
  show ?thesis
  proof (cases "is_in_x_range b (px + w - 1) \<and> is_in_y_range b (py + h - 1)")
    case False
    then show ?thesis using eq by auto
  next
    case last: True
    have vis: "visible b x y" if "x \<in> {px..px + w - 1}" "y \<in> {py..py + h - 1}" for x y
      using that True last by (auto simp: visible_def is_in_x_range_def is_in_y_range_def)
    have row: "\<exists>b2. ?f y b1 = Ok b2 \<and> painted b1 (\<Union>x \<in> set [px..px + w - 1]. {(x, y)}) color b2"
      if "y \<in> {py..py + h - 1}" "wf_bitmap b1" "visible b1 = visible b" for y b1
      using that vis by (intro for_each_paints) (auto intro!: unchecked_draw_point_paints visible_on_grid)
    have "\<exists>b'. for_each ?f [py..py + h - 1] b = Ok b' \<and>
        painted b (\<Union>y \<in> set [py..py + h - 1]. \<Union>x \<in> set [px..px + w - 1]. {(x, y)}) color b'"
      by (rule for_each_paints [OF row assms(1)]) auto
    moreover have "(\<Union>y \<in> set [py..py + h - 1]. \<Union>x \<in> set [px..px + w - 1]. {(x, y)}) =
        {px..<px + w} \<times> {py..<py + h}"
      by auto
    ultimately show ?thesis using True last by (simp only: eq if_True simp_thms)
  qed
qed

text \<open>
  C25: \<open>fill_rect\<close> with extents below \<open>2 ^ 62\<close> refuses a rectangle whose first or last column or row is not
  on the screen, and otherwise paints the positions of the rectangle and no other pixel of the frame
  buffer, without an overflow or an access outside it.\<close>

theorem fill_rect_paints_rectangle:
  assumes "wf_bitmap b" "\<bar>w\<bar> < 2 ^ 62" "\<bar>h\<bar> < 2 ^ 62"
  shows "if is_in_x_range b px \<and> is_in_y_range b py \<and> is_in_x_range b (px + w - 1) \<and>
      is_in_y_range b (py + h - 1)
    then \<exists>b'. fill_rect b color px py w h = Ok b' \<and>
      painted b ({px..<px + w} \<times> {py..<py + h}) color b'
    else fill_rect b color px py w h = err ''Out of Range''"
  using assms by (rule fill_rect_paints)

subsection \<open>Lines\<close>

text \<open>The offset on the minor axis: the exact ratio, rounded to the nearest integer.\<close>

definition minor_offset :: "int \<Rightarrow> int \<Rightarrow> int \<Rightarrow> int" where
  "minor_offset da db ia = round (real_of_int (db * ia) / real_of_int da)"

lemma minor_offset_div: "0 < da \<Longrightarrow> minor_offset da db ia = (2 * db * ia + da) div da div 2"
proof -
  assume da: "0 < da"
  have "minor_offset da db ia = \<lfloor>real_of_int (db * ia) / real_of_int da + 1 / 2\<rfloor>"
    by (simp add: minor_offset_def round_def)
  also have "real_of_int (db * ia) / real_of_int da + 1 / 2 =
      real_of_int (2 * db * ia + da) / real_of_int (da * 2)"
    using da by (simp add: field_simps)
  also have "\<lfloor>\<dots>\<rfloor> = (2 * db * ia + da) div (da * 2)" by (rule floor_divide_of_int_eq)
  finally show ?thesis using da by (simp add: zdiv_zmult2_eq)
qed

lemma minor_offset_bounds:
  assumes "0 < da" "0 \<le> db" "0 \<le> ia" "ia \<le> da"
  shows "0 \<le> minor_offset da db ia" "minor_offset da db ia \<le> db"
proof -
  have m: "db * ia \<le> db * da" "0 \<le> db * ia" using assms by (simp_all add: mult_left_mono)
  have "(2 * db * ia + da) div da \<le> (2 * db * da + da) div da"
    using assms(1) m(1) by (intro zdiv_mono1) auto
  also have "\<dots> = 2 * db + 1" using assms(1) by (simp add: div_add1_eq)
  finally show "minor_offset da db ia \<le> db" unfolding minor_offset_div [OF assms(1)] by simp
  show "0 \<le> minor_offset da db ia"
    unfolding minor_offset_div [OF assms(1)] using m assms(1)
    by (simp add: pos_imp_zdiv_nonneg_iff mult.assoc)
qed

text \<open>The positions of a line without its end point: one per step along the longer axis.\<close>

definition line_points :: "int \<Rightarrow> int \<Rightarrow> int \<Rightarrow> int \<Rightarrow> (int \<times> int) set" where
  "line_points x0 y0 x1 y1 =
     (let dx = \<bar>x1 - x0\<bar>; sx = sgn (x1 - x0); dy = \<bar>y1 - y0\<bar>; sy = sgn (y1 - y0) in
      if dx \<ge> dy then (\<lambda>r. (x0 + r * sx, y0 + minor_offset dx dy r * sy)) ` {0..<dx}
      else (\<lambda>r. (x0 + minor_offset dy dx r * sx, y0 + r * sy)) ` {0..<dy})"

lemma calc_slope_point_eq:
  assumes "0 \<le> db" "db \<le> da" "0 \<le> ia" "ia < da" "da < 2 ^ 32" "2 * db * ia + da < 2 ^ 63"
  shows "calc_slope_point da db ia = Ok (Some (minor_offset da db ia))"
proof -
  have "0 \<le> 2 * db * ia" "2 * db \<le> 2 * da" using assms by simp_all
  then show ?thesis
    using assms by (simp add: calc_slope_point_def chk_i64_nonneg minor_offset_div)
qed

lemma towards_between:
  fixes a b r :: int
  assumes "0 \<le> r" "r \<le> \<bar>b - a\<bar>"
  shows "min a b \<le> a + r * sgn (b - a)" "a + r * sgn (b - a) \<le> max a b"
  using assms by (cases "a < b"; cases "a = b"; simp add: sgn_if)+

lemma visible_between:
  assumes "visible b x0 y0" "visible b x1 y1" "min x0 x1 \<le> x" "x \<le> max x0 x1"
    "min y0 y1 \<le> y" "y \<le> max y0 y1"
  shows "visible b x y"
  using assms by (auto simp: visible_def is_in_x_range_def is_in_y_range_def)

lemma slope_step_paints:
  assumes "wf_bitmap b" "0 \<le> db" "db \<le> da" "0 \<le> ia" "ia < da" "da < 2 ^ 32"
    and "db * ia < 2 ^ 61" "place ia (minor_offset da db ia) = (x, y)" "visible b x y"
  shows "\<exists>b'. slope_step da db place color ia b = Ok b' \<and> painted b {(x, y)} color b'"
proof -
  have "2 * db * ia + da < 2 ^ 63" using assms(6,7) by (simp add: mult.assoc)
  from calc_slope_point_eq [OF assms(2-6) this] draw_point_paints [OF assms(1,9)] assms(8)
  show ?thesis by (simp add: slope_step_def)
qed

lemma quarter_bound: "(v :: int) * 4 < 2 ^ 63 \<Longrightarrow> v < 2 ^ 61"
  by simp

lemma slope_product_small:
  assumes "wf_bitmap b" "visible b x0 y0" "visible b x1 y1"
    and "0 \<le> r" "r \<le> \<bar>x1 - x0\<bar>" "0 \<le> s" "s \<le> \<bar>y1 - y0\<bar>"
  shows "s * r < 2 ^ 61"
proof -
  have "r \<le> pixels_per_line b" "s \<le> height b"
    using assms by (auto simp: visible_def is_in_x_range_def is_in_y_range_def)
  then have "s * r \<le> height b * pixels_per_line b" using assms(4,6) by (intro mult_mono) auto
  moreover have "height b * pixels_per_line b * 4 < 2 ^ 63" using assms(1) by (auto simp: wf_bitmap_def)
  ultimately show ?thesis by (metis (no_types) le_less_trans quarter_bound)
qed

lemma dims_small:
  assumes "wf_bitmap b" "visible b x0 y0" "visible b x1 y1"
  shows "\<bar>x1 - x0\<bar> < 2 ^ 32" "\<bar>y1 - y0\<bar> < 2 ^ 32"
  using assms by (auto simp: visible_def dest!: in_range_below [OF assms(1)])

lemma draw_line_paints:
  assumes "wf_bitmap b" "visible b x0 y0" "visible b x1 y1"
  shows "\<exists>b'. draw_line b color x0 y0 x1 y1 = Ok b' \<and> painted b (line_points x0 y0 x1 y1) color b'"
proof -
  let ?dx = "\<bar>x1 - x0\<bar>" and ?sx = "sgn (x1 - x0)" and ?dy = "\<bar>y1 - y0\<bar>" and ?sy = "sgn (y1 - y0)"
  let ?px = "\<lambda>rx ry. (x0 + rx * ?sx, y0 + ry * ?sy)"
  have in_range: "is_in_x_range b x0" "is_in_x_range b x1" "is_in_y_range b y0" "is_in_y_range b y1"
    using assms by (simp_all add: visible_def)
  have vis: "visible b (x0 + rx * ?sx) (y0 + ry * ?sy)"
    if "0 \<le> rx" "rx \<le> ?dx" "0 \<le> ry" "ry \<le> ?dy" for rx ry
    using that by (intro visible_between [OF assms(2,3)] towards_between)
  note small = slope_product_small [OF assms] dims_small [OF assms]
  show ?thesis
  proof (cases "?dx \<ge> ?dy")
    case True
    have "\<exists>b'. for_each (slope_step ?dx ?dy ?px color) [0..?dx - 1] b = Ok b' \<and>
        painted b (\<Union>r \<in> set [0..?dx - 1]. {?px r (minor_offset ?dx ?dy r)}) color b'"
    proof (rule for_each_paints [OF _ assms(1)])
      fix r b1 assume r: "r \<in> set [0..?dx - 1]" and b1: "wf_bitmap b1" "visible b1 = visible b"
      then have "0 \<le> r" "r < ?dx" by auto
      with True b1 small(1) [of r ?dy] small(2) vis minor_offset_bounds [of ?dx ?dy r]
      show "\<exists>b''. slope_step ?dx ?dy ?px color r b1 = Ok b'' \<and>
          painted b1 {?px r (minor_offset ?dx ?dy r)} color b''"
        by (intro slope_step_paints) auto
    qed
    moreover have "(\<Union>r \<in> set [0..?dx - 1]. {?px r (minor_offset ?dx ?dy r)}) = line_points x0 y0 x1 y1"
      using True by (auto simp: line_points_def Let_def)
    ultimately show ?thesis using True in_range by (simp add: draw_line_def Let_def)
  next
    case False
    let ?py = "\<lambda>ry rx. ?px rx ry"
    have "\<exists>b'. for_each (slope_step ?dy ?dx ?py color) [0..?dy - 1] b = Ok b' \<and>
        painted b (\<Union>r \<in> set [0..?dy - 1]. {?py r (minor_offset ?dy ?dx r)}) color b'"
    proof (rule for_each_paints [OF _ assms(1)])
      fix r b1 assume r: "r \<in> set [0..?dy - 1]" and b1: "wf_bitmap b1" "visible b1 = visible b"
      then have "0 \<le> r" "r < ?dy" by auto
      with False b1 small(1) [of ?dx r] small(3) vis minor_offset_bounds [of ?dy ?dx r]
      show "\<exists>b''. slope_step ?dy ?dx ?py color r b1 = Ok b'' \<and>
          painted b1 {?py r (minor_offset ?dy ?dx r)} color b''"
        by (intro slope_step_paints) (auto simp: mult.commute [of "\<bar>x1 - x0\<bar>"])
    qed
    moreover have "(\<Union>r \<in> set [0..?dy - 1]. {?py r (minor_offset ?dy ?dx r)}) = line_points x0 y0 x1 y1"
      using False by (auto simp: line_points_def Let_def)
    ultimately show ?thesis using False in_range by (simp add: draw_line_def Let_def)
  qed
qed

text \<open>
  C26: \<open>draw_line\<close> refuses a line with an end point outside the screen; otherwise it paints one position per
  step along the longer axis, from the first end point up to but without the second, each with the
  offset on the shorter axis rounded to the nearest integer, and no other pixel, without an overflow
  or an access outside the frame buffer.\<close>

theorem draw_line_paints_rounded_line:
  assumes "wf_bitmap b"
  shows "if visible b x0 y0 \<and> visible b x1 y1
    then \<exists>b'. draw_line b color x0 y0 x1 y1 = Ok b' \<and> painted b (line_points x0 y0 x1 y1) color b'
    else draw_line b color x0 y0 x1 y1 = err ''Out of Range''"
proof (cases "visible b x0 y0 \<and> visible b x1 y1")
  case True
  then show ?thesis using draw_line_paints [OF assms] by simp
next
  case False
  then show ?thesis by (auto simp: draw_line_def visible_def)
qed

definition sample_bitmap :: Bitmap where
  "sample_bitmap = \<lparr> bytes_per_pixel = 4, pixels_per_line = 5, width = 4, height = 3, buf = replicate 60 0 \<rparr>"

lemma wf_sample_bitmap: "wf_bitmap sample_bitmap"
  by (simp add: wf_bitmap_def sample_bitmap_def)

lemma painted_pixel:
  "painted b S color b' \<Longrightarrow> on_grid b x y \<Longrightarrow> pixel b' x y = (if (x, y) \<in> S then color else pixel b x y)"
  by (simp add: painted_def)

lemma from_le_bytes_zeros: "from_le_bytes (replicate n 0) = 0"
  by (induction n) (simp_all add: from_le_bytes_def)

lemma sample_bitmap_blank: "pixel sample_bitmap 4 2 = 0" "pixel sample_bitmap 3 2 = 0"
  by (simp_all add: sample_bitmap_def pixel_def pixel_offset_def from_le_bytes_zeros)

lemma sample_bitmap_grid: "on_grid sample_bitmap x y \<longleftrightarrow> 0 \<le> x \<and> x < 5 \<and> 0 \<le> y \<and> y < 3"
  by (auto simp: on_grid_def sample_bitmap_def)

theorem fill_rect_paints_rectangle_witness:
  "\<exists>b'. fill_rect sample_bitmap 7 1 1 3 2 = Ok b' \<and> pixel b' 3 2 = 7 \<and> pixel b' 4 2 = 0"
proof -
  have "\<exists>b'. fill_rect sample_bitmap 7 1 1 3 2 = Ok b' \<and>
      painted sample_bitmap ({1..<1 + 3} \<times> {1..<1 + 2}) 7 b'"
    using fill_rect_paints_rectangle [OF wf_sample_bitmap, of 3 2 1 1 7]
    by (simp add: is_in_x_range_def is_in_y_range_def sample_bitmap_def)
  then show ?thesis by (auto simp: painted_pixel sample_bitmap_grid sample_bitmap_blank)
qed

theorem draw_line_paints_rounded_line_witness:
  "\<exists>b'. draw_line sample_bitmap 9 0 0 3 2 = Ok b' \<and> pixel b' 0 0 = 9 \<and> pixel b' 3 2 = 0"
proof -
  have "visible sample_bitmap 0 0 \<and> visible sample_bitmap 3 2"
    by (simp add: visible_def is_in_x_range_def is_in_y_range_def sample_bitmap_def)
  with draw_line_paints_rounded_line [OF wf_sample_bitmap, of 0 0 3 2 9] obtain b' where
    b': "draw_line sample_bitmap 9 0 0 3 2 = Ok b'" "painted sample_bitmap (line_points 0 0 3 2) 9 b'"
    by auto
  have "(0, 0) \<in> line_points 0 0 3 2" "(3, 2) \<notin> line_points 0 0 3 2"
    by (auto simp: line_points_def minor_offset_def)
  with b' show ?thesis by (auto simp: painted_pixel sample_bitmap_grid sample_bitmap_blank)
qed

section \<open>Glyphs and text\<close>

definition wf_glyph :: "glyph \<Rightarrow> bool" where
  "wf_glyph g \<longleftrightarrow> length g = 16 \<and> list_all (\<lambda>row. length row = 8) g"

lemma wf_read_glyph: "wf_glyph (read_glyph lines)"
  by (auto simp: wf_glyph_def read_glyph_def glyph_row_def list_all_iff min_def)

lemma load_font_wf:
  "length font = 256 \<Longrightarrow> list_all wf_glyph font \<Longrightarrow>
   length (load_font lines font) = 256 \<and> list_all wf_glyph (load_font lines font)"
proof (induction lines font rule: load_font.induct)
  case (2 line rest font)
  have "list_all wf_glyph (font[i := read_glyph rest])" for i
    using 2(3) wf_read_glyph by (auto simp: list_all_iff dest!: set_update_subset_insert [THEN subsetD])
  with 2 show ?case by (auto split: option.splits)
qed simp

lemma lookup_font_wf:
  "lookup_font src c = (if c < 256 then Some (the (lookup_font src c)) else None)"
  "c < 256 \<Longrightarrow> wf_glyph (the (lookup_font src c))"
proof -
  let ?f = "load_font (split_lines src) (replicate 256 (replicate 16 (replicate 8 CHR ''*'')))"
  show "lookup_font src c = (if c < 256 then Some (the (lookup_font src c)) else None)"
    by (simp add: lookup_font_def)
  have "length ?f = 256 \<and> list_all wf_glyph ?f"
    by (rule load_font_wf) (auto simp: wf_glyph_def list_all_iff)
  then show "wf_glyph (the (lookup_font src c))" if "c < 256"
    using that by (simp add: lookup_font_def list_all_length)
qed

text \<open>The positions a glyph covers when its corner is at \<open>(x, y)\<close>.\<close>

definition glyph_points :: "glyph option \<Rightarrow> int \<Rightarrow> int \<Rightarrow> (int \<times> int) set" where
  "glyph_points g x y = (case g of None \<Rightarrow> {}
     | Some g \<Rightarrow> {(x + int dx, y + int dy) | dx dy. dy < length g \<and> dx < length (g ! dy) \<and> g ! dy ! dx = CHR ''*''})"

lemma ignore_draw_point_paints:
  assumes "wf_bitmap b"
  shows "\<exists>b'. ignore_err b (draw_point b color x y) = Ok b' \<and>
    painted b ({(x, y)} \<inter> {(x, y). visible b x y}) color b'"
  using draw_point_paints [OF assms, of x y color] draw_point_clips [of b x y color]
  by (cases "visible b x y") (auto simp: ignore_err_def)

lemma UN_enumerate: "(\<Union>r \<in> set (enumerate 0 xs). F (fst r) (snd r)) = (\<Union>i < length xs. F i (xs ! i))"
proof -
  have "set (enumerate 0 xs) = (\<lambda>i. (i, xs ! i)) ` {..<length xs}"
    by (auto simp: in_set_enumerate_eq image_iff)
  then show ?thesis by simp
qed

lemma draw_font_fg_paints:
  assumes "wf_bitmap b" "\<bar>x\<bar> < 2 ^ 62" "\<bar>y\<bar> < 2 ^ 62"
  shows "\<exists>b'. draw_font_fg font b x y color c = Ok b' \<and>
    painted b (glyph_points (lookup_font font c) x y \<inter> {(x, y). visible b x y}) color b'"
proof (cases "c < 256")
  case False
  then show ?thesis by (simp add: draw_font_fg_def lookup_font_def glyph_points_def)
next
  case True
  obtain g where g: "lookup_font font c = Some g" "wf_glyph g"
    using lookup_font_wf(1) [of font c] lookup_font_wf(2) [of c font] True by auto
  let ?V = "{(x, y). visible b x y}"
  let ?put = "\<lambda>dy (dx, pixel) b. if pixel = CHR ''*'' then
      rbind (chk_i64 (x + int dx)) (\<lambda>px. rbind (chk_i64 (y + int dy)) (\<lambda>py.
        ignore_err b (draw_point b color px py))) else Ok b"
  let ?S = "\<lambda>dy dx pixel. (if pixel = CHR ''*'' then {(x + int dx, y + int dy)} else {}) \<inter> ?V"
  have len: "dy < 16 \<and> length row = 8" if "(dy, row) \<in> set (enumerate 0 g)" for dy row
    using that g(2) by (auto simp: wf_glyph_def list_all_iff in_set_enumerate_eq)
  have cell: "\<exists>b2. ?put dy e b1 = Ok b2 \<and> painted b1 (?S dy (fst e) (snd e)) color b2"
    if "e \<in> set (enumerate 0 row)" "(dy, row) \<in> set (enumerate 0 g)" "wf_bitmap b1" "visible b1 = visible b"
    for dy row e b1
  proof -
    obtain dx px where e: "e = (dx, px)" by (cases e)
    have "dx < 8" "dy < 16" using that len [OF that(2)] by (auto simp: e in_set_enumerate_eq)
    then have "chk_i64 (x + int dx) = Ok (x + int dx)" "chk_i64 (y + int dy) = Ok (y + int dy)"
      using assms by (auto intro!: chk_i64_small)
    then show ?thesis
      using ignore_draw_point_paints [OF that(3), of color "x + int dx" "y + int dy"] that(4)
      by (cases "px = CHR ''*''") (simp_all add: e del: chk_i64_eq_Ok)
  qed
  have row: "\<exists>b2. for_each (?put (fst r)) (enumerate 0 (snd r)) b1 = Ok b2 \<and>
      painted b1 (\<Union>e \<in> set (enumerate 0 (snd r)). ?S (fst r) (fst e) (snd e)) color b2"
    if "r \<in> set (enumerate 0 g)" "wf_bitmap b1" "visible b1 = visible b" for r b1
    using cell that by (intro for_each_paints) auto
  have "\<exists>b'. for_each (\<lambda>r. for_each (?put (fst r)) (enumerate 0 (snd r))) (enumerate 0 g) b = Ok b' \<and>
      painted b (\<Union>r \<in> set (enumerate 0 g). \<Union>e \<in> set (enumerate 0 (snd r)). ?S (fst r) (fst e) (snd e)) color b'"
    by (rule for_each_paints [OF row assms(1)]) auto
  moreover have "(\<Union>r \<in> set (enumerate 0 g). \<Union>e \<in> set (enumerate 0 (snd r)). ?S (fst r) (fst e) (snd e)) =
      glyph_points (Some g) x y \<inter> ?V"
    by (subst UN_enumerate [where F = "\<lambda>dy row. \<Union>e \<in> set (enumerate 0 row). ?S dy (fst e) (snd e)"],
        subst UN_enumerate [where F = "\<lambda>dx pixel. ?S dy dx pixel" for dy])
       (auto simp: glyph_points_def split: if_splits)
  ultimately show ?thesis by (simp add: draw_font_fg_def g(1) case_prod_beta')
qed

text \<open>The positions that a text covers from a cursor on, and where it leaves the cursor.\<close>

fun text_points :: "string \<Rightarrow> nat list \<Rightarrow> int \<Rightarrow> int \<Rightarrow> (int \<times> int) set" where
  "text_points font [] x y = {}"
| "text_points font (c # s) x y =
     (if c = 10 then text_points font s 0 (y + 16)
      else glyph_points (lookup_font font c) x y \<union> text_points font s (x + 8) y)"

fun cursor_after :: "nat list \<Rightarrow> int \<times> int \<Rightarrow> int \<times> int" where
  "cursor_after [] p = p"
| "cursor_after (c # s) (x, y) = cursor_after s (if c = 10 then (0, y + 16) else (x + 8, y))"

lemma write_str_paints:
  assumes "wf_bitmap (tw_buf w)" "0 \<le> cursor_x w" "0 \<le> cursor_y w"
    and "cursor_x w + 16 * int (length s) < 2 ^ 62" "cursor_y w + 16 * int (length s) < 2 ^ 62"
  shows "\<exists>w'. write_str font w s = Ok w' \<and>
    painted (tw_buf w) (text_points font s (cursor_x w) (cursor_y w) \<inter> {(x, y). visible (tw_buf w) x y})
      0xffffff (tw_buf w') \<and>
    (cursor_x w', cursor_y w') = cursor_after s (cursor_x w, cursor_y w)"
  using assms
proof (induction s arbitrary: w)
  case Nil
  then show ?case by (simp add: write_str_def)
next
  case (Cons c s)
  show ?case
  proof (cases "c = 10")
    case True
    let ?w = "w\<lparr>cursor_y := cursor_y w + 16, cursor_x := 0\<rparr>"
    have "chk_i64 (cursor_y w + 16) = Ok (cursor_y w + 16)"
      using Cons.prems by (intro chk_i64_small) auto
    then have "write_str font w (c # s) = write_str font ?w s"
      using True by (simp add: write_str_def write_char_def del: chk_i64_eq_Ok)
    moreover have "\<exists>w'. write_str font ?w s = Ok w' \<and>
        painted (tw_buf ?w) (text_points font s (cursor_x ?w) (cursor_y ?w) \<inter> {(x, y). visible (tw_buf ?w) x y})
          0xffffff (tw_buf w') \<and> (cursor_x w', cursor_y w') = cursor_after s (cursor_x ?w, cursor_y ?w)"
      using Cons.prems by (intro Cons.IH) auto
    ultimately show ?thesis using True by simp
  next
    case False
    obtain b1 where b1: "draw_font_fg font (tw_buf w) (cursor_x w) (cursor_y w) 0xffffff c = Ok b1"
      "painted (tw_buf w) (glyph_points (lookup_font font c) (cursor_x w) (cursor_y w) \<inter>
         {(x, y). visible (tw_buf w) x y}) 0xffffff b1"
      using draw_font_fg_paints [OF Cons.prems(1), of "cursor_x w" "cursor_y w" font "0xffffff" c] Cons.prems
      by auto
    note sh = painted_shape [OF b1(2)]
    let ?w = "w\<lparr>tw_buf := b1, cursor_x := cursor_x w + 8\<rparr>"
    have "chk_i64 (cursor_x w + 8) = Ok (cursor_x w + 8)"
      using Cons.prems by (intro chk_i64_small) auto
    then have "write_str font w (c # s) = write_str font ?w s"
      using False b1(1) by (simp add: write_str_def write_char_def del: chk_i64_eq_Ok)
    moreover have "\<exists>w'. write_str font ?w s = Ok w' \<and>
        painted (tw_buf ?w) (text_points font s (cursor_x ?w) (cursor_y ?w) \<inter> {(x, y). visible (tw_buf ?w) x y})
          0xffffff (tw_buf w') \<and> (cursor_x w', cursor_y w') = cursor_after s (cursor_x ?w, cursor_y ?w)"
      using Cons.prems sh(1) by (intro Cons.IH) auto
    ultimately show ?thesis
      using False sh(3) painted_trans [OF b1(2)] by (auto simp: Int_Un_distrib2)
  qed
qed

lemma cursor_after_row: "snd (cursor_after s (x, y)) = y + 16 * int (count_list s 10)"
  by (induction s arbitrary: x y) auto

text \<open>
  Writing a text on the screen, from any cursor with room for it below \<open>2 ^ 62\<close>, never fails: it paints
  the asterisks of the glyphs of its characters, eight columns apart and sixteen rows further down
  after each line feed, clips what is outside the screen, changes no other pixel, and moves the
  cursor down by sixteen per line feed.\<close>

theorem text_writer_paints_clipped_text:
  assumes "wf_bitmap (tw_buf w)" "0 \<le> cursor_x w" "0 \<le> cursor_y w"
    and "cursor_x w + 16 * int (length s) < 2 ^ 62" "cursor_y w + 16 * int (length s) < 2 ^ 62"
  shows "\<exists>w'. write_str font w s = Ok w' \<and>
    painted (tw_buf w) (text_points font s (cursor_x w) (cursor_y w) \<inter> {(x, y). visible (tw_buf w) x y})
      0xffffff (tw_buf w') \<and>
    (cursor_x w', cursor_y w') = cursor_after s (cursor_x w, cursor_y w) \<and>
    cursor_y w' = cursor_y w + 16 * int (count_list s 10)"
  using write_str_paints [OF assms] cursor_after_row by (metis snd_conv)

theorem text_writer_paints_clipped_text_witness:
  "\<exists>w'. write_str [] (BitmapTextWriter_new sample_bitmap) [65, 10, 66] = Ok w' \<and>
     cursor_x w' = 8 \<and> cursor_y w' = 16"
proof -
  let ?w = "BitmapTextWriter_new sample_bitmap"
  have "\<exists>w'. write_str [] ?w [65, 10, 66] = Ok w' \<and>
    painted (tw_buf ?w) (text_points [] [65, 10, 66] (cursor_x ?w) (cursor_y ?w) \<inter> {(x, y). visible (tw_buf ?w) x y})
      0xffffff (tw_buf w') \<and>
    (cursor_x w', cursor_y w') = cursor_after [65, 10, 66] (cursor_x ?w, cursor_y ?w) \<and>
    cursor_y w' = cursor_y ?w + 16 * int (count_list [65, 10, 66 :: nat] 10)"
    by (rule text_writer_paints_clipped_text)
       (simp_all add: BitmapTextWriter_new_def wf_sample_bitmap)
  then show ?thesis by (auto simp: BitmapTextWriter_new_def)
qed

end
