(* ===== verification/Xhci_Regs.thy ===== *)
theory Xhci_Regs
  imports Bit_Fields
begin

text \<open>
  The registers and the device contexts of the xHCI driver, \<open>src/xhci.rs\<close>: capability and operational
  registers, the port status registers, doorbells, and the endpoint, slot, input and output contexts
  in memory. A busy loop on a register is a loop with fuel over a parameter that stands for what the
  controller does to its registers between two reads.
\<close>

section \<open>Capability registers\<close>

record CapabilityRegisters =
  caplength :: u8
  version :: u16
  hcsparams1 :: u32
  hcsparams2 :: u32
  hcsparams3 :: u32
  hccparams1 :: u32
  dboff :: u32
  rtsoff :: u32
  hccparams2 :: u32

definition num_of_device_slots :: "CapabilityRegisters \<Rightarrow> nat" where
  "num_of_device_slots self = unat (extract_bits (hcsparams1 self) 0 8)"

definition num_scratchpad_bufs :: "CapabilityRegisters \<Rightarrow> nat" where
  "num_scratchpad_bufs self =
     unat (push_bit 5 (extract_bits (hcsparams2 self) 21 5) OR extract_bits (hcsparams2 self) 27 5)"

definition num_of_ports :: "CapabilityRegisters \<Rightarrow> nat" where
  "num_of_ports self = unat (extract_bits (hcsparams1 self) 24 8)"

section \<open>Operational registers\<close>

record OperationalRegisters =
  usbcmd :: u32
  usbsts :: u32
  pagesize :: u32
  dnctrl :: u32
  crcr :: u64
  dcbaap :: u64
  op_config :: u64

definition STATUS_HC_HALTED :: u32 where "STATUS_HC_HALTED = 1"
definition CMD_RUN_STOP :: u32 where "CMD_RUN_STOP = 1"
definition CMD_HC_RESET :: u32 where "CMD_HC_RESET = 2"

definition count_ones :: "'a::len word \<Rightarrow> nat" where
  "count_ones w = length (filter (bit w) [0..<LENGTH('a)])"

definition trailing_zeros :: "'a::len word \<Rightarrow> nat" where
  "trailing_zeros w = length (takeWhile (\<lambda>i. \<not> bit w i) [0..<LENGTH('a)])"

definition page_size :: "OperationalRegisters \<Rightarrow> nat res" where
  "page_size self =
     (let page_size_bits = pagesize self AND 0xFFFF in
      if count_ones page_size_bits \<noteq> 1 then err ''PAGE_SIZE has multiple bits set''
      else Ok (2 ^ (trailing_zeros page_size_bits + 12)))"

definition set_command_bits :: "u32 \<Rightarrow> OperationalRegisters \<Rightarrow> OperationalRegisters" where
  "set_command_bits bits self = self\<lparr>usbcmd := usbcmd self OR bits\<rparr>"

definition clear_command_bits :: "u32 \<Rightarrow> OperationalRegisters \<Rightarrow> OperationalRegisters" where
  "clear_command_bits bits self = self\<lparr>usbcmd := usbcmd self AND NOT bits\<rparr>"

text \<open>\<open>while c(r) { busy_loop_hint() }\<close>; \<open>hw\<close> is what happens to the state between two reads.\<close>

fun wait_while :: "nat \<Rightarrow> ('r \<Rightarrow> 'r) \<Rightarrow> ('r \<Rightarrow> bool) \<Rightarrow> 'r \<Rightarrow> 'r res" where
  "wait_while 0 hw c r = Inl OutOfFuel"
| "wait_while (Suc n) hw c r = (if c r then wait_while n hw c (hw r) else Ok r)"

definition reset_xhc ::
  "nat \<Rightarrow> (OperationalRegisters \<Rightarrow> OperationalRegisters) \<Rightarrow> OperationalRegisters \<Rightarrow>
   OperationalRegisters res" where
  "reset_xhc fuel hw self =
     rbind (wait_while fuel hw (\<lambda>r. usbsts r AND STATUS_HC_HALTED = 0)
              (clear_command_bits CMD_RUN_STOP self)) (\<lambda>r.
       wait_while fuel hw (\<lambda>r. usbcmd r AND CMD_HC_RESET \<noteq> 0) (set_command_bits CMD_HC_RESET r))"

definition start_xhc ::
  "nat \<Rightarrow> (OperationalRegisters \<Rightarrow> OperationalRegisters) \<Rightarrow> OperationalRegisters \<Rightarrow>
   OperationalRegisters res" where
  "start_xhc fuel hw self =
     wait_while fuel hw (\<lambda>r. usbsts r AND STATUS_HC_HALTED \<noteq> 0) (set_command_bits CMD_RUN_STOP self)"

definition set_cmd_ring_ctrl :: "u64 \<Rightarrow> OperationalRegisters \<Rightarrow> OperationalRegisters" where
  "set_cmd_ring_ctrl ring_phys_addr self = self\<lparr>crcr := ring_phys_addr OR 1\<rparr>"

definition set_dcbaa_ptr :: "u64 \<Rightarrow> OperationalRegisters \<Rightarrow> OperationalRegisters" where
  "set_dcbaa_ptr dcbaa self = self\<lparr>dcbaap := dcbaa\<rparr>"

definition set_num_device_slots :: "nat \<Rightarrow> OperationalRegisters \<Rightarrow> OperationalRegisters" where
  "set_num_device_slots num self =
     self\<lparr>op_config := (op_config self AND NOT 0xFF) OR word_of_nat num\<rparr>"

section \<open>Runtime registers\<close>

record InterrupterRegisterSet =
  management :: u32
  moderation :: u32
  erst_size :: u32
  erst_base :: u64
  irs_erdp :: u64

definition init_irs ::
  "InterrupterRegisterSet list \<Rightarrow> nat \<Rightarrow> u64 \<Rightarrow> u64 \<Rightarrow> InterrupterRegisterSet list res" where
  "init_irs irs index ring_phys_addr erst_phys_addr =
     (if index < length irs
      then Ok (irs[index := (irs ! index)\<lparr>erst_size := 1, irs_erdp := ring_phys_addr,
                                         erst_base := erst_phys_addr, management := 0\<rparr>])
      else err ''Index out of range'')"

section \<open>Ports\<close>

datatype UsbMode = UnknownMode u32 | FullSpeed | LowSpeed | HighSpeed | SuperSpeed

fun psi :: "UsbMode \<Rightarrow> u32" where
  "psi FullSpeed = 1"
| "psi LowSpeed = 2"
| "psi HighSpeed = 3"
| "psi SuperSpeed = 4"
| "psi (UnknownMode p) = p"

text \<open>\<open>PortSc\<close>: the addresses of the port registers, port 1 first.\<close>

definition PortSc_new :: "u64 \<Rightarrow> CapabilityRegisters \<Rightarrow> u64 list" where
  "PortSc_new bar cap =
     (let base = bar + ucast (caplength cap) + 0x400 in
      map (\<lambda>port. base + 4 * (word_of_nat (port - 1) * 4)) [1..<num_of_ports cap + 1])"

definition port_range :: "u64 list \<Rightarrow> nat list" where
  "port_range entries = [1..<length entries + 1]"

definition PortSc_get :: "u64 list \<Rightarrow> usize \<Rightarrow> u64 option" where
  "PortSc_get entries port =
     (let i = unat (port - 1) in if i < length entries then Some (entries ! i) else None)"

text \<open>
  A port register is read and written through the parameters \<open>rd\<close> and \<open>wr\<close>, as the device implements
  them, on the state of the device.
\<close>

definition portsc_bit :: "('d \<Rightarrow> u64 \<Rightarrow> u32) \<Rightarrow> u64 \<Rightarrow> nat \<Rightarrow> 'd \<Rightarrow> bool" where
  "portsc_bit rd p pos d \<longleftrightarrow> rd d p AND push_bit pos 1 \<noteq> 0"

definition PRESERVE_MASK :: u32 where
  "PRESERVE_MASK = 0x4F01FFE9"

definition assert_bit ::
  "('d \<Rightarrow> u64 \<Rightarrow> u32) \<Rightarrow> ('d \<Rightarrow> u64 \<Rightarrow> u32 \<Rightarrow> 'd) \<Rightarrow> u64 \<Rightarrow> nat \<Rightarrow> 'd \<Rightarrow> 'd" where
  "assert_bit rd wr p pos d = wr d p ((rd d p AND PRESERVE_MASK) OR push_bit pos 1)"

definition ccs :: "('d \<Rightarrow> u64 \<Rightarrow> u32) \<Rightarrow> u64 \<Rightarrow> 'd \<Rightarrow> bool" where
  "ccs rd p d = portsc_bit rd p 0 d"

definition ped :: "('d \<Rightarrow> u64 \<Rightarrow> u32) \<Rightarrow> u64 \<Rightarrow> 'd \<Rightarrow> bool" where
  "ped rd p d = portsc_bit rd p 1 d"

definition pr :: "('d \<Rightarrow> u64 \<Rightarrow> u32) \<Rightarrow> u64 \<Rightarrow> 'd \<Rightarrow> bool" where
  "pr rd p d = portsc_bit rd p 4 d"

definition pp :: "('d \<Rightarrow> u64 \<Rightarrow> u32) \<Rightarrow> u64 \<Rightarrow> 'd \<Rightarrow> bool" where
  "pp rd p d = portsc_bit rd p 9 d"

definition is_enabled :: "('d \<Rightarrow> u64 \<Rightarrow> u32) \<Rightarrow> u64 \<Rightarrow> 'd \<Rightarrow> bool" where
  "is_enabled rd p d \<longleftrightarrow> pp rd p d \<and> ccs rd p d \<and> ped rd p d \<and> \<not> pr rd p d"

text \<open>\<open>reset_port\<close>; \<open>env\<close> is what happens to the device while the task yields.\<close>

definition reset_port ::
  "nat \<Rightarrow> ('d \<Rightarrow> u64 \<Rightarrow> u32) \<Rightarrow> ('d \<Rightarrow> u64 \<Rightarrow> u32 \<Rightarrow> 'd) \<Rightarrow> ('d \<Rightarrow> 'd) \<Rightarrow> u64 \<Rightarrow> 'd \<Rightarrow> 'd res" where
  "reset_port fuel rd wr env p d =
     rbind (wait_while fuel env (\<lambda>d. \<not> pp rd p d) (assert_bit rd wr p 9 d)) (\<lambda>d.
       wait_while fuel env (\<lambda>d. pr rd p d) (assert_bit rd wr p 4 d))"

definition port_speed :: "u32 \<Rightarrow> UsbMode" where
  "port_speed portsc =
     (let v = extract_bits portsc 10 4 in
      if v = 1 then FullSpeed else if v = 2 then LowSpeed else if v = 3 then HighSpeed
      else if v = 4 then SuperSpeed else UnknownMode v)"

definition max_packet_size :: "u32 \<Rightarrow> u16 res" where
  "max_packet_size portsc =
     (case port_speed portsc of
        FullSpeed \<Rightarrow> Ok 8 | LowSpeed \<Rightarrow> Ok 8 | HighSpeed \<Rightarrow> Ok 64 | SuperSpeed \<Rightarrow> Ok 512
      | UnknownMode _ \<Rightarrow> err ''Unknown Protocol Speeed ID'')"

section \<open>Doorbells\<close>

definition doorbell_value :: "u8 \<Rightarrow> u16 \<Rightarrow> u32" where
  "doorbell_value target task = ucast target OR push_bit 16 (ucast task)"

section \<open>Contexts\<close>

record EndpointContext =
  ep_data0 :: u32
  ep_data1 :: u32
  tr_dequeue_ptr :: u64
  average_trb_length :: u16
  max_esit_payload_low :: u16

definition EndpointContext_new :: EndpointContext where
  "EndpointContext_new = \<lparr> ep_data0 = 0, ep_data1 = 0, tr_dequeue_ptr = 0, average_trb_length = 0,
     max_esit_payload_low = 0 \<rparr>"

datatype EndpointType =
  IsochOut | BulkOut | InterruptOut | Control | IsochIn | BulkIn | InterruptIn

fun endpoint_type_value :: "EndpointType \<Rightarrow> u32" where
  "endpoint_type_value IsochOut = 1"
| "endpoint_type_value BulkOut = 2"
| "endpoint_type_value InterruptOut = 3"
| "endpoint_type_value Control = 4"
| "endpoint_type_value IsochIn = 5"
| "endpoint_type_value BulkIn = 6"
| "endpoint_type_value InterruptIn = 7"

definition set_ep_type :: "EndpointType \<Rightarrow> EndpointContext \<Rightarrow> EndpointContext res" where
  "set_ep_type ep_type self =
     (let raw_ep_type = endpoint_type_value ep_type in
      if raw_ep_type < 8
      then Ok (self\<lparr>ep_data1 := (ep_data1 self AND NOT (push_bit 3 7)) OR push_bit 3 raw_ep_type\<rparr>)
      else err ''Invalid ep_type'')"

definition set_dequeue_cycle_state :: "bool \<Rightarrow> EndpointContext \<Rightarrow> EndpointContext res" where
  "set_dequeue_cycle_state dcs self =
     rbind (write_bits (tr_dequeue_ptr self) 0 1 (of_bool dcs)) (\<lambda>v. Ok (self\<lparr>tr_dequeue_ptr := v\<rparr>))"

definition set_error_count :: "u32 \<Rightarrow> EndpointContext \<Rightarrow> EndpointContext res" where
  "set_error_count error_count self =
     (if error_count AND NOT 3 = 0
      then Ok (self\<lparr>ep_data1 := (ep_data1 self AND NOT (push_bit 1 3)) OR push_bit 1 error_count\<rparr>)
      else err ''invalid error_count'')"

definition set_max_packet_size :: "u16 \<Rightarrow> EndpointContext \<Rightarrow> EndpointContext" where
  "set_max_packet_size mps self =
     self\<lparr>ep_data1 := (ep_data1 self AND NOT (push_bit 16 0xffff)) OR push_bit 16 (ucast mps)\<rparr>"

definition set_ring_dequeue_pointer :: "u64 \<Rightarrow> EndpointContext \<Rightarrow> EndpointContext res" where
  "set_ring_dequeue_pointer ptr self =
     rbind (write_bits (tr_dequeue_ptr self) 4 60 (drop_bit 4 ptr)) (\<lambda>v. Ok (self\<lparr>tr_dequeue_ptr := v\<rparr>))"

definition new_control_endpoint :: "u16 \<Rightarrow> u64 \<Rightarrow> EndpointContext res" where
  "new_control_endpoint mps ptr =
     rbind (set_ep_type Control EndpointContext_new) (\<lambda>ep.
     rbind (set_dequeue_cycle_state True ep) (\<lambda>ep.
     rbind (set_error_count 3 ep) (\<lambda>ep.
     rbind (set_ring_dequeue_pointer ptr (set_max_packet_size mps ep)) (\<lambda>ep.
       Ok (ep\<lparr>average_trb_length := 8\<rparr>)))))"

record DeviceContext =
  slot_ctx :: "u32 list"
  ep_ctx :: "EndpointContext list"

definition DeviceContext_default :: DeviceContext where
  "DeviceContext_default = \<lparr> slot_ctx = replicate 8 0, ep_ctx = replicate 31 EndpointContext_new \<rparr>"

definition set_port_speed :: "UsbMode \<Rightarrow> DeviceContext \<Rightarrow> DeviceContext res" where
  "set_port_speed mode self =
     (if psi mode < 16
      then Ok (self\<lparr>slot_ctx := (slot_ctx self)[0 := (slot_ctx self ! 0 AND NOT (push_bit 20 0xF)) OR push_bit 20 (psi mode)]\<rparr>)
      else err ''psi out of range'')"

definition set_last_valid_dci :: "nat \<Rightarrow> DeviceContext \<Rightarrow> DeviceContext res" where
  "set_last_valid_dci dci self =
     (if dci \<le> 31
      then Ok (self\<lparr>slot_ctx := (slot_ctx self)[0 := (slot_ctx self ! 0 AND NOT (push_bit 27 0x1F)) OR push_bit 27 (word_of_nat dci)]\<rparr>)
      else err ''num_ep_ctx out of range'')"

definition set_root_hub_port_number :: "nat \<Rightarrow> DeviceContext \<Rightarrow> DeviceContext res" where
  "set_root_hub_port_number port self =
     (if 0 < port \<and> port < 256
      then Ok (self\<lparr>slot_ctx := (slot_ctx self)[1 := (slot_ctx self ! 1 AND NOT (push_bit 16 0xFF)) OR push_bit 16 (word_of_nat port)]\<rparr>)
      else err ''port out of range'')"

record InputControlContext =
  drop_context_bitmap :: u32
  add_context_bitmap :: u32

definition InputControlContext_default :: InputControlContext where
  "InputControlContext_default = \<lparr> drop_context_bitmap = 0, add_context_bitmap = 0 \<rparr>"

definition add_context :: "nat \<Rightarrow> InputControlContext \<Rightarrow> InputControlContext res" where
  "add_context ici self =
     (if ici < 32 then Ok (self\<lparr>add_context_bitmap := add_context_bitmap self OR push_bit ici 1\<rparr>)
      else err ''Input context index out of range'')"

record InputContext =
  input_ctrl_ctx :: InputControlContext
  device_ctx :: DeviceContext

definition InputContext_default :: InputContext where
  "InputContext_default = \<lparr> input_ctrl_ctx = InputControlContext_default, device_ctx = DeviceContext_default \<rparr>"

text \<open>The three setters that \<open>InputContext\<close> passes on to its device context.\<close>

definition on_device_ctx ::
  "(DeviceContext \<Rightarrow> DeviceContext res) \<Rightarrow> InputContext \<Rightarrow> InputContext res" where
  "on_device_ctx f self = rbind (f (device_ctx self)) (\<lambda>d. Ok (self\<lparr>device_ctx := d\<rparr>))"

definition set_ep_ctx :: "nat \<Rightarrow> EndpointContext \<Rightarrow> InputContext \<Rightarrow> InputContext res" where
  "set_ep_ctx dci ep self =
     (if dci = 0 then panic ''attempt to subtract with overflow''
      else if length (ep_ctx (device_ctx self)) \<le> dci - 1 then panic ''index out of bounds''
      else Ok (self\<lparr>device_ctx := (device_ctx self)\<lparr>ep_ctx := (ep_ctx (device_ctx self))[dci - 1 := ep]\<rparr>\<rparr>))"

text \<open>The array of output contexts: the addresses that the controller reads, and which of them are owned.\<close>

record DeviceContextBaseAddressArray =
  scratchpad_table_ptr :: u64
  dcbaa_context :: "u64 list"
  owned_context :: "u64 option list"

definition DeviceContextBaseAddressArray_new :: "u64 \<Rightarrow> DeviceContextBaseAddressArray" where
  "DeviceContextBaseAddressArray_new table =
     \<lparr> scratchpad_table_ptr = table, dcbaa_context = replicate 255 0, owned_context = replicate 255 None \<rparr>"

definition set_output_context ::
  "u8 \<Rightarrow> u64 \<Rightarrow> DeviceContextBaseAddressArray \<Rightarrow> DeviceContextBaseAddressArray res" where
  "set_output_context slot addr self =
     (if slot = 0 then panic ''attempt to subtract with overflow'' else
      let ctx_idx = unat slot - 1 in
      if length (owned_context self) \<le> ctx_idx then panic ''index out of bounds''
      else Ok (self\<lparr>owned_context := (owned_context self)[ctx_idx := Some addr],
                   dcbaa_context := (dcbaa_context self)[ctx_idx := addr]\<rparr>))"

section \<open>Waiting on a register\<close>

lemma wait_while_Ok:
  assumes "\<not> c ((hw ^^ k) r)" "\<forall>j < k. c ((hw ^^ j) r)" "k < n"
  shows "wait_while n hw c r = Ok ((hw ^^ k) r)"
  using assms
proof (induction k arbitrary: n r)
  case 0
  then show ?case by (cases n) auto
next
  case (Suc k)
  obtain m where n: "n = Suc m" using Suc.prems(3) by (cases n) auto
  have "c r" using Suc.prems(2) by (metis funpow_0 zero_less_Suc)
  moreover have "wait_while m hw c (hw r) = Ok ((hw ^^ k) (hw r))"
  proof (rule Suc.IH)
    show "\<forall>j < k. c ((hw ^^ j) (hw r))" using Suc.prems(2) by (metis Suc_less_eq funpow_Suc_right o_apply)
  qed (use Suc.prems n in \<open>auto simp: funpow_swap1\<close>)
  ultimately show ?case by (simp add: n funpow_swap1)
qed

lemma wait_while_ends:
  assumes "\<exists>k < n. \<not> c ((hw ^^ k) r)"
  shows "\<exists>k < n. wait_while n hw c r = Ok ((hw ^^ k) r) \<and> \<not> c ((hw ^^ k) r)"
proof -
  from assms have "\<exists>k. k < n \<and> \<not> c ((hw ^^ k) r)" by blast
  from this [unfolded exists_least_iff [of "\<lambda>k. k < n \<and> \<not> c ((hw ^^ k) r)"]] obtain k where
    k: "k < n" "\<not> c ((hw ^^ k) r)" "\<forall>j < k. c ((hw ^^ j) r)" by (meson less_trans)
  from wait_while_Ok [OF k(2,3,1)] k show ?thesis by blast
qed

section \<open>Port registers\<close>

lemma num_of_ports_lt: "num_of_ports cap < 256"
proof -
  have "extract_bits (hcsparams1 cap) 24 8 = take_bit 8 (drop_bit 24 (hcsparams1 cap))"
    by (simp add: extract_bits_eq)
  then have "unat (extract_bits (hcsparams1 cap) 24 8) < 2 ^ 8" by (simp only: unat_take_bit) simp
  then show ?thesis by (simp add: num_of_ports_def)
qed

lemma PortSc_new_nth:
  "length (PortSc_new bar cap) = num_of_ports cap"
  "i < num_of_ports cap \<Longrightarrow>
   PortSc_new bar cap ! i = bar + ucast (caplength cap) + 0x400 + 0x10 * word_of_nat i"
  by (simp_all add: PortSc_new_def Let_def del: upt_Suc)

lemma PortSc_get_iff:
  "PortSc_get (PortSc_new bar cap) (word_of_nat port) =
     (if 1 \<le> port \<and> port \<le> num_of_ports cap
      then Some (bar + ucast (caplength cap) + 0x400 + 0x10 * word_of_nat (port - 1)) else None)"
  if "port < 2 ^ 64"
proof (cases "port = 0")
  case True
  have "unat (- 1 :: usize) = 2 ^ 64 - 1" by (simp add: unsigned_minus_1_eq_mask mask_eq_exp_minus_1)
  then show ?thesis using True num_of_ports_lt [of cap]
    by (simp add: PortSc_get_def PortSc_new_nth)
next
  case False
  have "(word_of_nat port :: usize) - 1 = word_of_nat (port - 1)" using False by simp
  then have "unat (word_of_nat port - 1 :: usize) = port - 1"
    using that by (simp only:) (simp add: unsigned_of_nat take_bit_nat_eq_self)
  then show ?thesis using False
    by (auto simp: PortSc_get_def Let_def PortSc_new_nth)
qed

text \<open>
  The bits of a port register that a one clears (port enabled, and the change bits), as the xHCI
  specification gives them, and a device that implements them.
\<close>

definition rw1c_bits :: "nat set" where
  "rw1c_bits = {1} \<union> {17..23}"

definition rw1c_port :: "('d \<Rightarrow> u64 \<Rightarrow> u32) \<Rightarrow> ('d \<Rightarrow> u64 \<Rightarrow> u32 \<Rightarrow> 'd) \<Rightarrow> u64 \<Rightarrow> bool" where
  "rw1c_port rd wr p \<longleftrightarrow>
     (\<forall>d v k. k \<in> rw1c_bits \<longrightarrow> bit (rd (wr d p v) p) k = (bit (rd d p) k \<and> \<not> bit v k))"

lemma PRESERVE_MASK_bit:
  "bit PRESERVE_MASK k \<longleftrightarrow> k < 32 \<and> k \<notin> {1, 2, 4} \<union> {17..23} \<union> {28, 29, 31}"
proof -
  have m: "PRESERVE_MASK = mask 32 AND NOT (2 ^ 1 OR 2 ^ 2 OR 2 ^ 4 OR push_bit 17 (mask 7) OR 2 ^ 28 OR 2 ^ 29 OR 2 ^ 31)"
    by (simp add: PRESERVE_MASK_def mask_eq_exp_minus_1 push_bit_eq_mult)
  show ?thesis unfolding m
    by (cases "k < 32") (auto simp: bit_simps simp del: power_numeral dest: bit_imp_le_length)
qed

lemma assert_bit_keeps:
  assumes "rw1c_port rd wr p" "k \<in> rw1c_bits" "pos \<notin> rw1c_bits"
  shows "bit (rd (assert_bit rd wr p pos d) p) k = bit (rd d p) k"
proof -
  have "\<not> bit ((rd d p AND PRESERVE_MASK) OR push_bit pos 1) k"
    using assms(2,3) by (auto simp: bit_simps PRESERVE_MASK_bit rw1c_bits_def)
  then show ?thesis using assms(1,2) by (simp add: rw1c_port_def assert_bit_def)
qed

text \<open>
  C24: \<open>reset_port\<close> on a port whose power comes up and whose reset ends while the task yields, each within
  the given number of polls, returns with the reset bit clear. Neither of its two writes clears the
  enabled bit or a change bit of the port.\<close>

theorem reset_port_returns:
  assumes "rw1c_port rd wr p"
    and "\<exists>k < fuel. pp rd p ((env ^^ k) (assert_bit rd wr p 9 d))"
    and "\<And>d'. \<exists>k < fuel. \<not> pr rd p ((env ^^ k) (assert_bit rd wr p 4 d'))"
  shows "(\<exists>d'. reset_port fuel rd wr env p d = Ok d' \<and> \<not> pr rd p d') \<and>
    (\<forall>d k. k \<in> rw1c_bits \<longrightarrow> bit (rd (assert_bit rd wr p 9 d) p) k = bit (rd d p) k \<and>
       bit (rd (assert_bit rd wr p 4 d) p) k = bit (rd d p) k)"
proof -
  obtain k where "wait_while fuel env (\<lambda>d. \<not> pp rd p d) (assert_bit rd wr p 9 d) =
      Ok ((env ^^ k) (assert_bit rd wr p 9 d))"
    using wait_while_ends [of fuel "\<lambda>d. \<not> pp rd p d" env "assert_bit rd wr p 9 d"] assms(2) by auto
  moreover obtain j where "wait_while fuel env (pr rd p) (assert_bit rd wr p 4 ((env ^^ k) (assert_bit rd wr p 9 d))) =
      Ok ((env ^^ j) (assert_bit rd wr p 4 ((env ^^ k) (assert_bit rd wr p 9 d))))"
    "\<not> pr rd p ((env ^^ j) (assert_bit rd wr p 4 ((env ^^ k) (assert_bit rd wr p 9 d))))"
    using wait_while_ends [OF assms(3)] by blast
  moreover have "(9 :: nat) \<notin> rw1c_bits" "(4 :: nat) \<notin> rw1c_bits" by (auto simp: rw1c_bits_def)
  ultimately show ?thesis
    using assert_bit_keeps [OF assms(1)] by (simp add: reset_port_def)
qed

text \<open>A port that is its register: a one clears the change bits, and a reset takes one step.\<close>

definition RW1C_MASK :: u32 where
  "RW1C_MASK = 2 ^ 1 OR push_bit 17 (mask 7)"

definition plain_port_wr :: "u32 \<Rightarrow> u64 \<Rightarrow> u32 \<Rightarrow> u32" where
  "plain_port_wr d _ v = (d AND NOT v AND RW1C_MASK) OR (v AND NOT RW1C_MASK)"

lemma RW1C_MASK_bit: "bit RW1C_MASK k \<longleftrightarrow> k \<in> rw1c_bits"
  by (cases "k < 32")
     (auto simp: RW1C_MASK_def rw1c_bits_def bit_simps simp del: power_numeral power_one_right
       dest: bit_imp_le_length)

theorem reset_port_returns_witness:
  "\<exists>d'. reset_port 2 (\<lambda>d _. d) plain_port_wr (\<lambda>d. d AND NOT (2 ^ 4)) 0 0x20001 = Ok d' \<and>
     \<not> pr (\<lambda>d _. d) 0 d'"
proof -
  have pp: "pp (\<lambda>d _. d) 0 d \<longleftrightarrow> bit d 9" "pr (\<lambda>d _. d) 0 d \<longleftrightarrow> bit d 4" for d :: u32
    by (simp_all add: pp_def pr_def portsc_bit_def push_bit_eq_mult and_exp_eq_0_iff_not_bit
        del: power_numeral)
  have b9: "bit (assert_bit (\<lambda>d _. d) plain_port_wr 0 9 d) 9" for d
    by (auto simp: assert_bit_def plain_port_wr_def bit_simps RW1C_MASK_bit rw1c_bits_def)
  have "rw1c_port (\<lambda>d _. d) plain_port_wr 0"
    by (auto simp: rw1c_port_def plain_port_wr_def bit_simps RW1C_MASK_bit dest: bit_imp_le_length)
  moreover have "\<exists>k < 2. pp (\<lambda>d _. d) 0 (((\<lambda>d. d AND NOT (2 ^ 4)) ^^ k) (assert_bit (\<lambda>d _. d) plain_port_wr 0 9 0x20001))"
    using b9 by (intro exI [of _ 0]) (simp add: pp)
  moreover have "\<exists>k < 2. \<not> pr (\<lambda>d _. d) 0 (((\<lambda>d. d AND NOT (2 ^ 4)) ^^ k) (assert_bit (\<lambda>d _. d) plain_port_wr 0 4 d'))" for d'
    by (intro exI [of _ 1]) (simp add: pp bit_simps del: power_numeral)
  ultimately show ?thesis
    using reset_port_returns [of "\<lambda>d _. d" plain_port_wr 0 2 "\<lambda>d. d AND NOT (2 ^ 4)" "0x20001"] by blast
qed

text \<open>
  The register of port \<open>n\<close> is at the address that the specification of the controller gives it,
  \<open>0x400 + 0x10 * (n - 1)\<close> after the operational registers, for exactly the ports 1 to \<open>MaxPorts\<close>; every other
  number, 0 included, has no register.\<close>

theorem port_register_address:
  assumes "port < 2 ^ 64"
  shows "PortSc_get (PortSc_new bar cap) (word_of_nat port) =
     (if 1 \<le> port \<and> port \<le> num_of_ports cap
      then Some (bar + ucast (caplength cap) + 0x400 + 0x10 * word_of_nat (port - 1)) else None)"
  using assms by (rule PortSc_get_iff)

definition sample_cap :: CapabilityRegisters where
  "sample_cap = \<lparr> caplength = 0x40, version = 0x100, hcsparams1 = 0x08001040, hcsparams2 = 0xF,
     hcsparams3 = 0, hccparams1 = 0x87001, dboff = 0x2000, rtsoff = 0x1000, hccparams2 = 0 \<rparr>"

theorem port_register_address_witness:
  "PortSc_get (PortSc_new 0xC0000000 sample_cap) 5 = Some 0xC0000480 \<and>
   PortSc_get (PortSc_new 0xC0000000 sample_cap) 0 = None"
proof -
  have "num_of_ports sample_cap = 8"
    by (simp add: num_of_ports_def sample_cap_def extract_bits_def)
  then show ?thesis
    using port_register_address [of 5 "0xC0000000" sample_cap] port_register_address [of 0 "0xC0000000" sample_cap]
    by (simp add: sample_cap_def)
qed

end
