(* ===== verification/Boot_Paging.thy ===== *)
theory Boot_Paging
  imports Paging_Refine Pci_Config
begin

text \<open>
  The page tables in use: \<open>init_paging\<close> of \<open>src/init.rs\<close>, the current page table and
  \<open>disable_cache\<close> of \<open>src/x86.rs\<close>, \<open>BarMem64::disable_cache\<close> of \<open>src/pci.rs\<close> and \<open>IoBox::new\<close> of
  \<open>src/mmio.rs\<close>. The register CR3 is part of the state; what a virtual address means is the
  processor's walk from it.
\<close>

section \<open>The current page table\<close>

record Mmu =
  cr3 :: u64
  machine :: Machine

definition read_cr3 :: "Mmu \<Rightarrow> u64" where
  "read_cr3 s = cr3 s"

definition write_cr3 :: "u64 \<Rightarrow> Mmu \<Rightarrow> Mmu" where
  "write_cr3 table s = s\<lparr>cr3 := table\<rparr>"

definition flush_tlb :: "Mmu \<Rightarrow> Mmu" where
  "flush_tlb s = write_cr3 (read_cr3 s) s"

definition take_current_page_table :: "Mmu \<Rightarrow> u64" where
  "take_current_page_table s = read_cr3 s"

definition put_current_page_table :: "u64 \<Rightarrow> Mmu \<Rightarrow> Mmu" where
  "put_current_page_table table s = write_cr3 table s"

definition with_current_page_table :: "(Machine \<Rightarrow> u64 \<Rightarrow> Machine res) \<Rightarrow> Mmu \<Rightarrow> Mmu res" where
  "with_current_page_table callback s =
     (let table = take_current_page_table s in
      rbind (callback (machine s) table) (\<lambda>m. Ok (put_current_page_table table (s\<lparr>machine := m\<rparr>))))"

text \<open>\<open>disable_cache\<close> on a region of \<open>sz\<close> bytes at \<open>vstart\<close>.\<close>

definition disable_cache :: "u64 \<Rightarrow> u64 \<Rightarrow> Mmu \<Rightarrow> Mmu res" where
  "disable_cache vstart sz s =
     rbind (uadd vstart sz) (\<lambda>vend.
       with_current_page_table (\<lambda>m pt.
         expect (create_mapping m pt \<lparr> virt_start = vstart, virt_end = vend, phys = vstart, attr = ReadWriteIo \<rparr>)
           ''Failed to create mapping'') s)"

definition BarMem64_disable_cache :: "BarMem64 \<Rightarrow> Mmu \<Rightarrow> Mmu res" where
  "BarMem64_disable_cache self s =
     (let vstart = bar_addr self in
      rbind (uadd (bar_addr self) (bar_size self)) (\<lambda>vend.
        with_current_page_table (\<lambda>m pt.
          expect (create_mapping m pt \<lparr> virt_start = vstart, virt_end = vend, phys = vstart, attr = ReadWriteIo \<rparr>)
            ''Failed to create mapping'') s))"

text \<open>\<open>IoBox::new\<close> for a type of \<open>sz\<close> bytes, at most a page: all that the repository uses.\<close>

definition IoBox_new :: "u64 \<Rightarrow> Mmu \<Rightarrow> (u64 \<times> Mmu) res" where
  "IoBox_new sz s =
     rbind (box_zeroed_page (machine s)) (\<lambda>(p, m).
     rbind (disable_cache p sz (s\<lparr>machine := m\<rparr>)) (\<lambda>s. Ok (p, s)))"

section \<open>init_paging\<close>

fun end_of_mem :: "u64 \<Rightarrow> EfiMemoryDescriptor list \<Rightarrow> u64 res" where
  "end_of_mem e [] = Ok e"
| "end_of_mem e (d # ds) =
     (if memory_type d \<in> {CONVENTIONAL_MEMORY, LOADER_CODE, LOADER_DATA} then
        rbind (umul (number_of_pages d) PAGE_SIZE) (\<lambda>n.
        rbind (uadd (physical_start d) n) (\<lambda>x. end_of_mem (max e x) ds))
      else end_of_mem e ds)"

definition init_paging :: "MemoryMapHolder \<Rightarrow> Mmu \<Rightarrow> Mmu res" where
  "init_paging memory_map s =
     rbind (PML4_new (machine s)) (\<lambda>(table, m).
     rbind (rbind (memory_map_entries memory_map) (end_of_mem 0x100000000)) (\<lambda>e.
     rbind (expect (create_mapping m table \<lparr> virt_start = 0, virt_end = e, phys = 0, attr = ReadWriteKernel \<rparr>)
              ''Failed to create initial page mapping'') (\<lambda>m.
     rbind (expect (create_mapping m table \<lparr> virt_start = 0, virt_end = 4096, phys = 0, attr = NotPresent \<rparr>)
              ''Failed to unmap page 0'') (\<lambda>m.
       Ok (write_cr3 table (s\<lparr>machine := m\<rparr>))))))"

section \<open>What the processor sees\<close>

text \<open>The walk from CR3: the entry of a page, and the physical address of a virtual one.\<close>

definition page_entry :: "Mmu \<Rightarrow> nat \<Rightarrow> u64" where
  "page_entry s q = leaf_entry (mem (machine s)) (cr3 s) q"

definition translate :: "Mmu \<Rightarrow> u64 \<Rightarrow> u64 option" where
  "translate s v =
     (let e = page_entry s (page_of v)
      in if is_present e then Some ((e AND NOT ATTR_MASK) + (v AND ATTR_MASK)) else None)"

definition cache_disabled :: "Mmu \<Rightarrow> u64 \<Rightarrow> bool" where
  "cache_disabled s v \<longleftrightarrow> page_entry s (page_of v) AND ATTR_CACHE_DISABLE \<noteq> 0"

definition writable_page :: "Mmu \<Rightarrow> u64 \<Rightarrow> bool" where
  "writable_page s v \<longleftrightarrow> is_writable (page_entry s (page_of v))"

section \<open>Identity entries\<close>

lemma page_base: "4096 * word_of_nat (page_of v) = v AND NOT ATTR_MASK"
proof -
  have "word_of_nat (page_of v) = drop_bit 12 v"
  proof -
    have "unat v < 2 ^ 64" using unsigned_less [of v] by simp
    then show ?thesis by (simp add: word_unat_eq_iff unat_drop_bit page_of_def unat_of_nat)
  qed
  then have "4096 * word_of_nat (page_of v) = push_bit 12 (drop_bit 12 v)"
    by (simp add: push_bit_eq_mult mult.commute)
  also have "\<dots> = v AND NOT ATTR_MASK"
    unfolding mask_eq by (rule bit_word_eqI) (auto simp: bit_simps)
  finally show ?thesis .
qed

lemma attr_low: "page_attr_value a AND NOT ATTR_MASK = 0"
  by (cases a) (simp_all add: ATTR_PRESENT_def ATTR_WRITABLE_def ATTR_WRITE_THROUGH_def
      ATTR_CACHE_DISABLE_def ATTR_MASK_def push_bit_eq_mult)

lemma mask_split: "(v AND NOT ATTR_MASK) + (v AND ATTR_MASK) = (v :: u64)"
proof -
  have "(v AND NOT ATTR_MASK) + (v AND ATTR_MASK) = (v AND NOT ATTR_MASK) OR (v AND ATTR_MASK)"
    by (rule disjunctive_add_eq_or) (auto simp: bit_eq_iff bit_simps)
  then show ?thesis by (auto simp: bit_eq_iff bit_simps)
qed

text \<open>An entry that maps a page to itself: its address and its attribute.\<close>

lemma identity_entry:
  assumes "e = (v AND NOT ATTR_MASK) OR page_attr_value a"
  shows "e AND NOT ATTR_MASK = v AND NOT ATTR_MASK"
    "is_present e \<longleftrightarrow> a \<noteq> NotPresent" "is_writable e \<longleftrightarrow> a \<noteq> NotPresent"
    "e AND ATTR_CACHE_DISABLE \<noteq> 0 \<longleftrightarrow> a = ReadWriteIo"
proof -
  show "e AND NOT ATTR_MASK = v AND NOT ATTR_MASK"
    using attr_low [of a] unfolding assms by (simp add: bit.conj_disj_distrib2)
  have low: "e AND (push_bit k 1) = page_attr_value a AND push_bit k 1" if "k < 12" for k
    unfolding assms mask_eq using that by (intro bit_word_eqI) (auto simp: bit_simps)
  show "is_present e \<longleftrightarrow> a \<noteq> NotPresent" "is_writable e \<longleftrightarrow> a \<noteq> NotPresent"
    "e AND ATTR_CACHE_DISABLE \<noteq> 0 \<longleftrightarrow> a = ReadWriteIo"
    using low [of 0] low [of 1] low [of 4] unfolding is_present_def is_writable_def
    by (cases a; simp add: ATTR_PRESENT_def ATTR_WRITABLE_def ATTR_WRITE_THROUGH_def
        ATTR_CACHE_DISABLE_def push_bit_eq_mult)+
qed

lemma identity_mapped_entry:
  assumes "phys r = virt_start r" "4096 dvd unat (virt_start r)" "page_of (virt_start r) \<le> page_of v"
  shows "mapped_entry r (page_of v) = (v AND NOT ATTR_MASK) OR page_attr_value (attr r)"
proof -
  have "virt_start r = 4096 * word_of_nat (page_of (virt_start r))"
    using assms(2) aligned_low_bits [OF assms(2)] unfolding page_base mask_eq
    by (intro bit_word_eqI) (auto simp: bit_simps)
  moreover obtain d where "page_of v = page_of (virt_start r) + d" using assms(3) le_Suc_ex by blast
  ultimately have "virt_start r + 4096 * word_of_nat (page_of v - page_of (virt_start r)) =
      4096 * word_of_nat (page_of v)"
    by (simp add: algebra_simps)
  then show ?thesis unfolding mapped_entry_def assms(1) page_base by simp
qed

lemma page_of_bound: "unat v < 2 ^ 48 \<Longrightarrow> page_of v < 512 ^ 4"
  by (simp add: page_of_def less_mult_imp_div_less)

text \<open>An identity mapping of pages \<open>[p, p + n)\<close> with an attribute, everything else as before.\<close>

definition remapped :: "Mmu \<Rightarrow> Mmu \<Rightarrow> nat \<Rightarrow> nat \<Rightarrow> PageAttr \<Rightarrow> bool" where
  "remapped s s' p n a \<longleftrightarrow> wf_tables (machine s') (cr3 s') \<and>
     used_bytes (heap (machine s)) \<subseteq> used_bytes (heap (machine s')) \<and> (\<forall>v. unat v < 2 ^ 48 \<longrightarrow>
     (if p \<le> page_of v \<and> page_of v < p + n
      then page_entry s' (page_of v) = (v AND NOT ATTR_MASK) OR page_attr_value a
      else page_entry s' (page_of v) = page_entry s (page_of v)))"

lemma remapped_translate:
  assumes "remapped s s' p n a" "unat v < 2 ^ 48"
  shows "p \<le> page_of v \<and> page_of v < p + n \<Longrightarrow> translate s' v = (if a = NotPresent then None else Some v)"
    "p \<le> page_of v \<and> page_of v < p + n \<Longrightarrow> cache_disabled s' v \<longleftrightarrow> a = ReadWriteIo"
    "p \<le> page_of v \<and> page_of v < p + n \<Longrightarrow> writable_page s' v \<longleftrightarrow> a \<noteq> NotPresent"
    "\<not> (p \<le> page_of v \<and> page_of v < p + n) \<Longrightarrow> translate s' v = translate s v"
    "\<not> (p \<le> page_of v \<and> page_of v < p + n) \<Longrightarrow> cache_disabled s' v = cache_disabled s v"
    "\<not> (p \<le> page_of v \<and> page_of v < p + n) \<Longrightarrow> writable_page s' v = writable_page s v"
  using assms identity_entry [of "page_entry s' (page_of v)" v a]
  by (auto simp: remapped_def translate_def cache_disabled_def writable_page_def Let_def mask_split)

lemma create_identity_mapping:
  assumes "wf_tables (machine s) (cr3 s)" "valid_mapping r" "phys r = virt_start r" "4096 dvd unat (virt_start r)"
  shows "create_mapping (machine s) (cr3 s) r = panic ''memory allocation failed'' \<or>
    (\<exists>m'. create_mapping (machine s) (cr3 s) r = Ok m' \<and>
       remapped s (s\<lparr>machine := m'\<rparr>) (page_of (virt_start r))
         (max 1 ((unat (virt_end r) - unat (virt_start r) + 4095) div 4096)) (attr r))"
proof -
  have "page_entry (s\<lparr>machine := m'\<rparr>) (page_of v) =
      (if page_of (virt_start r) \<le> page_of v \<and> page_of v < page_of (virt_start r) +
          max 1 ((unat (virt_end r) - unat (virt_start r) + 4095) div 4096)
       then (v AND NOT ATTR_MASK) OR page_attr_value (attr r) else page_entry s (page_of v))"
    if "\<forall>q < 512 ^ 4. leaf_entry (mem m') (cr3 s) q =
          (if page_of (virt_start r) \<le> q \<and> q < page_of (virt_start r) +
                max 1 ((unat (virt_end r) - unat (virt_start r) + 4095) div 4096)
           then mapped_entry r q else leaf_entry (mem (machine s)) (cr3 s) q)" "unat v < 2 ^ 48" for m' v
    using that(1) page_of_bound [OF that(2)] identity_mapped_entry [OF assms(3,4), of v]
    by (simp add: page_entry_def)
  then show ?thesis
    using create_mapping_leaves [OF assms(1,2)] unfolding remapped_def by (auto 0 4)
qed

text \<open>
  \<open>disable_cache\<close> of a page-aligned region in the lower half leaves CR3 and the well-formedness of
  the tables as they are and maps exactly the pages of the region (one at least) to themselves,
  writable and with caching off, while every other address is translated and cached as before. A
  region that is not page-aligned, or that wraps around, ends in a panic, and so does a table that
  cannot be allocated; no other outcome is possible.
\<close>

theorem disable_cache_exact:
  assumes "wf_tables (machine s) (cr3 s)" and "unat vstart < 2 ^ 48" and "unat vstart + unat sz \<le> 2 ^ 48"
  shows "if 4096 dvd unat vstart then
     disable_cache vstart sz s = panic ''memory allocation failed'' \<or>
     (\<exists>s'. disable_cache vstart sz s = Ok s' \<and> cr3 s' = cr3 s \<and> wf_tables (machine s') (cr3 s') \<and>
        (\<forall>v. unat v < 2 ^ 48 \<longrightarrow>
           (if page_of vstart \<le> page_of v \<and> page_of v < page_of vstart + max 1 ((unat sz + 4095) div 4096)
            then translate s' v = Some v \<and> cache_disabled s' v \<and> writable_page s' v
            else translate s' v = translate s v \<and> cache_disabled s' v = cache_disabled s v)))
   else disable_cache vstart sz s = panic ''Failed to create mapping'' \<or>
     disable_cache vstart sz s = panic ''memory allocation failed''"
proof -
  let ?r = "\<lparr> virt_start = vstart, virt_end = vstart + sz, phys = vstart, attr = ReadWriteIo \<rparr>"
  have "unat vstart + unat sz < 2 ^ 64" using assms(3) by simp
  then have e: "uadd vstart sz = Ok (vstart + sz)" "unat (vstart + sz) = unat vstart + unat sz"
    by (simp_all add: uadd_def unat_add_nowrap)
  have d: "disable_cache vstart sz s =
      rbind (expect (create_mapping (machine s) (cr3 s) ?r) ''Failed to create mapping'')
        (\<lambda>m. Ok (s\<lparr>machine := m\<rparr>))"
    by (simp add: disable_cache_def e with_current_page_table_def take_current_page_table_def read_cr3_def
        put_current_page_table_def write_cr3_def)
  show ?thesis
  proof (cases "4096 dvd unat vstart")
    case True
    then have v: "valid_mapping ?r" using assms e(2) by (simp add: valid_mapping_def)
    from create_identity_mapping [OF assms(1) v] True e(2) consider
      "create_mapping (machine s) (cr3 s) ?r = panic ''memory allocation failed''"
      | m' where "create_mapping (machine s) (cr3 s) ?r = Ok m'"
        "remapped s (s\<lparr>machine := m'\<rparr>) (page_of vstart) (max 1 ((unat sz + 4095) div 4096)) ReadWriteIo"
      by auto
    then show ?thesis
    proof cases
      case 1
      with True d show ?thesis by simp
    next
      case 2
      moreover have "wf_tables m' (cr3 s)" using 2(2) by (simp add: remapped_def)
      ultimately show ?thesis
        using True remapped_translate [OF 2(2)] unfolding d by (auto simp del: max.bounded_iff)
    qed
  next
    case False
    with create_mapping_unaligned [OF assms(1), of ?r] assms(2) d show ?thesis by auto
  qed
qed

section \<open>The tables at boot\<close>

definition is_ram :: "EfiMemoryDescriptor \<Rightarrow> bool" where
  "is_ram d \<longleftrightarrow> memory_type d \<in> {CONVENTIONAL_MEMORY, LOADER_CODE, LOADER_DATA}"

definition region_end :: "EfiMemoryDescriptor \<Rightarrow> nat" where
  "region_end d = unat (physical_start d) + unat (number_of_pages d) * 4096"

text \<open>4 GiB, or the end of the last region of RAM above it.\<close>

definition mapped_end :: "EfiMemoryDescriptor list \<Rightarrow> nat" where
  "mapped_end es = Max (insert (2 ^ 32) (region_end ` {d \<in> set es. is_ram d}))"

lemma end_of_mem_eq:
  fixes e :: u64
  assumes "\<forall>d \<in> set es. is_ram d \<longrightarrow> region_end d < 2 ^ 64"
  shows "\<exists>x. end_of_mem e es = Ok x \<and> unat x = Max (insert (unat e) (region_end ` {d \<in> set es. is_ram d}))"
  using assms
proof (induction es arbitrary: e)
  case Nil
  then show ?case by simp
next
  case (Cons d es)
  show ?case
  proof (cases "is_ram d")
    case True
    with Cons.prems have b: "unat (physical_start d) + unat (number_of_pages d) * 4096 < 2 ^ 64"
      by (simp add: region_end_def)
    then have n: "umul (number_of_pages d) PAGE_SIZE = Ok (number_of_pages d * PAGE_SIZE)"
      "unat (number_of_pages d * PAGE_SIZE) = unat (number_of_pages d) * 4096"
      by (auto simp: umul_def PAGE_SIZE_def unat_word_ariths)
    have x: "uadd (physical_start d) (number_of_pages d * PAGE_SIZE) =
        Ok (physical_start d + number_of_pages d * PAGE_SIZE)"
      "unat (physical_start d + number_of_pages d * PAGE_SIZE) = region_end d"
      using b by (simp_all add: uadd_def n(2) unat_add_nowrap region_end_def)
    let ?e = "max e (physical_start d + number_of_pages d * PAGE_SIZE)"
    from Cons.IH [of ?e] Cons.prems obtain y where
      y: "end_of_mem ?e es = Ok y" "unat y = Max (insert (unat ?e) (region_end ` {d \<in> set es. is_ram d}))" by auto
    define A where "A = region_end ` {c \<in> set es. is_ram c}"
    have A: "finite A" "insert (unat e) (region_end ` {c \<in> set (d # es). is_ram c}) =
        insert (unat e) (insert (region_end d) A)"
      using True by (auto simp: A_def)
    have "Max (insert (unat e) (region_end ` {c \<in> set (d # es). is_ram c})) = unat y"
      unfolding y(2) A_def [symmetric] A(2) using A(1)
      by (cases "A = {}") (simp_all add: unat_max x(2) max.assoc)
    moreover have "end_of_mem e (d # es) = Ok y" using True n x y(1) by (simp add: is_ram_def)
    ultimately show ?thesis by auto
  next
    case False
    then have "{c \<in> set (d # es). is_ram c} = {c \<in> set es. is_ram c}" by auto
    with Cons.IH [of e] Cons.prems False show ?thesis by (auto simp: is_ram_def)
  qed
qed

text \<open>What is seen after mapping \<open>n\<close> pages to themselves and then unmapping the first.\<close>

lemma identity_view:
  assumes "remapped s0 s1 0 n ReadWriteKernel" "remapped s1 s2 0 1 NotPresent" "\<And>v. translate s0 v = None"
    and "unat v < 2 ^ 48"
  shows "if unat v < 4096 then translate s2 v = None
    else if page_of v < n then translate s2 v = Some v \<and> writable_page s2 v \<and> \<not> cache_disabled s2 v
    else translate s2 v = None"
proof (cases "unat v < 4096")
  case True
  then have "page_of v = 0" by (simp add: page_of_def)
  with remapped_translate(1) [OF assms(2,4)] True show ?thesis by simp
next
  case False
  then have "\<not> (0 \<le> page_of v \<and> page_of v < 0 + 1)" by (simp add: page_of_def div_eq_0_iff)
  with remapped_translate(4,5) [OF assms(2,4)] assms(2,4)
  have same: "translate s2 v = translate s1 v" "cache_disabled s2 v = cache_disabled s1 v"
    "writable_page s2 v = writable_page s1 v"
    by (simp_all add: remapped_def writable_page_def)
  show ?thesis
  proof (cases "page_of v < n")
    case True
    with remapped_translate(1,2,3) [OF assms(1,4)] False show ?thesis by (simp add: same)
  next
    case outside: False
    with remapped_translate(4) [OF assms(1,4)] assms(3) [of v] False show ?thesis by (simp add: same)
  qed
qed

lemma init_paging_tables:
  assumes "heap_ok (heap (machine s))" and "memory_map_entries memory_map = Ok es"
    and "\<forall>d \<in> set es. is_ram d \<longrightarrow> region_end d \<le> 2 ^ 48"
  shows "init_paging memory_map s = panic ''memory allocation failed'' \<or>
    (\<exists>s'. init_paging memory_map s = Ok s' \<and> wf_tables (machine s') (cr3 s') \<and>
       (\<forall>v. unat v < 2 ^ 48 \<longrightarrow>
          (if unat v < 4096 then translate s' v = None
           else if page_of v < (mapped_end es + 4095) div 4096
           then translate s' v = Some v \<and> writable_page s' v \<and> \<not> cache_disabled s' v
           else translate s' v = None)) \<and>
       (\<forall>d \<in> set es. is_ram d \<longrightarrow> (\<forall>v. 4096 \<le> unat v \<and> unat (physical_start d) \<le> unat v \<and>
          unat v < region_end d \<longrightarrow> translate s' v = Some v)))"
proof -
  from PML4_new_empty [OF assms(1)] consider (null) "PML4_new (machine s) = panic ''memory allocation failed''"
    | (root) root m where "PML4_new (machine s) = Ok (root, m)" "wf_tables m root" "\<forall>q. leaf_entry (mem m) root q = 0"
    by blast
  then show ?thesis
  proof cases
    case null
    then show ?thesis by (simp add: init_paging_def)
  next
    case root
    let ?N = "(mapped_end es + 4095) div 4096"
    define s0 where "s0 = \<lparr> cr3 = root, machine = m \<rparr>"
    have "\<forall>d \<in> set es. is_ram d \<longrightarrow> region_end d < 2 ^ 64" using assms(3) by force
    from end_of_mem_eq [OF this, where e = "0x100000000"] obtain e where
      e: "end_of_mem 0x100000000 es = Ok e" "unat e = mapped_end es" by (auto simp: mapped_end_def)
    have top: "mapped_end es \<le> 2 ^ 48" "2 ^ 32 \<le> mapped_end es"
      using assms(3) unfolding mapped_end_def by (auto intro!: Max.boundedI)
    let ?r1 = "\<lparr> virt_start = 0, virt_end = e, phys = 0, attr = ReadWriteKernel \<rparr>"
    let ?r2 = "\<lparr> virt_start = 0, virt_end = 4096, phys = 0, attr = NotPresent \<rparr>"
    have p: "init_paging memory_map s =
        rbind (expect (create_mapping m root ?r1) ''Failed to create initial page mapping'')
          (\<lambda>m. rbind (expect (create_mapping m root ?r2) ''Failed to unmap page 0'')
            (\<lambda>m. Ok (write_cr3 root (s\<lparr>machine := m\<rparr>))))"
      using root(1) assms(2) e(1) by (simp add: init_paging_def)
    have v: "valid_mapping ?r1" "valid_mapping ?r2" using top e(2) by (simp_all add: valid_mapping_def)
    have mx: "max 1 ?N = ?N" using top(2) by simp
    from create_identity_mapping [of s0 ?r1] v(1) root(2) e(2) mx consider
      (fail1) "create_mapping m root ?r1 = panic ''memory allocation failed''"
      | (ok1) m1 where "create_mapping m root ?r1 = Ok m1" "remapped s0 (s0\<lparr>machine := m1\<rparr>) 0 ?N ReadWriteKernel"
      by (auto simp: s0_def page_of_def)
    then show ?thesis
    proof cases
      case fail1
      then show ?thesis by (simp add: p)
    next
      case ok1
      define s1 where "s1 = s0\<lparr>machine := m1\<rparr>"
      have wf1: "wf_tables m1 root" using ok1(2) by (simp add: remapped_def s0_def)
      from create_identity_mapping [of s1 ?r2] v(2) wf1 consider
        (fail2) "create_mapping m1 root ?r2 = panic ''memory allocation failed''"
        | (ok2) m2 where "create_mapping m1 root ?r2 = Ok m2" "remapped s1 (s1\<lparr>machine := m2\<rparr>) 0 1 NotPresent"
        by (auto simp: s1_def s0_def page_of_def)
      then show ?thesis
      proof cases
        case fail2
        with ok1 show ?thesis by (simp add: p)
      next
        case ok2
        define s2 where "s2 = \<lparr> cr3 = root, machine = m2 \<rparr>"
        have s2: "remapped s1 s2 0 1 NotPresent" "remapped s0 s1 0 ?N ReadWriteKernel"
          using ok1(2) ok2(2) by (simp_all add: s2_def s1_def s0_def)
        have "init_paging memory_map s = Ok (write_cr3 root (s\<lparr>machine := m2\<rparr>))"
          using ok1(1) ok2(1) by (simp add: p)
        then have run: "init_paging memory_map s = Ok s2" by (simp add: s2_def write_cr3_def)
        have none: "translate s0 v = None" for v
          using root(3) by (simp add: translate_def page_entry_def s0_def is_present_def)
        have at: "if unat v < 4096 then translate s2 v = None
            else if page_of v < ?N then translate s2 v = Some v \<and> writable_page s2 v \<and> \<not> cache_disabled s2 v
            else translate s2 v = None" if "unat v < 2 ^ 48" for v
          by (rule identity_view [OF s2(2,1) none that])
        have ram: "translate s2 v = Some v" if "d \<in> set es" "is_ram d" "4096 \<le> unat v" "unat v < region_end d" for d v
        proof -
          have "region_end d \<le> mapped_end es" using that(1,2) by (auto simp: mapped_end_def intro: Max_ge)
          then have "page_of v < ?N" using that(4) by (simp add: page_of_def less_mult_imp_div_less)
          moreover have "unat v < 2 ^ 48" using that assms(3) by fastforce
          ultimately show ?thesis using at [of v] that(3) by simp
        qed
        have "wf_tables (machine s2) (cr3 s2)" using s2(1) by (simp add: remapped_def)
        with run at ram show ?thesis by blast
      qed
    qed
  qed
qed

text \<open>
  On a memory map whose RAM ends below \<open>2 ^ 48\<close>, \<open>init_paging\<close> makes well-formed tables and loads
  them into CR3: the first page translates to nothing, so a null dereference faults; every other
  address below 4 GiB or the end of RAM translates to itself, writable and cached, in particular all
  of RAM; above that nothing is mapped. The only other outcome is a table that cannot be allocated.
\<close>

theorem init_paging_identity:
  assumes "heap_ok (heap (machine s))" and "memory_map_entries memory_map = Ok es"
    and "\<forall>d \<in> set es. is_ram d \<longrightarrow> region_end d \<le> 2 ^ 48"
  shows "init_paging memory_map s = panic ''memory allocation failed'' \<or>
    (\<exists>s'. init_paging memory_map s = Ok s' \<and> wf_tables (machine s') (cr3 s') \<and>
       (\<forall>v. unat v < 2 ^ 48 \<longrightarrow>
          (if unat v < 4096 then translate s' v = None
           else if page_of v < (mapped_end es + 4095) div 4096
           then translate s' v = Some v \<and> writable_page s' v \<and> \<not> cache_disabled s' v
           else translate s' v = None)) \<and>
       (\<forall>d \<in> set es. is_ram d \<longrightarrow> (\<forall>v. 4096 \<le> unat v \<and> unat (physical_start d) \<le> unat v \<and>
          unat v < region_end d \<longrightarrow> translate s' v = Some v)))"
  using assms by (rule init_paging_tables)

theorem disable_cache_exact_witness:
  "disable_cache 0x5000 0x1800 \<lparr> cr3 = 0x2000, machine = root_only \<rparr> = panic ''memory allocation failed'' \<or>
   (\<exists>s'. disable_cache 0x5000 0x1800 \<lparr> cr3 = 0x2000, machine = root_only \<rparr> = Ok s' \<and>
      translate s' 0x6123 = Some 0x6123 \<and> cache_disabled s' 0x6123)"
proof -
  have at: "unat (0x6123 :: u64) < 2 ^ 48" "page_of 0x5000 \<le> page_of 0x6123"
    "page_of 0x6123 < page_of 0x5000 + max 1 ((unat (0x1800 :: u64) + 4095) div 4096)"
    by (simp_all add: page_of_def)
  have "disable_cache 0x5000 0x1800 \<lparr> cr3 = 0x2000, machine = root_only \<rparr> = panic ''memory allocation failed'' \<or>
     (\<exists>s'. disable_cache 0x5000 0x1800 \<lparr> cr3 = 0x2000, machine = root_only \<rparr> = Ok s' \<and>
        (\<forall>v. unat v < 2 ^ 48 \<longrightarrow>
           (if page_of 0x5000 \<le> page_of v \<and> page_of v < page_of 0x5000 + max 1 ((unat (0x1800 :: u64) + 4095) div 4096)
            then translate s' v = Some v \<and> cache_disabled s' v else True)))"
    using disable_cache_exact [of "\<lparr> cr3 = 0x2000, machine = root_only \<rparr>" "0x5000" "0x1800"] root_only_wf
    by (auto simp del: max.bounded_iff split: if_splits)
  with at show ?thesis by metis
qed

theorem init_paging_identity_witness:
  "init_paging one_region_map \<lparr> cr3 = 0, machine = root_only\<lparr>heap := one_chunk_heap\<rparr> \<rparr> = panic ''memory allocation failed'' \<or>
   (\<exists>s'. init_paging one_region_map \<lparr> cr3 = 0, machine = root_only\<lparr>heap := one_chunk_heap\<rparr> \<rparr> = Ok s' \<and>
      translate s' 0 = None \<and> translate s' 0x1234 = Some 0x1234)"
proof -
  let ?s = "\<lparr> cr3 = 0, machine = root_only\<lparr>heap := one_chunk_heap\<rparr> \<rparr>"
  have h: "heap_ok (heap (machine ?s))" using one_chunk_heap_repr by (auto simp: heap_ok_def)
  have r: "\<forall>d \<in> set [one_region]. is_ram d \<longrightarrow> region_end d \<le> 2 ^ 48"
    by (simp add: region_end_def one_region_def)
  have "page_of 0x1234 < (mapped_end [one_region] + 4095) div 4096"
    by (simp add: page_of_def mapped_end_def is_ram_def region_end_def one_region_def)
  then show ?thesis
    using init_paging_identity [OF h one_region_entries r] by fastforce
qed

section \<open>IoBox\<close>

lemma zeroed_page_keeps_tables:
  assumes wf: "wf_tables m root" and h: "heap_ok (heap m')" "used_bytes (heap m) \<subseteq> used_bytes (heap m')"
    and n: "4096 dvd unat n" "{unat n ..< unat n + 4096} \<inter> used_bytes (heap m) = {}"
    and M: "mem m' = (\<lambda>a. if unat n \<le> unat a \<and> unat a < unat n + 4096 then 0 else mem m a)"
  shows "wf_tables m' root" "leaf_entry (mem m') root q = leaf_entry (mem m) root q"
proof -
  have keep: "mem m' (entry_addr t j) = mem m (entry_addr t j)"
    if "valid_path p" "table_at (mem m) root p = Some t" "j < 512" for p t j
  proof -
    have "unat (entry_addr t j) \<in> used_bytes (heap m)"
      using entry_addr_page [OF wf_tablesD(1) [OF wf that(1,2)] that(3)] wf_tablesD(2) [OF wf that(1,2)] by auto
    with n(2) show ?thesis by (auto simp: M)
  qed
  have tab: "table_at (mem m') root p = table_at (mem m) root p" if "valid_path p" for p
    using that by (rule table_at_cong [rotated]) (auto simp: valid_path_snoc intro!: keep)
  have "\<forall>p t. valid_path p \<and> table_at (mem m') root p = Some t \<longrightarrow>
      4096 dvd unat t \<and> {unat t ..< unat t + 4096} \<subseteq> used_bytes (heap m')"
    using tab wf_tablesD(1,2) [OF wf] h(2) by (metis (no_types, lifting) subset_trans)
  moreover have "\<forall>p q t. valid_path p \<and> valid_path q \<and> table_at (mem m') root p = Some t \<and>
      table_at (mem m') root q = Some t \<longrightarrow> p = q"
    using tab wf_tablesD(3) [OF wf] by metis
  ultimately show "wf_tables m' root" using h(1) unfolding wf_tables_def by blast
  have v: "valid_path (table_path 1 q)" by (rule valid_table_path) simp
  show "leaf_entry (mem m') root q = leaf_entry (mem m) root q"
    using keep [OF v] tab [OF v] by (simp add: leaf_entry_def split: option.split)
qed

lemma BarMem64_disable_cache_eq:
  "BarMem64_disable_cache self s = disable_cache (bar_addr self) (bar_size self) s"
  by (simp add: BarMem64_disable_cache_def disable_cache_def Let_def)

text \<open>
  What \<open>IoBox::new\<close> makes of the state: a page of its own, now allocated, is mapped to itself with
  caching off; what was allocated still is, and every other address is translated and cached as before.\<close>

definition io_page :: "Mmu \<Rightarrow> u64 \<Rightarrow> Mmu \<Rightarrow> bool" where
  "io_page s p s' \<longleftrightarrow> 4096 dvd unat p \<and> p \<noteq> 0 \<and> unat p + 4096 \<le> 2 ^ 48 \<and>
     {unat p ..< unat p + 4096} \<inter> used_bytes (heap (machine s)) = {} \<and>
     {unat p ..< unat p + 4096} \<subseteq> used_bytes (heap (machine s')) \<and>
     used_bytes (heap (machine s)) \<subseteq> used_bytes (heap (machine s')) \<and>
     cr3 s' = cr3 s \<and> wf_tables (machine s') (cr3 s') \<and>
     (\<forall>v. unat v < 2 ^ 48 \<longrightarrow>
        (if page_of v = page_of p then translate s' v = Some v \<and> cache_disabled s' v \<and> writable_page s' v
         else translate s' v = translate s v \<and> cache_disabled s' v = cache_disabled s v \<and>
           writable_page s' v = writable_page s v))"

lemma IoBox_new_page:
  assumes "wf_tables (machine s) (cr3 s)" and "0 < unat sz" and "unat sz \<le> 4096"
    and "\<forall>p h. alloc_with_options (heap (machine s)) LAYOUT_PAGE_4K = Ok (p, h) \<longrightarrow> unat p + 4096 \<le> 2 ^ 48"
  shows "IoBox_new sz s = panic ''memory allocation failed'' \<or> (\<exists>p s'. IoBox_new sz s = Ok (p, s') \<and> io_page s p s')"
proof -
  have h: "heap_ok (heap (machine s))" using assms(1) by (simp add: wf_tables_def)
  from h show ?thesis
  proof (cases rule: box_zeroed_page_cases)
    case 1
    then show ?thesis by (simp add: IoBox_new_def)
  next
    case (2 p m)
    let ?s = "s\<lparr>machine := m\<rparr>"
    from 2(1) obtain hp where "alloc_with_options (heap (machine s)) LAYOUT_PAGE_4K = Ok (p, hp)"
      by (auto simp: box_zeroed_page_def split: if_splits)
    with assms(4) have b: "unat p + 4096 \<le> 2 ^ 48" by blast
    have fresh: "{unat p ..< unat p + 4096} \<inter> used_bytes (heap (machine s)) = {}" using 2(6) by blast
    note keep = zeroed_page_keeps_tables [OF assms(1) 2(3,5,4) fresh 2(7)]
    have wf: "wf_tables (machine ?s) (cr3 ?s)" using keep(1) by simp
    have same: "translate ?s v = translate s v" "cache_disabled ?s v = cache_disabled s v"
        "writable_page ?s v = writable_page s v" for v
      by (simp_all add: translate_def cache_disabled_def writable_page_def page_entry_def keep(2))
    let ?r = "\<lparr> virt_start = p, virt_end = p + sz, phys = p, attr = ReadWriteIo \<rparr>"
    have pb: "unat p < 2 ^ 48" "unat p + unat sz \<le> 2 ^ 48" using b assms(3) by simp_all
    have "unat p + unat sz < 2 ^ 64" using pb by simp
    then have e: "uadd p sz = Ok (p + sz)" "unat (p + sz) = unat p + unat sz"
      by (simp_all add: uadd_def unat_add_nowrap)
    have d: "disable_cache p sz ?s =
        rbind (expect (create_mapping (machine ?s) (cr3 ?s) ?r) ''Failed to create mapping'')
          (\<lambda>m. Ok (?s\<lparr>machine := m\<rparr>))"
      by (simp add: disable_cache_def e with_current_page_table_def take_current_page_table_def read_cr3_def
          put_current_page_table_def write_cr3_def)
    have v: "valid_mapping ?r" using pb e(2) 2(4) by (simp add: valid_mapping_def)
    have one: "max 1 ((unat sz + 4095) div 4096) = 1"
    proof -
      have "(unat sz + 4095) div 4096 \<le> 1" using assms(3) by simp
      then show ?thesis by simp
    qed
    from create_identity_mapping [OF wf v] 2(4) e(2) one consider
      "create_mapping (machine ?s) (cr3 ?s) ?r = panic ''memory allocation failed''"
      | m' where "create_mapping (machine ?s) (cr3 ?s) ?r = Ok m'"
        "remapped ?s (?s\<lparr>machine := m'\<rparr>) (page_of p) 1 ReadWriteIo"
      by auto
    then show ?thesis
    proof cases
      case 1
      with 2(1) d show ?thesis by (simp add: IoBox_new_def)
    next
      case (2 m')
      let ?s' = "?s\<lparr>machine := m'\<rparr>"
      have run: "IoBox_new sz s = Ok (p, ?s')"
        using \<open>box_zeroed_page (machine s) = Ok (p, m)\<close> d 2(1) by (simp add: IoBox_new_def)
      have at: "if page_of v = page_of p then translate ?s' v = Some v \<and> cache_disabled ?s' v \<and> writable_page ?s' v
           else translate ?s' v = translate s v \<and> cache_disabled ?s' v = cache_disabled s v \<and>
             writable_page ?s' v = writable_page s v"
        if "unat v < 2 ^ 48" for v
      proof -
        have "page_of p \<le> page_of v \<and> page_of v < page_of p + 1 \<longleftrightarrow> page_of v = page_of p" by auto
        with remapped_translate [OF 2(2) that] same [of v] show ?thesis by auto
      qed
      have "cr3 ?s' = cr3 s" "wf_tables (machine ?s') (cr3 ?s')" using 2(2) by (simp_all add: remapped_def)
      moreover have "used_bytes (heap m) \<subseteq> used_bytes (heap (machine ?s'))" using 2(2) by (simp add: remapped_def)
      ultimately have "io_page s p ?s'"
        using at fresh b \<open>4096 dvd unat p\<close> \<open>p \<noteq> 0\<close> \<open>used_bytes (heap (machine s)) \<subseteq> used_bytes (heap m)\<close>
          \<open>{unat p ..< unat p + 4096} \<subseteq> used_bytes (heap m) - used_bytes (heap (machine s))\<close>
        unfolding io_page_def by blast
      with run show ?thesis by blast
    qed
  qed
qed

text \<open>
  \<open>IoBox::new\<close> gives a page of its own, disjoint from everything allocated before, and when it
  returns exactly this page is translated to itself with caching off; every other address is
  translated and cached as before and the tables are well-formed. It can only fail for want of memory.
\<close>

theorem io_box_is_uncached:
  assumes "wf_tables (machine s) (cr3 s)" and "0 < unat sz" and "unat sz \<le> 4096"
    and "\<forall>p h. alloc_with_options (heap (machine s)) LAYOUT_PAGE_4K = Ok (p, h) \<longrightarrow> unat p + 4096 \<le> 2 ^ 48"
  shows "IoBox_new sz s = panic ''memory allocation failed'' \<or>
    (\<exists>p s'. IoBox_new sz s = Ok (p, s') \<and> 4096 dvd unat p \<and> p \<noteq> 0 \<and>
       {unat p ..< unat p + 4096} \<inter> used_bytes (heap (machine s)) = {} \<and>
       cr3 s' = cr3 s \<and> wf_tables (machine s') (cr3 s') \<and>
       (\<forall>v. unat v < 2 ^ 48 \<longrightarrow>
          (if page_of v = page_of p then translate s' v = Some v \<and> cache_disabled s' v \<and> writable_page s' v
           else translate s' v = translate s v \<and> cache_disabled s' v = cache_disabled s v \<and>
             writable_page s' v = writable_page s v)))"
  using IoBox_new_page [OF assms] unfolding io_page_def by blast

text \<open>The empty root table at \<open>0x2000\<close>, with a megabyte of free memory.\<close>

definition roomy :: Machine where
  "roomy = \<lparr> mem = (\<lambda>_. 0), heap = \<lparr> headers =
     [0x100000 \<mapsto> \<lparr> next_header = Some 0x1000, hdr_size = 0x100000, is_allocated = False, header_reserved = 0 \<rparr>,
      0x1000 \<mapsto> \<lparr> next_header = None, hdr_size = 0x4000, is_allocated = True, header_reserved = 0 \<rparr>],
     first_header = Some 0x100000 \<rparr> \<rparr>"

lemma roomy_repr: "heap_repr (heap roomy) [Chunk 0x100000 0x100000 False, Chunk 0x1000 0x4000 True]"
  by (simp add: heap_repr_def roomy_def wf_chunk_def disjoint_chunks_def wf_chunks_def)

lemma roomy_wf: "wf_tables roomy 0x2000"
proof -
  have "used_bytes (heap roomy) = {0x1000 ..< 0x5000}" using used_bytes_eq [OF roomy_repr] by simp
  with roomy_repr show ?thesis
    by (auto simp: wf_tables_def heap_ok_def roomy_def table_at_zero)
qed

lemma roomy_page: "alloc_with_options (heap roomy) LAYOUT_PAGE_4K = Ok (p, h) \<Longrightarrow> p = 0x1FF000"
proof -
  assume a: "alloc_with_options (heap roomy) LAYOUT_PAGE_4K = Ok (p, h)"
  have "\<exists>cs. first_fit 4096 4096 [Chunk 0x100000 0x100000 False, Chunk 0x1000 0x4000 True] = Some (0x1FF000, cs)"
    by (simp add: fits_chunk_def place_in_def)
  with alloc_with_options_refines [OF roomy_repr LAYOUT_PAGE_4K_facts(1)] a show ?thesis
    by (auto simp: LAYOUT_PAGE_4K_facts simp del: first_fit.simps)
qed

theorem io_box_is_uncached_witness:
  "IoBox_new 16 \<lparr> cr3 = 0x2000, machine = roomy \<rparr> = panic ''memory allocation failed'' \<or>
   (\<exists>p s'. IoBox_new 16 \<lparr> cr3 = 0x2000, machine = roomy \<rparr> = Ok (p, s') \<and> 4096 dvd unat p)"
proof -
  have "\<forall>p h. alloc_with_options (heap roomy) LAYOUT_PAGE_4K = Ok (p, h) \<longrightarrow> unat p + 4096 \<le> 2 ^ 48"
    using roomy_page by fastforce
  then show ?thesis
    using io_box_is_uncached [of "\<lparr> cr3 = 0x2000, machine = roomy \<rparr>" 16] roomy_wf by auto
qed

end
