(* ===== verification/Xhci_Driver.thy ===== *)
theory Xhci_Driver
  imports Trb_Queues Xhci_Regs Usb_Desc Boot_Paging
begin

text \<open>
  The controller object of \<open>src/xhci.rs\<close>: its construction, the scratchpad buffers, commands, control
  requests, and the steps that bring a device up to its address. A request is an \<open>async\<close> function
  with one suspension point: the definitions here are its part up to there (what is queued, rung and
  waited for); what follows is \<open>transfer_result_ok\<close> or \<open>cmd_result_ok\<close> of the event that arrives.
  Addresses of objects that a request boxes and the identity of a new waiter are arguments.
\<close>

section \<open>Registers in the address space\<close>

record XhcRegisters =
  op_regs_addr :: u64
  rt_regs_addr :: u64
  doorbell_ptrs :: "u64 list"
  portsc_ptrs :: "u64 list"

definition setup_xhc_registers :: "u64 \<Rightarrow> CapabilityRegisters \<Rightarrow> XhcRegisters" where
  "setup_xhc_registers bar0 cap =
     \<lparr> op_regs_addr = bar0 + ucast (caplength cap),
       rt_regs_addr = bar0 + ucast (rtsoff cap),
       doorbell_ptrs = map (\<lambda>i. bar0 + ucast (dboff cap) + word_of_nat (4 * i)) [0..<num_of_ports cap + 1],
       portsc_ptrs = PortSc_new bar0 cap \<rparr>"

definition VDI_LIST :: "(u16 \<times> u16) list" where
  "VDI_LIST = [(0x1b36, 0x000d), (0x8086, 0x31a8), (0x8086, 0x02ed)]"

definition PciXhciDriver_supports :: "u16 \<times> u16 \<Rightarrow> bool" where
  "PciXhciDriver_supports vp \<longleftrightarrow> vp \<in> set VDI_LIST"

section \<open>Scratchpad buffers\<close>

text \<open>\<open>Layout::from_size_align\<close>: \<open>None\<close> is its error.\<close>

definition layout_from_size_align :: "nat \<Rightarrow> nat \<Rightarrow> Layout option" where
  "layout_from_size_align sz align =
     (if (\<exists>k < 64. align = 2 ^ k) \<and> sz + align \<le> 2 ^ 63
      then Some \<lparr> layout_size = word_of_nat sz, layout_align = word_of_nat align \<rparr> else None)"

text \<open>A slice from a raw pointer must not be null.\<close>

definition from_raw_parts :: "usize \<Rightarrow> usize res" where
  "from_raw_parts p = (if p = 0 then Inl UB else Ok p)"

text \<open>\<open>Box::<[T]>::from\<close> copies the slice into a box of its own, aligned for \<open>T\<close>.\<close>

definition box_from_slice :: "FirstFitAllocator \<Rightarrow> nat \<Rightarrow> nat \<Rightarrow> (usize \<times> FirstFitAllocator) res" where
  "box_from_slice h sz align =
     rbind (alloc_with_options h \<lparr> layout_size = word_of_nat sz, layout_align = word_of_nat align \<rparr>)
       (\<lambda>(p, h'). if p = 0 then panic ''memory allocation failed'' else Ok (p, h'))"

fun scratchpad_loop ::
  "nat \<Rightarrow> nat \<Rightarrow> FirstFitAllocator \<Rightarrow> u64 list \<Rightarrow> (u64 list \<times> FirstFitAllocator) res" where
  "scratchpad_loop ps 0 h bufs = Ok (bufs, h)"
| "scratchpad_loop ps (Suc n) h bufs =
     rbind (ok_or (layout_from_size_align ps ps) ''could not allocated a scratchpad buffer'') (\<lambda>l.
     rbind (alloc_with_options h l) (\<lambda>(p, h1).
     rbind (from_raw_parts p) (\<lambda>_.
     rbind (box_from_slice h1 ps 1) (\<lambda>(b, h2).
       scratchpad_loop ps n h2 (bufs @ [b])))))"

definition ScratchpadBuffers_alloc ::
  "FirstFitAllocator \<Rightarrow> CapabilityRegisters \<Rightarrow> OperationalRegisters \<Rightarrow>
   (u64 \<times> u64 list \<times> FirstFitAllocator) res" where
  "ScratchpadBuffers_alloc h cap op =
     rbind (page_size op) (\<lambda>ps.
     let num = max (num_scratchpad_bufs cap) 1 in
     rbind (ok_or (layout_from_size_align (8 * num) ps) ''could not allocate scratchpad buffer table'') (\<lambda>l.
     rbind (alloc_with_options h l) (\<lambda>(t, h1).
     rbind (from_raw_parts t) (\<lambda>_.
     rbind (box_from_slice h1 (8 * num) 8) (\<lambda>(table, h2).
     rbind (scratchpad_loop ps num h2 []) (\<lambda>(bufs, h3).
       Ok (table, bufs, h3)))))))"

section \<open>The controller\<close>

text \<open>The addresses of the boxes that the rings, the segment table and the context array live in.\<close>

record XhcBoxes =
  event_ring_box :: u64
  erst_box :: u64
  command_ring_box :: u64
  dcbaa_box :: u64

record Controller =
  xhc_regs :: XhcRegisters
  cap_regs :: CapabilityRegisters
  op_regs :: OperationalRegisters
  irs :: "InterrupterRegisterSet list"
  doorbell_log :: "(u64 \<times> u32) list"
  device_context_base_array :: DeviceContextBaseAddressArray
  primary_event_ring :: EventRing
  command_ring :: CommandRing
  boxes :: XhcBoxes

definition init_primary_event_ring :: "Controller \<Rightarrow> Controller res" where
  "init_primary_event_ring xhc =
     rbind (init_irs (irs xhc) 0 (ring_addr (ev_ring (primary_event_ring xhc))) (erst_box (boxes xhc))) (\<lambda>i.
       Ok (xhc\<lparr>irs := i,
               primary_event_ring := set_erdp (primary_event_ring xhc) (irs_erdp (i ! 0))\<rparr>))"

definition init_slots_and_contexts :: "Controller \<Rightarrow> Controller" where
  "init_slots_and_contexts xhc =
     xhc\<lparr>op_regs := set_dcbaa_ptr (dcbaa_box (boxes xhc))
       (set_num_device_slots (num_of_device_slots (cap_regs xhc)) (op_regs xhc))\<rparr>"

definition init_command_ring :: "Controller \<Rightarrow> Controller" where
  "init_command_ring xhc =
     xhc\<lparr>op_regs := set_cmd_ring_ctrl (ring_addr (cmd_ring (command_ring xhc))) (op_regs xhc)\<rparr>"

text \<open>
  \<open>Controller::new\<close>. The scratchpad buffers and the context array come from the heap, each ring and
  the segment table (all of a page's size and alignment) from \<open>IoBox::new\<close>, which also changes the
  page tables.\<close>

definition put_heap :: "FirstFitAllocator \<Rightarrow> Mmu \<Rightarrow> Mmu" where
  "put_heap h s = s\<lparr>machine := (machine s)\<lparr>heap := h\<rparr>\<rparr>"

definition Controller_new ::
  "nat \<Rightarrow> (OperationalRegisters \<Rightarrow> OperationalRegisters) \<Rightarrow> XhcRegisters \<Rightarrow> CapabilityRegisters \<Rightarrow>
   OperationalRegisters \<Rightarrow> InterrupterRegisterSet list \<Rightarrow> Mmu \<Rightarrow> (Controller \<times> Mmu) res" where
  "Controller_new fuel hw regs cap op rt s =
     rbind (reset_xhc fuel hw op) (\<lambda>op1.
     rbind (ScratchpadBuffers_alloc (heap (machine s)) cap op1) (\<lambda>(table, bufs, h1).
     rbind (box_new h1 2048 64) (\<lambda>(dcbaa, h2).
     rbind (IoBox_new 4096 (put_heap h2 s)) (\<lambda>(ring, s).
     rbind (IoBox_new 4096 s) (\<lambda>(erst, s).
     rbind (EventRing_new ring) (\<lambda>ev.
     rbind (IoBox_new 4096 s) (\<lambda>(cmd, s).
     rbind (CommandRing_default cmd) (\<lambda>cr.
     let xhc = \<lparr> xhc_regs = regs, cap_regs = cap, op_regs = op1, irs = rt, doorbell_log = [],
                 device_context_base_array = DeviceContextBaseAddressArray_new table,
                 primary_event_ring = ev, command_ring = cr,
                 boxes = \<lparr> event_ring_box = ring, erst_box = erst, command_ring_box = cmd, dcbaa_box = dcbaa \<rparr> \<rparr> in
     rbind (init_primary_event_ring xhc) (\<lambda>xhc.
     let xhc = init_command_ring (init_slots_and_contexts xhc) in
     rbind (start_xhc fuel hw (op_regs xhc)) (\<lambda>op2. Ok (xhc\<lparr>op_regs := op2\<rparr>, s)))))))))))"

section \<open>Commands and control requests\<close>

definition ring_doorbell :: "nat \<Rightarrow> u8 \<Rightarrow> u16 \<Rightarrow> Controller \<Rightarrow> Controller" where
  "ring_doorbell i target task xhc =
     xhc\<lparr>doorbell_log := doorbell_log xhc @ [(doorbell_ptrs (xhc_regs xhc) ! i, doorbell_value target task)]\<rparr>"

definition notify_xhc :: "Controller \<Rightarrow> Controller res" where
  "notify_xhc xhc =
     (if doorbell_ptrs (xhc_regs xhc) = [] then panic ''index out of bounds''
      else Ok (ring_doorbell 0 0 0 xhc))"

definition notify_ep :: "u8 \<Rightarrow> nat \<Rightarrow> Controller \<Rightarrow> Controller res" where
  "notify_ep slot dci xhc =
     (if length (doorbell_ptrs (xhc_regs xhc)) \<le> unat slot then err ''invalid slot''
      else if 256 \<le> dci then err ''invalid dci''
      else Ok (ring_doorbell (unat slot) (word_of_nat dci) 0 xhc))"

text \<open>\<open>EventFuture::new_for_trb\<close> on the primary event ring; \<open>k\<close> is the new waiter.\<close>

definition wait_for_trb :: "nat \<Rightarrow> u64 \<Rightarrow> Controller \<Rightarrow> Controller" where
  "wait_for_trb k p xhc =
     xhc\<lparr>primary_event_ring := EventFuture_new_for_trb (primary_event_ring xhc) k p\<rparr>"

definition send_command :: "nat \<Rightarrow> GenericTrbEntry \<Rightarrow> Controller \<Rightarrow> (u64 \<times> Controller) res" where
  "send_command k cmd xhc =
     rbind (cmd_push (command_ring xhc) cmd) (\<lambda>(p, r).
     rbind (notify_xhc (xhc\<lparr>command_ring := r\<rparr>)) (\<lambda>xhc. Ok (p, wait_for_trb k p xhc)))"

definition set_output_context_for_slot :: "u8 \<Rightarrow> u64 \<Rightarrow> Controller \<Rightarrow> Controller res" where
  "set_output_context_for_slot slot ctx xhc =
     rbind (set_output_context slot ctx (device_context_base_array xhc)) (\<lambda>a.
       Ok (xhc\<lparr>device_context_base_array := a\<rparr>))"

definition REQ_TYPE_TYPE_CLASS :: u8 where "REQ_TYPE_TYPE_CLASS = push_bit 5 1"
definition REQ_TYPE_TO_INTERFACE :: u8 where "REQ_TYPE_TO_INTERFACE = 1"
definition REQ_GET_REPORT :: u8 where "REQ_GET_REPORT = 1"
definition REQ_SET_CONFIGURATION :: u8 where "REQ_SET_CONFIGURATION = 9"
definition REQ_SET_INTERFACE :: u8 where "REQ_SET_INTERFACE = 11"
definition REQ_SET_PROTOCOL :: u8 where "REQ_SET_PROTOCOL = 0x0b"

text \<open>The common body of the requests with a data stage: setup, data in, status out.\<close>

definition control_in ::
  "nat \<Rightarrow> u8 \<Rightarrow> CommandRing \<Rightarrow> SetupStageTrb \<Rightarrow> u64 \<Rightarrow> nat \<Rightarrow> Controller \<Rightarrow>
   (u64 \<times> CommandRing \<times> Controller) res" where
  "control_in k slot ring setup buf_addr buf_len xhc =
     rbind (cmd_push ring (setup_to_generic setup)) (\<lambda>(_, ring).
     rbind (cmd_push ring (DataStageTrb_new_in buf_addr buf_len)) (\<lambda>(trb_ptr_waiting, ring).
     rbind (cmd_push ring StatusStageTrb_new_out) (\<lambda>(_, ring).
     rbind (notify_ep slot 1 xhc) (\<lambda>xhc.
       Ok (trb_ptr_waiting, ring, wait_for_trb k trb_ptr_waiting xhc)))))"

text \<open>The common body of the requests without one: setup, status in.\<close>

definition control_no_data ::
  "nat \<Rightarrow> u8 \<Rightarrow> CommandRing \<Rightarrow> SetupStageTrb \<Rightarrow> Controller \<Rightarrow> (u64 \<times> CommandRing \<times> Controller) res" where
  "control_no_data k slot ring setup xhc =
     rbind (cmd_push ring (setup_to_generic setup)) (\<lambda>(_, ring).
     rbind (cmd_push ring StatusStageTrb_new_in) (\<lambda>(trb_ptr_waiting, ring).
     rbind (notify_ep slot 1 xhc) (\<lambda>xhc.
       Ok (trb_ptr_waiting, ring, wait_for_trb k trb_ptr_waiting xhc))))"

definition request_descriptor ::
  "nat \<Rightarrow> u8 \<Rightarrow> CommandRing \<Rightarrow> UsbDescriptorType \<Rightarrow> u8 \<Rightarrow> u16 \<Rightarrow> u64 \<Rightarrow> nat \<Rightarrow>
   Controller \<Rightarrow> (u64 \<times> CommandRing \<times> Controller) res" where
  "request_descriptor k slot ring desc_type d_index lang_id buf_addr buf_len =
     control_in k slot ring
       (SetupStageTrb_new REQ_TYPE_DIR_DEVICE_TO_HOST REQ_GET_DESCRIPTOR
          (push_bit 8 (ucast (descriptor_type_value desc_type)) OR ucast d_index) lang_id
          (word_of_nat buf_len)) buf_addr buf_len"

definition request_descriptor_for_interface ::
  "nat \<Rightarrow> u8 \<Rightarrow> CommandRing \<Rightarrow> UsbDescriptorType \<Rightarrow> u8 \<Rightarrow> u16 \<Rightarrow> u64 \<Rightarrow> nat \<Rightarrow>
   Controller \<Rightarrow> (u64 \<times> CommandRing \<times> Controller) res" where
  "request_descriptor_for_interface k slot ring desc_type d_index w_index buf_addr buf_len =
     control_in k slot ring
       (SetupStageTrb_new (REQ_TYPE_DIR_DEVICE_TO_HOST OR REQ_TYPE_TO_INTERFACE) REQ_GET_DESCRIPTOR
          (push_bit 8 (ucast (descriptor_type_value desc_type)) OR ucast d_index) w_index
          (word_of_nat buf_len)) buf_addr buf_len"

definition request_report_bytes ::
  "nat \<Rightarrow> u8 \<Rightarrow> CommandRing \<Rightarrow> u64 \<Rightarrow> nat \<Rightarrow>
   Controller \<Rightarrow> (u64 \<times> CommandRing \<times> Controller) res" where
  "request_report_bytes k slot ring buf_addr buf_len =
     control_in k slot ring
       (SetupStageTrb_new (REQ_TYPE_DIR_DEVICE_TO_HOST OR REQ_TYPE_TYPE_CLASS OR REQ_TYPE_TO_INTERFACE)
          REQ_GET_REPORT 0x0200 0 (word_of_nat buf_len)) buf_addr buf_len"

definition request_set_config ::
  "nat \<Rightarrow> u8 \<Rightarrow> CommandRing \<Rightarrow> u8 \<Rightarrow>
   Controller \<Rightarrow> (u64 \<times> CommandRing \<times> Controller) res" where
  "request_set_config k slot ring cfg =
     control_no_data k slot ring (SetupStageTrb_new 0 REQ_SET_CONFIGURATION (ucast cfg) 0 0)"

definition request_set_interface ::
  "nat \<Rightarrow> u8 \<Rightarrow> CommandRing \<Rightarrow> u8 \<Rightarrow> u8 \<Rightarrow>
   Controller \<Rightarrow> (u64 \<times> CommandRing \<times> Controller) res" where
  "request_set_interface k slot ring if_num alt =
     control_no_data k slot ring
       (SetupStageTrb_new REQ_TYPE_TO_INTERFACE REQ_SET_INTERFACE (ucast alt)
          (ucast if_num) 0)"

definition request_set_protocol ::
  "nat \<Rightarrow> u8 \<Rightarrow> CommandRing \<Rightarrow> u8 \<Rightarrow> u8 \<Rightarrow>
   Controller \<Rightarrow> (u64 \<times> CommandRing \<times> Controller) res" where
  "request_set_protocol k slot ring if_num protocol =
     control_no_data k slot ring
       (SetupStageTrb_new REQ_TYPE_TO_INTERFACE REQ_SET_PROTOCOL (ucast protocol)
          (ucast if_num) 0)"

section \<open>Bringing up a device\<close>

text \<open>The last connected port, as the loop of \<open>PciXhciDriver::run\<close> leaves it.\<close>

definition connected_port :: "('d \<Rightarrow> u64 \<Rightarrow> u32) \<Rightarrow> u64 list \<Rightarrow> 'd \<Rightarrow> nat option" where
  "connected_port rd entries d =
     fold (\<lambda>port acc. case PortSc_get entries (word_of_nat port) of
             Some e \<Rightarrow> if ccs rd e d then Some port else acc
           | None \<Rightarrow> acc) (port_range entries) None"

text \<open>The input context of \<open>address_device\<close>; \<open>portsc\<close> is the register of the port.\<close>

definition address_device_input :: "nat \<Rightarrow> u32 option \<Rightarrow> u64 \<Rightarrow> InputContext res" where
  "address_device_input port portsc ctrl_ep_ring_addr =
     rbind (add_context 0 InputControlContext_default) (\<lambda>ctrl.
     rbind (add_context 1 ctrl) (\<lambda>ctrl.
     let ctx = InputContext_default\<lparr>input_ctrl_ctx := ctrl\<rparr> in
     rbind (on_device_ctx (set_root_hub_port_number port) ctx) (\<lambda>ctx.
     rbind (on_device_ctx (set_last_valid_dci 1) ctx) (\<lambda>ctx.
     rbind (ok_or portsc ''PORTSC was invalid'') (\<lambda>portsc.
     rbind (on_device_ctx (set_port_speed (port_speed portsc)) ctx) (\<lambda>ctx.
     rbind (max_packet_size portsc) (\<lambda>mps.
     rbind (new_control_endpoint mps ctrl_ep_ring_addr) (\<lambda>ep.
       set_ep_ctx 1 ep ctx))))))))"

end
