(* ===== verification/Xhci_Bringup.thy ===== *)
theory Xhci_Bringup
  imports Xhci_Driver Alloc_Refine
begin

text \<open>
  The properties of the xHCI driver built on the rings: the input context it addresses a device with,
  and how a control request is completed.
\<close>

section \<open>The input context of a new device\<close>

lemma new_control_endpoint_eq:
  "new_control_endpoint mps ptr = Ok \<lparr> ep_data0 = 0, ep_data1 = push_bit 16 (ucast mps) OR push_bit 3 4 OR push_bit 1 3,
     tr_dequeue_ptr = (ptr AND NOT 0xF) OR 1, average_trb_length = 8, max_esit_payload_low = 0 \<rparr>"
proof -
  have w1: "write_bits (0 :: u64) 0 1 1 = Ok 1" by (simp add: write_bits_def ushl_def usub_def)
  have m60: "(mask 60 AND drop_bit 4 ptr :: u64) = drop_bit 4 ptr"
    by (rule bit_eqI) (auto simp: bit_simps dest: bit_imp_le_length)
  have e: "push_bit 4 (drop_bit 4 ptr) OR (1 AND NOT (push_bit 4 (mask 60 :: u64))) = (ptr AND NOT (mask 4)) OR 1"
    by (rule bit_eqI) (auto simp: bit_simps)
  have w2: "write_bits (1 :: u64) 4 60 (drop_bit 4 ptr) = Ok ((ptr AND NOT 0xF) OR 1)"
    using m60 e by (simp add: write_bits_def ushl_def usub_def mask_eq_exp_minus_1 push_bit_eq_mult)
  have d: "((push_bit 3 4 AND NOT (push_bit 1 3) OR push_bit 1 3) AND NOT (push_bit 16 0xffff)) OR
      push_bit 16 (ucast mps) = (push_bit 16 (ucast mps) OR push_bit 3 4 OR push_bit 1 3 :: u32)"
    by (simp add: push_bit_eq_mult or.commute or.left_commute)
  show ?thesis
    using w1 w2 d
    by (simp add: new_control_endpoint_def set_ep_type_def EndpointContext_new_def set_dequeue_cycle_state_def
        set_error_count_def set_ring_dequeue_pointer_def set_max_packet_size_def)
qed

text \<open>The input context that the controller expects for a device on a root hub port.\<close>

definition fresh_device_input :: "nat \<Rightarrow> UsbMode \<Rightarrow> u16 \<Rightarrow> u64 \<Rightarrow> InputContext" where
  "fresh_device_input port mode mps ring =
     \<lparr> input_ctrl_ctx = \<lparr> drop_context_bitmap = 0, add_context_bitmap = 3 \<rparr>,
       device_ctx =
         \<lparr> slot_ctx = [push_bit 27 1 OR push_bit 20 (psi mode), push_bit 16 (word_of_nat port), 0, 0, 0, 0, 0, 0],
           ep_ctx = \<lparr> ep_data0 = 0, ep_data1 = push_bit 16 (ucast mps) OR push_bit 3 4 OR push_bit 1 3,
                      tr_dequeue_ptr = (ring AND NOT 0xF) OR 1, average_trb_length = 8,
                      max_esit_payload_low = 0 \<rparr> # replicate 30 EndpointContext_new \<rparr> \<rparr>"

lemma max_packet_size_psi: "max_packet_size portsc = Ok mps \<Longrightarrow> psi (port_speed portsc) \<in> {1, 2, 3, 4}"
  by (cases "port_speed portsc") (auto simp: max_packet_size_def)

lemma replicate_8: "replicate 8 x = [x, x, x, x, x, x, x, x]"
  by (simp add: numeral_eq_Suc)

lemma replicate_31: "replicate 31 x = x # replicate 30 x"
  by (simp flip: replicate_Suc)

lemma address_device_input_eq:
  assumes "max_packet_size portsc = Ok mps"
  shows "address_device_input port (Some portsc) ring =
    (if 0 < port \<and> port < 256 then Ok (fresh_device_input port (port_speed portsc) mps ring)
     else err ''port out of range'')"
proof -
  have "psi (port_speed portsc) < 16" using max_packet_size_psi [OF assms] by auto
  moreover have "(0 AND NOT (push_bit 27 0x1F) OR push_bit 27 1) AND NOT (push_bit 20 0xF) OR
      push_bit 20 (psi (port_speed portsc)) = push_bit 27 1 OR push_bit 20 (psi (port_speed portsc))"
    by (simp add: push_bit_eq_mult)
  ultimately show ?thesis
    using assms
    by (simp add: address_device_input_def add_context_def InputControlContext_default_def Let_def
        InputContext_default_def on_device_ctx_def set_root_hub_port_number_def DeviceContext_default_def
        set_last_valid_dci_def set_port_speed_def new_control_endpoint_eq set_ep_ctx_def
        fresh_device_input_def replicate_8 replicate_31)
qed



section \<open>Control requests\<close>

lemma stage_trbs_not_link:
  "\<not> is_link (setup_to_generic (SetupStageTrb_new rt rq v i l))" "\<not> is_link (DataStageTrb_new_in b n)"
  "\<not> is_link StatusStageTrb_new_out" "\<not> is_link StatusStageTrb_new_in"
  by (auto simp: setup_to_generic_def SetupStageTrb_new_def DataStageTrb_new_in_def StatusStageTrb_new_out_def
      StatusStageTrb_new_in_def type_field_def Let_def CTRL_BIT_IMMEDIATE_DATA_def CTRL_BIT_DATA_DIR_IN_def
      CTRL_BIT_INTERRUPT_ON_COMPLETION_def CTRL_BIT_INTERRUPT_ON_SHORT_PACKET_def)

lemma push_three:
  assumes "cmd_inv ring" "\<not> is_link a" "\<not> is_link b" "\<not> is_link c"
  shows "\<exists>p0 r0 p1 r1 p2 r2. cmd_push ring a = Ok (p0, r0) \<and> cmd_push r0 b = Ok (p1, r1) \<and>
    cmd_push r1 c = Ok (p2, r2) \<and> cmd_inv r0 \<and> cmd_inv r1 \<and> cmd_inv r2"
  using cmdq.put_law assms by metis

lemma ev_pop_waiters:
  "ev_pop s = Ok (r, s1) \<Longrightarrow> waiters s1 = waiters s \<and> wait_list s1 = wait_list s"
  by (auto simp: ev_pop_def split: if_splits option.splits)

text \<open>A waiter on an address gets exactly the next event that carries it.\<close>

lemma new_waiter_gets_event:
  assumes "waiters s k = None" "k \<notin> set (wait_list s)"
    and "ev_pop (EventFuture_new_for_trb s k p) = Ok (Some e, s1)"
  shows "\<exists>s2. ev_poll (EventFuture_new_for_trb s k p) = Ok s2 \<and>
    fst (EventFuture_poll s2 k) = (if trb_data e = p then Some e else None)"
proof -
  let ?w = "\<lparr> wait_cond = \<lparr> cond_trb_type = None, cond_trb_addr = Some p, cond_slot = None \<rparr>, wait_trbs = [] \<rparr>"
  have w: "waiters s1 k = Some ?w" "count_list (wait_list s1) k = 1"
    using ev_pop_waiters [OF assms(3)] assms(2)
    by (simp_all add: EventFuture_new_for_trb_def EventFuture_new_def register_waiter_def)
  have c: "cond_holds (wait_cond ?w) e \<longleftrightarrow> trb_data e = p" by (auto simp: cond_holds_def)
  from ev_poll_deliver [OF assms(3)] obtain s2 where s2: "ev_poll (EventFuture_new_for_trb s k p) = Ok s2"
    "waiters s2 k = map_option (\<lambda>w. if cond_holds (wait_cond w) e
       then w\<lparr>wait_trbs := wait_trbs w @ replicate (count_list (wait_list s1) k) e\<rparr> else w) (waiters s1 k)"
    by blast
  show ?thesis using s2 w c by (auto simp: EventFuture_poll_def)
qed

text \<open>
  A request for a descriptor on a well-formed transfer ring and a slot that has a doorbell never
  fails: it queues the setup, data and status blocks of a control read in this order, rings the
  doorbell of its slot once for the control endpoint, and is completed by the first event that
  carries the address of its data block, and by no other.\<close>

theorem request_descriptor_completes:
  assumes "cmd_inv ring" "unat slot < length (doorbell_ptrs (xhc_regs xhc))"
    and "waiters (primary_event_ring xhc) k = None" "k \<notin> set (wait_list (primary_event_ring xhc))"
  shows "\<exists>p0 p1 p2 ring' xhc'.
    request_descriptor k slot ring ty i lang b n xhc = Ok (p1, ring', xhc') \<and> cmd_inv ring' \<and>
    cmd_push_all ring
      [setup_to_generic (SetupStageTrb_new 0x80 6 (push_bit 8 (ucast (descriptor_type_value ty)) OR ucast i) lang (word_of_nat n)),
       DataStageTrb_new_in b n, StatusStageTrb_new_out] = Ok ([p0, p1, p2], ring') \<and>
    doorbell_log xhc' = doorbell_log xhc @ [(doorbell_ptrs (xhc_regs xhc) ! unat slot, 1)] \<and>
    (\<forall>e s1. ev_pop (primary_event_ring xhc') = Ok (Some e, s1) \<longrightarrow>
       (\<exists>s2. ev_poll (primary_event_ring xhc') = Ok s2 \<and>
          fst (EventFuture_poll s2 k) = (if trb_data e = p1 then Some e else None)))"
proof -
  let ?stp = "SetupStageTrb_new 0x80 6 (push_bit 8 (ucast (descriptor_type_value ty)) OR ucast i) lang (word_of_nat n)"
  obtain p0 r0 p1 r1 p2 r2 where push: "cmd_push ring (setup_to_generic ?stp) = Ok (p0, r0)"
    "cmd_push r0 (DataStageTrb_new_in b n) = Ok (p1, r1)" "cmd_push r1 StatusStageTrb_new_out = Ok (p2, r2)"
    "cmd_inv r2"
    using push_three [OF assms(1) stage_trbs_not_link(1,2,3)] by blast
  let ?x = "ring_doorbell (unat slot) 1 0 xhc"
  have ne: "notify_ep slot 1 xhc = Ok ?x" using assms(2) by (simp add: notify_ep_def)
  have c: "REQ_TYPE_DIR_DEVICE_TO_HOST = 0x80" "REQ_GET_DESCRIPTOR = 6"
    by (simp_all add: REQ_TYPE_DIR_DEVICE_TO_HOST_def REQ_GET_DESCRIPTOR_def push_bit_eq_mult)
  have "request_descriptor k slot ring ty i lang b n xhc = Ok (p1, r2, wait_for_trb k p1 ?x)"
    using push ne by (simp add: request_descriptor_def control_in_def c)
  moreover have "doorbell_value 1 0 = 1" by (simp add: doorbell_value_def)
  moreover have "primary_event_ring (wait_for_trb k p1 ?x) = EventFuture_new_for_trb (primary_event_ring xhc) k p1"
    by (simp add: wait_for_trb_def ring_doorbell_def)
  ultimately show ?thesis
    using push new_waiter_gets_event [OF assms(3,4), of p1]
    by (auto simp: wait_for_trb_def ring_doorbell_def)
qed

definition sample_op :: OperationalRegisters where
  "sample_op = \<lparr> usbcmd = 0, usbsts = 1, pagesize = 1, dnctrl = 0, crcr = 0, dcbaap = 0, op_config = 0 \<rparr>"

definition sample_xhc :: "CommandRing \<Rightarrow> EventRing \<Rightarrow> Controller" where
  "sample_xhc cr ev =
     \<lparr> xhc_regs = setup_xhc_registers 0xC0000000 sample_cap, cap_regs = sample_cap, op_regs = sample_op, irs = [],
       doorbell_log = [], device_context_base_array = DeviceContextBaseAddressArray_new 0,
       primary_event_ring = ev, command_ring = cr,
       boxes = \<lparr> event_ring_box = 0x9000, erst_box = 0xA000, command_ring_box = 0x8000, dcbaa_box = 0xB000 \<rparr> \<rparr>"

lemma sample_cap_ports: "num_of_ports sample_cap = 8"
  by (simp add: num_of_ports_def sample_cap_def extract_bits_def)

lemma sample_doorbells: "length (doorbell_ptrs (xhc_regs (sample_xhc cr ev))) = 9"
  by (simp add: sample_xhc_def setup_xhc_registers_def sample_cap_ports)

theorem request_descriptor_completes_witness:
  "\<exists>ring ev p1 ring' xhc'. CommandRing_default 0x8000 = Ok ring \<and> EventRing_new 0x9000 = Ok ev \<and>
     request_descriptor 7 1 ring TDevice 0 0 0x5000 18 (sample_xhc ring ev) = Ok (p1, ring', xhc') \<and>
     length (doorbell_log xhc') = 1"
proof -
  obtain ring where r: "CommandRing_default 0x8000 = Ok ring" "cmd_inv ring"
    using CommandRing_default_inv by blast
  obtain ev where ev: "EventRing_new 0x9000 = Ok ev" "waiters ev 7 = None" "7 \<notin> set (wait_list ev)"
    by (simp add: EventRing_new_def ERST_new_def Let_def NUM_TRB_def)
  have "unat (1 :: u8) < length (doorbell_ptrs (xhc_regs (sample_xhc ring ev)))"
    by (simp add: sample_doorbells)
  from request_descriptor_completes [OF r(2) this, of 7 TDevice 0 0 "0x5000" 18] r ev
  show ?thesis by (fastforce simp: sample_xhc_def)
qed

text \<open>
  The doorbells are counted by ports, not by device slots: a slot that the controller may assign but
  whose number exceeds the number of ports has none.\<close>

theorem slot_beyond_ports_has_no_doorbell:
  assumes "xhc_regs xhc = setup_xhc_registers bar cap" "num_of_ports cap < unat slot"
  shows "notify_ep slot dci xhc = err ''invalid slot''"
  using assms by (simp add: notify_ep_def setup_xhc_registers_def del: upt_Suc)

end
