(* ===== verification/Interrupts.thy ===== *)
theory Interrupts
  imports Rust_Prelude
begin

text \<open>
  Interrupt handling of \<open>src/x86.rs\<close>: the saved context, the assembly of the entry points and of
  \<open>inthandler_common\<close> as instruction lists with their effect on the processor, \<open>inthandler\<close> itself,
  and the interrupt descriptor table. The delivery of an interrupt by the processor (stack switch,
  alignment, pushed frame) and the meaning of a gate are the processor's manual; what compiled code
  may change across a call is the calling convention, a parameter.
\<close>

section \<open>The saved context\<close>

datatype Reg = RAX | RDX | RBX | RBP | RSI | RDI | R8 | R9 | R10 | R11 | R12 | R13 | R14 | R15 | RCX | RSP

record GeneralRegisterContext =
  greg_rax :: u64
  greg_rdx :: u64
  greg_rbx :: u64
  greg_rbp :: u64
  greg_rsi :: u64
  greg_rdi :: u64
  greg_r8 :: u64
  greg_r9 :: u64
  greg_r10 :: u64
  greg_r11 :: u64
  greg_r12 :: u64
  greg_r13 :: u64
  greg_r14 :: u64
  greg_r15 :: u64
  greg_rcx :: u64

record InterruptContext =
  ctx_rip :: u64
  ctx_cs :: u64
  ctx_rflags :: u64
  ctx_rsp :: u64
  ctx_ss :: u64

text \<open>The FPU image (\<open>FPUContenxt\<close>, 512 bytes) is seen as 64 quadwords.\<close>

record InterruptInfo =
  fpu_context :: "u64 list"
  info_dummy :: u64
  greg :: GeneralRegisterContext
  error_code :: u64
  ctx :: InterruptContext

definition read_greg :: "(u64 \<Rightarrow> u64) \<Rightarrow> u64 \<Rightarrow> GeneralRegisterContext" where
  "read_greg m p =
     \<lparr> greg_rax = m p, greg_rdx = m (p + 8), greg_rbx = m (p + 16), greg_rbp = m (p + 24),
       greg_rsi = m (p + 32), greg_rdi = m (p + 40), greg_r8 = m (p + 48), greg_r9 = m (p + 56),
       greg_r10 = m (p + 64), greg_r11 = m (p + 72), greg_r12 = m (p + 80), greg_r13 = m (p + 88),
       greg_r14 = m (p + 96), greg_r15 = m (p + 104), greg_rcx = m (p + 112) \<rparr>"

definition read_ctx :: "(u64 \<Rightarrow> u64) \<Rightarrow> u64 \<Rightarrow> InterruptContext" where
  "read_ctx m p =
     \<lparr> ctx_rip = m p, ctx_cs = m (p + 8), ctx_rflags = m (p + 16), ctx_rsp = m (p + 24), ctx_ss = m (p + 32) \<rparr>"

definition read_info :: "(u64 \<Rightarrow> u64) \<Rightarrow> u64 \<Rightarrow> InterruptInfo" where
  "read_info m p =
     \<lparr> fpu_context = map (\<lambda>i. m (p + word_of_nat (8 * i))) [0..<64], info_dummy = m (p + 512),
       greg = read_greg m (p + 520), error_code = m (p + 640), ctx = read_ctx m (p + 648) \<rparr>"

section \<open>The processor\<close>

text \<open>
  Memory is seen through its aligned quadwords, which is how this code uses it: delivery aligns the
  stack, and every step from there is a multiple of 8. The instruction pointer is followed across
  delivery and return only.
\<close>

record Cpu =
  gpr :: "Reg \<Rightarrow> u64"
  rip :: u64
  code_seg :: u64
  rflags :: u64
  stack_seg :: u64
  fpu :: "u64 list"
  qword :: "u64 \<Rightarrow> u64"

datatype Instr =
    Push Reg | PushImm u64 | Pop Reg | Mov Reg Reg | MovImm Reg u64
  | SubImm Reg u64 | AddImm Reg u64 | AndImm Reg u64 | Fxsave Reg | Fxrstor Reg | CallInthandler | Iretq

definition push_q :: "u64 \<Rightarrow> Cpu \<Rightarrow> Cpu" where
  "push_q v c = c\<lparr>gpr := (gpr c)(RSP := gpr c RSP - 8), qword := (qword c)(gpr c RSP - 8 := v)\<rparr>"

definition store_fpu :: "u64 \<Rightarrow> u64 list \<Rightarrow> (u64 \<Rightarrow> u64) \<Rightarrow> u64 \<Rightarrow> u64" where
  "store_fpu p f m a = (let off = unat (a - p) in if off < 512 \<and> off mod 8 = 0 then f ! (off div 8) else m a)"

text \<open>
  \<open>fl\<close> gives the flags that an arithmetic instruction leaves, \<open>h\<close> is the call of \<open>inthandler\<close>.
  The FPU image must lie at a multiple of 16.
\<close>

fun exec_instr :: "(Instr \<Rightarrow> Cpu \<Rightarrow> u64) \<Rightarrow> (Cpu \<Rightarrow> Cpu res) \<Rightarrow> Instr \<Rightarrow> Cpu \<Rightarrow> Cpu res" where
  "exec_instr fl h (Push r) c = Ok (push_q (gpr c r) c)"
| "exec_instr fl h (PushImm v) c = Ok (push_q v c)"
| "exec_instr fl h (Pop r) c =
     Ok (c\<lparr>gpr := (gpr c)(RSP := gpr c RSP + 8, r := qword c (gpr c RSP))\<rparr>)"
| "exec_instr fl h (Mov d s) c = Ok (c\<lparr>gpr := (gpr c)(d := gpr c s)\<rparr>)"
| "exec_instr fl h (MovImm d v) c = Ok (c\<lparr>gpr := (gpr c)(d := v)\<rparr>)"
| "exec_instr fl h (SubImm d v) c =
     Ok (c\<lparr>gpr := (gpr c)(d := gpr c d - v), rflags := fl (SubImm d v) c\<rparr>)"
| "exec_instr fl h (AddImm d v) c =
     Ok (c\<lparr>gpr := (gpr c)(d := gpr c d + v), rflags := fl (AddImm d v) c\<rparr>)"
| "exec_instr fl h (AndImm d v) c =
     Ok (c\<lparr>gpr := (gpr c)(d := gpr c d AND v), rflags := fl (AndImm d v) c\<rparr>)"
| "exec_instr fl h (Fxsave r) c =
     (if gpr c r AND 15 \<noteq> 0 then panic ''general protection''
      else Ok (c\<lparr>qword := store_fpu (gpr c r) (fpu c) (qword c)\<rparr>))"
| "exec_instr fl h (Fxrstor r) c =
     (if gpr c r AND 15 \<noteq> 0 then panic ''general protection''
      else Ok (c\<lparr>fpu := map (\<lambda>i. qword c (gpr c r + word_of_nat (8 * i))) [0..<64]\<rparr>))"
| "exec_instr fl h CallInthandler c = h c"
| "exec_instr fl h Iretq c =
     (let f = read_ctx (qword c) (gpr c RSP) in
      Ok (c\<lparr>rip := ctx_rip f, code_seg := ctx_cs f, rflags := ctx_rflags f, stack_seg := ctx_ss f,
            gpr := (gpr c)(RSP := ctx_rsp f)\<rparr>))"

fun run_instrs :: "(Instr \<Rightarrow> Cpu \<Rightarrow> u64) \<Rightarrow> (Cpu \<Rightarrow> Cpu res) \<Rightarrow> Instr list \<Rightarrow> Cpu \<Rightarrow> Cpu res" where
  "run_instrs fl h [] c = Ok c"
| "run_instrs fl h (i # is) c = rbind (exec_instr fl h i c) (run_instrs fl h is)"

section \<open>The assembly\<close>

text \<open>The macros \<open>interrupt_entrypoint!\<close> and \<open>interrupt_entrypoint_with_ecode!\<close>.\<close>

definition interrupt_entrypoint :: "u64 \<Rightarrow> Instr list" where
  "interrupt_entrypoint index = [PushImm 0, Push RCX, MovImm RCX index]"

definition interrupt_entrypoint_with_ecode :: "u64 \<Rightarrow> Instr list" where
  "interrupt_entrypoint_with_ecode index = [Push RCX, MovImm RCX index]"

definition inthandler_common :: "Instr list" where
  "inthandler_common =
     [Push R15, Push R14, Push R13, Push R12, Push R11, Push R10, Push R9, Push R8,
      Push RDI, Push RSI, Push RBP, Push RBX, Push RDX, Push RAX,
      SubImm RSP (512 + 8), Fxsave RSP,
      Mov RDI RSP,
      Mov RBP RSP, AndImm RSP (- 16),
      Mov RSI RCX,
      CallInthandler,
      Mov RSP RBP,
      Fxrstor RSP, AddImm RSP (512 + 8),
      Pop RAX, Pop RDX, Pop RBX, Pop RBP, Pop RSI, Pop RDI, Pop R8, Pop R9,
      Pop R10, Pop R11, Pop R12, Pop R13, Pop R14, Pop R15,
      Pop RCX, AddImm RSP 8, Iretq]"

section \<open>The handler\<close>

text \<open>The cause of a page fault as \<open>inthandler\<close> reports it: mode, access, page, page structures.\<close>

definition page_fault_cause :: "u64 \<Rightarrow> string \<times> string \<times> string \<times> string" where
  "page_fault_cause e =
     (if e AND 0b00000100 \<noteq> 0 then ''user'' else ''supervisor'',
      if e AND 0b00010000 \<noteq> 0 then ''instruction fetch''
      else if e AND 0b0010 \<noteq> 0 then ''data write'' else ''data read'',
      if e AND 0b0001 \<noteq> 0 then ''present'' else ''non-present'',
      if e AND 0b1000 \<noteq> 0 then ''invalid'' else ''valid'')"

text \<open>\<open>inthandler\<close>, without its messages: a breakpoint returns, everything else is fatal.\<close>

definition inthandler :: "InterruptInfo \<Rightarrow> nat \<Rightarrow> unit res" where
  "inthandler info index = (if index = 3 then Ok () else panic ''fatal exception'')"

text \<open>
  A call of a compiled handler: \<open>body\<close> is what it does, \<open>clobber\<close> what the compiled code leaves in
  the registers and in memory. The calling convention keeps the callee-saved registers, and the
  context is borrowed immutably.
\<close>

definition call_handler :: "(InterruptInfo \<Rightarrow> nat \<Rightarrow> unit res) \<Rightarrow> (Cpu \<Rightarrow> Cpu) \<Rightarrow> Cpu \<Rightarrow> Cpu res" where
  "call_handler body clobber c =
     rbind (body (read_info (qword c) (gpr c RDI)) (unat (gpr c RSI))) (\<lambda>_. Ok (clobber c))"

definition sysv64_abi :: "(Cpu \<Rightarrow> Cpu) \<Rightarrow> bool" where
  "sysv64_abi clobber \<longleftrightarrow>
     (\<forall>c. (\<forall>r \<in> {RSP, RBX, RBP, R12, R13, R14, R15}. gpr (clobber c) r = gpr c r) \<and>
        (\<forall>i < 86. qword (clobber c) (gpr c RDI + word_of_nat (8 * i)) = qword c (gpr c RDI + word_of_nat (8 * i))))"

section \<open>The interrupt descriptor table\<close>

definition BIT_FLAGS_INTGATE :: u8 where "BIT_FLAGS_INTGATE = 0b00001110"
definition BIT_FLAGS_PRESENT :: u8 where "BIT_FLAGS_PRESENT = 0b10000000"
definition BIT_FLAGS_DPL0 :: u8 where "BIT_FLAGS_DPL0 = push_bit 5 0"
definition BIT_FLAGS_DPL3 :: u8 where "BIT_FLAGS_DPL3 = push_bit 5 3"

datatype IdtAttr = NotPresentGate | IntGateDPL0 | IntGateDPL3

fun idt_attr_value :: "IdtAttr \<Rightarrow> u8" where
  "idt_attr_value NotPresentGate = 0"
| "idt_attr_value IntGateDPL0 = BIT_FLAGS_INTGATE OR BIT_FLAGS_PRESENT OR BIT_FLAGS_DPL0"
| "idt_attr_value IntGateDPL3 = BIT_FLAGS_INTGATE OR BIT_FLAGS_PRESENT OR BIT_FLAGS_DPL3"

record IdtDescriptor =
  offset_low :: u16
  segment_selector :: u16
  ist_index :: u8
  idt_attr :: IdtAttr
  offset_mid :: u16
  offset_high :: u32
  idt_reserved :: u32

definition IdtDescriptor_new :: "u16 \<Rightarrow> u8 \<Rightarrow> IdtAttr \<Rightarrow> u64 \<Rightarrow> IdtDescriptor" where
  "IdtDescriptor_new selector ist attribute handler_addr =
     \<lparr> offset_low = ucast handler_addr, segment_selector = selector, ist_index = ist,
       idt_attr = attribute, offset_mid = ucast (drop_bit 16 handler_addr),
       offset_high = ucast (drop_bit 32 handler_addr), idt_reserved = 0 \<rparr>"

text \<open>The functions a gate can lead to; where the linker puts them is a parameter.\<close>

datatype HandlerFn = Unimplemented | Entrypoint3 | Entrypoint6 | Entrypoint8 | Entrypoint13 | Entrypoint14 | Entrypoint32

definition Idt_new :: "(HandlerFn \<Rightarrow> u64) \<Rightarrow> u16 \<Rightarrow> IdtDescriptor list" where
  "Idt_new fn_addr selector =
     (replicate 0x100 (IdtDescriptor_new selector 1 IntGateDPL0 (fn_addr Unimplemented)))
       [3 := IdtDescriptor_new selector 1 IntGateDPL3 (fn_addr Entrypoint3),
        6 := IdtDescriptor_new selector 1 IntGateDPL0 (fn_addr Entrypoint6),
        8 := IdtDescriptor_new selector 2 IntGateDPL0 (fn_addr Entrypoint8),
        13 := IdtDescriptor_new selector 1 IntGateDPL0 (fn_addr Entrypoint13),
        14 := IdtDescriptor_new selector 1 IntGateDPL0 (fn_addr Entrypoint14),
        32 := IdtDescriptor_new selector 1 IntGateDPL0 (fn_addr Entrypoint32)]"

section \<open>Delivery by the processor\<close>

definition gate_offset :: "IdtDescriptor \<Rightarrow> u64" where
  "gate_offset d = ucast (offset_low d) OR push_bit 16 (ucast (offset_mid d)) OR push_bit 32 (ucast (offset_high d))"

definition gate_present :: "IdtDescriptor \<Rightarrow> bool" where
  "gate_present d = bit (idt_attr_value (idt_attr d)) 7"

definition gate_dpl :: "IdtDescriptor \<Rightarrow> u8" where
  "gate_dpl d = drop_bit 5 (idt_attr_value (idt_attr d)) AND 3"

definition gate_type :: "IdtDescriptor \<Rightarrow> u8" where
  "gate_type d = idt_attr_value (idt_attr d) AND 0xF"

text \<open>
  A gate with stack index \<open>k\<close> switches to the stack of that index in the task state segment, aligns
  it to 16 bytes and pushes the interrupted context, and the error code of an exception that has one.
\<close>

definition deliver :: "u64 \<Rightarrow> u64 option \<Rightarrow> IdtDescriptor \<Rightarrow> Cpu \<Rightarrow> Cpu" where
  "deliver stack_top ecode d c =
     (let c0 = c\<lparr>gpr := (gpr c)(RSP := stack_top AND NOT 15)\<rparr>;
          c1 = push_q (rip c) (push_q (code_seg c) (push_q (rflags c) (push_q (gpr c RSP) (push_q (stack_seg c) c0))));
          c2 = (case ecode of None \<Rightarrow> c1 | Some e \<Rightarrow> push_q e c1)
      in c2\<lparr>rip := gate_offset d, code_seg := ucast (segment_selector d), rflags := rflags c AND NOT 0x34300\<rparr>)"

definition entry_code :: "HandlerFn \<Rightarrow> Instr list option" where
  "entry_code f = (case f of
     Unimplemented \<Rightarrow> None
   | Entrypoint3 \<Rightarrow> Some (interrupt_entrypoint 3)
   | Entrypoint6 \<Rightarrow> Some (interrupt_entrypoint 6)
   | Entrypoint8 \<Rightarrow> Some (interrupt_entrypoint_with_ecode 8)
   | Entrypoint13 \<Rightarrow> Some (interrupt_entrypoint_with_ecode 13)
   | Entrypoint14 \<Rightarrow> Some (interrupt_entrypoint_with_ecode 14)
   | Entrypoint32 \<Rightarrow> Some (interrupt_entrypoint 32))"

text \<open>
  Interrupt \<open>index\<close> through a table: the gate's stack, the code at its address, and from there
  \<open>inthandler_common\<close>. \<open>Unimplemented\<close> is \<open>int_handler_unimplemented\<close>, which panics.
\<close>

definition take_interrupt ::
  "(HandlerFn \<Rightarrow> u64) \<Rightarrow> (Instr \<Rightarrow> Cpu \<Rightarrow> u64) \<Rightarrow> (Cpu \<Rightarrow> Cpu res) \<Rightarrow> u64 list \<Rightarrow> IdtDescriptor list \<Rightarrow>
   nat \<Rightarrow> u64 option \<Rightarrow> Cpu \<Rightarrow> Cpu res" where
  "take_interrupt fn_addr fl h ist idt index ecode c =
     (let d = idt ! index;
          target = find (\<lambda>f. fn_addr f = gate_offset d)
            [Unimplemented, Entrypoint3, Entrypoint6, Entrypoint8, Entrypoint13, Entrypoint14, Entrypoint32] in
      if \<not> gate_present d then panic ''segment not present''
      else case target of
        None \<Rightarrow> Inl UB
      | Some f \<Rightarrow> (case entry_code f of
            None \<Rightarrow> panic ''unexpected interrupt!''
          | Some entry \<Rightarrow>
              run_instrs fl h (entry @ inthandler_common) (deliver (ist ! unat (ist_index d)) ecode d c)))"

text \<open>Which vectors come with an error code.\<close>

definition has_ecode :: "nat \<Rightarrow> bool" where
  "has_ecode index \<longleftrightarrow> index \<in> {8, 10, 11, 12, 13, 14, 17, 21, 29, 30}"

end
