(* ===== verification/Interrupt_Frame.thy ===== *)
theory Interrupt_Frame
  imports Interrupts
begin

text \<open>
  What the interrupt path of \<open>src/x86.rs\<close> guarantees: the stack seen as a list of quadwords and its
  laws for pushes and pops, the exactness of the context that \<open>inthandler\<close> gets, the resumption of
  the interrupted program, and the meaning of the interrupt descriptor table.
\<close>

section \<open>The stack as a list\<close>

definition stack_at :: "(u64 \<Rightarrow> u64) \<Rightarrow> u64 \<Rightarrow> u64 list \<Rightarrow> bool" where
  "stack_at m p vs \<longleftrightarrow> (\<forall>i < length vs. m (p + word_of_nat (8 * i)) = vs ! i)"

lemma stack_at_Nil [simp]: "stack_at m p []"
  by (simp add: stack_at_def)

lemma stack_at_Cons: "stack_at m p (v # vs) \<longleftrightarrow> m p = v \<and> stack_at m (p + 8) vs"
  by (auto simp: stack_at_def nth_Cons' less_Suc_eq_0_disj algebra_simps)

lemma stack_at_append:
  "stack_at m p (vs @ ws) \<longleftrightarrow> stack_at m p vs \<and> stack_at m (p + word_of_nat (8 * length vs)) ws"
  by (induction vs arbitrary: p) (auto simp: stack_at_Cons algebra_simps)

lemma stack_at_upd:
  assumes "stack_at m p vs" "8 * length vs + 8 \<le> 2 ^ 64"
  shows "stack_at (m(p - 8 := v)) p vs"
proof -
  have "p + word_of_nat (8 * i) \<noteq> p - 8" if "i < length vs" for i
  proof
    assume "p + word_of_nat (8 * i) = p - 8"
    then have "word_of_nat (8 * i) + 8 = (0 :: u64)" by (simp add: algebra_simps)
    then have "(word_of_nat (8 * i + 8) :: u64) = 0" by simp
    then have "2 ^ LENGTH(64) dvd 8 * i + 8" by (simp only: word_of_nat_eq_0_iff)
    then have "2 ^ 64 dvd 8 * i + 8" by simp
    with that assms(2) have "8 * i + 8 = 0 \<or> 2 ^ 64 \<le> 8 * i + 8" by (auto dest: dvd_imp_le)
    with that assms(2) show False by simp
  qed
  with assms(1) show ?thesis by (auto simp: stack_at_def)
qed

lemma stack_at_push:
  assumes "stack_at (qword c) (gpr c RSP) vs" "8 * length vs + 8 \<le> 2 ^ 64"
  shows "stack_at (qword (push_q v c)) (gpr (push_q v c) RSP) (v # vs)"
  using stack_at_upd [OF assms] by (simp add: push_q_def stack_at_Cons)

lemma push_q_simps [simp]:
  "gpr (push_q v c) = (gpr c)(RSP := gpr c RSP - 8)"
  "rip (push_q v c) = rip c" "code_seg (push_q v c) = code_seg c" "rflags (push_q v c) = rflags c"
  "stack_seg (push_q v c) = stack_seg c" "fpu (push_q v c) = fpu c"
  by (simp_all add: push_q_def)

lemma run_append:
  "run_instrs fl h (P @ Q) c = rbind (run_instrs fl h P c) (run_instrs fl h Q)"
  by (induction P arbitrary: c) (simp_all add: rbind_def split: sum.split)

lemma run_pushes:
  assumes "RSP \<notin> set rs" "stack_at (qword c) (gpr c RSP) vs" "8 * (length rs + length vs) \<le> 2 ^ 64"
  shows "\<exists>m. run_instrs fl h (map Push rs) c =
      Ok (c\<lparr>gpr := (gpr c)(RSP := gpr c RSP - word_of_nat (8 * length rs)), qword := m\<rparr>) \<and>
    stack_at m (gpr c RSP - word_of_nat (8 * length rs)) (rev (map (gpr c) rs) @ vs)"
  using assms
proof (induction rs arbitrary: c vs)
  case Nil
  then show ?case by (intro exI [of _ "qword c"]) simp
next
  case (Cons r rs)
  let ?c = "push_q (gpr c r) c"
  from Cons.prems have "8 * length vs + 8 \<le> 2 ^ 64" by simp
  from stack_at_push [OF Cons.prems(2) this]
  have s: "stack_at (qword ?c) (gpr ?c RSP) (gpr c r # vs)" .
  from Cons.prems have "RSP \<notin> set rs" "8 * (length rs + length (gpr c r # vs)) \<le> 2 ^ 64" by simp_all
  from Cons.IH [OF this(1) s this(2)] obtain m where
    m: "run_instrs fl h (map Push rs) ?c =
        Ok (?c\<lparr>gpr := (gpr ?c)(RSP := gpr ?c RSP - word_of_nat (8 * length rs)), qword := m\<rparr>)"
      "stack_at m (gpr ?c RSP - word_of_nat (8 * length rs)) (rev (map (gpr ?c) rs) @ gpr c r # vs)"
    by blast
  have a: "gpr ?c RSP - word_of_nat (8 * length rs) = gpr c RSP - word_of_nat (8 * length (r # rs))"
    by (simp add: algebra_simps)
  have mm: "map (gpr ?c) rs = map (gpr c) rs" using Cons.prems(1) by auto
  have "stack_at m (gpr c RSP - word_of_nat (8 * length (r # rs))) (rev (map (gpr c) (r # rs)) @ vs)"
    using m(2) unfolding mm a by simp
  moreover have "run_instrs fl h (map Push (r # rs)) c =
      Ok (c\<lparr>gpr := (gpr c)(RSP := gpr c RSP - word_of_nat (8 * length (r # rs))), qword := m\<rparr>)"
    using m(1) unfolding a by (simp add: push_q_def)
  ultimately show ?case by blast
qed

fun load_regs :: "Reg list \<Rightarrow> u64 list \<Rightarrow> (Reg \<Rightarrow> u64) \<Rightarrow> Reg \<Rightarrow> u64" where
  "load_regs (r # rs) (v # vs) g = load_regs rs vs (g(r := v))"
| "load_regs _ _ g = g"

lemma load_regs_other: "r \<notin> set rs \<Longrightarrow> load_regs rs vs g r = g r"
  by (induction rs vs g rule: load_regs.induct) auto

lemma load_regs_upd:
  "r \<notin> set rs \<Longrightarrow> load_regs rs vs (g(r := v)) = (load_regs rs vs g)(r := v)"
  by (induction rs vs g rule: load_regs.induct) (auto simp: fun_upd_twist)

lemma run_pops:
  assumes "RSP \<notin> set rs" "stack_at (qword c) (gpr c RSP) (vs @ ws)" "length vs = length rs"
  shows "run_instrs fl h (map Pop rs) c =
    Ok (c\<lparr>gpr := (load_regs rs vs (gpr c))(RSP := gpr c RSP + word_of_nat (8 * length rs))\<rparr>)"
  using assms
proof (induction rs arbitrary: c vs)
  case Nil
  then show ?case by (simp add: fun_upd_idem)
next
  case (Cons r rs)
  then obtain v us where vs: "vs = v # us" by (cases vs) auto
  let ?c = "c\<lparr>gpr := (gpr c)(RSP := gpr c RSP + 8, r := v)\<rparr>"
  have "r \<noteq> RSP" "RSP \<notin> set rs" using Cons.prems(1) by auto
  with Cons.prems vs have "stack_at (qword ?c) (gpr ?c RSP) (us @ ws)" "length us = length rs"
    by (auto simp: stack_at_Cons)
  from Cons.IH [OF \<open>RSP \<notin> set rs\<close> this]
  have "run_instrs fl h (map Pop rs) ?c =
    Ok (?c\<lparr>gpr := (load_regs rs us (gpr ?c))(RSP := gpr ?c RSP + word_of_nat (8 * length rs))\<rparr>)" .
  moreover have "(load_regs rs us (gpr ?c))(RSP := gpr ?c RSP + word_of_nat (8 * length rs)) =
      (load_regs (r # rs) vs (gpr c))(RSP := gpr c RSP + word_of_nat (8 * length (r # rs)))" (is "?g = ?g'")
  proof
    fix x
    have "load_regs rs us (gpr ?c) = (load_regs rs us ((gpr c)(r := v)))(RSP := gpr c RSP + 8)"
      using \<open>r \<noteq> RSP\<close> \<open>RSP \<notin> set rs\<close> by (simp add: load_regs_upd [symmetric] fun_upd_twist)
    with \<open>r \<noteq> RSP\<close> vs show "?g x = ?g' x" by (simp add: algebra_simps)
  qed
  moreover have "exec_instr fl h (Pop r) c = Ok ?c"
    using Cons.prems(2) vs by (simp add: stack_at_Cons)
  moreover have "?c\<lparr>gpr := g\<rparr> = c\<lparr>gpr := g\<rparr>" for g by simp
  ultimately show ?case by (simp only: list.map run_instrs.simps rbind_simps)
qed

section \<open>The frame of an interrupt\<close>

lemma aligned_16: "(a AND NOT 15) - 688 AND 15 = (0 :: u64)"
proof -
  have m: "(15 :: u64) = mask 4" by (simp add: mask_eq_exp_minus_1)
  have "a AND NOT 15 = push_bit 4 (drop_bit 4 a)"
    unfolding m by (rule bit_word_eqI) (auto simp: bit_simps)
  then have "(a AND NOT 15) - 688 = push_bit 4 (drop_bit 4 a - 43)"
    by (simp add: push_bit_eq_mult algebra_simps)
  moreover have "push_bit 4 z AND 15 = (0 :: u64)" for z
    unfolding m by (rule bit_word_eqI) (auto simp: bit_simps)
  ultimately show ?thesis by simp
qed

lemma and_minus_16: "q AND 15 = 0 \<Longrightarrow> q AND - 16 = (q :: u64)"
proof -
  assume "q AND 15 = 0"
  have "(- 16 :: u64) = NOT 15" by simp
  then have "q AND - 16 OR q AND 15 = q" by (auto simp: bit_eq_iff bit_simps)
  with \<open>q AND 15 = 0\<close> show ?thesis by simp
qed

lemma store_fpu_stack:
  assumes "length f = 64" "stack_at m (p + 512) vs" "8 * length vs + 512 \<le> 2 ^ 64"
  shows "stack_at (store_fpu p f m) p (f @ vs)"
proof -
  have "store_fpu p f m (p + word_of_nat (8 * i)) = (f @ vs) ! i" if "i < length (f @ vs)" for i
  proof -
    have "unat (word_of_nat (8 * i) :: u64) = 8 * i"
      using that assms(1,3) by (simp only: unat_of_nat) simp
    then have "unat (p + word_of_nat (8 * i) - p) = 8 * i" by (simp only: add_diff_cancel_left')
    moreover have "m (p + word_of_nat (8 * i)) = vs ! (i - 64)" if "64 \<le> i"
    proof -
      from that obtain j where j: "i = 64 + j" using le_Suc_ex by blast
      with \<open>i < length (f @ vs)\<close> assms(1) have "j < length vs" by simp
      with assms(2) have "m (p + 512 + word_of_nat (8 * j)) = vs ! j" by (simp add: stack_at_def)
      with j show ?thesis by (simp add: add.assoc)
    qed
    ultimately show ?thesis using assms(1) by (auto simp: store_fpu_def nth_append)
  qed
  then show ?thesis by (simp add: stack_at_def)
qed

definition frame_info :: "Cpu \<Rightarrow> u64 \<Rightarrow> u64 \<Rightarrow> InterruptInfo" where
  "frame_info c ecode dummy =
     \<lparr> fpu_context = fpu c, info_dummy = dummy,
       greg = \<lparr> greg_rax = gpr c RAX, greg_rdx = gpr c RDX, greg_rbx = gpr c RBX, greg_rbp = gpr c RBP,
                greg_rsi = gpr c RSI, greg_rdi = gpr c RDI, greg_r8 = gpr c R8, greg_r9 = gpr c R9,
                greg_r10 = gpr c R10, greg_r11 = gpr c R11, greg_r12 = gpr c R12, greg_r13 = gpr c R13,
                greg_r14 = gpr c R14, greg_r15 = gpr c R15, greg_rcx = gpr c RCX \<rparr>,
       error_code = ecode,
       ctx = \<lparr> ctx_rip = rip c, ctx_cs = code_seg c, ctx_rflags = rflags c, ctx_rsp = gpr c RSP, ctx_ss = stack_seg c \<rparr> \<rparr>"

abbreviation saved_regs :: "Reg list" where
  "saved_regs \<equiv> [R15, R14, R13, R12, R11, R10, R9, R8, RDI, RSI, RBP, RBX, RDX, RAX]"

abbreviation context_words :: "Cpu \<Rightarrow> u64 \<Rightarrow> u64 list" where
  "context_words c ecode \<equiv> [gpr c RCX, ecode, rip c, code_seg c, rflags c, gpr c RSP, stack_seg c]"

lemma read_info_stack:
  assumes "length (fpu c) = 64"
    and "stack_at m p (fpu c @ dummy # rev (map (gpr c) saved_regs) @ context_words c ecode)"
  shows "read_info m p = frame_info c ecode dummy"
proof -
  have "map (\<lambda>i. m (p + word_of_nat (8 * i))) [0..<64] = fpu c"
    using assms by (intro nth_equalityI) (auto simp: stack_at_append, auto simp: stack_at_def)
  moreover have "stack_at m (p + 512) (dummy # rev (map (gpr c) saved_regs) @ context_words c ecode)"
    using assms by (simp add: stack_at_append)
  ultimately show ?thesis
    by (simp add: read_info_def read_greg_def read_ctx_def frame_info_def stack_at_Cons add.assoc)
qed

lemma inthandler_common_eq:
  "inthandler_common = map Push saved_regs @
     [SubImm RSP 520, Fxsave RSP, Mov RDI RSP, Mov RBP RSP, AndImm RSP (- 16), Mov RSI RCX, CallInthandler] @
     [Mov RSP RBP, Fxrstor RSP, AddImm RSP 520] @ map Pop (rev saved_regs) @ [Pop RCX, AddImm RSP 8, Iretq]"
  by (simp add: inthandler_common_def)

text \<open>Up to the call: what \<open>inthandler\<close> is called with.\<close>

lemma common_calls_handler:
  assumes "length (fpu c) = 64" "gpr c1 RSP = q + 632" "q AND 15 = 0"
    and "stack_at (qword c1) (q + 632) (context_words c ecode)"
    and "\<forall>r \<in> set saved_regs. gpr c1 r = gpr c r" "fpu c1 = fpu c"
  obtains c2 dummy where
    "run_instrs fl h inthandler_common c1 =
       rbind (h c2) (run_instrs fl h ([Mov RSP RBP, Fxrstor RSP, AddImm RSP 520] @ map Pop (rev saved_regs) @
         [Pop RCX, AddImm RSP 8, Iretq]))"
    "gpr c2 RDI = q" "gpr c2 RBP = q" "gpr c2 RSP = q" "gpr c2 RSI = gpr c1 RCX"
    "stack_at (qword c2) q (fpu c @ dummy # rev (map (gpr c) saved_regs) @ context_words c ecode)"
proof -
  have regs: "map (gpr c1) saved_regs = map (gpr c) saved_regs" using assms(5) by simp
  have pre: "RSP \<notin> set saved_regs" "stack_at (qword c1) (gpr c1 RSP) (context_words c ecode)"
    "8 * (length saved_regs + length (context_words c ecode)) \<le> 2 ^ 64"
    and n: "word_of_nat (8 * length saved_regs) = (112 :: u64)" using assms(2,4) by simp_all
  from run_pushes [OF pre, of fl h, unfolded n] obtain m where
    m0: "run_instrs fl h (map Push saved_regs) c1 =
        Ok (c1\<lparr>gpr := (gpr c1)(RSP := gpr c1 RSP - 112), qword := m\<rparr>)"
      "stack_at m (gpr c1 RSP - 112) (rev (map (gpr c1) saved_regs) @ context_words c ecode)"
    by (elim exE conjE)
  have "gpr c1 RSP - 112 = q + 520" using assms(2) by simp
  note m = m0 [unfolded this regs]
  define m2 where "m2 = store_fpu q (fpu c) m"
  have "stack_at m (q + 512) (m (q + 512) # rev (map (gpr c) saved_regs) @ context_words c ecode)"
    using m(2) by (simp add: stack_at_Cons add.assoc)
  then have s: "stack_at m2 q (fpu c @ m (q + 512) # rev (map (gpr c) saved_regs) @ context_words c ecode)"
    unfolding m2_def using assms(1) by (intro store_fpu_stack) simp_all
  define c2 where "c2 = c1\<lparr>gpr := (gpr c1)(RSP := q, RDI := q, RBP := q, RSI := gpr c1 RCX), qword := m2,
    rflags := fl (AndImm RSP (- 16)) (c1\<lparr>gpr := (gpr c1)(RSP := q, RDI := q, RBP := q), qword := m2,
      rflags := fl (SubImm RSP 520) (c1\<lparr>gpr := (gpr c1)(RSP := q + 520), qword := m\<rparr>)\<rparr>)\<rparr>"
  have c2: "run_instrs fl h [SubImm RSP 520, Fxsave RSP, Mov RDI RSP, Mov RBP RSP, AndImm RSP (- 16), Mov RSI RCX]
        (c1\<lparr>gpr := (gpr c1)(RSP := q + 520), qword := m\<rparr>) = Ok c2"
    using and_minus_16 [OF assms(3)] assms(3,6) by (cases c1) (simp add: m2_def c2_def fun_upd_twist)
  have c2f: "gpr c2 RDI = q" "gpr c2 RBP = q" "gpr c2 RSP = q" "gpr c2 RSI = gpr c1 RCX" "qword c2 = m2"
    by (simp_all add: c2_def)
  have split: "inthandler_common = map Push saved_regs @
      ([SubImm RSP 520, Fxsave RSP, Mov RDI RSP, Mov RBP RSP, AndImm RSP (- 16), Mov RSI RCX] @
       [CallInthandler] @ ([Mov RSP RBP, Fxrstor RSP, AddImm RSP 520] @ map Pop (rev saved_regs) @
         [Pop RCX, AddImm RSP 8, Iretq]))"
    by (simp add: inthandler_common_def)
  have "run_instrs fl h inthandler_common c1 =
       rbind (h c2) (run_instrs fl h ([Mov RSP RBP, Fxrstor RSP, AddImm RSP 520] @ map Pop (rev saved_regs) @
         [Pop RCX, AddImm RSP 8, Iretq]))"
    unfolding split run_append m(1) rbind_simps c2 by (simp add: rbind_def split: sum.split)
  from that [OF this c2f(1-4), of "m (q + 512)"] s show ?thesis unfolding c2f(5) by simp
qed

text \<open>From the return of the call on: the interrupted context is back.\<close>

lemma common_restores:
  assumes "length (fpu c) = 64" "gpr c3 RBP = q" "q AND 15 = 0"
    and "stack_at (qword c3) q (fpu c @ dummy # rev (map (gpr c) saved_regs) @ context_words c ecode)"
  shows "run_instrs fl h ([Mov RSP RBP, Fxrstor RSP, AddImm RSP 520] @ map Pop (rev saved_regs) @
      [Pop RCX, AddImm RSP 8, Iretq]) c3 = Ok (c\<lparr>qword := qword c3\<rparr>)"
proof -
  let ?regs = "rev (map (gpr c) saved_regs)"
  have s: "stack_at (qword c3) q (fpu c)" "stack_at (qword c3) (q + 520) (?regs @ context_words c ecode)"
    "stack_at (qword c3) (q + 632) (context_words c ecode)"
    using assms(1,4) by (simp_all add: stack_at_append stack_at_Cons add.assoc)
  have fpu: "map (\<lambda>i. qword c3 (q + word_of_nat (8 * i))) [0..<64] = fpu c"
    using s(1) assms(1) by (intro nth_equalityI) (auto simp: stack_at_def)
  obtain f where f: "run_instrs fl h [Mov RSP RBP, Fxrstor RSP, AddImm RSP 520] c3 =
      Ok (c3\<lparr>fpu := fpu c, gpr := (gpr c3)(RSP := q + 520), rflags := f\<rparr>)"
  proof (rule that)
    show "run_instrs fl h [Mov RSP RBP, Fxrstor RSP, AddImm RSP 520] c3 =
        Ok (c3\<lparr>fpu := fpu c, gpr := (gpr c3)(RSP := q + 520),
          rflags := fl (AddImm RSP 520) (c3\<lparr>gpr := (gpr c3)(RSP := q), fpu := fpu c\<rparr>)\<rparr>)"
      using assms(2,3) fpu by simp
  qed
  define c4 where "c4 = c3\<lparr>fpu := fpu c, gpr := (gpr c3)(RSP := q + 520), rflags := f\<rparr>"
  have "run_instrs fl h (map Pop (rev saved_regs)) c4 =
      Ok (c4\<lparr>gpr := (load_regs (rev saved_regs) ?regs (gpr c4))(RSP := q + 632)\<rparr>)"
    using run_pops [of "rev saved_regs" c4 ?regs "context_words c ecode" fl h] s(2)
    by (simp add: c4_def add.assoc)
  moreover have "run_instrs fl h [Pop RCX, AddImm RSP 8, Iretq]
      (c4\<lparr>gpr := (load_regs (rev saved_regs) ?regs (gpr c4))(RSP := q + 632)\<rparr>) = Ok (c\<lparr>qword := qword c3\<rparr>)"
  proof -
    let ?l = "load_regs (rev saved_regs) ?regs (gpr c4)"
    have w: "qword c3 (q + 632) = gpr c RCX"
      "read_ctx (qword c3) (q + 648) = \<lparr> ctx_rip = rip c, ctx_cs = code_seg c, ctx_rflags = rflags c,
         ctx_rsp = gpr c RSP, ctx_ss = stack_seg c \<rparr>"
      using s(3) by (simp_all add: stack_at_Cons read_ctx_def add.assoc)
    have c4: "qword c4 = qword c3" "fpu c4 = fpu c" by (simp_all add: c4_def)
    have g: "?l(RCX := gpr c RCX, RSP := gpr c RSP) = gpr c"
    proof
      show "(?l(RCX := gpr c RCX, RSP := gpr c RSP)) x = gpr c x" for x by (cases x) simp_all
    qed
    have "run_instrs fl h [Pop RCX, AddImm RSP 8, Iretq] (c4\<lparr>gpr := ?l(RSP := q + 632)\<rparr>) =
        Ok (c4\<lparr>gpr := ?l(RCX := gpr c RCX, RSP := gpr c RSP), rip := rip c, code_seg := code_seg c,
          rflags := rflags c, stack_seg := stack_seg c\<rparr>)"
      using w c4(1) by (simp add: add.assoc fun_upd_twist [of RCX RSP] del: load_regs.simps)
    also have "\<dots> = Ok (c\<lparr>qword := qword c3\<rparr>)"
      unfolding g using c4 by (cases c, cases c4) simp
    finally show ?thesis .
  qed
  ultimately show ?thesis unfolding run_append f rbind_simps c4_def [symmetric] by simp
qed

section \<open>Gates\<close>

lemma gate_offset_new [simp]: "gate_offset (IdtDescriptor_new sel ist a addr) = addr"
proof (rule bit_word_eqI)
  fix n assume n: "n < LENGTH(64)"
  show "bit (gate_offset (IdtDescriptor_new sel ist a addr)) n = bit addr n"
  proof (cases "n < 32")
    case True
    then show ?thesis by (auto simp: gate_offset_def IdtDescriptor_new_def bit_simps)
  next
    case False
    then have "32 + (n - 32) = n" by simp
    with n False show ?thesis by (auto simp: gate_offset_def IdtDescriptor_new_def bit_simps)
  qed
qed

text \<open>The function that a vector is meant to reach.\<close>

definition handler_of :: "nat \<Rightarrow> HandlerFn" where
  "handler_of index = (if index = 3 then Entrypoint3 else if index = 6 then Entrypoint6
     else if index = 8 then Entrypoint8 else if index = 13 then Entrypoint13
     else if index = 14 then Entrypoint14 else if index = 32 then Entrypoint32 else Unimplemented)"

lemma Idt_new_nth:
  assumes "index < 256"
  shows "Idt_new fn_addr sel ! index =
    IdtDescriptor_new sel (if index = 8 then 2 else 1) (if index = 3 then IntGateDPL3 else IntGateDPL0)
      (fn_addr (handler_of index))"
  using assms by (simp add: Idt_new_def handler_of_def nth_list_update)

lemma idt_attr_bits:
  assumes "idt_attr d \<noteq> NotPresentGate"
  shows "gate_present d" "gate_type d = 14" "gate_dpl d = (if idt_attr d = IntGateDPL3 then 3 else 0)"
  using assms
  by (cases "idt_attr d"; simp add: gate_present_def gate_type_def gate_dpl_def BIT_FLAGS_INTGATE_def
      BIT_FLAGS_PRESENT_def BIT_FLAGS_DPL0_def BIT_FLAGS_DPL3_def bit_or_iff drop_bit_eq_div push_bit_eq_mult)+

lemma Idt_new_present: "index < 256 \<Longrightarrow> gate_present (Idt_new fn_addr sel ! index)"
  by (rule idt_attr_bits) (simp add: Idt_new_nth IdtDescriptor_new_def)

text \<open>
  The interrupt descriptor table of \<open>Idt::new\<close>, read the way the processor reads it, has 256
  present interrupt gates in the given code segment. Each leads to the entry point of its vector, the
  split address put together again, or to \<open>int_handler_unimplemented\<close>; user code may raise the
  breakpoint only; the double fault alone has the second interrupt stack.
\<close>

theorem idt_gates_decode:
  assumes "index < 256"
  shows "length (Idt_new fn_addr sel) = 256 \<and>
    (let d = Idt_new fn_addr sel ! index in
       gate_present d \<and> gate_type d = 14 \<and> segment_selector d = sel \<and>
       gate_offset d = fn_addr (handler_of index) \<and>
       gate_dpl d = (if index = 3 then 3 else 0) \<and> ist_index d = (if index = 8 then 2 else 1))"
proof -
  let ?d = "Idt_new fn_addr sel ! index"
  have "idt_attr ?d = (if index = 3 then IntGateDPL3 else IntGateDPL0)"
    using assms by (simp add: Idt_new_nth IdtDescriptor_new_def)
  moreover from this have "gate_present ?d" "gate_type ?d = 14" "gate_dpl ?d = (if index = 3 then 3 else 0)"
    using idt_attr_bits [of ?d] by auto
  moreover have "length (Idt_new fn_addr sel) = 256" by (simp add: Idt_new_def)
  moreover have "gate_offset ?d = fn_addr (handler_of index)" using assms by (simp add: Idt_new_nth)
  moreover have "segment_selector ?d = sel" "ist_index ?d = (if index = 8 then 2 else 1)"
    using assms by (simp_all add: Idt_new_nth IdtDescriptor_new_def)
  ultimately show ?thesis by (simp add: Let_def)
qed

theorem idt_gates_decode_witness:
  "let d = Idt_new (\<lambda>f. if f = Entrypoint14 then 0x7FFF12345678 else 0x1000) 8 ! 14 in
     gate_offset d = 0x7FFF12345678 \<and> gate_dpl d = 0 \<and> ist_index d = 1"
  using idt_gates_decode [of 14 "\<lambda>f. if f = Entrypoint14 then 0x7FFF12345678 else 0x1000" 8]
  by (simp add: Let_def handler_of_def)

section \<open>Taking an interrupt\<close>

lemma entry_pushes_context:
  assumes "ecode = None \<and> P = interrupt_entrypoint v \<or>
    (\<exists>e. ecode = Some e) \<and> P = interrupt_entrypoint_with_ecode v"
  obtains c1 where "run_instrs fl h P (deliver stk ecode d c) = Ok c1"
    "gpr c1 RSP = (stk AND NOT 15) - 688 + 632" "gpr c1 RCX = v" "fpu c1 = fpu c"
    "stack_at (qword c1) ((stk AND NOT 15) - 688 + 632) (context_words c (case ecode of None \<Rightarrow> 0 | Some e \<Rightarrow> e))"
    "\<forall>r \<in> set saved_regs. gpr c1 r = gpr c r"
  using assms
proof (elim disjE conjE exE)
  assume *: "ecode = None" "P = interrupt_entrypoint v"
  show ?thesis
    by (rule that [of "(push_q (gpr c RCX) (push_q 0 (deliver stk None d c)))
          \<lparr>gpr := (gpr (push_q (gpr c RCX) (push_q 0 (deliver stk None d c))))(RCX := v)\<rparr>"])
      (simp_all add: * interrupt_entrypoint_def deliver_def Let_def push_q_def stack_at_Cons diff_diff_eq add.assoc)
next
  fix e assume *: "ecode = Some e" "P = interrupt_entrypoint_with_ecode v"
  show ?thesis
    by (rule that [of "(push_q (gpr c RCX) (deliver stk (Some e) d c))
          \<lparr>gpr := (gpr (push_q (gpr c RCX) (deliver stk (Some e) d c)))(RCX := v)\<rparr>"])
      (simp_all add: * interrupt_entrypoint_with_ecode_def deliver_def Let_def push_q_def stack_at_Cons diff_diff_eq add.assoc)
qed

lemma entry_code_handler_of:
  assumes "index \<in> {3, 6, 8, 13, 14, 32}" "has_ecode index \<longleftrightarrow> ecode \<noteq> None"
  obtains P where "entry_code (handler_of index) = Some P"
    "ecode = None \<and> P = interrupt_entrypoint (word_of_nat index) \<or>
     (\<exists>e. ecode = Some e) \<and> P = interrupt_entrypoint_with_ecode (word_of_nat index)"
  using assms by (auto simp: entry_code_def handler_of_def has_ecode_def)

lemma take_interrupt_unfold:
  assumes "inj fn_addr" "index < 256"
  shows "take_interrupt fn_addr fl h ist (Idt_new fn_addr sel) index ecode c =
    (case entry_code (handler_of index) of
       None \<Rightarrow> panic ''unexpected interrupt!''
     | Some P \<Rightarrow> run_instrs fl h (P @ inthandler_common)
         (deliver (ist ! unat (ist_index (Idt_new fn_addr sel ! index))) ecode (Idt_new fn_addr sel ! index) c))"
proof -
  have "find (\<lambda>f. fn_addr f = gate_offset (Idt_new fn_addr sel ! index))
      [Unimplemented, Entrypoint3, Entrypoint6, Entrypoint8, Entrypoint13, Entrypoint14, Entrypoint32] =
    Some (handler_of index)"
    using assms by (cases "handler_of index") (simp_all add: Idt_new_nth inj_eq)
  with Idt_new_present [OF assms(2)] show ?thesis by (simp add: take_interrupt_def Let_def)
qed

lemma interrupt_round_trip:
  assumes "inj fn_addr" "sysv64_abi clobber" "length (fpu c) = 64"
    and "index \<in> {3, 6, 8, 13, 14, 32}" "has_ecode index \<longleftrightarrow> ecode \<noteq> None"
  shows "\<exists>dummy m. take_interrupt fn_addr fl (call_handler body clobber) ist (Idt_new fn_addr sel) index ecode c =
    rbind (body (frame_info c (case ecode of None \<Rightarrow> 0 | Some e \<Rightarrow> e) dummy) index)
      (\<lambda>_. Ok (c\<lparr>qword := m\<rparr>))"
proof -
  let ?d = "Idt_new fn_addr sel ! index" and ?e = "case ecode of None \<Rightarrow> 0 | Some e \<Rightarrow> e"
  let ?h = "call_handler body clobber"
  define stk where "stk = ist ! unat (ist_index ?d)"
  define q where "q = (stk AND NOT 15) - 688"
  have al: "q AND 15 = 0" unfolding q_def by (rule aligned_16)
  obtain P where P: "entry_code (handler_of index) = Some P"
    "ecode = None \<and> P = interrupt_entrypoint (word_of_nat index) \<or>
     (\<exists>e. ecode = Some e) \<and> P = interrupt_entrypoint_with_ecode (word_of_nat index)"
    using entry_code_handler_of [OF assms(4,5)] by blast
  obtain c1 where c1: "run_instrs fl ?h P (deliver stk ecode ?d c) = Ok c1"
    "gpr c1 RSP = q + 632" "gpr c1 RCX = word_of_nat index" "fpu c1 = fpu c"
    "stack_at (qword c1) (q + 632) (context_words c ?e)"
    "\<forall>r \<in> set saved_regs. gpr c1 r = gpr c r"
    using entry_pushes_context [OF P(2), where fl = fl and h = ?h and stk = stk and d = ?d and c = c] unfolding q_def by blast
  obtain c2 dummy where c2: "run_instrs fl ?h inthandler_common c1 =
      rbind (?h c2) (run_instrs fl ?h ([Mov RSP RBP, Fxrstor RSP, AddImm RSP 520] @ map Pop (rev saved_regs) @
         [Pop RCX, AddImm RSP 8, Iretq]))"
    "gpr c2 RDI = q" "gpr c2 RBP = q" "gpr c2 RSP = q" "gpr c2 RSI = gpr c1 RCX"
    "stack_at (qword c2) q (fpu c @ dummy # rev (map (gpr c) saved_regs) @ context_words c ?e)"
    by (rule common_calls_handler [OF assms(3) c1(2) al c1(5,6,4)])
  have len: "length (fpu c @ dummy # rev (map (gpr c) saved_regs) @ context_words c ?e) = 86"
    using assms(3) by simp
  have keep: "gpr (clobber c2) RBP = q"
    "stack_at (qword (clobber c2)) q (fpu c @ dummy # rev (map (gpr c) saved_regs) @ context_words c ?e)"
    using assms(2) c2(2,3,6) len unfolding sysv64_abi_def stack_at_def by (auto simp del: of_nat_mult)
  have "read_info (qword c2) (gpr c2 RDI) = frame_info c ?e dummy"
    using read_info_stack [OF assms(3) c2(6)] c2(2) by simp
  moreover have "unat (gpr c2 RSI) = index" using assms(4) c2(5) c1(3) by auto
  ultimately have "run_instrs fl ?h inthandler_common c1 =
      rbind (body (frame_info c ?e dummy) index) (\<lambda>_. Ok (c\<lparr>qword := qword (clobber c2)\<rparr>))"
    unfolding c2(1) call_handler_def
    by (simp only: rbind_assoc rbind_simps common_restores [OF assms(3) keep(1) al keep(2)])
  moreover have "index < 256" using assms(4) by auto
  ultimately show ?thesis
    unfolding take_interrupt_unfold [OF assms(1) \<open>index < 256\<close>] P(1) stk_def [symmetric] run_append
    using c1(1) by (auto simp: run_append)
qed

text \<open>
  C29: An exception or interrupt that the kernel handles calls \<open>inthandler\<close> with exactly the interrupted
  context (every general register, the FPU image, the frame of the processor and the error code, or 0
  where the processor has none) and its vector; if the handler returns, the interrupted program goes
  on with every register, flag, selector and the FPU as they were, on its own stack. No access is
  misaligned, for any stack the task state segment names.
\<close>

theorem interrupt_context_exact:
  assumes "inj fn_addr" and "sysv64_abi clobber" and "length (fpu c) = 64"
    and "index \<in> {3, 6, 8, 13, 14, 32}" and "has_ecode index \<longleftrightarrow> ecode \<noteq> None"
  shows "\<exists>dummy m. take_interrupt fn_addr fl (call_handler body clobber) ist (Idt_new fn_addr sel) index ecode c =
    rbind (body (frame_info c (case ecode of None \<Rightarrow> 0 | Some e \<Rightarrow> e) dummy) index)
      (\<lambda>_. Ok (c\<lparr>qword := m\<rparr>))"
  using assms by (rule interrupt_round_trip)

definition sample_cpu :: Cpu where
  "sample_cpu = \<lparr> gpr = (\<lambda>r. if r = RSP then 0x7008 else 5), rip = 0x401000, code_seg = 8, rflags = 0x202, stack_seg = 16,
     fpu = replicate 64 0, qword = (\<lambda>_. 0) \<rparr>"

definition sample_fn_addr :: "HandlerFn \<Rightarrow> u64" where
  "sample_fn_addr f = (case f of Unimplemented \<Rightarrow> 0x1000 | Entrypoint3 \<Rightarrow> 0x2000 | Entrypoint6 \<Rightarrow> 0x3000
     | Entrypoint8 \<Rightarrow> 0x4000 | Entrypoint13 \<Rightarrow> 0x5000 | Entrypoint14 \<Rightarrow> 0x6000 | Entrypoint32 \<Rightarrow> 0x7000)"

text \<open>A handler that leaves other values in the registers it may change.\<close>

definition sample_clobber :: "Cpu \<Rightarrow> Cpu" where
  "sample_clobber c = c\<lparr>gpr := (gpr c)(RAX := 1, RDI := 2, R8 := 3), rflags := 0, fpu := []\<rparr>"

lemma sample_interrupt:
  "inj sample_fn_addr" "sysv64_abi sample_clobber" "length (fpu sample_cpu) = 64"
  by (auto simp: inj_def sample_fn_addr_def sysv64_abi_def sample_clobber_def sample_cpu_def split: HandlerFn.splits)

theorem interrupt_context_exact_witness:
  "\<exists>dummy m. take_interrupt sample_fn_addr (\<lambda>_ _. 0) (call_handler (\<lambda>i n. if error_code i = 4 \<and> n = 14 then Ok () else Inl UB) sample_clobber)
     (replicate 8 0x9010) (Idt_new sample_fn_addr 8) 14 (Some 4) sample_cpu = Ok (sample_cpu\<lparr>qword := m\<rparr>)"
  using interrupt_context_exact [OF sample_interrupt, of 14 "Some 4" "\<lambda>_ _. 0"
      "\<lambda>i n. if error_code i = 4 \<and> n = 14 then Ok () else Inl UB" "replicate 8 0x9010" 8]
  by (auto simp: has_ecode_def frame_info_def)



end
