(* ===== verification/Segments.thy ===== *)
theory Segments
  imports Interrupt_Frame Allocator
begin

text \<open>
  The segment tables of \<open>src/x86.rs\<close>: descriptors of the GDT, the descriptor of the task state
  segment, the task state segment with its interrupt stacks from the kernel's heap, and
  \<open>init_exceptions\<close> with the table registers and selectors it loads.
\<close>

section \<open>Segment descriptors\<close>

definition BIT_TYPE_DATA :: u64 where "BIT_TYPE_DATA = push_bit 43 0b10"
definition BIT_TYPE_CODE :: u64 where "BIT_TYPE_CODE = push_bit 43 0b11"
definition BIT_PRESENT :: u64 where "BIT_PRESENT = push_bit 47 1"
definition BIT_CS_LONG_MODE :: u64 where "BIT_CS_LONG_MODE = push_bit 53 1"
definition BIT_CS_READABLE :: u64 where "BIT_CS_READABLE = push_bit 53 1"
definition BIT_DS_WRITABLE :: u64 where "BIT_DS_WRITABLE = push_bit 41 1"

datatype GdtAttr = KernelCode | KernelData

fun gdt_attr_value :: "GdtAttr \<Rightarrow> u64" where
  "gdt_attr_value KernelCode = BIT_TYPE_CODE OR BIT_PRESENT OR BIT_CS_LONG_MODE OR BIT_CS_READABLE"
| "gdt_attr_value KernelData = BIT_TYPE_DATA OR BIT_PRESENT OR BIT_DS_WRITABLE"

definition KERNEL_CS :: u16 where "KERNEL_CS = push_bit 3 1"
definition KERNEL_DS :: u16 where "KERNEL_DS = push_bit 3 2"
definition TSS64_SEL :: u16 where "TSS64_SEL = push_bit 3 3"

record GdtSegmentDescriptor = seg_value :: u64

definition GdtSegmentDescriptor_null :: GdtSegmentDescriptor where
  "GdtSegmentDescriptor_null = \<lparr> seg_value = 0 \<rparr>"

definition GdtSegmentDescriptor_new :: "GdtAttr \<Rightarrow> GdtSegmentDescriptor" where
  "GdtSegmentDescriptor_new seg_attr = \<lparr> seg_value = gdt_attr_value seg_attr \<rparr>"

section \<open>The task state segment\<close>

record TaskStateSegment64Inner =
  tss_reserved0 :: u32
  tss_rsp :: "u64 list"
  tss_ist :: "u64 list"
  tss_reserved1 :: "u16 list"
  tss_io_map_base_addr :: u16

definition TSS64_SIZE :: nat where
  "TSS64_SIZE = 4 + 3 * 8 + 8 * 8 + 5 * 2 + 2"

definition HANDLER_STACK_SIZE :: nat where
  "HANDLER_STACK_SIZE = 64 * 1024"

definition alloc_interrupt_stack :: "FirstFitAllocator \<Rightarrow> (u64 \<times> FirstFitAllocator) res" where
  "alloc_interrupt_stack h =
     rbind (box_new h HANDLER_STACK_SIZE 1) (\<lambda>(stack, h). Ok (stack + word_of_nat HANDLER_STACK_SIZE, h))"

fun alloc_stacks :: "nat \<Rightarrow> FirstFitAllocator \<Rightarrow> (u64 list \<times> FirstFitAllocator) res" where
  "alloc_stacks 0 h = Ok ([], h)"
| "alloc_stacks (Suc n) h =
     rbind (alloc_interrupt_stack h) (\<lambda>(rsp, h). rbind (alloc_stacks n h) (\<lambda>(rsps, h). Ok (rsp # rsps, h)))"

text \<open>The value and its address in the heap.\<close>

definition TaskStateSegment64_new :: "FirstFitAllocator \<Rightarrow> (TaskStateSegment64Inner \<times> u64 \<times> FirstFitAllocator) res" where
  "TaskStateSegment64_new h =
     rbind (alloc_interrupt_stack h) (\<lambda>(rsp0, h).
     rbind (alloc_stacks 7 h) (\<lambda>(stacks, h).
     let tss64 = \<lparr> tss_reserved0 = 0, tss_rsp = [rsp0, 0, 0], tss_ist = 0 # stacks,
                   tss_reserved1 = replicate 5 0, tss_io_map_base_addr = 0 \<rparr> in
     rbind (box_new h TSS64_SIZE 1) (\<lambda>(p, h). Ok (tss64, p, h))))"

record TaskStateSegment64Descriptor =
  limit_low :: u16
  base_low :: u16
  base_mid_low :: u8
  tss_attr :: u16
  base_mid_high :: u8
  base_high :: u32
  tss_desc_reserved :: u32

definition TaskStateSegment64Descriptor_new :: "u64 \<Rightarrow> TaskStateSegment64Descriptor" where
  "TaskStateSegment64Descriptor_new base_addr =
     \<lparr> limit_low = word_of_nat TSS64_SIZE,
       base_low = ucast (base_addr AND 0xffff),
       base_mid_low = ucast (drop_bit 16 base_addr AND 0xff),
       tss_attr = 0b1000000010001001,
       base_mid_high = ucast (drop_bit 24 base_addr AND 0xff),
       base_high = ucast (drop_bit 32 base_addr AND 0xffffffff),
       tss_desc_reserved = 0 \<rparr>"

text \<open>The two quadwords of the packed descriptor, little endian.\<close>

definition tss_descriptor_words :: "TaskStateSegment64Descriptor \<Rightarrow> u64 \<times> u64" where
  "tss_descriptor_words d =
     (ucast (limit_low d) OR push_bit 16 (ucast (base_low d)) OR push_bit 32 (ucast (base_mid_low d))
        OR push_bit 40 (ucast (tss_attr d)) OR push_bit 56 (ucast (base_mid_high d)),
      ucast (base_high d) OR push_bit 32 (ucast (tss_desc_reserved d)))"

section \<open>The global descriptor table\<close>

record Gdt =
  null_segment :: GdtSegmentDescriptor
  kernel_code_segment :: GdtSegmentDescriptor
  kernel_data_segment :: GdtSegmentDescriptor
  task_state_segment :: TaskStateSegment64Descriptor

definition GDT_SIZE :: nat where
  "GDT_SIZE = 40"

definition gdt_words :: "Gdt \<Rightarrow> u64 list" where
  "gdt_words g =
     [seg_value (null_segment g), seg_value (kernel_code_segment g), seg_value (kernel_data_segment g),
      fst (tss_descriptor_words (task_state_segment g)), snd (tss_descriptor_words (task_state_segment g))]"

record GdtWrapper =
  gdt_inner :: Gdt
  gdt_addr :: u64
  tss64 :: TaskStateSegment64Inner

definition GdtWrapper_default :: "FirstFitAllocator \<Rightarrow> (GdtWrapper \<times> FirstFitAllocator) res" where
  "GdtWrapper_default h =
     rbind (TaskStateSegment64_new h) (\<lambda>(tss, tss_addr, h).
     let gdt = \<lparr> null_segment = GdtSegmentDescriptor_null,
                 kernel_code_segment = GdtSegmentDescriptor_new KernelCode,
                 kernel_data_segment = GdtSegmentDescriptor_new KernelData,
                 task_state_segment = TaskStateSegment64Descriptor_new tss_addr \<rparr> in
     rbind (box_new h GDT_SIZE 1) (\<lambda>(p, h).
       Ok (\<lparr> gdt_inner = gdt, gdt_addr = p, tss64 = tss \<rparr>, h)))"

section \<open>Loading the tables\<close>

text \<open>The table registers and selectors of the processor: limit and base of each table.\<close>

record SegmentState =
  gdtr :: "u16 \<times> u64"
  idtr :: "u16 \<times> u64"
  tr_sel :: u16
  sel_cs :: u16
  sel_ss :: u16
  sel_es :: u16
  sel_ds :: u16
  sel_fs :: u16
  sel_gs :: u16

definition gdt_load :: "GdtWrapper \<Rightarrow> SegmentState \<Rightarrow> SegmentState" where
  "gdt_load w s = s\<lparr>gdtr := (word_of_nat (GDT_SIZE - 1), gdt_addr w), tr_sel := TSS64_SEL\<rparr>"

definition idt_load :: "u64 \<Rightarrow> IdtDescriptor list \<Rightarrow> SegmentState \<Rightarrow> SegmentState" where
  "idt_load base entries s = s\<lparr>idtr := (word_of_nat (16 * length entries), base)\<rparr>"

text \<open>The selector loads; the code segment is loaded by a far jump to the next instruction.\<close>

definition write_cs :: "u16 \<Rightarrow> SegmentState \<Rightarrow> SegmentState" where "write_cs cs s = s\<lparr>sel_cs := cs\<rparr>"
definition write_ss :: "u16 \<Rightarrow> SegmentState \<Rightarrow> SegmentState" where "write_ss selector s = s\<lparr>sel_ss := selector\<rparr>"
definition write_es :: "u16 \<Rightarrow> SegmentState \<Rightarrow> SegmentState" where "write_es selector s = s\<lparr>sel_es := selector\<rparr>"
definition write_ds :: "u16 \<Rightarrow> SegmentState \<Rightarrow> SegmentState" where "write_ds ds s = s\<lparr>sel_ds := ds\<rparr>"
definition write_fs :: "u16 \<Rightarrow> SegmentState \<Rightarrow> SegmentState" where "write_fs selector s = s\<lparr>sel_fs := selector\<rparr>"
definition write_gs :: "u16 \<Rightarrow> SegmentState \<Rightarrow> SegmentState" where "write_gs selector s = s\<lparr>sel_gs := selector\<rparr>"

lemmas write_segment_defs [simp] = write_cs_def write_ss_def write_es_def write_ds_def write_fs_def write_gs_def

definition init_exceptions ::
  "(HandlerFn \<Rightarrow> u64) \<Rightarrow> FirstFitAllocator \<Rightarrow> SegmentState \<Rightarrow>
   (GdtWrapper \<times> IdtDescriptor list \<times> SegmentState \<times> FirstFitAllocator) res" where
  "init_exceptions fn_addr h s =
     rbind (GdtWrapper_default h) (\<lambda>(gdt, h).
     let s = gdt_load gdt s;
         s = write_cs KERNEL_CS s;
         s = write_ss KERNEL_DS s; s = write_es KERNEL_DS s; s = write_ds KERNEL_DS s;
         s = write_fs KERNEL_DS s; s = write_gs KERNEL_DS s;
         idt = Idt_new fn_addr KERNEL_CS in
     rbind (box_new h (16 * length idt) 1) (\<lambda>(p, h). Ok (gdt, idt, idt_load p idt s, h)))"

section \<open>What the processor reads\<close>

definition seg_is_code :: "u64 \<Rightarrow> bool" where
  "seg_is_code w \<longleftrightarrow> bit w 47 \<and> bit w 44 \<and> bit w 43"

definition seg_is_data :: "u64 \<Rightarrow> bool" where
  "seg_is_data w \<longleftrightarrow> bit w 47 \<and> bit w 44 \<and> \<not> bit w 43"

definition seg_dpl :: "u64 \<Rightarrow> nat" where
  "seg_dpl w = unat (drop_bit 45 w AND 3)"

definition system_type :: "u64 \<Rightarrow> nat" where
  "system_type w = unat (drop_bit 40 w AND 0x1F)"

definition system_base :: "u64 \<Rightarrow> u64 \<Rightarrow> u64" where
  "system_base lo hi = (drop_bit 16 lo AND 0xFFFFFF) OR push_bit 24 (drop_bit 56 lo AND 0xFF) OR push_bit 32 (hi AND 0xFFFFFFFF)"

definition system_limit :: "u64 \<Rightarrow> nat" where
  "system_limit lo =
     (let l = unat ((lo AND 0xFFFF) OR push_bit 16 (drop_bit 48 lo AND 0xF))
      in if bit lo 55 then l * 4096 + 4095 else l)"

lemma mask_consts:
  "(0xff :: u64) = mask 8" "(0xffff :: u64) = mask 16" "(0xffffff :: u64) = mask 24" "(0xffffffff :: u64) = mask 32"
  "(0xF :: u64) = mask 4" "(0x1F :: u64) = mask 5" "(3 :: u64) = mask 2"
  by (simp_all add: mask_eq_exp_minus_1)

lemma field_bits:
  fixes a :: u64
  shows "bit (ucast (ucast (a AND 0xffff) :: u16) :: u64) k \<longleftrightarrow> k < 16 \<and> bit a k"
    and "bit (ucast (ucast (drop_bit 16 a AND 0xff) :: u8) :: u64) k \<longleftrightarrow> k < 8 \<and> bit a (16 + k)"
    and "bit (ucast (ucast (drop_bit 24 a AND 0xff) :: u8) :: u64) k \<longleftrightarrow> k < 8 \<and> bit a (24 + k)"
    and "bit (ucast (ucast (drop_bit 32 a AND 0xffffffff) :: u32) :: u64) k \<longleftrightarrow> k < 32 \<and> bit a (32 + k)"
  unfolding mask_consts by (auto simp: bit_simps)

lemma const_bits:
  "bit (104 :: u64) k \<longleftrightarrow> k = 3 \<or> k = 5 \<or> k = 6"
  "bit (104 :: int) k \<longleftrightarrow> k = 3 \<or> k = 5 \<or> k = 6"
  "bit (0x8089 :: int) k \<longleftrightarrow> k = 0 \<or> k = 3 \<or> k = 7 \<or> k = 15"
  "bit (9 :: u64) k \<longleftrightarrow> k = 0 \<or> k = 3"
proof -
  have e: "(104 :: u64) = push_bit 3 1 OR push_bit 5 1 OR push_bit 6 1"
    "(104 :: int) = push_bit 3 1 OR push_bit 5 1 OR push_bit 6 1"
    "(0x8089 :: int) = 1 OR push_bit 3 1 OR push_bit 7 1 OR push_bit 15 1"
    "(9 :: u64) = 1 OR push_bit 3 1" by (simp_all add: push_bit_eq_mult)
  show "bit (104 :: u64) k \<longleftrightarrow> k = 3 \<or> k = 5 \<or> k = 6"
    unfolding e(1) by (simp only: bit_or_iff bit_push_bit_iff bit_1_iff) auto
  show "bit (104 :: int) k \<longleftrightarrow> k = 3 \<or> k = 5 \<or> k = 6"
    unfolding e(2) by (simp only: bit_or_iff bit_push_bit_iff bit_1_iff) auto
  show "bit (0x8089 :: int) k \<longleftrightarrow> k = 0 \<or> k = 3 \<or> k = 7 \<or> k = 15"
    unfolding e(3) by (simp only: bit_or_iff bit_push_bit_iff bit_1_iff) auto
  show "bit (9 :: u64) k \<longleftrightarrow> k = 0 \<or> k = 3"
    unfolding e(4) by (simp only: bit_or_iff bit_push_bit_iff bit_1_iff) auto
qed

lemma tss_words_bit:
  "n < 64 \<Longrightarrow> bit (fst (tss_descriptor_words d)) n \<longleftrightarrow> bit (ucast (limit_low d) :: u64) n
     \<or> 16 \<le> n \<and> bit (ucast (base_low d) :: u64) (n - 16) \<or> 32 \<le> n \<and> bit (ucast (base_mid_low d) :: u64) (n - 32)
     \<or> 40 \<le> n \<and> bit (ucast (tss_attr d) :: u64) (n - 40) \<or> 56 \<le> n \<and> bit (ucast (base_mid_high d) :: u64) (n - 56)"
  by (simp add: tss_descriptor_words_def bit_or_iff bit_push_bit_iff)

lemma tss_low_bit:
  assumes "n < 64"
  shows "bit (fst (tss_descriptor_words (TaskStateSegment64Descriptor_new a))) n \<longleftrightarrow>
    (if n < 16 then n \<in> {3, 5, 6} else if n < 40 then bit a (n - 16)
     else if n < 56 then n \<in> {40, 43, 47, 55} else bit a (n - 32))"
proof -
  have b: "bit (fst (tss_descriptor_words (TaskStateSegment64Descriptor_new a))) n \<longleftrightarrow>
      n \<in> {3, 5, 6} \<or> 16 \<le> n \<and> n - 16 < 16 \<and> bit a (n - 16)
      \<or> 32 \<le> n \<and> n - 32 < 8 \<and> bit a (16 + (n - 32))
      \<or> 40 \<le> n \<and> n - 40 \<in> {0, 3, 7, 15}
      \<or> 56 \<le> n \<and> n - 56 < 8 \<and> bit a (24 + (n - 56))"
    using assms less_imp_diff_less [OF assms, of 40]
    by (simp add: tss_words_bit TaskStateSegment64Descriptor_new_def TSS64_SIZE_def field_bits const_bits)
  consider "n < 16" | "16 \<le> n" "n < 32" | "32 \<le> n" "n < 40" | "40 \<le> n" "n < 56" | "56 \<le> n" by linarith
  then show ?thesis
  proof cases
    case 2
    then have "n - 16 < 16" by simp
    with 2 show ?thesis unfolding b by auto
  next
    case 3
    then have "16 + (n - 32) = n - 16" "n - 32 < 8" by simp_all
    with 3 show ?thesis unfolding b by auto
  next
    case 4
    then show ?thesis unfolding b by auto
  next
    case 5
    then have "24 + (n - 56) = n - 32" by simp
    with 5 assms show ?thesis unfolding b by auto
  qed (unfold b, simp_all)
qed

lemma tss_high_bit:
  "n < 64 \<Longrightarrow> bit (snd (tss_descriptor_words (TaskStateSegment64Descriptor_new a))) n \<longleftrightarrow> n < 32 \<and> bit a (32 + n)"
  by (simp add: tss_descriptor_words_def TaskStateSegment64Descriptor_new_def
        bit_or_iff bit_push_bit_iff field_bits)

lemma tss_descriptor_base:
  "system_base (fst (tss_descriptor_words (TaskStateSegment64Descriptor_new a)))
     (snd (tss_descriptor_words (TaskStateSegment64Descriptor_new a))) = a"
proof (rule bit_word_eqI)
  fix n assume n: "n < LENGTH(64)"
  let ?lo = "fst (tss_descriptor_words (TaskStateSegment64Descriptor_new a))"
    and ?hi = "snd (tss_descriptor_words (TaskStateSegment64Descriptor_new a))"
  have b: "bit (system_base ?lo ?hi) n \<longleftrightarrow> n < 24 \<and> bit ?lo (16 + n) \<or> 24 \<le> n \<and> n - 24 < 8 \<and> bit ?lo (56 + (n - 24))
      \<or> 32 \<le> n \<and> bit ?hi (n - 32)"
    using n by (auto simp: system_base_def mask_consts bit_or_iff bit_push_bit_iff bit_and_iff bit_drop_bit_eq bit_mask_iff)
  consider "n < 24" | "24 \<le> n" "n < 32" | "32 \<le> n" by linarith
  then show "bit (system_base ?lo ?hi) n = bit a n"
  proof cases
    case 1
    then show ?thesis unfolding b by (simp add: tss_low_bit)
  next
    case 2
    then have "56 + (n - 24) - 32 = n" "n - 24 < 8" by simp_all
    with 2 show ?thesis unfolding b by (simp add: tss_low_bit)
  next
    case 3
    then have "\<not> n - 24 < 8" "n - 32 < 32" using n by simp_all
    with 3 n show ?thesis unfolding b by (simp add: tss_high_bit)
  qed
qed

lemma tss_descriptor_type:
  "system_type (fst (tss_descriptor_words (TaskStateSegment64Descriptor_new a))) = 9"
proof -
  let ?lo = "fst (tss_descriptor_words (TaskStateSegment64Descriptor_new a))"
  have "drop_bit 40 ?lo AND 0x1F = 9"
  proof (rule bit_word_eqI)
    fix n
    have b: "bit (drop_bit 40 ?lo AND 0x1F) n \<longleftrightarrow> n < 5 \<and> bit ?lo (40 + n)"
      unfolding mask_consts by (auto simp: bit_and_iff bit_drop_bit_eq bit_mask_iff)
    show "bit (drop_bit 40 ?lo AND 0x1F) n = bit (9 :: u64) n"
      unfolding b const_bits using tss_low_bit [of "40 + n" a] by (cases "n < 5") auto
  qed
  then show ?thesis by (simp add: system_type_def)
qed

lemma tss_descriptor_limit:
  "system_limit (fst (tss_descriptor_words (TaskStateSegment64Descriptor_new a))) = 104 * 4096 + 4095"
proof -
  let ?lo = "fst (tss_descriptor_words (TaskStateSegment64Descriptor_new a))"
  have "(?lo AND 0xFFFF) OR push_bit 16 (drop_bit 48 ?lo AND 0xF) = 104"
  proof (rule bit_word_eqI)
    fix n assume n: "n < LENGTH(64)"
    have b: "bit ((?lo AND 0xFFFF) OR push_bit 16 (drop_bit 48 ?lo AND 0xF)) n \<longleftrightarrow>
        n < 16 \<and> bit ?lo n \<or> 16 \<le> n \<and> n < 20 \<and> bit ?lo (32 + n)"
      unfolding mask_consts using n
      by (auto simp: bit_or_iff bit_push_bit_iff bit_and_iff bit_drop_bit_eq bit_mask_iff)
    show "bit ((?lo AND 0xFFFF) OR push_bit 16 (drop_bit 48 ?lo AND 0xF)) n = bit (104 :: u64) n"
      unfolding b const_bits using tss_low_bit [of "32 + n" a] tss_low_bit [of n a]
      by (cases "n < 16"; cases "n < 20") auto
  qed
  then show ?thesis by (simp add: system_limit_def tss_low_bit)
qed

lemma gdt_attr_bits:
  "seg_is_code (gdt_attr_value KernelCode)" "bit (gdt_attr_value KernelCode) 53" "\<not> bit (gdt_attr_value KernelCode) 54"
  "seg_dpl (gdt_attr_value KernelCode) = 0"
  "seg_is_data (gdt_attr_value KernelData)" "bit (gdt_attr_value KernelData) 41"
  "seg_dpl (gdt_attr_value KernelData) = 0"
  by (simp_all add: seg_is_code_def seg_is_data_def seg_dpl_def BIT_TYPE_CODE_def BIT_TYPE_DATA_def BIT_PRESENT_def
      BIT_CS_LONG_MODE_def BIT_CS_READABLE_def BIT_DS_WRITABLE_def push_bit_eq_mult drop_bit_eq_div bit_or_iff)

end
