(* ===== verification/Segment_Setup.thy ===== *)
theory Segment_Setup
  imports Segments Alloc_Refine
begin

text \<open>
  What \<open>TaskStateSegment64::new\<close> and \<open>init_exceptions\<close> of \<open>src/x86.rs\<close> set up, on the heap of
  \<open>src/allocator.rs\<close>: interrupt stacks that share no memory, and tables that the processor reads as
  meant. A heap with a large first chunk shows that they succeed.
\<close>

section \<open>The interrupt stacks\<close>

lemma alloc_run:
  assumes "wf_regions es" "heap_run es h live" "valid_layout l" "alloc_with_options h l = r"
  obtains "r = Ok (0, h)" | p h' where "r = Ok (p, h')" "p \<noteq> 0" "heap_run es h' ((p, layout_size l) # live)"
proof -
  obtain cs where cs: "heap_repr h cs" using heap_run_inv [OF assms(2,1)] by blast
  from cs assms(3) show thesis
  proof (cases rule: alloc_cases)
    case null
    with that(1) assms(4) show thesis by blast
  next
    case (block p h' cs')
    have "p \<noteq> 0" using block(3) by (auto simp: alloc_outcome_def Let_def)
    with that(2) assms(4) block(1) heap_run.alloc_block [OF assms(2,3) block(1)] show thesis by blast
  qed
qed

lemma box_new_run:
  assumes "wf_regions es" "heap_run es h live" "sz + 2 ^ k \<le> 2 ^ 63" "k < 63"
  shows "box_new h sz (2 ^ k) = panic ''memory allocation failed'' \<or>
    (\<exists>p h'. box_new h sz (2 ^ k) = Ok (p, h') \<and> p \<noteq> 0 \<and> heap_run es h' ((p, word_of_nat sz) # live))"
proof -
  let ?l = "\<lparr> layout_size = word_of_nat sz, layout_align = word_of_nat (2 ^ k) \<rparr>"
  have k: "(2 :: nat) ^ k < 2 ^ 63" using assms(4) by (intro power_strict_increasing) simp_all
  then have "unat (word_of_nat sz :: usize) = sz" "unat (word_of_nat (2 ^ k) :: usize) = 2 ^ k"
    using assms(3) by (simp_all only: unat_of_nat) (simp_all add: less_le_trans)
  then have "valid_layout ?l" using assms(3,4) by (auto simp: valid_layout_def simp del: of_nat_power)
  show ?thesis
    by (rule alloc_run [OF assms(1,2) \<open>valid_layout ?l\<close> refl]) (simp_all add: box_new_def del: of_nat_power)
qed

lemma alloc_interrupt_stack_run:
  assumes "wf_regions es" "heap_run es h live" "alloc_interrupt_stack h = Ok (rsp, h')"
  obtains p where "rsp = p + 0x10000" "heap_run es h' ((p, 0x10000) # live)"
proof -
  from box_new_run [OF assms(1,2), of "0x10000" 0] assms(3) obtain p where
    "box_new h 0x10000 1 = Ok (p, h')" "rsp = p + 0x10000" "heap_run es h' ((p, 0x10000) # live)"
    by (auto simp: alloc_interrupt_stack_def HANDLER_STACK_SIZE_def)
  with that show thesis by blast
qed

lemma alloc_stacks_run:
  assumes "wf_regions es" "heap_run es h live" "alloc_stacks n h = Ok (rsps, h')"
  shows "\<exists>ps. length ps = n \<and> rsps = map (\<lambda>p. p + 0x10000) ps \<and>
    heap_run es h' (rev (map (\<lambda>p. (p, 0x10000)) ps) @ live)"
  using assms(2,3)
proof (induction n arbitrary: h live rsps)
  case 0
  then show ?case by simp
next
  case (Suc n)
  then obtain rsp h1 rsps' where s: "alloc_interrupt_stack h = Ok (rsp, h1)" "alloc_stacks n h1 = Ok (rsps', h')"
      "rsps = rsp # rsps'" by auto
  obtain p where p: "rsp = p + 0x10000" "heap_run es h1 ((p, 0x10000) # live)"
    by (rule alloc_interrupt_stack_run [OF assms(1) Suc.prems(1) s(1)])
  from Suc.IH [OF p(2) s(2)] obtain ps where ps: "length ps = n" "rsps' = map (\<lambda>p. p + 0x10000) ps"
      "heap_run es h' (rev (map (\<lambda>p. (p, 0x10000)) ps) @ (p, 0x10000) # live)" by blast
  then show ?case using p s(3) by (intro exI [of _ "p # ps"]) simp
qed

text \<open>The tops of the stacks that the processor switches to: ring 0 and interrupt stacks 1 to 7.\<close>

definition stack_tops :: "TaskStateSegment64Inner \<Rightarrow> u64 list" where
  "stack_tops tss = hd (tss_rsp tss) # tl (tss_ist tss)"

lemma TaskStateSegment64_new_run:
  assumes "wf_regions es" "heap_run es h live" "TaskStateSegment64_new h = Ok (tss, a, h')"
  shows "\<exists>ps. length ps = 8 \<and> stack_tops tss = map (\<lambda>p. p + 0x10000) ps \<and> length (tss_ist tss) = 8 \<and>
    heap_run es h' ((a, 104) # rev (map (\<lambda>p. (p, 0x10000)) ps) @ live)"
proof -
  from assms(3) obtain rsp0 h1 rsps h2 where s: "alloc_interrupt_stack h = Ok (rsp0, h1)"
      "alloc_stacks 7 h1 = Ok (rsps, h2)" "box_new h2 TSS64_SIZE 1 = Ok (a, h')"
      "stack_tops tss = rsp0 # rsps" "tss_ist tss = 0 # rsps"
    by (auto simp: TaskStateSegment64_new_def Let_def stack_tops_def)
  then have "alloc_stacks (Suc 7) h = Ok (rsp0 # rsps, h2)" by (simp only: alloc_stacks.simps rbind_simps split)
  moreover have "Suc 7 = 8" by simp
  ultimately have "alloc_stacks 8 h = Ok (rsp0 # rsps, h2)" by metis
  from alloc_stacks_run [OF assms(1,2) this] obtain ps where ps: "length ps = 8"
      "rsp0 # rsps = map (\<lambda>p. p + 0x10000) ps" "heap_run es h2 (rev (map (\<lambda>p. (p, 0x10000)) ps) @ live)"
    by (elim exE conjE)
  have "box_new h2 104 (2 ^ 0) = Ok (a, h')" using s(3) by (simp add: TSS64_SIZE_def)
  with box_new_run [OF assms(1) ps(3), of 104 0]
  have "heap_run es h' ((a, word_of_nat 104) # rev (map (\<lambda>p. (p, 0x10000)) ps) @ live)"
    by auto
  then have "heap_run es h' ((a, 104) # rev (map (\<lambda>p. (p, 0x10000)) ps) @ live)" by simp
  moreover have "length (tss_ist tss) = 8" unfolding s(5) using arg_cong [OF ps(2), of length] ps(1) by simp
  moreover have "stack_tops tss = map (\<lambda>p. p + 0x10000) ps" using s(4) ps(2) by (simp only:)
  ultimately show ?thesis using ps(1) by blast
qed

lemma block_end_fits:
  assumes "heap_repr h cs" "heap_inv es cs live" "(p, n) \<in> set live"
  shows "unat p + unat n < 2 ^ 64"
proof -
  from assms(2,3) obtain c where c: "c \<in> set cs" "unat p + unat n \<le> c_end c"
    by (auto simp: heap_inv_def list_all_iff holds_block_def)
  with assms(1) have "wf_chunk c" by (auto simp: heap_repr_def wf_chunks_def list_all_iff)
  with c(2) show ?thesis by (auto simp: wf_chunk_def)
qed

text \<open>
  The stack of ring 0 and the seven interrupt stacks that \<open>TaskStateSegment64::new\<close> takes from the
  heap, in any state the allocator reaches, are eight pairwise disjoint regions of 64 KiB below the
  addresses in the segment, disjoint from every other live block of the heap as well.
\<close>

theorem interrupt_stacks_disjoint:
  assumes "wf_regions es" and "heap_run es h live" and "TaskStateSegment64_new h = Ok (tss, a, h')"
  shows "length (stack_tops tss) = 8 \<and> length (tss_ist tss) = 8 \<and>
    (\<forall>t \<in> set (stack_tops tss). 0x10000 \<le> unat t) \<and>
    (\<forall>i < 8. \<forall>j < i. unat (stack_tops tss ! i) \<le> unat (stack_tops tss ! j) - 0x10000 \<or>
       unat (stack_tops tss ! j) \<le> unat (stack_tops tss ! i) - 0x10000) \<and>
    (\<forall>t \<in> set (stack_tops tss). \<forall>b \<in> set live.
       unat t \<le> unat (fst b) \<or> unat (fst b) + unat (snd b) \<le> unat t - 0x10000)"
proof -
  from TaskStateSegment64_new_run [OF assms] obtain ps where ps: "length ps = 8"
    "stack_tops tss = map (\<lambda>p. p + 0x10000) ps" "length (tss_ist tss) = 8"
    "heap_run es h' ((a, 104) # rev (map (\<lambda>p. (p, 0x10000)) ps) @ live)" by blast
  let ?stacks = "map (\<lambda>p. (p, 0x10000 :: usize)) ps"
  obtain cs where cs: "heap_repr h' cs" "heap_inv es cs ((a, 104) # rev ?stacks @ live)"
    using heap_run_inv [OF ps(4) assms(1)] by blast
  have stk: "unat (p + 0x10000) = unat p + 0x10000" if "p \<in> set ps" for p
  proof -
    have "unat p + unat (0x10000 :: usize) < 2 ^ 64"
      using that by (intro block_end_fits [OF cs]) auto
    then show ?thesis by (subst unat_add_nowrap) simp_all
  qed
  have wf: "wf_chunks cs" using cs(1) by (simp add: heap_repr_def)
  have len: "length (rev ?stacks) = 8" using ps(1) by simp
  have sep: "unat (fst (bs ! i)) + unat (snd (bs ! i)) \<le> unat (fst (bs ! j)) \<or>
      unat (fst (bs ! j)) + unat (snd (bs ! j)) \<le> unat (fst (bs ! i))"
    if "bs = rev ?stacks @ live" "i < j" "j < length bs" for bs i j
    using heap_inv_separated [OF wf cs(2), of "Suc i" "Suc j"] that by auto
  have stack: "(rev ?stacks @ live) ! (7 - i) = (ps ! i, 0x10000)" if "i < 8" for i
    using that ps(1) by (auto simp: nth_append rev_nth)
  have between: "unat (ps ! j) + 0x10000 \<le> unat (ps ! i) \<or> unat (ps ! i) + 0x10000 \<le> unat (ps ! j)"
    if "i < 8" "j < i" for i j
    using sep [OF refl, of "7 - i" "7 - j"] that len stack [of i] stack [of j] by auto
  have other: "unat p + 0x10000 \<le> unat (fst b) \<or> unat (fst b) + unat (snd b) \<le> unat p"
    if "p \<in> set ps" "b \<in> set live" for p b
  proof -
    from that obtain i k where ik: "i < 8" "ps ! i = p" "k < length live" "live ! k = b"
      using ps(1) by (auto simp: in_set_conv_nth)
    moreover have "(rev ?stacks @ live) ! (8 + k) = b" using ik(4) len by (simp add: nth_append)
    ultimately show ?thesis using sep [OF refl, of "7 - i" "8 + k"] len stack [of i] by auto
  qed
  have "\<forall>i < 8. \<forall>j < i. unat (stack_tops tss ! i) \<le> unat (stack_tops tss ! j) - 0x10000 \<or>
       unat (stack_tops tss ! j) \<le> unat (stack_tops tss ! i) - 0x10000"
  proof (intro allI impI)
    fix i j :: nat assume "i < 8" "j < i"
    with between [of i j] ps(1) show "unat (stack_tops tss ! i) \<le> unat (stack_tops tss ! j) - 0x10000 \<or>
       unat (stack_tops tss ! j) \<le> unat (stack_tops tss ! i) - 0x10000"
      by (auto simp: ps(2) stk)
  qed
  moreover have "\<forall>t \<in> set (stack_tops tss). \<forall>b \<in> set live.
       unat t \<le> unat (fst b) \<or> unat (fst b) + unat (snd b) \<le> unat t - 0x10000"
    using other by (auto simp: ps(2) stk)
  moreover have "\<forall>t \<in> set (stack_tops tss). 0x10000 \<le> unat t" by (auto simp: ps(2) stk)
  ultimately show ?thesis using ps(1-3) by simp
qed

section \<open>The loaded tables\<close>

lemma box_new_Ok_run:
  assumes "wf_regions es" "heap_run es h live" "box_new h sz 1 = Ok (p, h')" "sz < 2 ^ 32"
  shows "heap_run es h' ((p, word_of_nat sz) # live)"
  using box_new_run [OF assms(1,2), of sz 0] assms(3,4) by auto

lemma init_exceptions_run:
  assumes "wf_regions es" "heap_run es h live" "init_exceptions fn_addr h s = Ok (gdt, idt, s', h')"
  obtains tss a live' where
    "gdt_words (gdt_inner gdt) = [0, gdt_attr_value KernelCode, gdt_attr_value KernelData,
       fst (tss_descriptor_words (TaskStateSegment64Descriptor_new a)),
       snd (tss_descriptor_words (TaskStateSegment64Descriptor_new a))]"
    "idt = Idt_new fn_addr KERNEL_CS"
    "heap_run es h' live'" "set live \<subseteq> set live'" "(a, 104) \<in> set live'" "(gdt_addr gdt, 40) \<in> set live'"
    "(snd (idtr s'), 4096) \<in> set live'"
    "gdtr s' = (39, gdt_addr gdt)" "fst (idtr s') = 4096" "tr_sel s' = 24" "sel_cs s' = 8"
    "set [sel_ss s', sel_es s', sel_ds s', sel_fs s', sel_gs s'] = {16}"
proof -
  from assms(3) obtain tss a h1 p h2 q where s: "TaskStateSegment64_new h = Ok (tss, a, h1)"
      "box_new h1 GDT_SIZE 1 = Ok (p, h2)" "box_new h2 (16 * length (Idt_new fn_addr KERNEL_CS)) 1 = Ok (q, h')"
      "gdt = \<lparr> gdt_inner = \<lparr> null_segment = GdtSegmentDescriptor_null,
                 kernel_code_segment = GdtSegmentDescriptor_new KernelCode,
                 kernel_data_segment = GdtSegmentDescriptor_new KernelData,
                 task_state_segment = TaskStateSegment64Descriptor_new a \<rparr>, gdt_addr = p, tss64 = tss \<rparr>"
      "idt = Idt_new fn_addr KERNEL_CS"
      "s' = idt_load q idt ((gdt_load gdt s)\<lparr>sel_cs := KERNEL_CS, sel_ss := KERNEL_DS, sel_es := KERNEL_DS,
         sel_ds := KERNEL_DS, sel_fs := KERNEL_DS, sel_gs := KERNEL_DS\<rparr>)"
    by (auto simp: init_exceptions_def GdtWrapper_default_def Let_def)
  from TaskStateSegment64_new_run [OF assms(1,2) s(1)] obtain ps where
    r1: "heap_run es h1 ((a, 104) # rev (map (\<lambda>p. (p, 0x10000)) ps) @ live)" by (elim exE conjE)
  have len: "length (Idt_new fn_addr sel) = 256" for sel by (simp add: Idt_new_def)
  from box_new_Ok_run [OF assms(1) r1 s(2)] have
    r2: "heap_run es h2 ((p, 40) # (a, 104) # rev (map (\<lambda>p. (p, 0x10000)) ps) @ live)"
    by (simp add: GDT_SIZE_def)
  from box_new_Ok_run [OF assms(1) r2 s(3)] have
    r3: "heap_run es h' ((q, 4096) # (p, 40) # (a, 104) # rev (map (\<lambda>p. (p, 0x10000)) ps) @ live)"
    by (simp add: len)
  show ?thesis
    by (rule that [OF _ s(5) r3])
      (auto simp: s(4,5,6) gdt_words_def GdtSegmentDescriptor_null_def GdtSegmentDescriptor_new_def gdt_load_def
        idt_load_def GDT_SIZE_def TSS64_SEL_def KERNEL_CS_def KERNEL_DS_def len push_bit_eq_mult)
qed

text \<open>
  C32: After \<open>init_exceptions\<close> the table registers cover live blocks of the heap that hold the whole
  tables, and the selectors index what they are loaded for: CS a present 64-bit code segment of ring
  0, the data selectors a present writable data segment of ring 0, and the task register an available
  task state segment whose base, put together from its four pieces, is the address of the block the
  segment lives in, and whose limit covers it. Every gate of the interrupt table names the loaded CS.
\<close>

theorem exceptions_initialised:
  assumes "wf_regions es" and "heap_run es h live" and "init_exceptions fn_addr h s = Ok (gdt, idt, s', h')"
  shows "\<exists>live'. heap_run es h' live' \<and> set live \<subseteq> set live' \<and>
    (let w = gdt_words (gdt_inner gdt); seg = (\<lambda>sel. w ! (unat (sel :: u16) div 8));
         lo = seg (tr_sel s'); hi = w ! (unat (tr_sel s') div 8 + 1) in
     (snd (gdtr s'), fst (gdtr s')) = (gdt_addr gdt, word_of_nat (8 * length w - 1)) \<and>
     (gdt_addr gdt, word_of_nat (8 * length w)) \<in> set live' \<and>
     seg_is_code (seg (sel_cs s')) \<and> bit (seg (sel_cs s')) 53 \<and> \<not> bit (seg (sel_cs s')) 54 \<and>
     seg_dpl (seg (sel_cs s')) = 0 \<and>
     (\<forall>sel \<in> {sel_ss s', sel_es s', sel_ds s', sel_fs s', sel_gs s'}.
        seg_is_data (seg sel) \<and> bit (seg sel) 41 \<and> seg_dpl (seg sel) = 0) \<and>
     system_type lo = 9 \<and> (system_base lo hi, 104) \<in> set live' \<and> 103 \<le> system_limit lo \<and>
     (snd (idtr s'), 4096) \<in> set live' \<and> 16 * length idt \<le> unat (fst (idtr s')) + 1 \<and>
     (\<forall>d \<in> set idt. segment_selector d = sel_cs s'))"
proof -
  from init_exceptions_run [OF assms] obtain a live' where r:
    "gdt_words (gdt_inner gdt) = [0, gdt_attr_value KernelCode, gdt_attr_value KernelData,
       fst (tss_descriptor_words (TaskStateSegment64Descriptor_new a)),
       snd (tss_descriptor_words (TaskStateSegment64Descriptor_new a))]"
    "idt = Idt_new fn_addr KERNEL_CS"
    "heap_run es h' live'" "set live \<subseteq> set live'" "(a, 104) \<in> set live'" "(gdt_addr gdt, 40) \<in> set live'"
    "(snd (idtr s'), 4096) \<in> set live'"
    "gdtr s' = (39, gdt_addr gdt)" "fst (idtr s') = 4096" "tr_sel s' = 24" "sel_cs s' = 8"
    "set [sel_ss s', sel_es s', sel_ds s', sel_fs s', sel_gs s'] = {16}" by metis
  have data: "sel_ss s' = 16" "sel_es s' = 16" "sel_ds s' = 16" "sel_fs s' = 16" "sel_gs s' = 16"
    using r(12) by auto
  have idt: "length idt = 256" "\<forall>d \<in> set idt. segment_selector d = 8"
    unfolding r(2)
    by (auto simp: Idt_new_def IdtDescriptor_new_def KERNEL_CS_def push_bit_eq_mult
        dest!: set_update_subset_insert [THEN subsetD] in_set_replicate [THEN iffD1])
  show ?thesis
    by (rule exI [of _ live'])
      (use r(3-11) data idt in \<open>auto simp: Let_def r(1) gdt_attr_bits tss_descriptor_base tss_descriptor_type
        tss_descriptor_limit simp del: gdt_attr_value.simps\<close>)
qed

section \<open>With enough memory the setup succeeds\<close>

definition room :: "FirstFitAllocator \<Rightarrow> nat \<Rightarrow> bool" where
  "room h n \<longleftrightarrow> (\<exists>a s cs. heap_repr h (Chunk a s False # cs) \<and> n \<le> s \<and> a + s \<le> 2 ^ 48)"

lemma roomI: "heap_repr h (Chunk a s False # cs) \<Longrightarrow> n \<le> s \<Longrightarrow> a + s \<le> 2 ^ 48 \<Longrightarrow> room h n"
  unfolding room_def by blast

lemma room_heap_ok: "room h n \<Longrightarrow> heap_ok h"
  by (auto simp: room_def heap_ok_def)

lemma room_mono: "room h n \<Longrightarrow> m \<le> n \<Longrightarrow> room h m"
  unfolding room_def by (meson le_trans)

lemma layout_sz_le:
  assumes "0 < unat (layout_size l)" "unat (layout_size l) \<le> 2 ^ i" "5 \<le> i" "i \<le> 63"
  shows "layout_sz l \<le> 2 ^ i"
proof -
  have "(2 :: nat) ^ i \<le> 2 ^ 63" using assms(4) by (intro power_increasing) simp_all
  with assms(2) have "unat (layout_size l) \<le> 2 ^ 63" by linarith
  from round_up_to_nearest_pow2_Ok [OF assms(1) this] obtain j where
    j: "j \<le> 63" "round_up_to_nearest_pow2 (layout_size l) = Ok (2 ^ j)"
      "\<forall>i. unat (layout_size l) \<le> 2 ^ i \<longrightarrow> j \<le> i" by blast
  from j(3) assms(2) have "j \<le> i" by blast
  then have "(2 :: nat) ^ j \<le> 2 ^ i" by (intro power_increasing) simp_all
  moreover have "unat ((2::usize) ^ j) = 2 ^ j"
    using j(1) by (simp add: unat_push_bit_nowrap [of 1 j, simplified])
  moreover have "(32::nat) \<le> 2 ^ i" using power_increasing [OF assms(3), of "2::nat"] by simp
  ultimately show ?thesis by (simp add: layout_sz_def j(2) unat_max HEADER_SIZE_def)
qed

text \<open>Any request that the first chunk has room for is served from its end, so the rest of it stays first.\<close>

lemma alloc_room:
  assumes "valid_layout l" "0 < unat (layout_size l)" "room h (layout_sz l + layout_al l + 64 + n)"
  shows "\<exists>p h'. alloc_with_options h l = Ok (p, h') \<and> p \<noteq> 0 \<and> unat p + layout_sz l \<le> 2 ^ 48 \<and> room h' n \<and>
    used_bytes h \<subseteq> used_bytes h'"
proof -
  obtain a s cs where h: "heap_repr h (Chunk a s False # cs)" "layout_sz l + layout_al l + 64 + n \<le> s" "a + s \<le> 2 ^ 48"
    using assms(3) by (auto simp: room_def)
  define x where "x = place_in (layout_sz l) (layout_al l) (Chunk a s False)"
  note lf = layout_facts [OF assms(1,2)]
  have wf: "wf_chunk (Chunk a s False)" using h(1) by (simp add: heap_repr_def wf_chunks_def)
  note al = lf(6)
  have x: "a + s \<le> x + layout_sz l + layout_al l" "x \<le> a + s - layout_sz l"
    using mod_less_divisor [OF al, of "a + s - layout_sz l"] h(2) unfolding x_def place_in_def by simp_all
  have "first_fit (layout_sz l) (layout_al l) (Chunk a s False # cs) =
      Some (x, split_chunk (layout_sz l) (layout_al l) (Chunk a s False) @ cs)"
    using h(2) by (simp add: fits_chunk_def x_def)
  with alloc_with_options_refines [OF h(1) assms(1,2)] obtain h' where
    h': "alloc_with_options h l = Ok (word_of_nat x, h')"
      "heap_repr h' (split_chunk (layout_sz l) (layout_al l) (Chunk a s False) @ cs)" by auto
  have "x < 2 ^ 64" "0 < x" using x wf h(2) by (auto simp: wf_chunk_def)
  then have "word_of_nat x \<noteq> (0 :: usize)" by (simp add: unat_eq_zero [symmetric] unat_of_nat)
  moreover have "\<exists>ds. split_chunk (layout_sz l) (layout_al l) (Chunk a s False) @ cs = Chunk a (x - 32 - a) False # ds"
    by (simp add: split_chunk_def x_def Let_def)
  moreover have "n \<le> x - 32 - a" "a + (x - 32 - a) \<le> 2 ^ 48" using x h(2,3) by linarith+
  ultimately have "room h' n" unfolding room_def using h'(2) by metis
  moreover have "unat (word_of_nat x :: usize) + layout_sz l \<le> 2 ^ 48"
    using x(2) h(2,3) \<open>x < 2 ^ 64\<close> by (simp add: unat_of_nat)
  moreover have "used_bytes h \<subseteq> used_bytes h'"
    using ffa.alloc_block [OF room_heap_ok [OF assms(3)] assms(1) h'(1) \<open>word_of_nat x \<noteq> 0\<close>] by blast
  ultimately show ?thesis using h'(1) \<open>word_of_nat x \<noteq> 0\<close> by blast
qed

lemma box_new_room:
  assumes "room h (2 ^ i + 128 + n)" "0 < sz" "sz \<le> 2 ^ i" "5 \<le> i" "i \<le> 32"
  shows "\<exists>p h'. box_new h sz 1 = Ok (p, h') \<and> room h' n"
proof -
  let ?l = "\<lparr> layout_size = word_of_nat sz, layout_align = 1 \<rparr> :: Layout"
  have i: "(2 :: nat) ^ i \<le> 2 ^ 32" using assms(5) by (intro power_increasing) simp_all
  with assms(3) have usz: "unat (word_of_nat sz :: usize) = sz" by (simp add: unat_of_nat)
  have l: "valid_layout ?l" "0 < unat (layout_size ?l)"
    using usz assms(2,3) i by (auto simp: valid_layout_def intro: exI [of _ 0])
  have "layout_sz ?l \<le> 2 ^ i" using l(2) usz assms by (intro layout_sz_le) simp_all
  moreover have "layout_al ?l = 32" by (simp add: layout_al_def HEADER_SIZE_def max_def)
  ultimately have "room h (layout_sz ?l + layout_al ?l + 64 + n)" by (intro room_mono [OF assms(1)]) simp
  from alloc_room [OF l this] show ?thesis by (auto simp: box_new_def)
qed

lemma alloc_stacks_room:
  assumes "room h (n * 0x10080 + m)"
  shows "\<exists>rsps h'. alloc_stacks n h = Ok (rsps, h') \<and> room h' m"
  using assms
proof (induction n arbitrary: h)
  case 0
  then show ?case by simp
next
  case (Suc n)
  then have "room h (2 ^ 16 + 128 + (n * 0x10080 + m))" by (simp add: algebra_simps)
  from box_new_room [OF this, of HANDLER_STACK_SIZE] obtain p h1 where
    h1: "box_new h HANDLER_STACK_SIZE 1 = Ok (p, h1)" "room h1 (n * 0x10080 + m)"
    by (auto simp: HANDLER_STACK_SIZE_def)
  from Suc.IH [OF h1(2)] h1(1) show ?case by (auto simp: alloc_interrupt_stack_def)
qed

lemma init_exceptions_room:
  assumes "room h (8 * 0x10080 + (0x1240 + n))"
  shows "\<exists>gdt idt s' h'. init_exceptions fn_addr h s = Ok (gdt, idt, s', h') \<and> room h' n"
proof -
  from alloc_stacks_room [OF assms] obtain rsps h1 where
    "alloc_stacks (Suc 7) h = Ok (rsps, h1)" and h1: "room h1 (0x1240 + n)" by auto
  then obtain rsp0 h0 rsps' where st: "alloc_interrupt_stack h = Ok (rsp0, h0)" "alloc_stacks 7 h0 = Ok (rsps', h1)"
    by (auto simp only: alloc_stacks.simps rbind_eq_Ok split_paired_Ex split)
  have "room h1 (2 ^ 7 + 128 + (0x1140 + n))" using h1 by simp
  from box_new_room [OF this, of TSS64_SIZE] obtain p h2 where
    h2: "box_new h1 TSS64_SIZE 1 = Ok (p, h2)" "room h2 (0x1140 + n)" by (auto simp: TSS64_SIZE_def)
  then have "room h2 (2 ^ 6 + 128 + (0x1080 + n))" by simp
  from box_new_room [OF this, of GDT_SIZE] obtain q h3 where
    h3: "box_new h2 GDT_SIZE 1 = Ok (q, h3)" "room h3 (0x1080 + n)" by (auto simp: GDT_SIZE_def)
  then have "room h3 (2 ^ 12 + 128 + n)" by simp
  from box_new_room [OF this, of 4096] obtain r h4 where
    h4: "box_new h3 4096 1 = Ok (r, h4)" "room h4 n" by auto
  have len: "16 * length (Idt_new fn_addr KERNEL_CS) = 4096" by (simp add: Idt_new_def)
  show ?thesis
    using st h2(1) h3(1) h4
    by (simp add: init_exceptions_def GdtWrapper_default_def TaskStateSegment64_new_def Let_def len
        del: alloc_stacks.simps)
qed

definition two_mib_region :: EfiMemoryDescriptor where
  "two_mib_region = \<lparr> memory_type = CONVENTIONAL_MEMORY, physical_start = 0x100000, virtual_start = 0,
     number_of_pages = 0x200, attribute = 0 \<rparr>"

lemma two_mib_heap:
  obtains h where "wf_regions [two_mib_region]" "heap_run [two_mib_region] h []" "room h 0x200000"
proof -
  have wf: "wf_regions [two_mib_region]" by (simp add: wf_regions_def wf_region_def two_mib_region_def)
  moreover have "usable_chunks [two_mib_region] = [Chunk 0x100000 0x200000 False]"
    by (simp add: usable_chunks_def usable_region_def region_chunk_def two_mib_region_def)
  ultimately obtain h where "init_with_entries ALLOCATOR_static [two_mib_region] = Ok h"
      "heap_repr h [Chunk 0x100000 0x200000 False]"
    using init_with_entries_refines [of "[two_mib_region]"] by auto
  then show ?thesis using wf by (intro that [of h] heap_run.boot roomI [of h "0x100000" "0x200000" "[]"]) simp_all
qed

lemma sample_exceptions:
  obtains h gdt idt s' h' where "wf_regions [two_mib_region]" "heap_run [two_mib_region] h []"
    "init_exceptions sample_fn_addr h s = Ok (gdt, idt, s', h')"
proof -
  obtain h where h: "wf_regions [two_mib_region]" "heap_run [two_mib_region] h []" "room h 0x200000"
    by (rule two_mib_heap)
  have "room h (8 * 0x10080 + (0x1240 + 0))" by (rule room_mono [OF h(3)]) simp
  from init_exceptions_room [OF this] show thesis using that [OF h(1,2)] by blast
qed

theorem exceptions_initialised_witness:
  "\<exists>h s gdt idt s' h'. init_exceptions sample_fn_addr h s = Ok (gdt, idt, s', h') \<and>
     system_type (gdt_words (gdt_inner gdt) ! (unat (tr_sel s') div 8)) = 9"
proof -
  obtain h gdt idt s' h' where a: "wf_regions [two_mib_region]" "heap_run [two_mib_region] h []"
    "init_exceptions sample_fn_addr h s = Ok (gdt, idt, s', h')" by (rule sample_exceptions)
  from exceptions_initialised [OF this]
  have "system_type (gdt_words (gdt_inner gdt) ! (unat (tr_sel s') div 8)) = 9" unfolding Let_def by blast
  with a(3) show ?thesis by blast
qed

theorem interrupt_stacks_disjoint_witness:
  "\<exists>h tss a h'. TaskStateSegment64_new h = Ok (tss, a, h') \<and> length (stack_tops tss) = 8 \<and>
     (unat (stack_tops tss ! 1) \<le> unat (stack_tops tss ! 0) - 0x10000 \<or>
      unat (stack_tops tss ! 0) \<le> unat (stack_tops tss ! 1) - 0x10000)"
proof -
  obtain h gdt idt s' h' s where a: "wf_regions [two_mib_region]" "heap_run [two_mib_region] h []"
    "init_exceptions sample_fn_addr h s = Ok (gdt, idt, s', h')" by (rule sample_exceptions)
  from a(3) obtain tss p h1 where t: "TaskStateSegment64_new h = Ok (tss, p, h1)"
    by (auto simp: init_exceptions_def GdtWrapper_default_def Let_def)
  from interrupt_stacks_disjoint [OF a(1,2) t] have
    "length (stack_tops tss) = 8" "unat (stack_tops tss ! 1) \<le> unat (stack_tops tss ! 0) - 0x10000 \<or>
      unat (stack_tops tss ! 0) \<le> unat (stack_tops tss ! 1) - 0x10000" by auto
  with t show ?thesis by blast
qed

end
