(* ===== verification/Acpi.thy ===== *)
theory Acpi
  imports Pci_Config Hpet_Clock
begin

text \<open>
  The ACPI tables, \<open>src/acpi.rs\<close>, and the two steps of the boot that start from them,
  \<open>init_hpet\<close> and \<open>init_pci\<close> of \<open>src/init.rs\<close>. The firmware's tables are bytes of the memory
  \<open>m\<close>; a reference to a packed structure is its address, and a field is read at its offset.
  The scan of the configuration space, \<open>Pci::probe_devices\<close> of \<open>src/pci.rs\<close>, is here as well, with the
  driver's \<open>attach\<close> as an argument.
\<close>

section \<open>Tables in memory\<close>

type_synonym mem = "u64 \<Rightarrow> u8"

definition mem_bytes :: "mem \<Rightarrow> u64 \<Rightarrow> nat \<Rightarrow> u8 list" where
  "mem_bytes m a n = map (\<lambda>i. m (a + word_of_nat i)) [0..<n]"

definition mem_u32 :: "mem \<Rightarrow> u64 \<Rightarrow> u32" where
  "mem_u32 m a = from_le_bytes (mem_bytes m a 4)"

definition mem_u64 :: "mem \<Rightarrow> u64 \<Rightarrow> u64" where
  "mem_u64 m a = from_le_bytes (mem_bytes m a 8)"

definition SIG_HPET :: "u8 list" where "SIG_HPET = [0x48, 0x50, 0x45, 0x54]"
definition SIG_MCFG :: "u8 list" where "SIG_MCFG = [0x4D, 0x43, 0x46, 0x47]"

text \<open>\<open>SystemDescriptionTableHeader\<close>: the signature, then the length; 36 bytes in all.\<close>

definition signature :: "mem \<Rightarrow> u64 \<Rightarrow> u8 list" where
  "signature m h = mem_bytes m h 4"

definition table_length :: "mem \<Rightarrow> u64 \<Rightarrow> u32" where
  "table_length m h = mem_u32 m (h + 4)"

definition expect_signature :: "mem \<Rightarrow> u64 \<Rightarrow> u8 list \<Rightarrow> unit res" where
  "expect_signature m h sig =
     (if signature m h = sig then Ok () else panic ''assertion `left == right` failed'')"

record XsdtIterator =
  it_table :: u64
  it_index :: usize

definition XsdtIterator_new :: "u64 \<Rightarrow> XsdtIterator" where
  "XsdtIterator_new table = \<lparr> it_table = table, it_index = 0 \<rparr>"

definition Xsdt_header_size :: usize where "Xsdt_header_size = 36"

definition Xsdt_num_of_entries :: "mem \<Rightarrow> u64 \<Rightarrow> usize res" where
  "Xsdt_num_of_entries m x =
     rbind (usub (ucast (table_length m x)) Xsdt_header_size) (\<lambda>n. udiv n 8)"

definition Xsdt_entry :: "mem \<Rightarrow> u64 \<Rightarrow> usize \<Rightarrow> u64" where
  "Xsdt_entry m x index = mem_u64 m (x + Xsdt_header_size + 8 * index)"

definition XsdtIterator_next :: "mem \<Rightarrow> XsdtIterator \<Rightarrow> (u64 option \<times> XsdtIterator) res" where
  "XsdtIterator_next m it =
     rbind (Xsdt_num_of_entries m (it_table it)) (\<lambda>n.
     if n \<le> it_index it then Ok (None, it)
     else rbind (uadd (it_index it) 1) (\<lambda>i.
          rbind (usub i 1) (\<lambda>j.
            Ok (Some (Xsdt_entry m (it_table it) j), it\<lparr>it_index := i\<rparr>))))"

lemma XsdtIterator_next_Some:
  "XsdtIterator_next m it = Inr (Some h, it') \<Longrightarrow>
   \<exists>n. Xsdt_num_of_entries m (it_table it) = Ok n \<and> unat (it_index it) < unat n \<and>
     it_table it' = it_table it \<and> unat (it_index it') = Suc (unat (it_index it)) \<and>
     h = Xsdt_entry m (it_table it) (it_index it)"
  by (auto simp: XsdtIterator_next_def not_le word_less_nat_alt uadd_def usub_def
      unat_word_ariths split: if_splits)

text \<open>\<open>iter().find(..)\<close>: the iterator runs until a table has the signature.\<close>

function iter_find :: "mem \<Rightarrow> u8 list \<Rightarrow> XsdtIterator \<Rightarrow> u64 option res" where
  "iter_find m sig it =
     (case XsdtIterator_next m it of
        Inl f \<Rightarrow> Inl f
      | Inr (None, it') \<Rightarrow> Ok None
      | Inr (Some e, it') \<Rightarrow> if signature m e = sig then Ok (Some e) else iter_find m sig it')"
  by pat_completeness auto
termination
  by (relation "measure (\<lambda>(m, sig, it).
        (case Xsdt_num_of_entries m (it_table it) of Inl _ \<Rightarrow> 0 | Inr n \<Rightarrow> unat n) - unat (it_index it))")
     (auto dest!: XsdtIterator_next_Some)

declare iter_find.simps [simp del]

definition find_table :: "mem \<Rightarrow> u64 \<Rightarrow> u8 list \<Rightarrow> u64 option res" where
  "find_table m x sig = iter_find m sig (XsdtIterator_new x)"

text \<open>\<open>AcpiTable::new\<close>: the cast of a header, after the check of its signature.\<close>

definition AcpiTable_new :: "mem \<Rightarrow> u8 list \<Rightarrow> u64 \<Rightarrow> u64 res" where
  "AcpiTable_new m SIGNATURE header = rbind (expect_signature m header SIGNATURE) (\<lambda>_. Ok header)"

text \<open>\<open>GenericAddress\<close>: the address space, three bytes of padding, the address.\<close>

definition address_in_memory_space :: "mem \<Rightarrow> u64 \<Rightarrow> usize res" where
  "address_in_memory_space m g =
     (if m g = 0 then Ok (mem_u64 m (g + 4))
      else err ''ACPI Generic Address is not in system memory space'')"

definition hpet_base_address :: "mem \<Rightarrow> u64 \<Rightarrow> u64 res" where
  "hpet_base_address m d = address_in_memory_space m (d + 40)"

text \<open>The root pointer: the address of the extended table is at offset 24.\<close>

definition rsdp_xsdt :: "mem \<Rightarrow> u64 \<Rightarrow> u64" where
  "rsdp_xsdt m rsdp = mem_u64 m (rsdp + 24)"

definition map_table :: "(u64 \<Rightarrow> u64 res) \<Rightarrow> u64 option \<Rightarrow> u64 option res" where
  "map_table f h = (case h of None \<Rightarrow> Ok None | Some h \<Rightarrow> rbind (f h) (\<lambda>t. Ok (Some t)))"

definition rsdp_hpet :: "mem \<Rightarrow> u64 \<Rightarrow> u64 option res" where
  "rsdp_hpet m rsdp =
     rbind (find_table m (rsdp_xsdt m rsdp) SIG_HPET) (map_table (AcpiTable_new m SIG_HPET))"

definition rsdp_mcfg :: "mem \<Rightarrow> u64 \<Rightarrow> u64 option res" where
  "rsdp_mcfg m rsdp =
     rbind (find_table m (rsdp_xsdt m rsdp) SIG_MCFG) (map_table (AcpiTable_new m SIG_MCFG))"

definition Mcfg_header_size :: usize where "Mcfg_header_size = 44"

definition Mcfg_num_of_entries :: "mem \<Rightarrow> u64 \<Rightarrow> usize res" where
  "Mcfg_num_of_entries m d =
     rbind (usub (ucast (table_length m d)) Mcfg_header_size) (\<lambda>n. udiv n 16)"

definition Mcfg_entry :: "mem \<Rightarrow> u64 \<Rightarrow> usize \<Rightarrow> u64 option res" where
  "Mcfg_entry m d index =
     rbind (Mcfg_num_of_entries m d) (\<lambda>n.
     if n \<le> index then Ok None else Ok (Some (d + Mcfg_header_size + 16 * index)))"

text \<open>\<open>EcamEntry\<close>: the base address comes first.\<close>

definition ecam_base_address :: "mem \<Rightarrow> u64 \<Rightarrow> u64" where
  "ecam_base_address m e = mem_u64 m e"

definition Pci_new_mcfg :: "mem \<Rightarrow> u64 \<Rightarrow> Pci res" where
  "Pci_new_mcfg m d =
     rbind (Mcfg_num_of_entries m d) (\<lambda>n.
     if n \<noteq> 1 then panic ''assertion failed: mcfg.num_of_entries() == 1''
     else rbind (Mcfg_entry m d 0) (\<lambda>e.
       case e of None \<Rightarrow> panic ''Out of range''
       | Some e \<Rightarrow>
           rbind (uadd (ecam_base_address m e) (push_bit 24 1)) (\<lambda>pci_config_space_end.
             Ok \<lparr> ecm_start = ecam_base_address m e, ecm_end = pci_config_space_end \<rparr>)))"

section \<open>Boot steps\<close>

text \<open>The registers of the timer are those of the device at the address found.\<close>

definition init_hpet :: "mem \<Rightarrow> (u64 \<Rightarrow> HpetRegisters) \<Rightarrow> u64 \<Rightarrow> Hpet option \<Rightarrow> Hpet option res" where
  "init_hpet m hw acpi g =
     rbind (rsdp_hpet m acpi) (\<lambda>h.
     case h of None \<Rightarrow> panic ''Failed to get HPET from ACPI''
     | Some d \<Rightarrow>
         rbind (expect (hpet_base_address m d) ''Failed to get HPET base address'') (\<lambda>a.
         rbind (Hpet_new (hw a)) (set_global_hpet g)))"

text \<open>
  The loop over the functions of the bus: \<open>supp\<close> is \<open>PciXhciDriver::supports\<close> and \<open>attach\<close> the driver's
  entry, which works on the state \<open>'d\<close> of the machine. An error of the driver is logged and the scan
  goes on; a panic ends it.
\<close>

fun probe_loop ::
  "('d \<Rightarrow> u64 \<Rightarrow> u16) \<Rightarrow> (VendorDeviceId \<Rightarrow> bool) \<Rightarrow> (Pci \<Rightarrow> BusDeviceFunction \<Rightarrow> 'd \<Rightarrow> unit res \<times> 'd) \<Rightarrow>
   Pci \<Rightarrow> BusDeviceFunction list \<Rightarrow> 'd \<Rightarrow> 'd res" where
  "probe_loop rd supp attach self [] dev = Ok dev"
| "probe_loop rd supp attach self (bdf # bdfs) dev =
     rbind (read_vendor_id_and_device_id rd self dev bdf) (\<lambda>v.
     case v of None \<Rightarrow> probe_loop rd supp attach self bdfs dev
     | Some vd \<Rightarrow>
         if supp vd then
           (case attach self bdf dev of
              (Inr _, dev') \<Rightarrow> probe_loop rd supp attach self bdfs dev'
            | (Inl (Err e), dev') \<Rightarrow> probe_loop rd supp attach self bdfs dev'
            | (Inl f, dev') \<Rightarrow> Inl f)
         else probe_loop rd supp attach self bdfs dev)"

definition probe_devices ::
  "('d \<Rightarrow> u64 \<Rightarrow> u16) \<Rightarrow> (VendorDeviceId \<Rightarrow> bool) \<Rightarrow> (Pci \<Rightarrow> BusDeviceFunction \<Rightarrow> 'd \<Rightarrow> unit res \<times> 'd) \<Rightarrow>
   Pci \<Rightarrow> 'd \<Rightarrow> 'd res" where
  "probe_devices rd supp attach self dev = probe_loop rd supp attach self (bdf_collect 0) dev"

definition init_pci ::
  "('d \<Rightarrow> u64 \<Rightarrow> u16) \<Rightarrow> (VendorDeviceId \<Rightarrow> bool) \<Rightarrow> (Pci \<Rightarrow> BusDeviceFunction \<Rightarrow> 'd \<Rightarrow> unit res \<times> 'd) \<Rightarrow>
   mem \<Rightarrow> u64 \<Rightarrow> 'd \<Rightarrow> 'd res" where
  "init_pci rd supp attach m acpi dev =
     rbind (rsdp_mcfg m acpi) (\<lambda>t.
     case t of None \<Rightarrow> Ok dev
     | Some mcfg \<Rightarrow>
         rbind (Mcfg_num_of_entries m mcfg) (\<lambda>n.
         rbind (Pci_new_mcfg m mcfg) (\<lambda>pci. probe_devices rd supp attach pci dev)))"

section \<open>Finding a table\<close>

text \<open>The tables that the extended table lists, by address.\<close>

definition xsdt_count :: "mem \<Rightarrow> u64 \<Rightarrow> nat" where
  "xsdt_count m x = (unat (table_length m x) - 36) div 8"

definition xsdt_entries :: "mem \<Rightarrow> u64 \<Rightarrow> u64 list" where
  "xsdt_entries m x = map (\<lambda>i. Xsdt_entry m x (word_of_nat i)) [0..<xsdt_count m x]"

lemma unat_ucast_u32 [simp]: "unat (ucast (w :: u32) :: u64) = unat w"
  by (simp add: unsigned_ucast_eq take_bit_nat_eq_self unsigned_less [THEN less_trans])

lemma checked_count:
  fixes w :: u32 and h k :: u64
  assumes "unat h \<le> unat w" "k \<noteq> 0"
  obtains n where "rbind (usub (ucast w) h) (\<lambda>n. udiv n k) = Ok n" "unat n = (unat w - unat h) div unat k"
  using assms that by (simp add: usub_def udiv_def word_le_nat_alt unat_div unat_sub)

lemma Xsdt_num_of_entries_Ok:
  assumes "36 \<le> unat (table_length m x)"
  obtains n where "Xsdt_num_of_entries m x = Ok n" "unat n = xsdt_count m x"
  using checked_count [of Xsdt_header_size "table_length m x" 8] assms
  by (auto simp: Xsdt_num_of_entries_def xsdt_count_def Xsdt_header_size_def)

lemma Xsdt_num_of_entries_panic:
  "unat (table_length m x) < 36 \<Longrightarrow>
   Xsdt_num_of_entries m x = panic ''attempt to subtract with overflow''"
  by (simp add: Xsdt_num_of_entries_def usub_def word_le_nat_alt Xsdt_header_size_def)

lemma xsdt_count_lt: "xsdt_count m x < 2 ^ 32"
proof -
  have "unat (table_length m x) < 2 ^ 32" using unsigned_less [of "table_length m x"] by simp
  then show ?thesis by (simp add: xsdt_count_def)
qed

lemma iter_find_from:
  assumes "36 \<le> unat (table_length m x)" and "i \<le> xsdt_count m x"
  shows "iter_find m sig \<lparr> it_table = x, it_index = word_of_nat i \<rparr> =
    Ok (find (\<lambda>h. signature m h = sig)
      (map (\<lambda>i. Xsdt_entry m x (word_of_nat i)) [i..<xsdt_count m x]))"
  using assms(2)
proof (induction "xsdt_count m x - i" arbitrary: i)
  case 0
  obtain n where n: "Xsdt_num_of_entries m x = Ok n" "unat n = xsdt_count m x"
    using Xsdt_num_of_entries_Ok [OF assms(1)] .
  have "unat (word_of_nat i :: u64) = i"
    using 0 xsdt_count_lt [of m x] by (simp add: unat_of_nat take_bit_nat_eq_self)
  with 0 n show ?case
    by (subst iter_find.simps) (simp add: XsdtIterator_next_def word_le_nat_alt)
next
  case (Suc k)
  obtain n where n: "Xsdt_num_of_entries m x = Ok n" "unat n = xsdt_count m x"
    using Xsdt_num_of_entries_Ok [OF assms(1)] .
  have lt: "i < xsdt_count m x" using Suc.hyps(2) by simp
  have w: "unat (word_of_nat i :: u64) = i"
    using lt xsdt_count_lt [of m x] by (simp add: unat_of_nat take_bit_nat_eq_self)
  have s: "word_of_nat i + 1 = (word_of_nat (Suc i) :: u64)" by (simp add: add.commute)
  have nx: "XsdtIterator_next m \<lparr> it_table = x, it_index = word_of_nat i \<rparr> =
      Ok (Some (Xsdt_entry m x (word_of_nat i)), \<lparr> it_table = x, it_index = word_of_nat (Suc i) \<rparr>)"
    using lt w n xsdt_count_lt [of m x]
    by (simp add: XsdtIterator_next_def word_le_nat_alt uadd_def usub_def unat_word_ariths
        flip: s)
  have u: "[i..<xsdt_count m x] = i # [Suc i..<xsdt_count m x]" using lt by (simp add: upt_conv_Cons)
  have "iter_find m sig \<lparr> it_table = x, it_index = word_of_nat (Suc i) \<rparr> =
    Ok (find (\<lambda>h. signature m h = sig)
      (map (\<lambda>i. Xsdt_entry m x (word_of_nat i)) [Suc i..<xsdt_count m x]))"
    by (rule Suc.hyps(1)) (use Suc.hyps(2) lt in simp_all)
  then show ?case
    by (subst iter_find.simps) (simp add: nx u)
qed

lemma find_table_eq:
  "find_table m x sig =
     (if unat (table_length m x) < 36 then panic ''attempt to subtract with overflow''
      else Ok (find (\<lambda>h. signature m h = sig) (xsdt_entries m x)))"
  using iter_find_from [of m x 0 sig] Xsdt_num_of_entries_panic [of m x]
  by (auto simp: find_table_def XsdtIterator_new_def xsdt_entries_def iter_find.simps
      XsdtIterator_next_def)

text \<open>The assertion of \<open>AcpiTable::new\<close> cannot fail on a table that the search returned.\<close>

lemma found_table_Ok:
  "find (\<lambda>h. signature m h = sig) es = Some h \<Longrightarrow> AcpiTable_new m sig h = Ok h"
  by (auto simp: find_Some_iff AcpiTable_new_def expect_signature_def)

lemma map_found_table:
  "map_table (AcpiTable_new m sig) (find (\<lambda>h. signature m h = sig) es) =
   Ok (find (\<lambda>h. signature m h = sig) es)"
  by (auto simp: map_table_def found_table_Ok split: option.splits)

lemma rsdp_tables_eq:
  assumes "36 \<le> unat (table_length m (rsdp_xsdt m acpi))"
  defines "es \<equiv> xsdt_entries m (rsdp_xsdt m acpi)"
  shows "rsdp_hpet m acpi = Ok (find (\<lambda>h. signature m h = SIG_HPET) es)"
    and "rsdp_mcfg m acpi = Ok (find (\<lambda>h. signature m h = SIG_MCFG) es)"
  using assms by (simp_all add: rsdp_hpet_def rsdp_mcfg_def find_table_eq map_found_table)


section \<open>The clock found through ACPI\<close>

lemma hpet_base_address_eq:
  "hpet_base_address m d = (if m (d + 40) = 0 then Ok (mem_u64 m (d + 44))
     else err ''ACPI Generic Address is not in system memory space'')"
  by (simp add: hpet_base_address_def address_in_memory_space_def add.assoc)

text \<open>
  C33: \<open>init_hpet\<close> on an extended table of at least its header's length. The timer used is that of the
  first table listed whose signature is HPET: without one, or with one whose registers are not in
  memory space, the boot panics with the message of the failed step; else, if the registers at the
  table's address have a counter period, the global clock is set to that timer, quiet and counting
  from zero, so the first timestamp is 0. A clock that is set already is never replaced.\<close>

theorem init_hpet_uses_first_listed_timer:
  assumes "36 \<le> unat (table_length m (rsdp_xsdt m acpi))" and "\<And>a. length (timers (hw a)) = 32"
  shows "case find (\<lambda>h. signature m h = SIG_HPET) (xsdt_entries m (rsdp_xsdt m acpi)) of
      None \<Rightarrow> init_hpet m hw acpi g = panic ''Failed to get HPET from ACPI''
    | Some d \<Rightarrow>
        if m (d + 40) \<noteq> 0 then init_hpet m hw acpi g = panic ''Failed to get HPET base address''
        else let r = hw (mem_u64 m (d + 44)) in
          if drop_bit 32 (capabilities_and_id r) = 0
          then init_hpet m hw acpi g = panic ''attempt to divide by zero''
          else if g \<noteq> None
          then init_hpet m hw acpi g = panic ''assertion failed: HPET.lock().is_none()''
          else \<exists>h. init_hpet m hw acpi g = Ok (Some h) \<and> Hpet_new r = Ok h \<and>
            (\<forall>j < num_of_timers h. timer_quiet (timers (hpet_registers h) ! j)) \<and>
            global_timestamp (Some h) = Ok 0"
proof (cases "find (\<lambda>h. signature m h = SIG_HPET) (xsdt_entries m (rsdp_xsdt m acpi))")
  case None
  then show ?thesis by (simp add: init_hpet_def rsdp_tables_eq(1) [OF assms(1)])
next
  case (Some d)
  let ?r = "hw (mem_u64 m (d + 44))"
  note e = init_hpet_def rsdp_tables_eq(1) [OF assms(1)] Some hpet_base_address_eq
  show ?thesis
  proof (cases "m (d + 40) = 0 \<and> drop_bit 32 (capabilities_and_id ?r) \<noteq> 0")
    case True
    with Hpet_new_spec [OF assms(2)] obtain h where h: "Hpet_new ?r = Ok h"
      "\<forall>j < num_of_timers h. timer_quiet (timers (hpet_registers h) ! j)"
      "main_counter_value (hpet_registers h) = 0" "232830 \<le> unat (freq h)" by fastforce
    then have "freq h \<noteq> 0" by auto
    from global_timestamp_eq [OF this] h(3) have "global_timestamp (Some h) = Ok 0" by simp
    with True h show ?thesis by (simp add: e Let_def set_global_hpet_def)
  next
    case False
    with Hpet_new_spec [OF assms(2), of "mem_u64 m (d + 44)"] show ?thesis by (auto simp: e Let_def)
  qed
qed

section \<open>The scan of the configuration space\<close>

text \<open>What the identification registers of a function read.\<close>

definition function_id :: "('d \<Rightarrow> u64 \<Rightarrow> u16) \<Rightarrow> Pci \<Rightarrow> 'd \<Rightarrow> BusDeviceFunction \<Rightarrow> VendorDeviceId" where
  "function_id rd p dev b = \<lparr> vendor = rd dev (word_of_nat (register_addr p b 0)),
     device_id = rd dev (word_of_nat (register_addr p b 2)) \<rparr>"

definition to_attach ::
  "('d \<Rightarrow> u64 \<Rightarrow> u16) \<Rightarrow> (VendorDeviceId \<Rightarrow> bool) \<Rightarrow> Pci \<Rightarrow> 'd \<Rightarrow> BusDeviceFunction \<Rightarrow> bool" where
  "to_attach rd supp p dev b \<longleftrightarrow> (let v = function_id rd p dev b
     in vendor v \<noteq> 0xFFFF \<and> device_id v \<noteq> 0xFFFF \<and> supp v)"

text \<open>The driver started on each of the functions, one after the other, until one panics.\<close>

fun attach_seq :: "('b \<Rightarrow> 'd \<Rightarrow> unit res \<times> 'd) \<Rightarrow> 'b list \<Rightarrow> 'd \<Rightarrow> 'd res" where
  "attach_seq att [] dev = Ok dev"
| "attach_seq att (b # bs) dev = (case att b dev of
      (Inr _, dev') \<Rightarrow> attach_seq att bs dev'
    | (Inl (Err e), dev') \<Rightarrow> attach_seq att bs dev'
    | (Inl f, dev') \<Rightarrow> Inl f)"

lemma read_vendor_id_eq:
  assumes "unat (ecm_start p) + 2 ^ 28 \<le> 2 ^ 64"
  shows "read_vendor_id_and_device_id rd p dev b = Ok (let v = function_id rd p dev b in
    if vendor v = 0xFFFF \<or> device_id v = 0xFFFF then None else Some v)"
proof -
  from ecm_base_Ok [OF assms, of b] obtain a where
    a: "ecm_base p b = Ok a" "unat a = unat (ecm_start p) + 4096 * unat (bdf_id b)" by blast
  have w: "a = word_of_nat (register_addr p b 0)"
    using a(2) by (simp add: register_addr_def flip: a(2))
  have "register_addr p b 2 = register_addr p b 0 + 2" by (simp add: register_addr_def)
  then have "a + 2 = word_of_nat (register_addr p b 2)" by (simp add: w)
  with w show ?thesis
    by (simp add: read_vendor_id_and_device_id_def read_register_u16_def a(1) config_read_def
        config_in_range_def function_id_def Let_def)
qed

lemma probe_loop_eq:
  assumes "unat (ecm_start p) + 2 ^ 28 \<le> 2 ^ 64"
    and stable: "\<And>b dev. function_id rd p (snd (attach p b dev)) = function_id rd p dev"
    and "function_id rd p dev = function_id rd p dev0"
  shows "probe_loop rd supp attach p bs dev =
    attach_seq (attach p) (filter (to_attach rd supp p dev0) bs) dev"
  using assms(3)
proof (induction bs arbitrary: dev)
  case (Cons b bs)
  obtain r dev' where a: "attach p b dev = (r, dev')" by force
  then have "function_id rd p dev' = function_id rd p dev0"
    using stable [of b dev] Cons.prems by simp
  note IH = Cons.IH [OF this] Cons.IH [OF Cons.prems]
  show ?case
    by (auto simp: read_vendor_id_eq [OF assms(1)] Let_def to_attach_def Cons.prems a IH
        split: sum.splits fault.splits)
qed simp

lemma Mcfg_num_of_entries_eq:
  "Mcfg_num_of_entries m d = (if unat (table_length m d) < 44
     then panic ''attempt to subtract with overflow''
     else Ok (word_of_nat ((unat (table_length m d) - 44) div 16)))"
proof (cases "unat (table_length m d) < 44")
  case True
  then show ?thesis
    by (simp add: Mcfg_num_of_entries_def usub_def word_le_nat_alt Mcfg_header_size_def)
next
  case False
  then obtain n where "Mcfg_num_of_entries m d = Ok n"
    "unat n = (unat (table_length m d) - 44) div 16"
    using checked_count [of Mcfg_header_size "table_length m d" 16]
    by (auto simp: Mcfg_num_of_entries_def Mcfg_header_size_def)
  then show ?thesis using False by (simp flip: \<open>unat n = _\<close>)
qed

lemma Pci_new_mcfg_eq:
  assumes "44 \<le> unat (table_length m d)"
  shows "Pci_new_mcfg m d = (if (unat (table_length m d) - 44) div 16 = 1
    then Pci_new [mem_u64 m (d + 44)]
    else panic ''assertion failed: mcfg.num_of_entries() == 1'')"
proof -
  let ?k = "(unat (table_length m d) - 44) div 16"
  have "unat (table_length m d) < 2 ^ 32" using unsigned_less [of "table_length m d"] by simp
  then have k: "?k < 2 ^ 64" by simp
  have "word_of_nat ?k = (1 :: u64) \<longleftrightarrow> ?k = 1"
  proof
    assume "word_of_nat ?k = (1 :: u64)"
    then have "unat (word_of_nat ?k :: u64) = 1" by simp
    with k show "?k = 1" by (simp add: unat_of_nat take_bit_nat_eq_self)
  qed simp
  with assms show ?thesis
    by (simp add: Pci_new_mcfg_def Mcfg_num_of_entries_eq Mcfg_entry_def Pci_new_def
        ecam_base_address_def Mcfg_header_size_def)
qed

lemma init_pci_eq:
  assumes "36 \<le> unat (table_length m (rsdp_xsdt m acpi))"
    and stable: "\<And>p b dev. function_id rd p (snd (attach p b dev)) = function_id rd p dev"
    and "find (\<lambda>h. signature m h = SIG_MCFG) (xsdt_entries m (rsdp_xsdt m acpi)) = Some d"
    and n: "(unat (table_length m d) - 44) div 16 = 1"
    and fits: "unat (mem_u64 m (d + 44)) + 2 ^ 28 \<le> 2 ^ 64"
  defines "p \<equiv> \<lparr> ecm_start = mem_u64 m (d + 44), ecm_end = mem_u64 m (d + 44) + 2 ^ 24 \<rparr>"
  shows "init_pci rd supp attach m acpi dev =
    attach_seq (attach p) (filter (to_attach rd supp p dev) (bdf_collect 0)) dev"
proof -
  have l: "44 \<le> unat (table_length m d)" using n by (cases "44 \<le> unat (table_length m d)") auto
  have p: "Pci_new_mcfg m d = Ok p"
    using fits by (simp add: Pci_new_mcfg_eq [OF l] n Pci_new_def uadd_def p_def)
  have "probe_loop rd supp attach p (bdf_collect 0) dev =
      attach_seq (attach p) (filter (to_attach rd supp p dev) (bdf_collect 0)) dev"
    by (rule probe_loop_eq) (use fits stable in \<open>simp_all add: p_def\<close>)
  with l p show ?thesis
    by (simp add: init_pci_def rsdp_tables_eq(2) [OF assms(1)] assms(3) Mcfg_num_of_entries_eq
        probe_devices_def)
qed

text \<open>
  C34: \<open>init_pci\<close> with a driver that leaves the identification registers of every function as they
  are. Without a table of signature MCFG among those listed nothing is done. With a table too short
  for its header, or not of exactly one entry, the boot panics. Else the bus is the one at the entry's
  base address, and the driver is started exactly once, in the order of the identifiers 0 to 65535, on
  each function that is present (neither identification register reads 0xFFFF) and supported, and on
  no other; an error of the driver does not keep it from the functions that follow.\<close>

theorem init_pci_attaches_supported:
  assumes "36 \<le> unat (table_length m (rsdp_xsdt m acpi))"
    and "\<And>p b dev. function_id rd p (snd (attach p b dev)) = function_id rd p dev"
  shows "case find (\<lambda>h. signature m h = SIG_MCFG) (xsdt_entries m (rsdp_xsdt m acpi)) of
      None \<Rightarrow> init_pci rd supp attach m acpi dev = Ok dev
    | Some d \<Rightarrow>
        if unat (table_length m d) < 44
        then init_pci rd supp attach m acpi dev = panic ''attempt to subtract with overflow''
        else if (unat (table_length m d) - 44) div 16 \<noteq> 1
        then init_pci rd supp attach m acpi dev = panic ''assertion failed: mcfg.num_of_entries() == 1''
        else let base = mem_u64 m (d + 44); p = \<lparr> ecm_start = base, ecm_end = base + 2 ^ 24 \<rparr> in
          unat base + 2 ^ 28 \<le> 2 ^ 64 \<longrightarrow> init_pci rd supp attach m acpi dev =
            attach_seq (attach p) (filter (to_attach rd supp p dev)
              (map (\<lambda>i. \<lparr> bdf_id = word_of_nat i \<rparr>) [0..<65536])) dev"
proof (cases "find (\<lambda>h. signature m h = SIG_MCFG) (xsdt_entries m (rsdp_xsdt m acpi))")
  case None
  then show ?thesis by (simp add: init_pci_def rsdp_tables_eq(2) [OF assms(1)])
next
  case (Some d)
  have all: "bdf_collect 0 = map (\<lambda>i. \<lparr> bdf_id = word_of_nat i \<rparr>) [0..<65536]"
    using bdf_collect_eq [of 0] by simp
  show ?thesis
  proof (cases "(unat (table_length m d) - 44) div 16 = 1")
    case True
    then have "44 \<le> unat (table_length m d)" by (cases "44 \<le> unat (table_length m d)") auto
    with True show ?thesis
      using init_pci_eq [where attach = attach and supp = supp and dev = dev, OF assms Some True]
      unfolding Some all Let_def by simp
  next
    case False
    then show ?thesis
      by (simp add: Some init_pci_def rsdp_tables_eq(2) [OF assms(1)] Mcfg_num_of_entries_eq
          Pci_new_mcfg_eq)
  qed
qed

text \<open>
  A machine with a timer and one bus: the extended table at \<open>0x200\<close> lists the timer's table at \<open>0x300\<close>
  and the bus table at \<open>0x400\<close>.\<close>

definition sample_acpi :: mem where
  "sample_acpi = (\<lambda>_. 0)(0x119 := 2, 0x204 := 52, 0x225 := 3, 0x22D := 4,
     0x300 := 0x48, 0x301 := 0x50, 0x302 := 0x45, 0x303 := 0x54, 0x32E := 0xD0, 0x32F := 0xFE,
     0x400 := 0x4D, 0x401 := 0x43, 0x402 := 0x46, 0x403 := 0x47, 0x404 := 60, 0x42F := 0xB0)"

lemma sample_acpi_fields:
  "rsdp_xsdt sample_acpi 0x100 = 0x200" "table_length sample_acpi 0x200 = 52"
  "Xsdt_entry sample_acpi 0x200 0 = 0x300" "Xsdt_entry sample_acpi 0x200 1 = 0x400"
  "signature sample_acpi 0x300 = SIG_HPET" "signature sample_acpi 0x400 = SIG_MCFG"
  "mem_u64 sample_acpi 0x32C = 0xFED00000" "sample_acpi 0x328 = 0"
  "table_length sample_acpi 0x400 = 60" "mem_u64 sample_acpi 0x42C = 0xB0000000"
  by (simp_all add: rsdp_xsdt_def table_length_def Xsdt_entry_def Xsdt_header_size_def signature_def
      mem_u64_def mem_u32_def mem_bytes_def from_le_bytes_def upt_rec sample_acpi_def SIG_HPET_def SIG_MCFG_def)

lemma sample_acpi_entries: "xsdt_entries sample_acpi 0x200 = [0x300, 0x400]"
  by (simp add: xsdt_entries_def xsdt_count_def sample_acpi_fields upt_rec)

lemma sample_tables:
  "find (\<lambda>h. signature sample_acpi h = SIG_HPET) (xsdt_entries sample_acpi 0x200) = Some 0x300"
  "find (\<lambda>h. signature sample_acpi h = SIG_MCFG) (xsdt_entries sample_acpi 0x200) = Some 0x400"
  by (simp_all add: sample_acpi_entries sample_acpi_fields(5,6) SIG_HPET_def SIG_MCFG_def)

definition sample_timer_at :: "u64 \<Rightarrow> HpetRegisters" where
  "sample_timer_at a = (if a = 0xFED00000 then sample_hpet else sample_hpet\<lparr>capabilities_and_id := 0\<rparr>)"

theorem init_hpet_uses_first_listed_timer_witness:
  "\<exists>h. init_hpet sample_acpi sample_timer_at 0x100 None = Ok (Some h) \<and> global_timestamp (Some h) = Ok 0"
proof -
  have l: "length (timers (sample_timer_at a)) = 32" for a by (simp add: sample_timer_at_def sample_hpet_def)
  have hw: "drop_bit 32 (capabilities_and_id (sample_timer_at 0xFED00000)) \<noteq> 0"
    by (simp add: sample_timer_at_def sample_hpet_def)
  have "36 \<le> unat (table_length sample_acpi (rsdp_xsdt sample_acpi 0x100))"
    by (simp add: sample_acpi_fields)
  from init_hpet_uses_first_listed_timer [where hw = sample_timer_at and g = None, OF this l] hw show ?thesis
    by (auto simp: sample_tables sample_acpi_fields Let_def)
qed

text \<open>The only function on the bus of the sample is the controller at identifier 8; starting it is noted.\<close>

definition sample_bus :: "BusDeviceFunction list \<Rightarrow> u64 \<Rightarrow> u16" where
  "sample_bus dev a = (if a = 0xB0008000 then 0x1b36 else if a = 0xB0008002 then 0x000d else 0xFFFF)"

definition note_attach :: "Pci \<Rightarrow> BusDeviceFunction \<Rightarrow> BusDeviceFunction list \<Rightarrow> unit res \<times> BusDeviceFunction list" where
  "note_attach p b dev = (err ''no driver'', dev @ [b])"

lemma word_of_nat_eq:
  "n < 2 ^ 64 \<Longrightarrow> k < 2 ^ 64 \<Longrightarrow> word_of_nat n = (word_of_nat k :: u64) \<longleftrightarrow> n = k"
proof
  assume "n < 2 ^ 64" "k < 2 ^ 64" "word_of_nat n = (word_of_nat k :: u64)"
  then have "unat (word_of_nat n :: u64) = unat (word_of_nat k :: u64)" by simp
  with \<open>n < 2 ^ 64\<close> \<open>k < 2 ^ 64\<close> show "n = k" by (simp add: unat_of_nat take_bit_nat_eq_self)
qed simp

lemma filter_single: "k < n \<Longrightarrow> filter (\<lambda>i. i = k) [0..<n] = [k]"
  by (induction n) (auto simp: less_Suc_eq filter_empty_conv)

theorem init_pci_attaches_supported_witness:
  "init_pci sample_bus (\<lambda>v. v = \<lparr> vendor = 0x1b36, device_id = 0x000d \<rparr>) note_attach sample_acpi 0x100 [] =
    Ok [\<lparr> bdf_id = 8 \<rparr>]"
proof -
  let ?s = "\<lambda>v. v = \<lparr> vendor = 0x1b36, device_id = 0x000d \<rparr>"
  let ?p = "\<lparr> ecm_start = 0xB0000000, ecm_end = 0xB1000000 \<rparr>"
  have at: "to_attach sample_bus ?s ?p [] \<lparr> bdf_id = word_of_nat i \<rparr> \<longleftrightarrow> i = 8" if "i < 65536" for i
  proof -
    have u: "unat (word_of_nat i :: u16) = i" using that by (simp add: unat_of_nat take_bit_nat_eq_self)
    have a: "word_of_nat (2952790016 + 4096 * i) = (0xB0008000 :: u64) \<longleftrightarrow> i = 8"
      using word_of_nat_eq [of "2952790016 + 4096 * i" "0xB0008000"] that by simp
    have b: "word_of_nat (2952790016 + 4096 * i) \<noteq> (0xB0008002 :: u64)"
      using word_of_nat_eq [of "2952790016 + 4096 * i" "0xB0008002"] that by (cases "i \<le> 8") auto
    have c: "word_of_nat (2952790016 + 4096 * i + 2) = (0xB0008002 :: u64) \<longleftrightarrow> i = 8"
      using word_of_nat_eq [of "2952790016 + 4096 * i + 2" "0xB0008002"] that by simp
    have d: "word_of_nat (2952790016 + 4096 * i + 2) \<noteq> (0xB0008000 :: u64)"
      using word_of_nat_eq [of "2952790016 + 4096 * i + 2" "0xB0008000"] that by (cases "i \<le> 7") auto
    show ?thesis
      unfolding to_attach_def function_id_def register_addr_def sample_bus_def Let_def
      by (simp only: u BusDeviceFunction.simps VendorDeviceId.simps Pci.simps unat_numeral add_0_right)
         (use a b c d in auto)
  qed
  have "filter (to_attach sample_bus ?s ?p []) (map (\<lambda>i. \<lparr> bdf_id = word_of_nat i \<rparr>) [0..<65536]) =
      map (\<lambda>i. \<lparr> bdf_id = word_of_nat i \<rparr>) (filter (\<lambda>i. i = 8) [0..<65536])"
    unfolding filter_map o_def using at by (intro arg_cong [where f = "map _"] filter_cong) auto
  also have "\<dots> = [\<lparr> bdf_id = 8 \<rparr>]" by (simp add: filter_single del: upt_Suc)
  finally have f: "filter (to_attach sample_bus ?s ?p []) (map (\<lambda>i. \<lparr> bdf_id = word_of_nat i \<rparr>) [0..<65536]) =
      [\<lparr> bdf_id = 8 \<rparr>]" .
  have st: "function_id sample_bus p (snd (note_attach p b dev)) = function_id sample_bus p dev" for p b dev
    by (rule ext) (simp add: function_id_def sample_bus_def)
  have "36 \<le> unat (table_length sample_acpi (rsdp_xsdt sample_acpi 0x100))" by (simp add: sample_acpi_fields)
  from init_pci_attaches_supported [where attach = note_attach and supp = ?s and dev = "[]", OF this st] f show ?thesis
    by (simp add: sample_tables sample_acpi_fields Let_def note_attach_def del: upt_Suc)
qed

end
