(* ===== verification/Console.thy ===== *)
theory Console
  imports Graphics_Paint
begin

text \<open>
  The console: the serial port of \<open>src/serial.rs\<close>, the exit through the emulator's port of
  \<open>src/qemu.rs\<close>, and the printing of \<open>src/print.rs\<close>, which sends every text to the serial port and, once
  there is one, to the screen. The ports are a device \<open>'d\<close> with the answers \<open>inb\<close> and \<open>outb\<close>; a text
  is a list of code points. The locks around the globals are taken and dropped within one call
  and are left out.
\<close>

section \<open>The serial port\<close>

record SerialPort =
  sp_base :: u16

definition SerialPort_new :: "u16 \<Rightarrow> SerialPort" where
  "SerialPort_new base = \<lparr> sp_base = base \<rparr>"

definition SerialPort_new_for_com1 :: SerialPort where
  "SerialPort_new_for_com1 = SerialPort_new 0x3f8"

definition SerialPort_default :: SerialPort where
  "SerialPort_default = SerialPort_new_for_com1"

definition write_port ::
  "(u16 \<Rightarrow> u8 \<Rightarrow> 'd \<Rightarrow> 'd) \<Rightarrow> SerialPort \<Rightarrow> u16 \<Rightarrow> u8 \<Rightarrow> 'd \<Rightarrow> 'd res" where
  "write_port outb self ofs v d = rbind (uadd (sp_base self) ofs) (\<lambda>p. Ok (outb p v d))"

definition read_port ::
  "(u16 \<Rightarrow> 'd \<Rightarrow> u8 \<times> 'd) \<Rightarrow> SerialPort \<Rightarrow> u16 \<Rightarrow> 'd \<Rightarrow> (u8 \<times> 'd) res" where
  "read_port inb self ofs d = rbind (uadd (sp_base self) ofs) (\<lambda>p. Ok (inb p d))"

definition BAUD_DIVISOR :: u16 where "BAUD_DIVISOR = 1"

definition SerialPort_init :: "(u16 \<Rightarrow> u8 \<Rightarrow> 'd \<Rightarrow> 'd) \<Rightarrow> SerialPort \<Rightarrow> 'd \<Rightarrow> 'd res" where
  "SerialPort_init outb self d =
     rbind (write_port outb self 1 0x00 d) (\<lambda>d.
     rbind (write_port outb self 3 0x80 d) (\<lambda>d.
     rbind (write_port outb self 0 (ucast (BAUD_DIVISOR AND 0xff)) d) (\<lambda>d.
     rbind (write_port outb self 1 (ucast (drop_bit 8 BAUD_DIVISOR)) d) (\<lambda>d.
     rbind (write_port outb self 3 0x03 d) (\<lambda>d.
     rbind (write_port outb self 2 0xC7 d) (\<lambda>d.
       write_port outb self 4 0x0B d))))))"

definition try_read ::
  "(u16 \<Rightarrow> 'd \<Rightarrow> u8 \<times> 'd) \<Rightarrow> (u16 \<Rightarrow> u8 \<Rightarrow> 'd \<Rightarrow> 'd) \<Rightarrow> SerialPort \<Rightarrow> 'd \<Rightarrow> (u8 option \<times> 'd) res" where
  "try_read inb outb self d =
     rbind (read_port inb self 5 d) (\<lambda>(v, d).
     if v AND 0x01 = 0 then Ok (None, d)
     else rbind (read_port inb self 0 d) (\<lambda>(c, d).
          rbind (write_port outb self 2 0xC7 d) (\<lambda>d. Ok (Some c, d))))"

text \<open>The wait for the transmitter; it may be polled \<open>n\<close> times.\<close>

fun wait_transmitter :: "nat \<Rightarrow> (u16 \<Rightarrow> 'd \<Rightarrow> u8 \<times> 'd) \<Rightarrow> SerialPort \<Rightarrow> 'd \<Rightarrow> 'd res" where
  "wait_transmitter 0 inb self d = Inl OutOfFuel"
| "wait_transmitter (Suc n) inb self d =
     rbind (read_port inb self 5 d) (\<lambda>(v, d).
       if v AND 0x20 = 0 then wait_transmitter n inb self d else Ok d)"

definition send_char ::
  "nat \<Rightarrow> (u16 \<Rightarrow> 'd \<Rightarrow> u8 \<times> 'd) \<Rightarrow> (u16 \<Rightarrow> u8 \<Rightarrow> 'd \<Rightarrow> 'd) \<Rightarrow> SerialPort \<Rightarrow> nat \<Rightarrow> 'd \<Rightarrow> 'd res" where
  "send_char n inb outb self c d =
     rbind (wait_transmitter n inb self d) (\<lambda>d. write_port outb self 0 (word_of_nat c) d)"

definition send_str ::
  "nat \<Rightarrow> (u16 \<Rightarrow> 'd \<Rightarrow> u8 \<times> 'd) \<Rightarrow> (u16 \<Rightarrow> u8 \<Rightarrow> 'd \<Rightarrow> 'd) \<Rightarrow> SerialPort \<Rightarrow> nat list \<Rightarrow> 'd \<Rightarrow> 'd res" where
  "send_str n inb outb self s d = for_each (send_char n inb outb self) s d"

definition serial_write_str ::
  "nat \<Rightarrow> (u16 \<Rightarrow> 'd \<Rightarrow> u8 \<times> 'd) \<Rightarrow> (u16 \<Rightarrow> u8 \<Rightarrow> 'd \<Rightarrow> 'd) \<Rightarrow> nat list \<Rightarrow> 'd \<Rightarrow> 'd res" where
  "serial_write_str n inb outb s d = send_str n inb outb SerialPort_default s d"

text \<open>The test of the port; the device is returned with an error as well.\<close>

definition loopback_test ::
  "nat \<Rightarrow> (u16 \<Rightarrow> 'd \<Rightarrow> u8 \<times> 'd) \<Rightarrow> (u16 \<Rightarrow> u8 \<Rightarrow> 'd \<Rightarrow> 'd) \<Rightarrow> SerialPort \<Rightarrow> 'd \<Rightarrow> (unit res \<times> 'd) res" where
  "loopback_test n inb outb self d =
     rbind (write_port outb self 4 0x1e d) (\<lambda>d.
     rbind (send_char n inb outb self 84 d) (\<lambda>d.
     rbind (try_read inb outb self d) (\<lambda>(r, d).
       case r of None \<Rightarrow> Ok (err ''loopback_test failed: No response'', d)
       | Some c \<Rightarrow>
           if c \<noteq> 84 then Ok (err ''loopback_test failed: wrong data received'', d)
           else rbind (write_port outb self 4 0x0f d) (\<lambda>d. Ok (Ok (), d)))))"

section \<open>Texts\<close>

text \<open>Code points of a literal, and the integer formats of \<open>core::fmt\<close> that the kernel uses.\<close>

definition str :: "string \<Rightarrow> nat list" where
  "str s = map of_char s"

definition hex_digit :: "nat \<Rightarrow> nat" where
  "hex_digit d = (if d < 10 then 48 + d else 55 + d)"

fun hex_upper :: "nat \<Rightarrow> nat list" where
  "hex_upper n = (if n < 16 then [hex_digit n] else hex_upper (n div 16) @ [hex_digit (n mod 16)])"

fun decimal :: "nat \<Rightarrow> nat list" where
  "decimal n = (if n < 10 then [48 + n] else decimal (n div 10) @ [48 + n mod 10])"

declare hex_upper.simps [simp del] decimal.simps [simp del]

definition zero_pad :: "nat \<Rightarrow> nat list \<Rightarrow> nat list" where
  "zero_pad w s = replicate (w - length s) 48 @ s"

definition left_align :: "nat \<Rightarrow> nat list \<Rightarrow> nat list" where
  "left_align w s = s @ replicate (w - length s) 32"

section \<open>Printing\<close>

record 'd Console =
  ports :: 'd
  vram_writer :: "BitmapTextWriter option"

definition set_global_vram :: "Bitmap \<Rightarrow> 'd Console \<Rightarrow> 'd Console res" where
  "set_global_vram vram con =
     (if vram_writer con = None then Ok (con\<lparr>vram_writer := Some (BitmapTextWriter_new vram)\<rparr>)
      else panic ''assertion failed: GLOBAL_VRAM_WRITER.lock().is_none()'')"

definition get_global_vram_resolutions :: "'d Console \<Rightarrow> (int \<times> int) option" where
  "get_global_vram_resolutions con =
     map_option (\<lambda>w. (width (tw_buf w), height (tw_buf w))) (vram_writer con)"

text \<open>\<open>global_print\<close> of formatted arguments, as the text they format to.\<close>

definition global_print ::
  "string \<Rightarrow> nat \<Rightarrow> (u16 \<Rightarrow> 'd \<Rightarrow> u8 \<times> 'd) \<Rightarrow> (u16 \<Rightarrow> u8 \<Rightarrow> 'd \<Rightarrow> 'd) \<Rightarrow> nat list \<Rightarrow> 'd Console \<Rightarrow> 'd Console res" where
  "global_print font n inb outb args con =
     rbind (serial_write_str n inb outb args (ports con)) (\<lambda>d.
     case vram_writer con of
       None \<Rightarrow> Ok (con\<lparr>ports := d\<rparr>)
     | Some w \<Rightarrow>
         rbind (expect (write_str font w args) ''Failed to write to GLOBAL_VRAM_WRITER'') (\<lambda>w.
           Ok (con\<lparr>ports := d, vram_writer := Some w\<rparr>)))"

text \<open>The text of the macros \<open>info!\<close>, \<open>warn!\<close> and \<open>error!\<close>.\<close>

datatype LogLevel = Info | Warn | ErrorLevel

fun log_tag :: "LogLevel \<Rightarrow> string" where
  "log_tag Info = ''[INFO]  ''"
| "log_tag Warn = ''[WARN]  ''"
| "log_tag ErrorLevel = ''[ERROR] ''"

definition log_text :: "LogLevel \<Rightarrow> string \<Rightarrow> nat \<Rightarrow> nat list \<Rightarrow> nat list" where
  "log_text level filename line args =
     str (log_tag level) @ str filename @ str '':'' @ left_align 3 (decimal line) @ str '': '' @ args @ [10]"

section \<open>Hexdump\<close>

text \<open>The offset is an \<open>i32\<close>.\<close>

definition chk_i32 :: "int \<Rightarrow> int res" where
  "chk_i32 v = (if - (2 ^ 31) \<le> v \<and> v < 2 ^ 31 then Ok v else panic ''attempt to add with overflow'')"

definition dump_char :: "u8 \<Rightarrow> nat" where
  "dump_char c = (if 0x20 \<le> c \<and> c \<le> 0x7e then unat c else 46)"

definition dump_char_last :: "u8 \<Rightarrow> nat" where
  "dump_char_last c = (if 0x20 \<le> c \<and> c \<le> 0x7f then unat c else 46)"

definition byte_text :: "u8 \<Rightarrow> nat list" where
  "byte_text v = zero_pad 2 (hex_upper (unat v)) @ [32]"

definition offset_text :: "int \<Rightarrow> nat list" where
  "offset_text offset = zero_pad 8 (hex_upper (nat offset)) @ str '': ''"

text \<open>The loop over the bytes, with the local variables \<open>i\<close>, \<open>ascii\<close> and \<open>offset\<close>.\<close>

fun hexdump_loop ::
  "(nat list \<Rightarrow> 's \<Rightarrow> 's res) \<Rightarrow> u8 list \<Rightarrow> nat \<Rightarrow> u8 list \<Rightarrow> int \<Rightarrow> 's \<Rightarrow> (nat \<times> u8 list \<times> 's) res" where
  "hexdump_loop print [] i ascii offset s = Ok (i, ascii, s)"
| "hexdump_loop print (v # vs) i ascii offset s =
     rbind (if i = 0 then print (offset_text offset) s else Ok s) (\<lambda>s.
     rbind (print (byte_text v) s) (\<lambda>s.
     if length ascii \<le> i then panic ''index out of bounds'' else
     let ascii = ascii[i := v]; i = i + 1 in
     if i = 16 then
       rbind (print (str ''|'') s) (\<lambda>s.
       rbind (for_each (\<lambda>c. print [dump_char c]) ascii s) (\<lambda>s.
       rbind (print (str ''|'' @ [10]) s) (\<lambda>s.
       rbind (chk_i32 (offset + 16)) (\<lambda>offset. hexdump_loop print vs 0 ascii offset s))))
     else hexdump_loop print vs i ascii offset s))"

definition hexdump_bytes :: "(nat list \<Rightarrow> 's \<Rightarrow> 's res) \<Rightarrow> u8 list \<Rightarrow> 's \<Rightarrow> 's res" where
  "hexdump_bytes print bytes s =
     rbind (hexdump_loop print bytes 0 (replicate 16 0) 0 s) (\<lambda>(i, ascii, s).
     if i \<noteq> 0 then
       rbind (for_each (\<lambda>_. print (str ''   '')) [i..<16] s) (\<lambda>s.
       rbind (print (str ''|'') s) (\<lambda>s.
       rbind (for_each (\<lambda>c. print [dump_char_last c]) (take i ascii) s) (\<lambda>s.
         print (str ''|'' @ [10]) s)))
     else Ok s)"

definition hexdump_struct :: "(nat list \<Rightarrow> 's \<Rightarrow> 's res) \<Rightarrow> string \<Rightarrow> nat \<Rightarrow> string \<Rightarrow> u8 list \<Rightarrow> 's \<Rightarrow> 's res" where
  "hexdump_struct print filename line name bytes s =
     rbind (print (log_text Info filename line (str ''hexdump_struct: \"'' @ str name @ str ''\"'')) s)
       (hexdump_bytes print bytes)"

section \<open>Leaving the emulator\<close>

datatype QemuExitCode = Success | Fail

fun qemu_exit_code_value :: "QemuExitCode \<Rightarrow> u32" where
  "qemu_exit_code_value Success = 1"
| "qemu_exit_code_value Fail = 2"

fun qemu_exit_code_name :: "QemuExitCode \<Rightarrow> string" where
  "qemu_exit_code_name Success = ''Success''"
| "qemu_exit_code_name Fail = ''Fail''"

text \<open>The state in which the processor then stays halted.\<close>

definition exit_qemu ::
  "nat \<Rightarrow> (u16 \<Rightarrow> 'd \<Rightarrow> u8 \<times> 'd) \<Rightarrow> (u16 \<Rightarrow> u8 \<Rightarrow> 'd \<Rightarrow> 'd) \<Rightarrow> QemuExitCode \<Rightarrow> 'd \<Rightarrow> 'd res" where
  "exit_qemu n inb outb exit_code d =
     rbind (SerialPort_init outb SerialPort_new_for_com1 d) (\<lambda>d.
     rbind (serial_write_str n inb outb
        (str ''[EXIT] Sending exit code: '' @ str (qemu_exit_code_name exit_code) @ [10]) d) (\<lambda>d.
       Ok (outb 0xf4 (ucast (qemu_exit_code_value exit_code)) d)))"

end
