(* ===== verification/Console_Print.thy ===== *)
theory Console_Print
  imports Console
begin

text \<open>
  What printing shows: an interface of printers whose texts compose, the hexdump against a
  line-by-line description of its text, and what a print puts on the serial line and on the screen.
\<close>

section \<open>Printers\<close>

text \<open>
  A printer may be asked for a text in pieces: it succeeds on the whole exactly if it succeeds on the
  pieces in turn, with the same outcome.
\<close>

locale printer =
  fixes print :: "nat list \<Rightarrow> 's \<Rightarrow> 's res"
  assumes print_Nil: "print [] s = Ok s"
    and print_append: "print (a @ b) s = Ok s' \<longleftrightarrow> (\<exists>s1. print a s = Ok s1 \<and> print b s1 = Ok s')"
begin

definition emits :: "('s \<Rightarrow> 's res) \<Rightarrow> nat list \<Rightarrow> bool" where
  "emits f t \<longleftrightarrow> (\<forall>s s'. f s = Ok s' \<longleftrightarrow> print t s = Ok s')"

lemma emits_print: "emits (print t) t"
  by (simp add: emits_def)

lemma emits_skip: "emits Inr []"
  by (simp add: emits_def print_Nil)

lemma emits_seq: "emits f a \<Longrightarrow> emits g b \<Longrightarrow> emits (\<lambda>s. rbind (f s) g) (a @ b)"
  by (auto simp: emits_def print_append)

lemma emits_seq': "emits f a \<Longrightarrow> emits g b \<Longrightarrow> t = a @ b \<Longrightarrow> emits (\<lambda>s. rbind (f s) (\<lambda>s. g s)) t"
  using emits_seq by simp

lemma emits_for_each: "(\<And>x. x \<in> set xs \<Longrightarrow> emits (f x) (t x)) \<Longrightarrow> emits (for_each f xs) (concat (map t xs))"
proof (induction xs)
  case Nil
  then show ?case by (simp add: emits_def print_Nil)
next
  case (Cons x xs)
  then have "emits (\<lambda>s. rbind (f x s) (for_each f xs)) (t x @ concat (map t xs))"
    by (intro emits_seq) auto
  then show ?case by simp
qed

end

section \<open>The text of a hexdump\<close>

text \<open>One line: the offset, the bytes, the padding of a short line, and the characters.\<close>

definition line_head :: "int \<Rightarrow> u8 list \<Rightarrow> nat list" where
  "line_head offset bs = (if bs = [] then [] else offset_text offset @ concat (map byte_text bs))"

definition line_tail :: "u8 list \<Rightarrow> nat list" where
  "line_tail bs =
     replicate (3 * (16 - length bs)) 32 @ [124] @
     map (if length bs = 16 then dump_char else dump_char_last) bs @ [124, 10]"

function hexdump_text :: "int \<Rightarrow> u8 list \<Rightarrow> nat list" where
  "hexdump_text offset bs =
     (if bs = [] then []
      else line_head offset (take 16 bs) @ line_tail (take 16 bs) @ hexdump_text (offset + 16) (drop 16 bs))"
  by pat_completeness auto
termination by (relation "measure (\<lambda>(_, bs). length bs)") auto

declare hexdump_text.simps [simp del]

lemma hexdump_text_Nil [simp]: "hexdump_text offset [] = []"
  by (simp add: hexdump_text.simps)

lemma hexdump_text_line:
  "bs \<noteq> [] \<Longrightarrow> length bs \<le> 16 \<Longrightarrow> hexdump_text offset bs = line_head offset bs @ line_tail bs"
  by (subst hexdump_text.simps) simp

lemma hexdump_text_full:
  "length bs = 16 \<Longrightarrow> hexdump_text offset (bs @ rest) = line_head offset bs @ line_tail bs @ hexdump_text (offset + 16) rest"
  by (subst hexdump_text.simps) auto

lemma str_lits: "str ''|'' = [124]" "str ''   '' = [32, 32, 32]" "str '': '' = [58, 32]"
  by (simp_all add: str_def)

lemma concat_spaces: "concat (map (\<lambda>_. [32, 32, 32 :: nat]) xs) = replicate (3 * length xs) 32"
  by (induction xs) (simp_all add: numeral_3_eq_3)

text \<open>The rest of \<open>hexdump_bytes\<close> from a state of its loop.\<close>

definition hexdump_from ::
  "(nat list \<Rightarrow> 's \<Rightarrow> 's res) \<Rightarrow> u8 list \<Rightarrow> nat \<Rightarrow> u8 list \<Rightarrow> int \<Rightarrow> 's \<Rightarrow> 's res" where
  "hexdump_from print vs i ascii offset s =
     rbind (hexdump_loop print vs i ascii offset s) (\<lambda>(i, ascii, s).
     if i \<noteq> 0 then
       rbind (for_each (\<lambda>_. print (str ''   '')) [i..<16] s) (\<lambda>s.
       rbind (print (str ''|'') s) (\<lambda>s.
       rbind (for_each (\<lambda>c. print [dump_char_last c]) (take i ascii) s) (\<lambda>s.
         print (str ''|'' @ [10]) s)))
     else Ok s)"

context printer begin

lemma emits_chars: "emits (for_each (\<lambda>c. print [g c]) bs) (map g bs)"
  using emits_for_each [of bs "\<lambda>c. print [g c]" "\<lambda>c. [g c]"] emits_print by simp

lemma emits_last_line:
  assumes "i < 16" "0 < i" "length ascii = 16"
  shows "emits (hexdump_from print [] i ascii offset) (line_tail (take i ascii))"
proof -
  have "emits (for_each (\<lambda>_. print (str ''   '')) [i..<16]) (replicate (3 * (16 - i)) 32)"
    using emits_for_each [of "[i..<16]" "\<lambda>_. print (str ''   '')" "\<lambda>_. [32, 32, 32]"] emits_print
    by (simp add: str_lits concat_spaces)
  then have "emits (\<lambda>s. rbind (for_each (\<lambda>_. print (str ''   '')) [i..<16] s) (\<lambda>s.
       rbind (print (str ''|'') s) (\<lambda>s.
       rbind (for_each (\<lambda>c. print [dump_char_last c]) (take i ascii) s) (\<lambda>s.
         print (str ''|'' @ [10]) s)))) (replicate (3 * (16 - i)) 32 @ [124] @
           map dump_char_last (take i ascii) @ [124, 10])"
    by (rule emits_seq' [OF _ emits_seq' [OF emits_print emits_seq' [OF emits_chars emits_print]]])
       (simp_all add: str_lits)
  then show ?thesis using assms by (simp add: hexdump_from_def [abs_def] line_tail_def)
qed

lemma emits_from:
  assumes "i < 16" "length ascii = 16" "0 \<le> offset" "offset + int (i + length vs) < 2 ^ 31"
  shows "\<exists>T. hexdump_text offset (take i ascii @ vs) = line_head offset (take i ascii) @ T \<and>
    emits (hexdump_from print vs i ascii offset) T"
  using assms
proof (induction vs arbitrary: i ascii offset)
  case Nil
  show ?case
  proof (cases "i = 0")
    case True
    then show ?thesis by (auto simp: hexdump_from_def line_head_def emits_skip)
  next
    case False
    then show ?thesis
      using Nil emits_last_line [of i ascii offset] hexdump_text_line [of "take i ascii" offset]
      by (cases ascii) auto
  qed
next
  case (Cons v vs)
  let ?a = "ascii[i := v]"
  let ?addr = "if i = 0 then offset_text offset else []"
  have pre: "take (Suc i) ?a = take i ascii @ [v]"
    using Cons.prems by (simp add: take_Suc_conv_app_nth)
  have head: "line_head offset (take i ascii @ [v]) = line_head offset (take i ascii) @ ?addr @ byte_text v"
    using Cons.prems by (auto simp: line_head_def)
  have addr: "emits (\<lambda>s. if i = 0 then print (offset_text offset) s else Ok s) ?addr"
    by (auto simp: emits_def print_Nil)
  show ?case
  proof (cases "Suc i = 16")
    case True
    have chk: "chk_i32 (offset + 16) = Ok (offset + 16)" using Cons.prems True by (simp add: chk_i32_def)
    from Cons.IH [of 0 ?a "offset + 16"] Cons.prems True obtain T where
      T: "hexdump_text (offset + 16) vs = T" "emits (hexdump_from print vs 0 ?a (offset + 16)) T"
      by (auto simp: line_head_def)
    have "emits (\<lambda>s. rbind (if i = 0 then print (offset_text offset) s else Ok s) (\<lambda>s.
        rbind (print (byte_text v) s) (\<lambda>s. rbind (print (str ''|'') s) (\<lambda>s.
        rbind (for_each (\<lambda>c. print [dump_char c]) ?a s) (\<lambda>s.
        rbind (print (str ''|'' @ [10]) s) (hexdump_from print vs 0 ?a (offset + 16)))))))
      (?addr @ byte_text v @ [124] @ map dump_char ?a @ [124, 10] @ T)"
      by (rule emits_seq' [OF addr emits_seq' [OF emits_print emits_seq' [OF emits_print
            emits_seq' [OF emits_chars emits_seq' [OF emits_print T(2)]]]]]) (simp_all add: str_lits)
    moreover have "(\<lambda>s. rbind (if i = 0 then print (offset_text offset) s else Ok s) (\<lambda>s.
        rbind (print (byte_text v) s) (\<lambda>s. rbind (print (str ''|'') s) (\<lambda>s.
        rbind (for_each (\<lambda>c. print [dump_char c]) ?a s) (\<lambda>s.
        rbind (print (str ''|'' @ [10]) s) (hexdump_from print vs 0 ?a (offset + 16))))))) =
      hexdump_from print (v # vs) i ascii offset"
      using Cons.prems True
      by (auto simp: hexdump_from_def [abs_def] Let_def rbind_assoc chk fun_eq_iff cong: if_cong)
    moreover have "hexdump_text offset (take i ascii @ v # vs) =
      line_head offset (take i ascii) @ ?addr @ byte_text v @ [124] @ map dump_char ?a @ [124, 10] @ T"
    proof -
      have e: "take i ascii @ [v] = ?a" using pre True Cons.prems by simp
      have "hexdump_text offset (take i ascii @ v # vs) = hexdump_text offset (?a @ vs)"
        by (simp flip: e)
      also have "\<dots> = line_head offset ?a @ line_tail ?a @ T"
        using hexdump_text_full [of ?a offset vs] Cons.prems T(1) by simp
      also have "line_head offset ?a = line_head offset (take i ascii) @ ?addr @ byte_text v"
        using head by (simp only: e)
      finally show ?thesis using Cons.prems by (simp add: line_tail_def)
    qed
    ultimately show ?thesis by metis
  next
    case False
    then have "Suc i < 16" using Cons.prems by simp
    from Cons.IH [OF this, of ?a offset] Cons.prems obtain T where
      T: "hexdump_text offset (take i ascii @ v # vs) = line_head offset (take i ascii @ [v]) @ T"
        "emits (hexdump_from print vs (Suc i) ?a offset) T" by (auto simp: pre)
    have "emits (\<lambda>s. rbind (if i = 0 then print (offset_text offset) s else Ok s) (\<lambda>s.
        rbind (print (byte_text v) s) (hexdump_from print vs (Suc i) ?a offset))) (?addr @ byte_text v @ T)"
      by (rule emits_seq' [OF addr emits_seq' [OF emits_print T(2)]]) simp_all
    moreover have "(\<lambda>s. rbind (if i = 0 then print (offset_text offset) s else Ok s) (\<lambda>s.
        rbind (print (byte_text v) s) (hexdump_from print vs (Suc i) ?a offset))) =
      hexdump_from print (v # vs) i ascii offset"
      using Cons.prems False by (auto simp: hexdump_from_def [abs_def] Let_def rbind_assoc fun_eq_iff cong: if_cong)
    ultimately show ?thesis using T(1) head by auto
  qed
qed

lemma hexdump_emits:
  assumes "length bs < 2 ^ 31"
  shows "emits (hexdump_bytes print bs) (hexdump_text 0 bs)"
proof -
  have "hexdump_bytes print bs = hexdump_from print bs 0 (replicate 16 0) 0"
    by (rule ext) (simp add: hexdump_bytes_def hexdump_from_def)
  with emits_from [of 0 "replicate 16 0" 0 bs] assms show ?thesis by (auto simp: line_head_def)
qed

end

section \<open>The global printer\<close>

lemma for_each_append: "for_each f (a @ b) s = rbind (for_each f a s) (for_each f b)"
proof (induction a arbitrary: s)
  case (Cons x a)
  then have "for_each f (a @ b) = (\<lambda>s. rbind (for_each f a s) (for_each f b))" by (rule ext)
  then show ?case by (simp add: rbind_assoc)
qed simp

interpretation gp: printer "global_print font n inb outb"
proof
  fix con :: "'a Console" show "global_print font n inb outb [] con = Ok con"
    by (cases con) (simp add: global_print_def serial_write_str_def send_str_def write_str_def split: option.split)
next
  fix a b and con con' :: "'a Console"
  show "global_print font n inb outb (a @ b) con = Ok con' \<longleftrightarrow>
    (\<exists>c1. global_print font n inb outb a con = Ok c1 \<and> global_print font n inb outb b c1 = Ok con')"
    by (cases "vram_writer con")
       (auto simp: global_print_def serial_write_str_def send_str_def write_str_def for_each_append)
qed

section \<open>The serial line\<close>

text \<open>
  What the data sheet of the 16550 says of the two registers that sending uses, in the states \<open>ok\<close> in
  which the divisor latch is not selected: bit 5 of the line status tells whether the transmitter is
  free, which takes at most \<open>n\<close> polls, and a byte written to a free transmitter is sent.\<close>

definition uart ::
  "(u16 \<Rightarrow> 'd \<Rightarrow> u8 \<times> 'd) \<Rightarrow> (u16 \<Rightarrow> u8 \<Rightarrow> 'd \<Rightarrow> 'd) \<Rightarrow> u16 \<Rightarrow> ('d \<Rightarrow> bool) \<Rightarrow> ('d \<Rightarrow> u8 list) \<Rightarrow>
   ('d \<Rightarrow> nat) \<Rightarrow> nat \<Rightarrow> bool" where
  "uart inb outb base ok sent busy n \<longleftrightarrow>
     (\<forall>d. ok d \<longrightarrow> busy d \<le> n) \<and>
     (\<forall>d v d'. ok d \<and> inb (base + 5) d = (v, d') \<longrightarrow>
        ok d' \<and> sent d' = sent d \<and> (v AND 0x20 = 0 \<longleftrightarrow> busy d \<noteq> 0) \<and> busy d' = busy d - 1) \<and>
     (\<forall>d v. ok d \<and> busy d = 0 \<longrightarrow> ok (outb base v d) \<and> sent (outb base v d) = sent d @ [v])"

lemma com1_ports:
  "write_port outb SerialPort_default 0 v d = Ok (outb 0x3f8 v d)"
  "read_port inb SerialPort_default 5 d = Ok (inb 0x3fd d)"
  "write_port outb SerialPort_default 4 v d = Ok (outb 0x3fc v d)"
  "read_port inb SerialPort_default 0 d = Ok (inb 0x3f8 d)"
  "write_port outb SerialPort_default 2 v d = Ok (outb 0x3fa v d)"
  by (simp_all add: write_port_def read_port_def SerialPort_default_def SerialPort_new_for_com1_def
      SerialPort_new_def uadd_def)

lemma wait_transmitter_ends:
  assumes "uart inb outb 0x3f8 ok sent busy n" "ok d" "busy d < fuel"
  shows "\<exists>d'. wait_transmitter fuel inb SerialPort_default d = Ok d' \<and> ok d' \<and> busy d' = 0 \<and> sent d' = sent d"
  using assms(2,3)
proof (induction fuel arbitrary: d)
  case (Suc fuel)
  obtain v d1 where r: "inb 0x3fd d = (v, d1)" by force
  with assms(1) Suc.prems have d1: "ok d1" "sent d1 = sent d" "v AND 0x20 = 0 \<longleftrightarrow> busy d \<noteq> 0"
    "busy d1 = busy d - 1" by (auto simp: uart_def)
  show ?case
  proof (cases "busy d = 0")
    case True
    with d1 show ?thesis by (simp add: com1_ports r)
  next
    case False
    with Suc.IH [of d1] d1 Suc.prems show ?thesis by (simp add: com1_ports r)
  qed
qed simp

lemma send_str_sends:
  assumes "uart inb outb 0x3f8 ok sent busy n" "ok d" "n < fuel"
  shows "\<exists>d'. serial_write_str fuel inb outb s d = Ok d' \<and> ok d' \<and> sent d' = sent d @ map word_of_nat s"
  using assms(2)
proof (induction s arbitrary: d)
  case Nil
  then show ?case by (simp add: serial_write_str_def send_str_def)
next
  case (Cons c s)
  have "busy d < fuel" using assms Cons.prems by (auto simp: uart_def)
  from wait_transmitter_ends [OF assms(1) Cons.prems this] obtain d1 where
    d1: "wait_transmitter fuel inb SerialPort_default d = Ok d1" "ok d1" "busy d1 = 0" "sent d1 = sent d" by blast
  let ?d2 = "outb 0x3f8 (word_of_nat c) d1"
  have d2: "ok ?d2" "sent ?d2 = sent d @ [word_of_nat c]" using assms(1) d1 by (auto simp: uart_def)
  then show ?case
    using Cons.IH [of ?d2] d1
    by (simp add: serial_write_str_def send_str_def send_char_def com1_ports)
qed

text \<open>Room for \<open>k\<close> more characters on the screen, if there is one.\<close>

definition screen_room :: "BitmapTextWriter option \<Rightarrow> nat \<Rightarrow> bool" where
  "screen_room v k \<longleftrightarrow> (case v of None \<Rightarrow> True | Some w \<Rightarrow>
     wf_bitmap (tw_buf w) \<and> 0 \<le> cursor_x w \<and> 0 \<le> cursor_y w \<and>
     cursor_x w + 16 * int k < 2 ^ 62 \<and> cursor_y w + 16 * int k < 2 ^ 62)"

text \<open>The screen after a text: its glyphs painted, clipped, and the cursor moved.\<close>

definition screen_shows :: "string \<Rightarrow> nat list \<Rightarrow> BitmapTextWriter option \<Rightarrow> BitmapTextWriter option \<Rightarrow> bool" where
  "screen_shows font s v v' \<longleftrightarrow> (case v of None \<Rightarrow> v' = None | Some w \<Rightarrow>
     (\<exists>w'. v' = Some w' \<and>
       painted (tw_buf w) (text_points font s (cursor_x w) (cursor_y w) \<inter> {(x, y). visible (tw_buf w) x y})
         0xffffff (tw_buf w') \<and>
       (cursor_x w', cursor_y w') = cursor_after s (cursor_x w, cursor_y w)))"

lemma global_print_shows:
  assumes "uart inb outb 0x3f8 ok sent busy n" "ok (ports con)" "n < fuel"
    and "screen_room (vram_writer con) (length s)"
  shows "\<exists>con'. global_print font fuel inb outb s con = Ok con' \<and> ok (ports con') \<and>
    sent (ports con') = sent (ports con) @ map word_of_nat s \<and>
    screen_shows font s (vram_writer con) (vram_writer con')"
proof -
  from send_str_sends [OF assms(1-3)] obtain d where
    d: "serial_write_str fuel inb outb s (ports con) = Ok d" "ok d" "sent d = sent (ports con) @ map word_of_nat s"
    by blast
  show ?thesis
  proof (cases "vram_writer con")
    case None
    with d show ?thesis by (simp add: global_print_def screen_shows_def)
  next
    case (Some w)
    with assms(4) have "wf_bitmap (tw_buf w)" "0 \<le> cursor_x w" "0 \<le> cursor_y w"
      "cursor_x w + 16 * int (length s) < 2 ^ 62" "cursor_y w + 16 * int (length s) < 2 ^ 62"
      by (auto simp: screen_room_def)
    from write_str_paints [OF this, of font] d Some show ?thesis
      by (auto simp: global_print_def screen_shows_def)
  qed
qed

text \<open>
  C35: a text printed with \<open>global_print\<close> is sent byte for byte over the serial line, in order and
  after everything sent before, and painted on the screen if there is one; waiting for the
  transmitter always ends. So the text of a print reaches both outputs completely.\<close>

theorem global_print_reaches_both_outputs:
  assumes "uart inb outb 0x3f8 ok sent busy n" "ok (ports con)" "n < fuel"
    and "screen_room (vram_writer con) (length s)"
  shows "\<exists>con'. global_print font fuel inb outb s con = Ok con' \<and> ok (ports con') \<and>
    sent (ports con') = sent (ports con) @ map word_of_nat s \<and>
    screen_shows font s (vram_writer con) (vram_writer con')"
  using assms by (rule global_print_shows)

text \<open>
  C36: \<open>hexdump_bytes\<close> prints the dump line by line: for every 16 bytes the offset in eight hexadecimal
  digits, the bytes in two digits each, padded in a short last line, and their printable characters
  between bars, so that what has been sent over the serial line grows by exactly that text.\<close>

theorem hexdump_prints_lines:
  assumes "uart inb outb 0x3f8 ok sent busy n" "ok (ports con)" "n < fuel" "length bs < 2 ^ 31"
    and "screen_room (vram_writer con) (length (hexdump_text 0 bs))"
  shows "\<exists>con'. hexdump_bytes (global_print font fuel inb outb) bs con = Ok con' \<and>
    sent (ports con') = sent (ports con) @ map word_of_nat (hexdump_text 0 bs) \<and>
    screen_shows font (hexdump_text 0 bs) (vram_writer con) (vram_writer con')"
  using gp.hexdump_emits [OF assms(4), of font fuel inb outb]
    global_print_shows [OF assms(1-3,5), of font]
  unfolding gp.emits_def by blast

text \<open>A transmitter that is busy for two polls after each byte.\<close>

definition slow_inb :: "u16 \<Rightarrow> nat \<times> u8 list \<Rightarrow> u8 \<times> nat \<times> u8 list" where
  "slow_inb p d = (if fst d = 0 then 0x60 else 0x40, fst d - 1, snd d)"

definition slow_outb :: "u16 \<Rightarrow> u8 \<Rightarrow> nat \<times> u8 list \<Rightarrow> nat \<times> u8 list" where
  "slow_outb p v d = (2, snd d @ [v])"

lemma slow_uart: "uart slow_inb slow_outb 0x3f8 (\<lambda>d. fst d \<le> 2) snd fst 2"
  by (auto simp: uart_def slow_inb_def slow_outb_def)

theorem global_print_reaches_both_outputs_witness:
  "\<exists>con'. global_print [] 3 slow_inb slow_outb [72, 105]
     \<lparr> ports = (0, []), vram_writer = Some (BitmapTextWriter_new sample_bitmap) \<rparr> = Ok con' \<and>
   snd (ports con') = [72, 105]"
proof -
  let ?con = "\<lparr> ports = (0, []), vram_writer = Some (BitmapTextWriter_new sample_bitmap) \<rparr>"
  have "screen_room (vram_writer ?con) (length [72, 105 :: nat])"
    by (simp add: screen_room_def BitmapTextWriter_new_def wf_sample_bitmap)
  from global_print_reaches_both_outputs [OF slow_uart _ _ this, of 3 "[]"] show ?thesis by auto
qed

lemma sample_digits:
  "hex_upper 0 = [48]" "hex_upper 65 = [52, 49]" "hex_upper 255 = [70, 70]"
  by (simp_all add: hex_upper.simps [of 0] hex_upper.simps [of 65] hex_upper.simps [of 4]
      hex_upper.simps [of 255] hex_upper.simps [of 15] hex_digit_def)

lemma replicate_seven: "replicate 7 x = [x, x, x, x, x, x, x]"
  by (simp add: numeral_eq_Suc)

theorem hexdump_prints_lines_witness:
  "\<exists>con'. hexdump_bytes (global_print [] 3 slow_inb slow_outb) [0x41, 0xFF]
     \<lparr> ports = (0, []), vram_writer = None \<rparr> = Ok con' \<and>
   snd (ports con') = map word_of_nat (str ''00000000: 41 FF '' @ replicate 42 32 @ str ''|A.|'' @ [10])"
proof -
  let ?con = "\<lparr> ports = (0, [] :: u8 list), vram_writer = None \<rparr>"
  have t: "hexdump_text 0 [0x41, 0xFF] = str ''00000000: 41 FF '' @ replicate 42 32 @ str ''|A.|'' @ [10]"
    by (simp add: hexdump_text_line line_head_def line_tail_def offset_text_def byte_text_def
        zero_pad_def sample_digits hex_digit_def dump_char_last_def str_def replicate_seven)
  from hexdump_prints_lines [OF slow_uart, of ?con 3 "[0x41, 0xFF]" "[]"]
  show ?thesis by (auto simp: screen_room_def t)
qed

section \<open>The loopback test\<close>

text \<open>
  Whatever the port answers, a failed \<open>loopback_test\<close> leaves the modem control register at \<open>0x1e\<close>:
  the port stays in loopback mode, because both error returns come before the write that ends it.\<close>

theorem loopback_failure_leaves_loopback:
  assumes "\<And>p v d. mcr (outb p v d) = (if p = 0x3fc then v else mcr d)"
    and "\<And>p d. mcr (snd (inb p d)) = mcr d"
    and "loopback_test fuel inb outb SerialPort_default d = Ok (Inl e, d')"
  shows "mcr d' = 0x1e"
proof -
  have w: "wait_transmitter k inb SerialPort_default a = Ok b \<Longrightarrow> mcr b = mcr a" for k a b
  proof (induction k arbitrary: a)
    case (Suc k)
    have "mcr (snd (inb 0x3fd a)) = mcr a" by (rule assms(2))
    with Suc show ?case by (auto simp: com1_ports split: if_splits prod.splits)
  qed simp
  have inb: "mcr b = mcr a" if "inb p a = (v, b)" for p a v b
    using assms(2) [of p a] that by simp
  let ?d1 = "outb 0x3fc 0x1e d"
  from assms(3) obtain d2 r d3 where
    s: "send_char fuel inb outb SerialPort_default 84 ?d1 = Ok d2" and
    r: "try_read inb outb SerialPort_default d2 = Ok (r, d3)" and d': "d' = d3"
    by (auto simp: loopback_test_def com1_ports split: option.splits if_splits)
  from s have "mcr d2 = 0x1e" by (auto simp: send_char_def com1_ports assms(1) dest: w)
  moreover have "mcr d3 = mcr d2"
    using r by (auto simp: try_read_def com1_ports assms(1) dest!: inb split: if_splits prod.splits)
  ultimately show ?thesis by (simp add: d')
qed

end
