(* ===== verification/Usb_Stack.thy ===== *)
theory Usb_Stack
  imports Xhci_Driver Hid_Report
begin

text \<open>
  What the kernel does with an addressed USB device: the requests of \<open>src/usb.rs\<close>, the enumeration at
  the end of \<open>PciXhciDriver::run\<close> in \<open>src/xhci.rs\<close>, and the drivers of \<open>src/keyboard.rs\<close> and
  \<open>src/tablet.rs\<close>. Each \<open>await\<close> of a control transfer is one call of the device \<open>dev\<close>, which is an
  argument: from the request and the room for its data to the bytes it sends, or the error of the
  transfer. How a request becomes blocks on the transfer ring is in \<open>Xhci_Driver\<close>,
  and that the rings carry it out is in \<open>Xhci_Refine\<close>.
\<close>

section \<open>Tasks with a device\<close>

text \<open>A task works on a state \<open>'s\<close> and ends with a value or a fault; the state outlives a fault.\<close>

type_synonym ('a, 's) task = "'s \<Rightarrow> 'a res \<times> 's"

definition ret :: "'a \<Rightarrow> ('a, 's) task" where
  "ret x = (\<lambda>s. (Ok x, s))"

definition lift :: "'a res \<Rightarrow> ('a, 's) task" where
  "lift r = (\<lambda>s. (r, s))"

definition andthen :: "('a, 's) task \<Rightarrow> ('a \<Rightarrow> ('b, 's) task) \<Rightarrow> ('b, 's) task" where
  "andthen m f = (\<lambda>s. case m s of (Inl e, s') \<Rightarrow> (Inl e, s') | (Inr x, s') \<Rightarrow> f x s')"

lemma task_simps [simp]:
  "ret x s = (Ok x, s)" "lift r s = (r, s)"
  "m s = (Inr x, s') \<Longrightarrow> andthen m f s = f x s'"
  "m s = (Inl e, s') \<Longrightarrow> andthen m f s = (Inl e, s')"
  by (simp_all add: ret_def lift_def andthen_def)

lemma andthen_apply: "andthen m f s = (case m s of (Inl e, s') \<Rightarrow> (Inl e, s') | (Inr x, s') \<Rightarrow> f x s')"
  by (simp add: andthen_def)

section \<open>Control requests\<close>

datatype ControlRequest =
    GetDescriptor UsbDescriptorType u8 u16
  | GetInterfaceDescriptor UsbDescriptorType u8 u16
  | GetReport
  | SetConfig u8
  | SetInterface u8 u8
  | SetProtocol u8 u8

type_synonym 's device = "ControlRequest \<Rightarrow> nat \<Rightarrow> (u8 list, 's) task"

text \<open>The setup stage of a request for \<open>n\<close> bytes; \<open>Xhci_Driver\<close> queues exactly these.\<close>

fun setup_of :: "ControlRequest \<Rightarrow> nat \<Rightarrow> SetupStageTrb" where
  "setup_of (GetDescriptor t i w) n = SetupStageTrb_new REQ_TYPE_DIR_DEVICE_TO_HOST REQ_GET_DESCRIPTOR
     (push_bit 8 (ucast (descriptor_type_value t)) OR ucast i) w (word_of_nat n)"
| "setup_of (GetInterfaceDescriptor t i w) n =
     SetupStageTrb_new (REQ_TYPE_DIR_DEVICE_TO_HOST OR REQ_TYPE_TO_INTERFACE) REQ_GET_DESCRIPTOR
       (push_bit 8 (ucast (descriptor_type_value t)) OR ucast i) w (word_of_nat n)"
| "setup_of GetReport n =
     SetupStageTrb_new (REQ_TYPE_DIR_DEVICE_TO_HOST OR REQ_TYPE_TYPE_CLASS OR REQ_TYPE_TO_INTERFACE)
       REQ_GET_REPORT 0x0200 0 (word_of_nat n)"
| "setup_of (SetConfig c) n = SetupStageTrb_new 0 REQ_SET_CONFIGURATION (ucast c) 0 0"
| "setup_of (SetInterface i a) n =
     SetupStageTrb_new REQ_TYPE_TO_INTERFACE REQ_SET_INTERFACE (ucast a) (ucast i) 0"
| "setup_of (SetProtocol i p) n =
     SetupStageTrb_new REQ_TYPE_TO_INTERFACE REQ_SET_PROTOCOL (ucast p) (ucast i) 0"

lemma requests_queue_setup_of:
  "request_descriptor k slot ring t i w a n = control_in k slot ring (setup_of (GetDescriptor t i w) n) a n"
  "request_descriptor_for_interface k slot ring t i w a n =
     control_in k slot ring (setup_of (GetInterfaceDescriptor t i w) n) a n"
  "request_report_bytes k slot ring a n = control_in k slot ring (setup_of GetReport n) a n"
  "request_set_config k slot ring c = control_no_data k slot ring (setup_of (SetConfig c) 0)"
  "request_set_interface k slot ring f g = control_no_data k slot ring (setup_of (SetInterface f g) 0)"
  "request_set_protocol k slot ring f p = control_no_data k slot ring (setup_of (SetProtocol f p) 0)"
  by (simp_all add: request_descriptor_def request_descriptor_for_interface_def
      request_report_bytes_def request_set_config_def request_set_interface_def request_set_protocol_def)

text \<open>The controller writes what the device sends over the buffer, and no more than fits.\<close>

definition fill :: "u8 list \<Rightarrow> u8 list \<Rightarrow> u8 list" where
  "fill buf bs = take (length buf) bs @ drop (length bs) buf"

definition transfer_in :: "'s device \<Rightarrow> ControlRequest \<Rightarrow> u8 list \<Rightarrow> (u8 list, 's) task" where
  "transfer_in dev req buf = andthen (dev req (length buf)) (\<lambda>bs. ret (fill buf bs))"

definition transfer_no_data :: "'s device \<Rightarrow> ControlRequest \<Rightarrow> (unit, 's) task" where
  "transfer_no_data dev req = andthen (dev req 0) (\<lambda>_. ret ())"

definition request_device_descriptor :: "'s device \<Rightarrow> (UsbDeviceDescriptor, 's) task" where
  "request_device_descriptor dev =
     andthen (transfer_in dev (GetDescriptor TDevice 0 0) (replicate 18 0)) (\<lambda>buf.
       lift (copy_from_slice 18 UsbDeviceDescriptor_from buf))"

text \<open>
  \<open>String::from_utf8_lossy\<close>: well-formed sequences are decoded, and every longest beginning of a
  sequence that cannot be completed becomes one replacement character.\<close>

definition REPLACEMENT :: nat where "REPLACEMENT = 0xFFFD"

text \<open>The range of the second byte and the number of continuation bytes that a first byte announces.\<close>

definition utf8_lead :: "u8 \<Rightarrow> (u8 \<times> u8 \<times> nat) option" where
  "utf8_lead b =
     (if 0xC2 \<le> b \<and> b \<le> 0xDF then Some (0x80, 0xBF, 1)
      else if b = 0xE0 then Some (0xA0, 0xBF, 2)
      else if b = 0xED then Some (0x80, 0x9F, 2)
      else if 0xE1 \<le> b \<and> b \<le> 0xEF then Some (0x80, 0xBF, 2)
      else if b = 0xF0 then Some (0x90, 0xBF, 3)
      else if 0xF1 \<le> b \<and> b \<le> 0xF3 then Some (0x80, 0xBF, 3)
      else if b = 0xF4 then Some (0x80, 0x8F, 3)
      else None)"

fun utf8_conts :: "nat \<Rightarrow> u8 \<Rightarrow> u8 \<Rightarrow> nat \<Rightarrow> u8 list \<Rightarrow> nat option \<times> u8 list" where
  "utf8_conts 0 lo hi c bs = (Some c, bs)"
| "utf8_conts (Suc n) lo hi c [] = (None, [])"
| "utf8_conts (Suc n) lo hi c (b # bs) =
     (if lo \<le> b \<and> b \<le> hi then utf8_conts n 0x80 0xBF (c * 64 + unat (b AND 0x3F)) bs else (None, b # bs))"

lemma utf8_conts_length: "length (snd (utf8_conts n lo hi c bs)) \<le> length bs"
  by (induction n lo hi c bs rule: utf8_conts.induct) auto

fun from_utf8_lossy :: "u8 list \<Rightarrow> nat list" where
  "from_utf8_lossy [] = []"
| "from_utf8_lossy (b # bs) =
     (if b < 0x80 then unat b # from_utf8_lossy bs
      else case utf8_lead b of
        None \<Rightarrow> REPLACEMENT # from_utf8_lossy bs
      | Some (lo, hi, n) \<Rightarrow>
          (case utf8_conts n lo hi (unat (b AND mask (6 - n))) bs of
             (c, rest) \<Rightarrow> (case c of Some c \<Rightarrow> c | None \<Rightarrow> REPLACEMENT) #
                from_utf8_lossy (drop (length bs - length rest) bs)))"

definition request_string_descriptor :: "'s device \<Rightarrow> u16 \<Rightarrow> u8 \<Rightarrow> (nat list, 's) task" where
  "request_string_descriptor dev lang_id index =
     andthen (transfer_in dev (GetDescriptor TString index lang_id) (replicate 128 0)) (\<lambda>buf.
       ret (filter (\<lambda>c. c \<noteq> 0) (from_utf8_lossy (drop 2 buf))))"

definition request_string_descriptor_zero :: "'s device \<Rightarrow> (u8 list, 's) task" where
  "request_string_descriptor_zero dev = transfer_in dev (GetDescriptor TString 0 0) (replicate 8 0)"

definition request_config_descriptor_and_rest :: "nat \<Rightarrow> 's device \<Rightarrow> (UsbDescriptor list, 's) task" where
  "request_config_descriptor_and_rest fuel dev =
     andthen (transfer_in dev (GetDescriptor TConfig 0 0) (replicate 9 0)) (\<lambda>buf.
     andthen (lift (copy_from_slice 9 ConfigDescriptor_from buf)) (\<lambda>config_descriptor.
     andthen (transfer_in dev (GetDescriptor TConfig 0 0)
                (replicate (unat (total_length config_descriptor)) 0)) (\<lambda>buf.
       lift (descriptors_collect fuel (DescriptorIterator_new buf)))))"

definition request_hid_report :: "'s device \<Rightarrow> (u8 list, 's) task" where
  "request_hid_report dev = transfer_in dev GetReport (replicate 8 0)"

definition request_hid_report_descriptor :: "'s device \<Rightarrow> u8 \<Rightarrow> nat \<Rightarrow> (u8 list, 's) task" where
  "request_hid_report_descriptor dev if_num desc_size =
     transfer_in dev (GetInterfaceDescriptor TReport 0 (ucast if_num)) (replicate desc_size 0)"

section \<open>Keyboard\<close>

datatype KeyEvent = KeyNone | KeyChar nat | KeyUnknown u8 | KeyEnter

definition from_usb_key_id :: "u8 \<Rightarrow> KeyEvent res" where
  "from_usb_key_id usage_id =
     (if usage_id = 0 then Ok KeyNone
      else if 4 \<le> usage_id \<and> usage_id \<le> 29
      then rbind (uadd 97 usage_id) (\<lambda>a. rbind (usub a 4) (\<lambda>c. Ok (KeyChar (unat c))))
      else if 30 \<le> usage_id \<and> usage_id \<le> 39
      then rbind (uadd usage_id 1) (\<lambda>a. rbind (uadd 48 (a mod 10)) (\<lambda>c. Ok (KeyChar (unat c))))
      else if usage_id = 40 then Ok KeyEnter
      else if usage_id = 42 then Ok (KeyChar 8)
      else if usage_id = 44 then Ok (KeyChar 32)
      else if usage_id = 45 then Ok (KeyChar 45)
      else if usage_id = 51 then Ok (KeyChar 58)
      else if usage_id = 54 then Ok (KeyChar 44)
      else if usage_id = 55 then Ok (KeyChar 46)
      else if usage_id = 56 then Ok (KeyChar 47)
      else Ok (KeyUnknown usage_id))"

fun to_char :: "KeyEvent \<Rightarrow> nat option" where
  "to_char (KeyChar c) = Some c"
| "to_char KeyEnter = Some 10"
| "to_char _ = None"

text \<open>What the driver logs of a key: pressed or released, its identifier and event.\<close>

datatype KeyLog = KeyDown u8 KeyEvent | KeyUp u8 KeyEvent

text \<open>A logged line is added to the log that goes with the device's state.\<close>

definition log_entry :: "'e \<Rightarrow> (unit, 's \<times> 'e list) task" where
  "log_entry e = (\<lambda>(s, l). (Ok (), (s, l @ [e])))"

definition on_device :: "('a, 's) task \<Rightarrow> ('a, 's \<times> 'l) task" where
  "on_device m = (\<lambda>(s, l). case m s of (r, s') \<Rightarrow> (r, (s', l)))"

fun log_keys :: "u8 set \<Rightarrow> u8 list \<Rightarrow> (unit, 's \<times> KeyLog list) task" where
  "log_keys pressed [] = ret ()"
| "log_keys pressed (key # keys) =
     andthen (lift (from_usb_key_id key)) (\<lambda>e.
     andthen (log_entry (if key \<in> pressed then KeyDown key e else KeyUp key e)) (\<lambda>_.
       log_keys pressed keys))"

definition pressed_keys :: "u8 list \<Rightarrow> u8 set" where
  "pressed_keys report = set (filter (\<lambda>key. key \<noteq> 0) (drop 2 report))"

definition keyboard_round :: "'s device \<Rightarrow> u8 set \<Rightarrow> (u8 set, 's \<times> KeyLog list) task" where
  "keyboard_round dev prev_pressed =
     andthen (on_device (request_hid_report dev)) (\<lambda>report.
       let pressed = pressed_keys report;
           diff = sorted_list_of_set ((pressed - prev_pressed) \<union> (prev_pressed - pressed))
       in andthen (log_keys pressed diff) (\<lambda>_. ret pressed))"

text \<open>The first \<open>n\<close> rounds of the endless loop.\<close>

fun keyboard_loop :: "nat \<Rightarrow> 's device \<Rightarrow> u8 set \<Rightarrow> (u8 set, 's \<times> KeyLog list) task" where
  "keyboard_loop 0 dev prev_pressed = ret prev_pressed"
| "keyboard_loop (Suc n) dev prev_pressed =
     andthen (keyboard_round dev prev_pressed) (keyboard_loop n dev)"

definition UsbKeyboardDriver_run ::
  "nat \<Rightarrow> 's device \<Rightarrow> UsbDescriptor list \<Rightarrow> (u8 set, 's \<times> KeyLog list) task" where
  "UsbKeyboardDriver_run n dev descriptors =
     andthen (lift (ok_or (pick_interface_with_triple descriptors (3, 1, 1)) ''No USB KBD Boot interface found''))
       (\<lambda>(config_desc, interface_desc, _).
     andthen (on_device (transfer_no_data dev (SetConfig (config_value config_desc)))) (\<lambda>_.
     andthen (on_device (transfer_no_data dev
       (SetInterface (interface_number interface_desc) (alt_setting interface_desc)))) (\<lambda>_.
     andthen (on_device (transfer_no_data dev (SetProtocol (interface_number interface_desc) 0))) (\<lambda>_.
       keyboard_loop n dev {}))))"

definition UsbKeyboardDriver_is_compatible :: "UsbDescriptor list \<Rightarrow> bool" where
  "UsbKeyboardDriver_is_compatible descriptors \<longleftrightarrow> pick_interface_with_triple descriptors (3, 1, 1) \<noteq> None"

section \<open>Tablet\<close>

fun tablet_loop ::
  "nat \<Rightarrow> 's device \<Rightarrow> TabletItems \<Rightarrow> int \<Rightarrow> int \<Rightarrow> u8 list \<Rightarrow> (unit, 's \<times> TabletEvent list) task" where
  "tablet_loop 0 dev t vw vh prev_report = ret ()"
| "tablet_loop (Suc n) dev t vw vh prev_report =
     andthen (on_device (request_hid_report dev)) (\<lambda>report.
     andthen (lift (tablet_round t vw vh prev_report report)) (\<lambda>(e, prev).
     andthen (case e of None \<Rightarrow> ret () | Some e \<Rightarrow> log_entry e) (\<lambda>_.
       tablet_loop n dev t vw vh prev)))"

text \<open>The resolution is that of the global screen, if there is one.\<close>

definition UsbTabletDriver_run ::
  "nat \<Rightarrow> (int \<times> int) option \<Rightarrow> 's device \<Rightarrow> UsbDescriptor list \<Rightarrow> (unit, 's \<times> TabletEvent list) task" where
  "UsbTabletDriver_run n vram_resolution dev descriptors =
     andthen (lift (ok_or (pick_interface_with_triple descriptors (3, 0, 0)) ''No USB KBD Boot interface found''))
       (\<lambda>(_, interface_desc, other_desc_list).
     andthen (lift (ok_or (first_hid other_desc_list) ''No HID Descriptor found'')) (\<lambda>hid_desc.
     andthen (on_device (request_hid_report_descriptor dev (interface_number interface_desc)
                (unat (report_descriptor_length hid_desc)))) (\<lambda>report.
     andthen (lift (tablet_setup (\<lambda>_ _. Ok report) descriptors)) (\<lambda>t.
     andthen (lift (ok_or vram_resolution ''global VRAM is not set'')) (\<lambda>(vw, vh).
       tablet_loop n dev t vw vh (replicate (tablet_report_size t) 0))))))"

section \<open>Enumeration\<close>

datatype UsbDriver = UsbKeyboardDriver | UsbTabletDriver

text \<open>The driver whose task is spawned.\<close>

definition start_device_driver :: "UsbDeviceDescriptor \<Rightarrow> UsbDescriptor list \<Rightarrow> UsbDriver res" where
  "start_device_driver device_descriptor descriptors =
     (if UsbKeyboardDriver_is_compatible descriptors then Ok UsbKeyboardDriver
      else if UsbTabletDriver_is_compatible descriptors device_descriptor then Ok UsbTabletDriver
      else err ''xhci: No available drivers found'')"

text \<open>An awaited error that the code matches on instead of returning it.\<close>

definition try_task :: "('a, 's) task \<Rightarrow> ('a option, 's) task" where
  "try_task m = (\<lambda>s. case m s of (r, s') \<Rightarrow> (res_ok r, s'))"

definition optional_string :: "'s device \<Rightarrow> u16 \<Rightarrow> u8 \<Rightarrow> (nat list option, 's) task" where
  "optional_string dev lang_id idx =
     (if idx \<noteq> 0 then andthen (request_string_descriptor dev lang_id idx) (\<lambda>s. ret (Some s)) else ret None)"

record DeviceStrings =
  vendor_string :: "nat list option"
  product_string :: "nat list option"
  serial_string :: "nat list option"

text \<open>
  The end of \<open>run\<close>, from the addressed device on: what was read of it and the driver that was
  started; \<open>None\<close> when the device has no string descriptors, where the code does nothing more.\<close>

definition enumerate_device ::
  "nat \<Rightarrow> 's device \<Rightarrow> ((DeviceStrings \<times> UsbDescriptor list \<times> UsbDriver) option, 's) task" where
  "enumerate_device fuel dev =
     andthen (request_device_descriptor dev) (\<lambda>device_descriptor.
     andthen (try_task (request_string_descriptor_zero dev)) (\<lambda>z.
     case z of None \<Rightarrow> ret None
     | Some e \<Rightarrow>
         let lang_id = u16_at e 0 in
         andthen (optional_string dev lang_id (manufacturer_idx device_descriptor)) (\<lambda>vendor.
         andthen (optional_string dev lang_id (product_idx device_descriptor)) (\<lambda>product.
         andthen (optional_string dev lang_id (serial_idx device_descriptor)) (\<lambda>serial.
         andthen (request_config_descriptor_and_rest fuel dev) (\<lambda>descriptors.
         andthen (lift (start_device_driver device_descriptor descriptors)) (\<lambda>driver.
           ret (Some (\<lparr> vendor_string = vendor, product_string = product, serial_string = serial \<rparr>,
                      descriptors, driver)))))))))"

end
