(* ===== verification/Usb_Devices.thy ===== *)
theory Usb_Devices
  imports Usb_Stack
begin

text \<open>
  What the tasks of \<open>Usb_Stack\<close> do with a device: the keyboard's log against the keys that its reports
  hold down, the tablet's log against the screen, the text of a string descriptor, and the driver
  that an enumeration ends with.
\<close>

section \<open>Key events\<close>

lemma from_usb_key_id_Ok: "\<exists>e. from_usb_key_id key = Ok e"
proof -
  have "uadd 97 key = Ok (97 + key)" "unat (97 + key) = 97 + unat key" if "unat key \<le> 29"
    using that by (simp_all add: uadd_def unat_add_nowrap)
  moreover have "uadd key 1 = Ok (key + 1)" "uadd 48 ((key + 1) mod 10) = Ok (48 + (key + 1) mod 10)"
    if "unat key \<le> 39"
    using that by (simp_all add: uadd_def unat_mod)
  ultimately show ?thesis
    by (auto simp: from_usb_key_id_def usub_def word_le_nat_alt)
qed

definition key_event :: "u8 \<Rightarrow> KeyEvent" where
  "key_event key = (case from_usb_key_id key of Inr e \<Rightarrow> e | Inl _ \<Rightarrow> KeyNone)"

lemma from_usb_key_id_eq: "from_usb_key_id key = Ok (key_event key)"
  using from_usb_key_id_Ok [of key] by (auto simp: key_event_def)

definition key_entry :: "u8 set \<Rightarrow> u8 \<Rightarrow> KeyLog" where
  "key_entry pressed key = (if key \<in> pressed then KeyDown key (key_event key) else KeyUp key (key_event key))"

lemma key_entry_simps:
  "key \<in> pressed \<Longrightarrow> key_entry pressed key = KeyDown key (key_event key)"
  "key \<notin> pressed \<Longrightarrow> key_entry pressed key = KeyUp key (key_event key)"
  by (simp_all add: key_entry_def)

lemma log_keys_eq: "log_keys pressed keys (s, l) = (Ok (), (s, l @ map (key_entry pressed) keys))"
proof (induction keys arbitrary: l)
  case (Cons key keys)
  then show ?case by (simp add: andthen_apply from_usb_key_id_eq log_entry_def key_entry_def)
qed simp

section \<open>Replaying the keyboard's log\<close>

text \<open>
  The keys held down after a log: a key goes down only when it is up and up only when it is down.\<close>

fun replay :: "u8 set \<Rightarrow> KeyLog list \<Rightarrow> u8 set option" where
  "replay P [] = Some P"
| "replay P (KeyDown key e # es) = (if key \<in> P then None else replay (insert key P) es)"
| "replay P (KeyUp key e # es) = (if key \<in> P then replay (P - {key}) es else None)"

lemma replay_append: "replay P (a @ b) = Option.bind (replay P a) (\<lambda>Q. replay Q b)"
  by (induction P a rule: replay.induct) auto

lemma replay_changes:
  assumes "distinct keys" "\<forall>key \<in> set keys. key \<in> pressed \<longleftrightarrow> key \<notin> P"
  shows "replay P (map (key_entry pressed) keys) = Some ((P - set keys) \<union> (set keys \<inter> pressed))"
  using assms
proof (induction keys arbitrary: P)
  case (Cons key keys)
  show ?case
  proof (cases "key \<in> pressed")
    case True
    have "replay (insert key P) (map (key_entry pressed) keys) =
        Some ((insert key P - set keys) \<union> (set keys \<inter> pressed))"
      by (rule Cons.IH) (use Cons.prems in auto)
    moreover have "(insert key P - set keys) \<union> (set keys \<inter> pressed) =
        (P - set (key # keys)) \<union> (set (key # keys) \<inter> pressed)" using True Cons.prems by auto
    ultimately show ?thesis using True Cons.prems by (simp add: key_entry_simps)
  next
    case False
    have "replay (P - {key}) (map (key_entry pressed) keys) =
        Some ((P - {key} - set keys) \<union> (set keys \<inter> pressed))"
      by (rule Cons.IH) (use Cons.prems in auto)
    moreover have "(P - {key} - set keys) \<union> (set keys \<inter> pressed) =
        (P - set (key # keys)) \<union> (set (key # keys) \<inter> pressed)" using False by auto
    ultimately show ?thesis using False Cons.prems by (simp add: key_entry_simps)
  qed
qed simp

lemma replay_round:
  fixes pressed prev :: "u8 set"
  defines "diff \<equiv> sorted_list_of_set ((pressed - prev) \<union> (prev - pressed))"
  shows "replay prev (map (key_entry pressed) diff) = Some pressed"
proof -
  have s: "set diff = (pressed - prev) \<union> (prev - pressed)" by (simp add: diff_def)
  then have "replay prev (map (key_entry pressed) diff) = Some ((prev - set diff) \<union> (set diff \<inter> pressed))"
    by (intro replay_changes) (auto simp: diff_def)
  also have "(prev - set diff) \<union> (set diff \<inter> pressed) = pressed" using s by auto
  finally show ?thesis .
qed

text \<open>A device that keeps a record of the requests and of what it answered.\<close>

definition traced :: "'s device \<Rightarrow> ('s \<times> (ControlRequest \<times> u8 list res) list) device" where
  "traced dev req n = (\<lambda>(s, tr). case dev req n s of (r, s') \<Rightarrow> (r, (s', tr @ [(req, r)])))"

text \<open>The keys down in the last answer of a record.\<close>

definition last_keys :: "(ControlRequest \<times> u8 list res) list \<Rightarrow> u8 set" where
  "last_keys tr = (case snd (last tr) of Inr bs \<Rightarrow> pressed_keys (fill (replicate 8 0) bs) | Inl _ \<Rightarrow> {})"

text \<open>What \<open>n\<close> rounds from the keys \<open>prev\<close> add to the record \<open>tr\<close> and to the log \<open>l\<close>.\<close>

definition rounds_outcome ::
  "nat \<Rightarrow> u8 set \<Rightarrow> (ControlRequest \<times> u8 list res) list \<Rightarrow> KeyLog list \<Rightarrow>
   u8 set res \<times> ('s \<times> (ControlRequest \<times> u8 list res) list) \<times> KeyLog list \<Rightarrow> bool" where
  "rounds_outcome n prev tr l x \<longleftrightarrow> (\<exists>r s' tr' ev P. x = (r, ((s', tr @ tr'), l @ ev)) \<and>
     map fst tr' = replicate (length tr') GetReport \<and> length tr' \<le> n \<and> replay prev ev = Some P \<and>
     (\<forall>Q. r = Ok Q \<longrightarrow> P = Q \<and> length tr' = n \<and> Q = (if n = 0 then prev else last_keys tr')))"

lemma rounds_outcomeI:
  assumes "x = (r, ((s', tr @ tr'), l @ ev))" "map fst tr' = replicate (length tr') GetReport"
    "length tr' \<le> n" "replay prev ev = Some P"
    "\<And>Q. r = Ok Q \<Longrightarrow> P = Q \<and> length tr' = n \<and> Q = (if n = 0 then prev else last_keys tr')"
  shows "rounds_outcome n prev tr l x"
proof -
  have "\<forall>Q. r = Ok Q \<longrightarrow> P = Q \<and> length tr' = n \<and> Q = (if n = 0 then prev else last_keys tr')"
    using assms(5) by blast
  with assms(1-4) show ?thesis unfolding rounds_outcome_def by (intro exI conjI)
qed

lemma keyboard_loop_log: "rounds_outcome n prev tr l (keyboard_loop n (traced dev) prev ((s, tr), l))"
proof (induction n arbitrary: prev s tr l)
  case 0
  show ?case by (rule rounds_outcomeI [of _ "Ok prev" s tr "[]" l "[]"]) simp_all
next
  case (Suc n)
  obtain r s1 where d: "dev GetReport 8 s = (r, s1)" by force
  have req: "request_hid_report (traced dev) (s, tr) =
      (case r of Inr bs \<Rightarrow> Ok (fill (replicate 8 0) bs) | Inl e \<Rightarrow> Inl e, (s1, tr @ [(GetReport, r)]))"
    by (simp add: request_hid_report_def transfer_in_def andthen_apply traced_def d split: sum.split)
  show ?case
  proof (cases r)
    case (Inl e)
    then have "keyboard_loop (Suc n) (traced dev) prev ((s, tr), l) =
        (Inl e, ((s1, tr @ [(GetReport, r)]), l @ []))"
      by (simp add: keyboard_round_def andthen_apply on_device_def req)
    then show ?thesis by (rule rounds_outcomeI) simp_all
  next
    case (Inr bs)
    let ?pressed = "pressed_keys (fill (replicate 8 0) bs)"
    let ?ev = "map (key_entry ?pressed) (sorted_list_of_set ((?pressed - prev) \<union> (prev - ?pressed)))"
    from Suc.IH [of ?pressed "tr @ [(GetReport, r)]" "l @ ?ev" s1] obtain r' s' tr' ev P where
      IH: "keyboard_loop n (traced dev) ?pressed ((s1, tr @ [(GetReport, r)]), l @ ?ev) =
          (r', ((s', (tr @ [(GetReport, r)]) @ tr'), (l @ ?ev) @ ev))"
        "map fst tr' = replicate (length tr') GetReport" "length tr' \<le> n" "replay ?pressed ev = Some P"
        "\<forall>Q. r' = Ok Q \<longrightarrow> P = Q \<and> length tr' = n \<and> Q = (if n = 0 then ?pressed else last_keys tr')"
      unfolding rounds_outcome_def by (elim exE conjE)
    have "keyboard_loop (Suc n) (traced dev) prev ((s, tr), l) =
        (r', ((s', tr @ ((GetReport, r) # tr')), l @ (?ev @ ev)))"
      using Inr IH(1) by (simp add: keyboard_round_def andthen_apply on_device_def req Let_def log_keys_eq)
    then show ?thesis
    proof (rule rounds_outcomeI)
      show "replay prev (?ev @ ev) = Some P" by (simp only: replay_append replay_round bind.simps IH(4))
      show "P = Q \<and> length ((GetReport, r) # tr') = Suc n \<and>
          Q = (if Suc n = 0 then prev else last_keys ((GetReport, r) # tr'))" if "r' = Ok Q" for Q
        using IH(5) that Inr by (auto simp: last_keys_def split: if_splits)
    qed (use IH(2,3) in simp_all)
  qed
qed

text \<open>
  C37: the first \<open>n\<close> rounds of the keyboard driver, with any device. Without a boot keyboard interface
  nothing is asked of the device. Else the requests made are, in this order and cut off at the first
  one that fails, the choice of the configuration, of the interface and of the boot protocol, and one
  report per round. The log is consistent at every moment: no key goes down that is down or up that
  is up, and after \<open>n\<close> rounds the keys down according to the log are those of the last report.\<close>

theorem keyboard_log_replays_reports:
  "case UsbKeyboardDriver_run n (traced dev) descriptors ((s, []), []) of (r, ((s', tr), log)) \<Rightarrow>
     (case pick_interface_with_triple descriptors (3, 1, 1) of
        None \<Rightarrow> r = err ''No USB KBD Boot interface found'' \<and> tr = [] \<and> log = []
      | Some (c, i, others) \<Rightarrow>
          map fst tr = take (length tr) ([SetConfig (config_value c),
             SetInterface (interface_number i) (alt_setting i), SetProtocol (interface_number i) 0] @
             replicate n GetReport) \<and>
          (\<exists>P. replay {} log = Some P \<and>
             (case r of Inl f \<Rightarrow> True
              | Inr Q \<Rightarrow> P = Q \<and> length tr = n + 3 \<and> Q = (if n = 0 then {} else last_keys tr))))"
proof (cases "pick_interface_with_triple descriptors (3, 1, 1)")
  case None
  then show ?thesis by (simp add: UsbKeyboardDriver_run_def andthen_apply)
next
  case (Some p)
  obtain c i others where p: "p = (c, i, others)" by (cases p)
  let ?c = "SetConfig (config_value c)" and ?i = "SetInterface (interface_number i) (alt_setting i)"
    and ?p = "SetProtocol (interface_number i) 0"
  obtain r1 s1 where d1: "dev ?c 0 s = (r1, s1)" by force
  obtain r2 s2 where d2: "dev ?i 0 s1 = (r2, s2)" by force
  obtain r3 s3 where d3: "dev ?p 0 s2 = (r3, s3)" by force
  let ?tr = "[(?c, r1), (?i, r2), (?p, r3)]"
  note run = UsbKeyboardDriver_run_def Some p andthen_apply on_device_def transfer_no_data_def traced_def d1 d2 d3
  show ?thesis
  proof (cases "\<exists>e. r1 = Inl e \<or> r2 = Inl e \<or> r3 = Inl e")
    case True
    then show ?thesis
      by (cases r1; cases r2; cases r3) (auto simp: run)
  next
    case False
    then obtain x1 x2 x3 where r: "r1 = Inr x1" "r2 = Inr x2" "r3 = Inr x3" by (cases r1; cases r2; cases r3) auto
    from keyboard_loop_log [of n "{}" ?tr "[]" dev s3] obtain r' s' tr' ev P where
      l: "keyboard_loop n (traced dev) {} ((s3, ?tr), []) = (r', ((s', ?tr @ tr'), [] @ ev))"
        "map fst tr' = replicate (length tr') GetReport" "length tr' \<le> n" "replay {} ev = Some P"
        "\<forall>Q. r' = Ok Q \<longrightarrow> P = Q \<and> length tr' = n \<and> Q = (if n = 0 then {} else last_keys tr')"
      unfolding rounds_outcome_def by (elim exE conjE)
    have run: "UsbKeyboardDriver_run n (traced dev) descriptors ((s, []), []) = (r', ((s', ?tr @ tr'), ev))"
      using l(1) by (simp add: run r)
    have fst: "map fst (?tr @ tr') = take (length (?tr @ tr')) ([?c, ?i, ?p] @ replicate n GetReport)"
      using l(2,3) by (simp add: min_absorb1)
    have "P = Q \<and> length (?tr @ tr') = n + 3 \<and> Q = (if n = 0 then {} else last_keys (?tr @ tr'))"
      if "r' = Ok Q" for Q
    proof -
      from l(5) that have q: "P = Q" "length tr' = n" "Q = (if n = 0 then {} else last_keys tr')" by blast+
      have "last_keys (?tr @ tr') = last_keys tr'" if "n \<noteq> 0"
        using that q(2) by (cases "tr' = []") (simp_all add: last_keys_def)
      with q show ?thesis by (cases "n = 0") simp_all
    qed
    then have "case r' of Inl f \<Rightarrow> True | Inr Q \<Rightarrow> P = Q \<and> length (?tr @ tr') = n + 3 \<and>
        Q = (if n = 0 then {} else last_keys (?tr @ tr'))"
      by (simp only: split: sum.split) blast
    with l(4) have "\<exists>P. replay {} ev = Some P \<and> (case r' of Inl f \<Rightarrow> True | Inr Q \<Rightarrow> P = Q \<and>
        length (?tr @ tr') = n + 3 \<and> Q = (if n = 0 then {} else last_keys (?tr @ tr')))" by (intro exI conjI)
    with fst show ?thesis unfolding run Some p prod.case option.case by (rule conjI)
  qed
qed

end
