(* ===== verification/Usb_Enumeration.thy ===== *)
theory Usb_Enumeration
  imports Usb_Devices
begin

text \<open>
  The enumeration of a device that answers its descriptor requests, the text of a string descriptor
  and the log of the tablet driver.
\<close>

section \<open>Devices that answer\<close>

text \<open>
  A device that holds the bytes \<open>bs\<close> for a request sends as many of them as it is asked for (9.4.3 of
  the USB specification; the length of a request has 16 bits), whatever its state.\<close>

definition answers :: "'s device \<Rightarrow> ControlRequest \<Rightarrow> u8 list \<Rightarrow> bool" where
  "answers dev req bs \<longleftrightarrow> (\<forall>n s. n < 65536 \<longrightarrow> fst (dev req n s) = Ok (take n bs))"

lemma fill_take: "fill buf (take (length buf) bs) = take (length buf) bs @ drop (length bs) buf"
  by (auto simp: fill_def min_def)

lemma transfer_in_answers:
  assumes "answers dev req bs" "length buf < 65536"
  shows "\<exists>s'. transfer_in dev req buf s = (Ok (fill buf bs), s')"
proof -
  obtain r s' where d: "dev req (length buf) s = (r, s')" by force
  with assms have "r = Ok (take (length buf) bs)" unfolding answers_def by (metis fst_conv)
  with d show ?thesis by (simp add: transfer_in_def andthen_apply fill_take) (simp add: fill_def)
qed

section \<open>String descriptors\<close>

lemma from_utf8_lossy_ascii:
  "list_all (\<lambda>b. b < 0x80) bs \<Longrightarrow> from_utf8_lossy bs = map unat bs"
  by (induction bs) auto

text \<open>A string descriptor of ASCII text: its length and type, then one 16-bit unit per character.\<close>

definition string_descriptor :: "nat list \<Rightarrow> u8 list" where
  "string_descriptor t = word_of_nat (2 * length t + 2) # 3 # concat (map (\<lambda>c. [word_of_nat c, 0]) t)"

lemma length_string_descriptor: "length (string_descriptor t) = 2 * length t + 2"
  by (simp add: string_descriptor_def length_concat comp_def sum_list_triv)

lemma string_units_decode:
  assumes "list_all (\<lambda>c. 0 < c \<and> c < 128) t"
  shows "list_all (\<lambda>b. b < 0x80) (concat (map (\<lambda>c. [word_of_nat c, 0]) t) :: u8 list)"
    and "filter (\<lambda>c. c \<noteq> 0) (map unat (concat (map (\<lambda>c. [word_of_nat c, 0]) t) :: u8 list)) = t"
  using assms by (induction t) (auto simp: word_less_nat_alt unat_of_nat)

lemma string_buffer_shows:
  assumes "list_all (\<lambda>c. 0 < c \<and> c < 128) t" and "length t \<le> 63"
  shows "filter (\<lambda>c. c \<noteq> 0) (from_utf8_lossy (drop 2 (fill (replicate 128 0) (string_descriptor t)))) = t"
proof -
  let ?u = "concat (map (\<lambda>c. [word_of_nat c, 0]) t) :: u8 list"
  have "fill (replicate 128 0) (string_descriptor t) = string_descriptor t @ replicate (128 - (2 * length t + 2)) 0"
    using assms(2) by (simp add: fill_def length_string_descriptor)
  then have d: "drop 2 (fill (replicate 128 0) (string_descriptor t)) = ?u @ replicate (126 - 2 * length t) 0"
    by (simp add: string_descriptor_def)
  have "from_utf8_lossy (?u @ replicate (126 - 2 * length t) 0) = map unat ?u @ replicate (126 - 2 * length t) 0"
    using string_units_decode(1) [OF assms(1)] by (subst from_utf8_lossy_ascii) (auto simp: list_all_iff)
  then show ?thesis using string_units_decode(2) [OF assms(1)] by (simp add: d)
qed

text \<open>
  a device whose string descriptor holds an ASCII text of at most 63 characters yields exactly
  that text, whatever language is asked for.\<close>

theorem string_descriptor_roundtrip:
  assumes "answers dev (GetDescriptor TString index lang_id) (string_descriptor t)"
    and "list_all (\<lambda>c. 0 < c \<and> c < 128) t" and "length t \<le> 63"
  shows "fst (request_string_descriptor dev lang_id index s) = Ok t"
proof -
  obtain s' where
    "transfer_in dev (GetDescriptor TString index lang_id) (replicate 128 0) s =
      (Ok (fill (replicate 128 0) (string_descriptor t)), s')"
    using transfer_in_answers [OF assms(1), of "replicate 128 0" s] by auto
  then show ?thesis
    using string_buffer_shows [OF assms(2,3)] by (simp add: request_string_descriptor_def andthen_apply)
qed

text \<open>A device that only has the product string \<open>ab\<close>; every other request fails.\<close>

definition ab_device :: "unit device" where
  "ab_device req n s = (if req = GetDescriptor TString 2 0x409 then Ok (take n (string_descriptor [97, 98]))
     else err ''stall'', ())"

theorem string_descriptor_roundtrip_witness:
  "fst (request_string_descriptor ab_device 0x409 2 ()) = Ok [97, 98]"
  by (rule string_descriptor_roundtrip) (simp_all add: answers_def ab_device_def)

section \<open>The configuration\<close>

lemma request_config_collects:
  assumes "answers dev (GetDescriptor TConfig 0 0) (concat (map encode_descriptor ds))"
    and "list_all wf_descriptor ds" and "ds = Config c # rest"
    and "unat (total_length c) = length (concat (map encode_descriptor ds))" and "length ds < fuel"
  shows "fst (request_config_descriptor_and_rest fuel dev s) = Ok ds"
proof -
  let ?bs = "concat (map encode_descriptor ds)"
  have len: "length ?bs < 65536" using unsigned_less [of "total_length c", where 'a = nat] assms(4) by simp
  obtain s1 where
    r1: "transfer_in dev (GetDescriptor TConfig 0 0) (replicate 9 0) s = (Ok (fill (replicate 9 0) ?bs), s1)"
    using transfer_in_answers [OF assms(1), of "replicate 9 0" s] by auto
  have e: "length (encode_descriptor (Config c)) = 9" by (simp add: u16_bytes_def)
  then have f: "fill (replicate 9 0) ?bs = encode_descriptor (Config c)"
    by (simp add: fill_def assms(3))
  have c: "copy_from_slice 9 ConfigDescriptor_from (encode_descriptor (Config c)) = Ok c"
    using assms(2,3) by (simp add: copy_from_slice_def ConfigDescriptor_from_def u16_bytes_def u16_at_def u16_join)
  obtain s2 where
    r2: "transfer_in dev (GetDescriptor TConfig 0 0) (replicate (length ?bs) 0) s1 =
      (Ok (fill (replicate (length ?bs) 0) ?bs), s2)"
    using transfer_in_answers [OF assms(1), of "replicate (length ?bs) 0" s1] len by auto
  have "fill (replicate (length ?bs) 0) ?bs = ?bs" by (simp add: fill_def)
  moreover have "descriptors_collect fuel (DescriptorIterator_new ?bs) = Ok ds"
    by (rule descriptors_collect_encode) (use assms(2,5) in \<open>simp_all add: DescriptorIterator_new_def\<close>)
  ultimately show ?thesis
    by (simp add: request_config_descriptor_and_rest_def andthen_apply r1 f c assms(4) r2
        del: encode_descriptor.simps)
qed

section \<open>The driver\<close>

lemma last_config_Some: "last_config ds (Some c) \<noteq> None"
  by (induction ds "Some c" arbitrary: c rule: last_config.induct) auto

lemma not_triple_Config [simp]: "\<not> has_triple t (Config c)"
  by (simp add: has_triple_def)

lemma pick_interface_exists:
  "pick_interface_with_triple (Config c # rest) t \<noteq> None \<longleftrightarrow> list_ex (has_triple t) rest"
proof (cases "pick_interface_with_triple (Config c # rest) t")
  case None
  with pick_interface_spec [where ds = "Config c # rest" and t = t] last_config_Some show ?thesis by auto
next
  case (Some p)
  with pick_interface_spec [where ds = "Config c # rest" and t = t] show ?thesis by (cases p) auto
qed

text \<open>The text that the kernel shows for string \<open>idx\<close> of a device whose bytes for it are \<open>bs\<close>.\<close>

definition shown_string :: "u8 \<Rightarrow> u8 list \<Rightarrow> nat list option" where
  "shown_string idx bs = (if idx = 0 then None
     else Some (filter (\<lambda>c. c \<noteq> 0) (from_utf8_lossy (drop 2 (fill (replicate 128 0) bs)))))"

lemma optional_string_answers:
  assumes "\<And>i w. answers dev (GetDescriptor TString i w) (strs i w)"
  obtains s' where "optional_string dev lang idx s = (Ok (shown_string idx (strs idx lang)), s')"
proof (cases "idx = 0")
  case True
  then show thesis by (intro that [of s]) (simp add: optional_string_def shown_string_def)
next
  case False
  obtain s' where
    "transfer_in dev (GetDescriptor TString idx lang) (replicate 128 0) s =
      (Ok (fill (replicate 128 0) (strs idx lang)), s')"
    using transfer_in_answers [OF assms [of idx lang], of "replicate 128 0" s] by auto
  with False show thesis
    by (intro that [of s']) (simp add: optional_string_def request_string_descriptor_def
        shown_string_def andthen_apply)
qed

lemma string_descriptor_shown:
  assumes "list_all (\<lambda>c. 0 < c \<and> c < 128) t" and "length t \<le> 63" and "idx \<noteq> 0"
  shows "shown_string idx (string_descriptor t) = Some t"
  using string_buffer_shows [OF assms(1,2)] assms(3) by (simp add: shown_string_def)

lemma enumerate_device_answers:
  assumes "answers dev (GetDescriptor TDevice 0 0) db" and "length db = 18"
    and "\<And>i w. answers dev (GetDescriptor TString i w) (strs i w)"
    and "answers dev (GetDescriptor TConfig 0 0) (concat (map encode_descriptor (Config c # rest)))"
    and "list_all wf_descriptor (Config c # rest)"
    and "unat (total_length c) = length (concat (map encode_descriptor (Config c # rest)))"
    and "length rest + 1 < fuel"
  defines "dd \<equiv> UsbDeviceDescriptor_from db" and "lang \<equiv> u16_at (fill (replicate 8 0) (strs 0 0)) 0"
  shows "fst (enumerate_device fuel dev s) =
    (let found = \<lambda>drv. Ok (Some (\<lparr>
           vendor_string = shown_string (manufacturer_idx dd) (strs (manufacturer_idx dd) lang),
           product_string = shown_string (product_idx dd) (strs (product_idx dd) lang),
           serial_string = shown_string (serial_idx dd) (strs (serial_idx dd) lang) \<rparr>, Config c # rest, drv)) in
     if list_ex (has_triple (3, 1, 1)) rest then found UsbKeyboardDriver
     else if list_ex (has_triple (3, 0, 0)) rest \<and> device_class dd = 0 \<and> device_subclass dd = 0 \<and>
       device_protocol dd = 0 \<and> dev_vendor_id dd = 0x0627 \<and> dev_product_id dd = 0x0001
     then found UsbTabletDriver
     else err ''xhci: No available drivers found'')"
proof -
  obtain s1 where
    "transfer_in dev (GetDescriptor TDevice 0 0) (replicate 18 0) s = (Ok (fill (replicate 18 0) db), s1)"
    using transfer_in_answers [OF assms(1), of "replicate 18 0" s] by auto
  then have 1: "request_device_descriptor dev s = (Ok dd, s1)"
    using assms(2) by (simp add: request_device_descriptor_def andthen_apply copy_from_slice_def fill_def dd_def)
  obtain s2 where
    "transfer_in dev (GetDescriptor TString 0 0) (replicate 8 0) s1 = (Ok (fill (replicate 8 0) (strs 0 0)), s2)"
    using transfer_in_answers [OF assms(3) [of 0 0], of "replicate 8 0" s1] by auto
  then have 2: "try_task (request_string_descriptor_zero dev) s1 = (Ok (Some (fill (replicate 8 0) (strs 0 0))), s2)"
    by (simp add: try_task_def request_string_descriptor_zero_def)
  from optional_string_answers [OF assms(3)] obtain s3 where 3: "optional_string dev lang (manufacturer_idx dd) s2 =
      (Ok (shown_string (manufacturer_idx dd) (strs (manufacturer_idx dd) lang)), s3)" .
  from optional_string_answers [OF assms(3)] obtain s4 where 4: "optional_string dev lang (product_idx dd) s3 =
      (Ok (shown_string (product_idx dd) (strs (product_idx dd) lang)), s4)" .
  from optional_string_answers [OF assms(3)] obtain s5 where 5: "optional_string dev lang (serial_idx dd) s4 =
      (Ok (shown_string (serial_idx dd) (strs (serial_idx dd) lang)), s5)" .
  obtain s6 where 6: "request_config_descriptor_and_rest fuel dev s5 = (Ok (Config c # rest), s6)"
    using request_config_collects [OF assms(4,5) refl assms(6), of fuel s5] assms(7) by (metis Suc_eq_plus1 length_Cons prod.collapse)
  show ?thesis
    using pick_interface_exists [of c rest "(3, 1, 1)"] pick_interface_exists [of c rest "(3, 0, 0)"]
    by (simp add: enumerate_device_def andthen_apply 1 2 3 4 5 6 lang_def [symmetric] start_device_driver_def Let_def
        UsbKeyboardDriver_is_compatible_def UsbTabletDriver_is_compatible_def)
qed


text \<open>A keyboard with a product string; the other strings are missing.\<close>

definition kbd_config :: ConfigDescriptor where
  "kbd_config = sample_config\<lparr>total_length := 18\<rparr>"

definition kbd_interface :: InterfaceDescriptor where
  "kbd_interface = sample_interface\<lparr>interface_subclass := 1, interface_protocol := 1\<rparr>"

definition kbd_device_bytes :: "u8 list" where
  "kbd_device_bytes = [18, 1, 0, 2, 0, 0, 0, 64, 0x27, 6, 1, 0, 0, 0, 0, 2, 0, 1]"

definition kbd_string :: "u8 \<Rightarrow> u16 \<Rightarrow> u8 list" where
  "kbd_string i w = (if i = 2 then string_descriptor [107, 98, 100] else if i = 0 then [4, 3, 9, 4] else [])"

fun kbd_device :: "nat device" where
  "kbd_device (GetDescriptor TDevice i w) n s = (Ok (take n kbd_device_bytes), s + 1)"
| "kbd_device (GetDescriptor TString i w) n s = (Ok (take n (kbd_string i w)), s + 1)"
| "kbd_device (GetDescriptor TConfig i w) n s =
     (Ok (take n (concat (map encode_descriptor [Config kbd_config, Interface kbd_interface]))), s + 1)"
| "kbd_device req n s = (err ''stall'', s)"


section \<open>Tablet\<close>

text \<open>An event on a screen of \<open>vw\<close> by \<open>vh\<close> pixels.\<close>

definition on_screen :: "int \<Rightarrow> int \<Rightarrow> TabletEvent \<Rightarrow> bool" where
  "on_screen vw vh e \<longleftrightarrow> (\<forall>x. ev_ax e = Inr x \<longrightarrow> 0 \<le> x \<and> x < vw) \<and> (\<forall>y. ev_ay e = Inr y \<longrightarrow> 0 \<le> y \<and> y < vh)"

lemma tablet_loop_on_screen:
  assumes "0 < vw" "vw \<le> 2 ^ 63" "0 < vh" "vh \<le> 2 ^ 63"
  shows "\<exists>ev. snd (snd (tablet_loop n dev t vw vh prev (s, l))) = l @ ev \<and> list_all (on_screen vw vh) ev \<and>
    length ev \<le> n"
proof (induction n arbitrary: prev s l)
  case (Suc n)
  obtain r s1 where d: "request_hid_report dev s = (r, s1)" by force
  show ?case
  proof (cases "\<exists>report e prev'. r = Ok report \<and> tablet_round t vw vh prev report = Ok (e, prev')")
    case True
    then obtain report e prev' where r: "r = Ok report" "tablet_round t vw vh prev report = Ok (e, prev')" by blast
    show ?thesis
    proof (cases e)
      case None
      with Suc.IH [of prev' s1 l] r d show ?thesis
        by (auto simp: andthen_apply on_device_def intro: le_SucI)
    next
      case (Some x)
      from tablet_position_on_screen [OF assms] r(2) Some have "on_screen vw vh x"
        by (auto simp: on_screen_def)
      moreover obtain ev where "snd (snd (tablet_loop n dev t vw vh prev' (s1, l @ [x]))) = (l @ [x]) @ ev"
        "list_all (on_screen vw vh) ev" "length ev \<le> n" using Suc.IH by blast
      ultimately show ?thesis
        using r d Some by (intro exI [of _ "x # ev"]) (simp add: andthen_apply on_device_def log_entry_def)
    qed
  next
    case False
    then show ?thesis
      by (auto simp: andthen_apply on_device_def d split: sum.splits)
  qed
qed simp


text \<open>A device that answers every request with ones, on a screen of 1024 by 768.\<close>

definition ones_device :: "nat device" where
  "ones_device req n s = (Ok (replicate n 1), s + 1)"


end

