(* ===== verification/Paging_Room.thy ===== *)
theory Paging_Room
  imports Boot_Paging Segment_Setup
begin

text \<open>
  How much memory page tables take: with room for one page for every table between the first page of
  a mapping and its last, \<open>create_mapping\<close> of \<open>src/x86.rs\<close> cannot run out of memory. The room is a
  potential that the loops use up entry by entry, beside what their refinement says of them.
\<close>

section \<open>One table\<close>

text \<open>What a page with its header and alignment takes from the first chunk of the heap at most.\<close>

definition TABLE_ROOM :: nat where "TABLE_ROOM = 0x2040"

lemma box_zeroed_page_room:
  assumes "room (heap m) (TABLE_ROOM + n)"
  shows "\<exists>p m'. box_zeroed_page m = Ok (p, m') \<and> unat p + 4096 \<le> 2 ^ 48 \<and> room (heap m') n"
proof -
  note l = LAYOUT_PAGE_4K_facts
  have "room (heap m) (layout_sz LAYOUT_PAGE_4K + layout_al LAYOUT_PAGE_4K + 64 + n)"
    using assms by (simp add: l TABLE_ROOM_def)
  from alloc_room [OF l(1) _ this] obtain p h' where
    "alloc_with_options (heap m) LAYOUT_PAGE_4K = Ok (p, h')" "p \<noteq> 0" "unat p + 4096 \<le> 2 ^ 48" "room h' n" by (auto simp: l)
  then show ?thesis by (simp add: box_zeroed_page_def)
qed

lemma ensure_populated_room:
  assumes "room (heap m) (TABLE_ROOM + n)"
  shows "\<exists>m'. ensure_populated m ea = Ok m' \<and> room (heap m') n"
proof (cases "is_present (mem m ea)")
  case True
  with room_mono [OF assms, of n] show ?thesis by (simp add: ensure_populated_def)
next
  case False
  from box_zeroed_page_room [OF assms] obtain p m' where
    "box_zeroed_page m = Ok (p, m')" "room (heap m') n" by blast
  with False show ?thesis by (simp add: ensure_populated_def populate_def)
qed

section \<open>The tables of a mapping\<close>

text \<open>The last page of a mapping, and the entries of the levels up to \<open>l\<close> from a page to it.\<close>

definition last_page :: "Mapping \<Rightarrow> nat" where
  "last_page r = page_of (virt_start r) + (unat (virt_end r) - unat (virt_start r) - 1) div 4096"

fun tables_left :: "nat \<Rightarrow> nat \<Rightarrow> nat \<Rightarrow> nat" where
  "tables_left 0 a b = 0"
| "tables_left (Suc l) a b = (b div 512 ^ Suc l + 1 - a div 512 ^ Suc l) + tables_left l a b"

text \<open>A loop that had room for the entries still to visit and for \<open>R\<close> bytes more.\<close>

definition loop_room ::
  "Mapping \<Rightarrow> u64 \<Rightarrow> nat \<Rightarrow> nat \<Rightarrow> Machine \<Rightarrow> u64 \<Rightarrow> nat \<Rightarrow> nat \<Rightarrow> (Machine \<times> u64) res \<Rightarrow> bool" where
  "loop_room r root level l m addr pn R out \<longleftrightarrow>
     (\<exists>m' addr' n. out = Ok (m', addr') \<and> loop_post r root level m addr pn m' addr' n \<and> room (heap m') R \<and>
        (unat addr' < unat (virt_end r) \<longrightarrow>
           room (heap m') (TABLE_ROOM * tables_left l (pn + n) (last_page r) + R)))"

lemma pt_loop_heap: "pt_loop fuel r m t addr = Ok (m', addr') \<Longrightarrow> heap m' = heap m"
  by (induction fuel arbitrary: m addr)
     (auto simp: Let_def set_page_def split: if_splits, force?)

lemma pt_loop_no_alloc: "pt_loop fuel r m t addr \<noteq> panic ''memory allocation failed''"
  by (induction fuel arbitrary: m addr) (auto simp: Let_def set_page_def uadd_def usub_def)

lemma pt_loop_room:
  assumes "valid_mapping r" "loop_pre r root 1 m t addr pn" "room (heap m) R"
  shows "loop_room r root 1 0 m addr pn R (pt_loop 512 r m t addr)"
  using pt_loop_ok [OF assms(1,2), of 512] assms(3) pt_loop_heap [of 512 r m t addr] pt_loop_no_alloc [of 512 r m t addr]
  by (auto simp: loop_ok_def loop_room_def)

lemma page_before_last:
  assumes "loop_pre r root level m t addr pn" "unat addr < unat (virt_end r)"
  shows "pn \<le> last_page r"
proof -
  define d where "d = pn - page_of (virt_start r)"
  have "unat addr = unat (virt_start r) + 4096 * d" "pn = page_of (virt_start r) + d"
    using assms(1) by (auto simp: loop_pre_def d_def)
  moreover have "d \<le> (unat (virt_end r) - unat (virt_start r) - 1) div 4096"
    using assms(2) calculation(1) by (simp add: less_eq_div_iff_mult_less_eq)
  ultimately show ?thesis by (simp add: last_page_def)
qed

text \<open>The entry that a loop visits is paid for; the next one is one less.\<close>

lemma tables_left_visit:
  assumes "pn \<le> b"
  shows "TABLE_ROOM * tables_left (Suc k) pn b + R =
    TABLE_ROOM + (TABLE_ROOM * tables_left k pn b + (TABLE_ROOM * (b div 512 ^ Suc k - pn div 512 ^ Suc k) + R))"
proof -
  have "pn div 512 ^ Suc k \<le> b div 512 ^ Suc k" by (rule div_le_mono [OF assms])
  then obtain d where "b div 512 ^ Suc k = pn div 512 ^ Suc k + d" using le_Suc_ex by blast
  then show ?thesis by (simp add: algebra_simps del: power_Suc)
qed

lemma tables_left_next:
  assumes "pn' div 512 ^ Suc k = pn div 512 ^ Suc k + 1"
  shows "TABLE_ROOM * tables_left (Suc k) pn' b + R =
    TABLE_ROOM * tables_left k pn' b + (TABLE_ROOM * (b div 512 ^ Suc k - pn div 512 ^ Suc k) + R)"
  using assms by (simp add: algebra_simps del: power_Suc)

lemma loop_room_compose:
  assumes "loop_post r root l m addr pn m1 addr1 n1" "unat addr1 < unat (virt_end r)"
    and "(pn + n1) div 512 ^ l' = pn div 512 ^ l'" and "loop_room r root l' j m1 addr1 (pn + n1) R out"
  shows "loop_room r root l' j m addr pn R out"
proof -
  from assms(4) obtain m2 addr2 n2 where q: "out = Ok (m2, addr2)"
    "loop_post r root l' m1 addr1 (pn + n1) m2 addr2 n2" "room (heap m2) R"
    "unat addr2 < unat (virt_end r) \<Longrightarrow> room (heap m2) (TABLE_ROOM * tables_left j (pn + n1 + n2) (last_page r) + R)"
    unfolding loop_room_def by blast
  from loop_compose [OF assms(1-3) q(2)] q(1,3,4) show ?thesis
    unfolding loop_room_def by (metis add.assoc)
qed

lemma table_loop_room:
  assumes r: "valid_mapping r" and l: "Suc (Suc k) \<le> 4"
    and inner: "\<And>m t addr pn R. loop_pre r root (Suc k) m t addr pn \<Longrightarrow> unat addr < unat (virt_end r) \<Longrightarrow>
      room (heap m) (TABLE_ROOM * tables_left k pn (last_page r) + R) \<Longrightarrow>
      loop_room r root (Suc k) k m addr pn R
        (if Suc (Suc k) \<le> 2 then pt_loop 512 r m t addr else table_loop (Suc k) 512 r m t addr)"
  shows "loop_pre r root (Suc (Suc k)) m t addr pn \<Longrightarrow> unat addr < unat (virt_end r) \<Longrightarrow>
    512 \<le> fuel + pn div 512 ^ Suc k mod 512 \<Longrightarrow>
    room (heap m) (TABLE_ROOM * tables_left (Suc k) pn (last_page r) + R) \<Longrightarrow>
    loop_room r root (Suc (Suc k)) (Suc k) m addr pn R (table_loop (Suc (Suc k)) fuel r m t addr)"
proof (induction fuel arbitrary: m addr pn)
  case 0
  then show ?case by simp
next
  case (Suc fuel)
  let ?i = "pn div 512 ^ Suc k mod 512" and ?L = "last_page r"
  define R' where "R' = TABLE_ROOM * (?L div 512 ^ Suc k - pn div 512 ^ Suc k) + R"
  note pre = Suc.prems(1)
  have ix: "calc_index (Suc (Suc k)) addr = ?i" using loop_pre_page [OF pre] by (simp add: calc_index_eq)
  have tp: "table_path (Suc k) pn = table_path (Suc (Suc k)) pn @ [?i]" using l by (intro table_path_snoc) simp
  then have vp: "valid_path (table_path (Suc (Suc k)) pn @ [?i])" using valid_table_path [of "Suc k" pn] by simp
  from pre have wf: "wf_tables m root" "table_at (mem m) root (table_path (Suc (Suc k)) pn) = Some t"
    by (auto simp: loop_pre_def)
  from Suc.prems(4) obtain m0 where m0: "ensure_populated m (entry_addr t ?i) = Ok m0"
    "room (heap m0) (TABLE_ROOM * tables_left k pn ?L + R')"
    unfolding tables_left_visit [OF page_before_last [OF pre Suc.prems(2)]] R'_def
    using ensure_populated_room by blast
  obtain nt where e: "extends m root m0" "entry_table (mem m0 (entry_addr t ?i)) = Ok nt"
      "table_at (mem m0) root (table_path (Suc (Suc k)) pn @ [?i]) = Some nt"
      "leaf_entry (mem m0) root = leaf_entry (mem m) root"
    by (rule ensure_populated_step [OF wf(1) vp wf(2)]) (use m0(1) in auto)
  define out where "out = (if Suc (Suc k) \<le> 2 then pt_loop 512 r m0 nt addr else table_loop (Suc k) 512 r m0 nt addr)"
  have "loop_pre r root (Suc k) m0 nt addr pn" using pre e tp by (simp add: loop_pre_def extends_def)
  from inner [OF this Suc.prems(2) m0(2)] obtain m1 addr1 n1 where
    m1: "out = Ok (m1, addr1)" "loop_post r root (Suc k) m0 addr pn m1 addr1 n1" "room (heap m1) R'"
      "unat addr1 < unat (virt_end r) \<Longrightarrow> room (heap m1) (TABLE_ROOM * tables_left k (pn + n1) ?L + R')"
    unfolding loop_room_def out_def by blast
  have p: "loop_post r root (Suc k) m addr pn m1 addr1 n1"
  proof -
    have "extends m root m1" using m1(2) e(1) extends_trans unfolding loop_post_def by blast
    with m1(2) show ?thesis unfolding loop_post_def e(4) by blast
  qed
  have unf: "table_loop (Suc (Suc k)) (Suc fuel) r m t addr =
      (if 512 \<le> ?i + 1 \<or> virt_end r \<le> addr1 then Ok (m1, addr1)
       else table_loop (Suc (Suc k)) fuel r m1 t addr1)"
  proof -
    have "table_loop (Suc (Suc k)) (Suc fuel) r m t addr = rbind out (\<lambda>(m2, addr').
        if 512 \<le> ?i + 1 \<or> virt_end r \<le> addr' then Ok (m2, addr')
        else table_loop (Suc (Suc k)) fuel r m2 t addr')"
      using m0(1) e(2) by (simp add: ix out_def Let_def del: power_Suc)
    then show ?thesis by (simp only: m1(1) rbind_simps prod.case)
  qed
  have left: "room (heap m1) (TABLE_ROOM * tables_left (Suc k) (pn + n1) ?L + R)"
    if lt: "unat addr1 < unat (virt_end r)"
  proof -
    have "pn + n1 = (pn div 512 ^ Suc k + 1) * 512 ^ Suc k" using loop_post_boundary [OF p] lt by simp
    then have "(pn + n1) div 512 ^ Suc k = pn div 512 ^ Suc k + 1" by simp
    from tables_left_next [OF this, of ?L R] m1(4) [OF lt] show ?thesis by (simp only: R'_def)
  qed
  show ?case
  proof (cases "512 \<le> ?i + 1 \<or> virt_end r \<le> addr1")
    case True
    have "loop_post r root (Suc (Suc k)) m addr pn m1 addr1 n1"
      using loop_exit [OF p] True by (auto simp: word_le_nat_alt)
    moreover have "room (heap m1) R" using room_mono [OF m1(3), of R] by (simp add: R'_def)
    ultimately show ?thesis using left True unfolding unf loop_room_def by auto
  next
    case False
    then have ex: "?i + 1 < 512" "unat addr1 < unat (virt_end r)" by (auto simp: word_le_nat_alt)
    note nx = loop_next [OF r l pre p ex]
    have "loop_room r root (Suc (Suc k)) (Suc k) m1 addr1 (pn + n1) R (table_loop (Suc (Suc k)) fuel r m1 t addr1)"
      by (rule Suc.IH [OF nx(3) ex(2) _ left [OF ex(2)]]) (use nx(1) Suc.prems(3) in simp)
    from loop_room_compose [OF p ex(2) nx(2) this] False show ?thesis unfolding unf by simp
  qed
qed

lemma table_loop_4_room:
  assumes r: "valid_mapping r" and pre: "loop_pre r root 4 m t addr pn" "unat addr < unat (virt_end r)"
    and h: "room (heap m) (TABLE_ROOM * tables_left 3 pn (last_page r) + R)"
  shows "loop_room r root 4 3 m addr pn R (table_loop 4 512 r m t addr)"
proof -
  have l1: "loop_room r root (Suc 0) 0 m addr pn R (pt_loop 512 r m t addr)"
    if "loop_pre r root (Suc 0) m t addr pn" "room (heap m) R" for m t addr pn R
    using pt_loop_room [OF r, of root m t addr pn R] that by simp
  have l2: "loop_room r root (Suc (Suc 0)) (Suc 0) m addr pn R (table_loop (Suc (Suc 0)) 512 r m t addr)"
    if "loop_pre r root (Suc (Suc 0)) m t addr pn" "unat addr < unat (virt_end r)"
      "room (heap m) (TABLE_ROOM * tables_left (Suc 0) pn (last_page r) + R)" for m t addr pn R
    by (rule table_loop_room [OF r _ _ that(1,2) _ that(3)]) (auto intro: l1)
  have l3: "loop_room r root (Suc (Suc (Suc 0))) (Suc (Suc 0)) m addr pn R (table_loop (Suc (Suc (Suc 0))) 512 r m t addr)"
    if "loop_pre r root (Suc (Suc (Suc 0))) m t addr pn" "unat addr < unat (virt_end r)"
      "room (heap m) (TABLE_ROOM * tables_left (Suc (Suc 0)) pn (last_page r) + R)" for m t addr pn R
    by (rule table_loop_room [OF r _ _ that(1,2) _ that(3)]) (auto intro: l2 simp del: tables_left.simps)
  have n: "4 = Suc (Suc (Suc (Suc 0)))" "3 = Suc (Suc (Suc 0))" by simp_all
  show ?thesis
    unfolding n
    by (rule table_loop_room [OF r _ _ pre(1) [unfolded n] pre(2) _ h [unfolded n]])
      (auto intro: l3 simp del: tables_left.simps)
qed

text \<open>With room for its tables a mapping is made, and \<open>R\<close> bytes are left.\<close>

lemma create_mapping_room:
  assumes "wf_tables m root" "valid_mapping r" "unat (virt_start r) < unat (virt_end r)"
    and "room (heap m) (TABLE_ROOM * tables_left 3 (page_of (virt_start r)) (last_page r) + R)"
  shows "\<exists>m'. create_mapping m root r = Ok m' \<and> room (heap m') R"
proof -
  have "unat (virt_start r) < 2 ^ 48" using assms(2) by (simp add: valid_mapping_def)
  from table_loop_4_room [OF assms(2) create_mapping_pre [OF assms(1) this] assms(3,4)] show ?thesis
    by (auto simp: loop_room_def create_mapping_def)
qed

section \<open>Uncached memory\<close>

text \<open>A page for \<open>IoBox::new\<close> with the tables of its own mapping.\<close>

definition IO_BOX_ROOM :: nat where "IO_BOX_ROOM = 4 * TABLE_ROOM"

lemma one_page_room:
  assumes "page_of (virt_start r) = q" "unat (virt_end r) - unat (virt_start r) \<le> 4096"
  shows "tables_left 3 (page_of (virt_start r)) (last_page r) = 3"
proof -
  have "(unat (virt_end r) - unat (virt_start r) - 1) div 4096 = 0" using assms(2) by simp
  then have "last_page r = q" by (simp add: last_page_def assms(1))
  then show ?thesis by (simp add: assms(1) numeral_3_eq_3)
qed

lemma IoBox_new_room:
  assumes "wf_tables (machine s) (cr3 s)" "0 < unat sz" "unat sz \<le> 4096"
    and "room (heap (machine s)) (IO_BOX_ROOM + n)"
  shows "\<exists>p s'. IoBox_new sz s = Ok (p, s') \<and> io_page s p s' \<and> room (heap (machine s')) n"
proof -
  have "room (heap (machine s)) (TABLE_ROOM + (TABLE_ROOM * 3 + n))"
    using assms(4) by (simp add: IO_BOX_ROOM_def)
  from box_zeroed_page_room [OF this] obtain p m where m: "box_zeroed_page (machine s) = Ok (p, m)"
    "unat p + 4096 \<le> 2 ^ 48" "room (heap m) (TABLE_ROOM * 3 + n)" by blast
  let ?r = "\<lparr> virt_start = p, virt_end = p + sz, phys = p, attr = ReadWriteIo \<rparr>"
  have al: "\<forall>q h. alloc_with_options (heap (machine s)) LAYOUT_PAGE_4K = Ok (q, h) \<longrightarrow> unat q + 4096 \<le> 2 ^ 48"
    using m(1,2) by (auto simp: box_zeroed_page_def split: if_splits)
  have h: "heap_ok (heap (machine s))" using assms(1) by (simp add: wf_tables_def)
  obtain wf: "wf_tables m (cr3 s)" and pa: "4096 dvd unat p"
    using h
  proof (cases rule: box_zeroed_page_cases)
    case 1
    with m(1) show ?thesis by simp
  next
    case (2 p' m')
    then have eq: "p' = p" "m' = m" using m(1) by simp_all
    have "{unat p ..< unat p + 4096} \<inter> used_bytes (heap (machine s)) = {}" using 2(6) eq by blast
    from zeroed_page_keeps_tables(1) [OF assms(1) 2(3,5,4) [unfolded eq] this 2(7) [unfolded eq]] 2(4) eq
    show ?thesis by (intro that) simp_all
  qed
  have "unat p + unat sz < 2 ^ 64" using m(2) assms(3) by simp
  then have e: "uadd p sz = Ok (p + sz)" "unat (p + sz) = unat p + unat sz"
    by (simp_all add: uadd_def unat_add_nowrap)
  have v: "valid_mapping ?r" using m(2) assms(3) e(2) pa by (simp add: valid_mapping_def)
  have "tables_left 3 (page_of (virt_start ?r)) (last_page ?r) = 3"
    using e(2) assms(3) by (intro one_page_room [OF refl]) simp
  with create_mapping_room [OF wf v, of n] m(3) e(2) assms(2) obtain m' where
    m': "create_mapping m (cr3 s) ?r = Ok m'" "room (heap m') n" by auto
  have "IoBox_new sz s = Ok (p, s\<lparr>machine := m'\<rparr>)"
    using m(1) m'(1) by (simp add: IoBox_new_def disable_cache_def e with_current_page_table_def
        take_current_page_table_def read_cr3_def put_current_page_table_def write_cr3_def)
  with IoBox_new_page [OF assms(1-3) al] m'(2) show ?thesis by auto
qed

lemma disable_cache_eq:
  assumes "unat vstart + unat sz < 2 ^ 64"
  shows "disable_cache vstart sz s =
    rbind (expect (create_mapping (machine s) (cr3 s)
        \<lparr> virt_start = vstart, virt_end = vstart + sz, phys = vstart, attr = ReadWriteIo \<rparr>) ''Failed to create mapping'')
      (\<lambda>m. Ok (s\<lparr>machine := m\<rparr>))"
  using assms by (simp add: disable_cache_def uadd_def unat_add_nowrap with_current_page_table_def
      take_current_page_table_def read_cr3_def put_current_page_table_def write_cr3_def)

text \<open>Uncached pages that are not taken from the heap: the region of a device.\<close>

lemma disable_cache_room:
  assumes "wf_tables (machine s) (cr3 s)" "4096 dvd unat vstart" "0 < unat sz" "unat vstart + unat sz \<le> 2 ^ 48"
    and "room (heap (machine s)) (TABLE_ROOM *
      tables_left 3 (page_of vstart) (page_of vstart + (unat sz - 1) div 4096) + n)"
  shows "\<exists>s'. disable_cache vstart sz s = Ok s' \<and> cr3 s' = cr3 s \<and> room (heap (machine s')) n \<and>
    remapped s s' (page_of vstart) (max 1 ((unat sz + 4095) div 4096)) ReadWriteIo"
proof -
  let ?r = "\<lparr> virt_start = vstart, virt_end = vstart + sz, phys = vstart, attr = ReadWriteIo \<rparr>"
  have u: "unat vstart + unat sz < 2 ^ 64" using assms(4) by simp
  then have e: "unat (vstart + sz) = unat vstart + unat sz" by (simp add: unat_add_nowrap)
  have v: "valid_mapping ?r" using assms(2-4) e by (simp add: valid_mapping_def)
  have "last_page ?r = page_of vstart + (unat sz - 1) div 4096" by (simp add: last_page_def e)
  with create_mapping_room [OF assms(1) v, of n] assms(3,5) e obtain m' where
    "create_mapping (machine s) (cr3 s) ?r = Ok m'" "room (heap m') n" by auto
  with create_identity_mapping [OF assms(1) v] assms(2) e show ?thesis
    by (simp add: disable_cache_eq [OF u])
qed

section \<open>The tables of the boot\<close>

text \<open>The root, the tables of the identity mapping, and the path to the first page again.\<close>

definition paging_room :: "EfiMemoryDescriptor list \<Rightarrow> nat" where
  "paging_room es = TABLE_ROOM * (4 + tables_left 3 0 ((mapped_end es - 1) div 4096))"

lemma init_paging_room:
  assumes "memory_map_entries memory_map = Ok es" "\<forall>d \<in> set es. is_ram d \<longrightarrow> region_end d \<le> 2 ^ 48"
    and "room (heap (machine s)) (paging_room es)"
  shows "\<exists>s'. init_paging memory_map s = Ok s'"
proof -
  let ?T = "tables_left 3 0 ((mapped_end es - 1) div 4096)"
  have "\<forall>d \<in> set es. is_ram d \<longrightarrow> region_end d < 2 ^ 64" using assms(2) by force
  from end_of_mem_eq [OF this, where e = "0x100000000"] obtain e where
    e: "end_of_mem 0x100000000 es = Ok e" "unat e = mapped_end es" by (auto simp: mapped_end_def)
  have top: "mapped_end es \<le> 2 ^ 48" "2 ^ 32 \<le> mapped_end es"
    using assms(2) unfolding mapped_end_def by (auto intro!: Max.boundedI)
  let ?r1 = "\<lparr> virt_start = 0, virt_end = e, phys = 0, attr = ReadWriteKernel \<rparr>"
  let ?r2 = "\<lparr> virt_start = 0, virt_end = 4096, phys = 0, attr = NotPresent \<rparr>"
  have v: "valid_mapping ?r1" "valid_mapping ?r2" using top e(2) by (simp_all add: valid_mapping_def)
  have "room (heap (machine s)) (TABLE_ROOM + (TABLE_ROOM * ?T + TABLE_ROOM * 3))"
    using assms(3) by (simp add: paging_room_def algebra_simps)
  from box_zeroed_page_room [OF this] obtain root m where
    m: "PML4_new (machine s) = Ok (root, m)" "room (heap m) (TABLE_ROOM * ?T + TABLE_ROOM * 3)"
    by (auto simp: PML4_new_def)
  have wf: "wf_tables m root" using PML4_new_empty [OF room_heap_ok [OF assms(3)]] m(1) by auto
  have lp: "last_page ?r1 = (mapped_end es - 1) div 4096" "last_page ?r2 = 0"
    by (simp_all add: last_page_def page_of_def e(2))
  have t2: "tables_left 3 0 0 = 3" by (simp add: numeral_3_eq_3)
  have "page_of 0 = 0" by (simp add: page_of_def)
  with create_mapping_room [OF wf v(1)] m(2) lp e(2) top(2) obtain m1 where
    m1: "create_mapping m root ?r1 = Ok m1" "room (heap m1) (TABLE_ROOM * 3)" by auto
  have wf1: "wf_tables m1 root" using create_mapping_leaves [OF wf v(1)] m1(1) by auto
  obtain m2 where "create_mapping m1 root ?r2 = Ok m2"
    using create_mapping_room [OF wf1 v(2), of 0] m1(2) lp t2 \<open>page_of 0 = 0\<close> by auto
  then show ?thesis using m(1) m1(1) assms(1) e(1) by (simp add: init_paging_def)
qed

text \<open>
  C12: A mapping in the lower half never fails for want of memory when the first chunk of the heap has 8256 bytes
  for every entry of the upper three levels between its first page and its last: \<open>create_mapping\<close>
  then returns, with exactly the leaf entries of the mapping changed.\<close>

theorem create_mapping_returns:
  assumes "wf_tables m root" "valid_mapping r" "unat (virt_start r) < unat (virt_end r)"
    and "room (heap m) (TABLE_ROOM * tables_left 3 (page_of (virt_start r)) (last_page r))"
  shows "\<exists>m'. create_mapping m root r = Ok m' \<and> wf_tables m' root \<and>
    (\<forall>q < 512 ^ 4. leaf_entry (mem m') root q =
       (if page_of (virt_start r) \<le> q \<and> q \<le> last_page r then mapped_entry r q else leaf_entry (mem m) root q))"
proof -
  from create_mapping_room [OF assms(1-3), of 0] assms(4) obtain m' where m': "create_mapping m root r = Ok m'" by auto
  let ?vs = "unat (virt_start r)" and ?ve = "unat (virt_end r)"
  have "max 1 ((?ve - ?vs + 4095) div 4096) = (?ve - ?vs - 1) div 4096 + 1"
    using assms(3) by (auto simp: max_def div_add_self2 not_le)
  with create_mapping_leaves [OF assms(1,2)] m' show ?thesis
    by (auto simp: last_page_def less_Suc_eq_le)
qed

theorem create_mapping_returns_witness:
  "\<exists>m'. create_mapping roomy 0x2000 \<lparr> virt_start = 0x1000, virt_end = 0x3000, phys = 0x5000, attr = ReadWriteIo \<rparr> = Ok m' \<and>
     wf_tables m' 0x2000 \<and> leaf_entry (mem m') 0x2000 2 = 0x6000 OR page_attr_value ReadWriteIo"
proof -
  let ?r = "\<lparr> virt_start = 0x1000, virt_end = 0x3000, phys = 0x5000, attr = ReadWriteIo \<rparr> :: Mapping"
  have v: "valid_mapping ?r" by (simp add: valid_mapping_def)
  have lp: "page_of (virt_start ?r) = 1" "last_page ?r = 2" by (simp_all add: last_page_def page_of_def)
  have t: "tables_left 3 1 2 = 3" by (simp add: numeral_3_eq_3)
  have "room (heap roomy) (TABLE_ROOM * tables_left 3 (page_of (virt_start ?r)) (last_page ?r))"
    unfolding lp t TABLE_ROOM_def by (rule roomI [OF roomy_repr]) simp_all
  from create_mapping_returns [OF roomy_wf v _ this] obtain m' where
    m': "create_mapping roomy 0x2000 ?r = Ok m'" "wf_tables m' 0x2000"
      "\<forall>q < 512 ^ 4. leaf_entry (mem m') 0x2000 q =
         (if page_of (virt_start ?r) \<le> q \<and> q \<le> last_page ?r then mapped_entry ?r q else leaf_entry (mem roomy) 0x2000 q)"
    by auto
  have "leaf_entry (mem m') 0x2000 2 = mapped_entry ?r 2"
    using m'(3) [THEN spec, of 2] by (simp add: lp(2) page_of_def)
  also have "\<dots> = 0x6000 OR page_attr_value ReadWriteIo"
    by (simp add: mapped_entry_def page_of_def)
  finally show ?thesis using m'(1,2) by blast
qed

end
