(* ===== verification/Xhci_Start.thy ===== *)
theory Xhci_Start
  imports Xhci_Bringup Paging_Room
begin

text \<open>
  How \<open>Controller::new\<close> of \<open>src/xhci.rs\<close> brings up a controller: with enough memory its buffers, rings and
  context array can be allocated, the rings lie in uncached pages of their own, and a controller that
  responds ends running and programmed with their addresses.
\<close>

section \<open>The answers of a controller\<close>

text \<open>
  What the specification of the controller promises, with \<open>n\<close> polls as the time limit: it halts when told
  to stop, a reset ends, it runs when told to run; outside a reset it leaves the registers that the
  driver programs alone; and the page size never changes.
\<close>

definition responsive :: "nat \<Rightarrow> (OperationalRegisters \<Rightarrow> OperationalRegisters) \<Rightarrow> bool" where
  "responsive n hw \<longleftrightarrow>
     (\<forall>r. usbcmd r AND CMD_RUN_STOP = 0 \<longrightarrow> (\<exists>k < n. usbsts ((hw ^^ k) r) AND STATUS_HC_HALTED \<noteq> 0)) \<and>
     (\<forall>r. \<exists>k < n. usbcmd ((hw ^^ k) r) AND CMD_HC_RESET = 0) \<and>
     (\<forall>r. usbcmd r AND CMD_RUN_STOP \<noteq> 0 \<longrightarrow> usbcmd r AND CMD_HC_RESET = 0 \<longrightarrow>
        (\<exists>k < n. usbsts ((hw ^^ k) r) AND STATUS_HC_HALTED = 0)) \<and>
     (\<forall>r. usbcmd r AND CMD_HC_RESET = 0 \<longrightarrow> usbcmd (hw r) = usbcmd r \<and> crcr (hw r) = crcr r \<and>
        dcbaap (hw r) = dcbaap r \<and> op_config (hw r) = op_config r) \<and>
     (\<forall>r. pagesize (hw r) = pagesize r)"

lemma pagesize_funpow: "responsive n hw \<Longrightarrow> pagesize ((hw ^^ k) r) = pagesize r"
  by (induction k) (simp_all add: responsive_def)

lemma programmed_funpow:
  assumes "responsive n hw" "usbcmd r AND CMD_HC_RESET = 0"
  shows "usbcmd ((hw ^^ k) r) = usbcmd r \<and> crcr ((hw ^^ k) r) = crcr r \<and>
    dcbaap ((hw ^^ k) r) = dcbaap r \<and> op_config ((hw ^^ k) r) = op_config r"
proof (induction k)
  case (Suc k)
  then have "usbcmd ((hw ^^ k) r) AND CMD_HC_RESET = 0" using assms(2) by simp
  then show ?case using Suc assms(1) unfolding responsive_def by simp
qed simp

lemma reset_xhc_ends:
  assumes "responsive n hw"
  shows "\<exists>r'. reset_xhc n hw r = Ok r' \<and> usbcmd r' AND CMD_HC_RESET = 0 \<and> pagesize r' = pagesize r"
proof -
  let ?r0 = "clear_command_bits CMD_RUN_STOP r"
  have "(usbcmd r AND NOT CMD_RUN_STOP) AND CMD_RUN_STOP = 0"
    by (metis and.assoc and_zero_eq and.commute bit.conj_cancel_right)
  then have "\<exists>k < n. \<not> usbsts ((hw ^^ k) ?r0) AND STATUS_HC_HALTED = 0"
    using assms by (simp add: responsive_def clear_command_bits_def)
  from wait_while_ends [where c = "\<lambda>r. usbsts r AND STATUS_HC_HALTED = 0", OF this] obtain k where
    k: "wait_while n hw (\<lambda>r. usbsts r AND STATUS_HC_HALTED = 0) ?r0 = Ok ((hw ^^ k) ?r0)" by blast
  let ?r1 = "set_command_bits CMD_HC_RESET ((hw ^^ k) ?r0)"
  have "\<exists>k < n. \<not> usbcmd ((hw ^^ k) ?r1) AND CMD_HC_RESET \<noteq> 0"
    using assms unfolding responsive_def by simp
  from wait_while_ends [where c = "\<lambda>r. usbcmd r AND CMD_HC_RESET \<noteq> 0", OF this] obtain j where
    j: "wait_while n hw (\<lambda>r. usbcmd r AND CMD_HC_RESET \<noteq> 0) ?r1 = Ok ((hw ^^ j) ?r1)"
       "usbcmd ((hw ^^ j) ?r1) AND CMD_HC_RESET = 0" by blast
  have "pagesize ((hw ^^ j) ?r1) = pagesize r"
    by (simp add: pagesize_funpow [OF assms] set_command_bits_def clear_command_bits_def)
  with k j show ?thesis by (simp add: reset_xhc_def)
qed

lemma start_xhc_ends:
  assumes "responsive n hw" "usbcmd r AND CMD_HC_RESET = 0"
  shows "\<exists>r'. start_xhc n hw r = Ok r' \<and> usbsts r' AND STATUS_HC_HALTED = 0 \<and>
    usbcmd r' = usbcmd r OR CMD_RUN_STOP \<and> crcr r' = crcr r \<and> dcbaap r' = dcbaap r \<and> op_config r' = op_config r"
proof -
  let ?r = "set_command_bits CMD_RUN_STOP r"
  have d: "CMD_RUN_STOP AND CMD_HC_RESET = 0" by (simp add: CMD_RUN_STOP_def CMD_HC_RESET_def)
  have c: "usbcmd ?r AND CMD_HC_RESET = 0"
    using assms(2) d by (simp add: set_command_bits_def bit.conj_disj_distrib2)
  have "usbcmd ?r AND CMD_RUN_STOP \<noteq> 0"
    by (simp add: set_command_bits_def bit.conj_disj_distrib2 CMD_RUN_STOP_def)
  then have "\<exists>k < n. \<not> usbsts ((hw ^^ k) ?r) AND STATUS_HC_HALTED \<noteq> 0"
    using assms(1) c unfolding responsive_def by simp
  from wait_while_ends [where c = "\<lambda>r. usbsts r AND STATUS_HC_HALTED \<noteq> 0", OF this] obtain k where
    k: "wait_while n hw (\<lambda>r. usbsts r AND STATUS_HC_HALTED \<noteq> 0) ?r = Ok ((hw ^^ k) ?r)"
       "usbsts ((hw ^^ k) ?r) AND STATUS_HC_HALTED = 0" by blast
  with programmed_funpow [OF assms(1) c, of k] show ?thesis
    by (simp add: start_xhc_def set_command_bits_def)
qed

lemma ScratchpadBuffers_alloc_pagesize:
  "pagesize op' = pagesize op \<Longrightarrow> ScratchpadBuffers_alloc h cap op' = ScratchpadBuffers_alloc h cap op"
  by (simp add: ScratchpadBuffers_alloc_def page_size_def)

lemma low_byte_slots: "((c AND NOT 0xFF) OR word_of_nat (num_of_device_slots cap)) AND 0xFF =
    (word_of_nat (num_of_device_slots cap) :: u64)"
proof -
  have "extract_bits (hcsparams1 cap) 0 8 = take_bit 8 (hcsparams1 cap)"
    by (simp add: extract_bits_eq)
  then have "num_of_device_slots cap < 2 ^ 8"
    unfolding num_of_device_slots_def by (simp only: unat_take_bit) simp
  then have t: "take_bit 8 (word_of_nat (num_of_device_slots cap) :: u64) = word_of_nat (num_of_device_slots cap)"
    by (simp add: take_bit_of_nat take_bit_nat_eq_self)
  have m: "(0xFF :: u64) = mask 8" by (simp add: mask_eq_exp_minus_1)
  have "((c AND NOT (mask 8)) OR x) AND mask 8 = take_bit 8 x" for x :: u64
    by (rule bit_eqI) (auto simp: bit_simps)
  then show ?thesis unfolding m by (simp only: t)
qed

lemma EventRing_new_Ok: "\<exists>ev. EventRing_new a = Ok ev \<and> ring_addr (ev_ring ev) = a"
  by (simp add: EventRing_new_def ERST_new_def Let_def NUM_TRB_def TrbRing_new_def)

section \<open>Room for the buffers\<close>

lemma pow2_44: "k \<le> 44 \<Longrightarrow> (2 :: nat) ^ k \<le> 2 ^ 44"
  by (rule power_increasing) simp_all

lemma alloc_room_pow2:
  assumes "0 < sz" "sz \<le> 2 ^ i" "5 \<le> i" "i \<le> 44" "k \<le> 44" "room h (2 ^ i + max (2 ^ k) 32 + 64 + n)"
  shows "\<exists>p h'. alloc_with_options h \<lparr> layout_size = word_of_nat sz, layout_align = word_of_nat (2 ^ k) \<rparr> = Ok (p, h') \<and>
    p \<noteq> 0 \<and> room h' n \<and> used_bytes h \<subseteq> used_bytes h'"
proof -
  let ?l = "\<lparr> layout_size = word_of_nat sz, layout_align = word_of_nat (2 ^ k) \<rparr> :: Layout"
  have b: "(2 :: nat) ^ i \<le> 2 ^ 44" "(2 :: nat) ^ k \<le> 2 ^ 44" using assms(4,5) by (blast intro: pow2_44)+
  then have u: "unat (word_of_nat sz :: usize) = sz" "unat (word_of_nat (2 ^ k) :: usize) = 2 ^ k"
    using assms(2) by (simp_all only: unat_of_nat) simp_all
  have l: "valid_layout ?l" "0 < unat (layout_size ?l)"
    using u b assms(1,2,5) by (auto simp: valid_layout_def intro!: exI [of _ k])
  have "layout_sz ?l \<le> 2 ^ i" using l(2) u assms by (intro layout_sz_le) simp_all
  moreover have "layout_al ?l = max (2 ^ k) 32"
    by (simp only: layout_al_def unat_max Layout.simps u(2)) (simp add: HEADER_SIZE_def)
  ultimately have "room h (layout_sz ?l + layout_al ?l + 64 + n)" by (intro room_mono [OF assms(6)]) simp
  from alloc_room [OF l this] show ?thesis by blast
qed

lemma box_from_slice_room:
  assumes "0 < sz" "sz \<le> 2 ^ i" "5 \<le> i" "i \<le> 44" "k \<le> 44" "room h (2 ^ i + max (2 ^ k) 32 + 64 + n)"
  shows "\<exists>p h'. box_from_slice h sz (2 ^ k) = Ok (p, h') \<and> room h' n \<and> used_bytes h \<subseteq> used_bytes h'"
  using alloc_room_pow2 [OF assms] by (auto simp: box_from_slice_def)

lemma layout_from_size_align_pow2:
  assumes "sz \<le> 2 ^ 44" "k \<le> 44"
  shows "layout_from_size_align sz (2 ^ k) = Some \<lparr> layout_size = word_of_nat sz, layout_align = word_of_nat (2 ^ k) \<rparr>"
proof -
  have "(2 :: nat) ^ k \<le> 2 ^ 44" using assms(2) by (rule pow2_44)
  then show ?thesis using assms by (auto simp: layout_from_size_align_def intro!: exI [of _ k])
qed

lemma scratchpad_loop_room:
  assumes "12 \<le> k" "k \<le> 44" "room h (num * (3 * 2 ^ k + 160) + n)"
  shows "\<exists>bufs' h'. scratchpad_loop (2 ^ k) num h bufs = Ok (bufs', h') \<and> length bufs' = length bufs + num \<and>
    room h' n \<and> used_bytes h \<subseteq> used_bytes h'"
  using assms(3)
proof (induction num arbitrary: h bufs)
  case 0
  then show ?case by simp
next
  case (Suc num)
  let ?R = "num * (3 * 2 ^ k + 160) + n"
  have k: "(32 :: nat) \<le> 2 ^ k" using power_increasing [of 5 k "2 :: nat"] assms(1) by simp
  then have m: "max (2 ^ k) 32 = (2 :: nat) ^ k" by simp
  have "(0 :: nat) < 2 ^ k" "5 \<le> k" using assms(1) by simp_all
  have "room h (2 ^ k + max (2 ^ k) 32 + 64 + (2 ^ k + max (2 ^ 0) 32 + 64 + ?R))"
    using Suc.prems unfolding m by (simp add: algebra_simps)
  from alloc_room_pow2 [OF \<open>0 < 2 ^ k\<close> order_refl \<open>5 \<le> k\<close> assms(2,2) this] obtain p h1 where
    1: "alloc_with_options h \<lparr> layout_size = word_of_nat (2 ^ k), layout_align = word_of_nat (2 ^ k) \<rparr> = Ok (p, h1)"
      "p \<noteq> 0" "room h1 (2 ^ k + max (2 ^ 0) 32 + 64 + ?R)" "used_bytes h \<subseteq> used_bytes h1" by blast
  from box_from_slice_room [OF \<open>0 < 2 ^ k\<close> order_refl \<open>5 \<le> k\<close> assms(2) _ 1(3)] obtain b h2 where
    2: "box_from_slice h1 (2 ^ k) 1 = Ok (b, h2)" "room h2 ?R" "used_bytes h1 \<subseteq> used_bytes h2" by auto
  have l: "layout_from_size_align (2 ^ k) (2 ^ k) =
      Some \<lparr> layout_size = word_of_nat (2 ^ k), layout_align = word_of_nat (2 ^ k) \<rparr>"
    by (intro layout_from_size_align_pow2 pow2_44 assms(2))
  obtain bufs' h' where "scratchpad_loop (2 ^ k) num h2 (bufs @ [b]) = Ok (bufs', h')"
    "length bufs' = length (bufs @ [b]) + num" "room h' n" "used_bytes h2 \<subseteq> used_bytes h'"
    using Suc.IH [OF 2(2)] by blast
  then show ?case using 1(1,2,4) 2(1,3) l by (auto simp: from_raw_parts_def)
qed

lemma num_scratchpad_bufs_lt: "num_scratchpad_bufs cap < 1024"
proof -
  define x where "x = push_bit 5 (extract_bits (hcsparams2 cap) 21 5) OR extract_bits (hcsparams2 cap) 27 5"
  have "take_bit 10 x = x"
    unfolding x_def by (rule bit_word_eqI) (auto simp: extract_bits_eq bit_simps)
  then have "unat x = take_bit 10 (unat x)" by (metis unat_take_bit take_bit_eq_mod)
  then have "unat x < 2 ^ 10" using take_bit_nat_less_exp [of 10 "unat x"] by linarith
  then show ?thesis by (simp add: num_scratchpad_bufs_def x_def)
qed

lemma page_size_pow2:
  assumes "page_size op = Ok ps"
  obtains k where "ps = 2 ^ k" "12 \<le> k" "k \<le> 44"
proof -
  let ?b = "pagesize op AND 0xFFFF"
  have "trailing_zeros ?b \<le> 32"
    using length_takeWhile_le [of "\<lambda>i. \<not> bit ?b i" "[0..<32]"] by (simp add: trailing_zeros_def)
  moreover have "ps = 2 ^ (trailing_zeros ?b + 12)"
    using assms by (simp add: page_size_def Let_def split: if_splits)
  ultimately show thesis by (intro that [of "trailing_zeros ?b + 12"]) simp_all
qed

text \<open>What the scratchpad buffers, their table and the copies that \<open>Box::from\<close> makes of them take.\<close>

definition scratchpad_room :: "nat \<Rightarrow> nat \<Rightarrow> nat" where
  "scratchpad_room ps num = 2 ^ 14 + ps + 160 + num * (3 * ps + 160)"

lemma ScratchpadBuffers_alloc_room:
  assumes "page_size op = Ok ps" "room h (scratchpad_room ps (max (num_scratchpad_bufs cap) 1) + n)"
  shows "\<exists>table bufs h'. ScratchpadBuffers_alloc h cap op = Ok (table, bufs, h') \<and>
    length bufs = max (num_scratchpad_bufs cap) 1 \<and> room h' n \<and> used_bytes h \<subseteq> used_bytes h'"
proof -
  obtain k where k: "ps = 2 ^ k" "12 \<le> k" "k \<le> 44" by (rule page_size_pow2 [OF assms(1)])
  define num where "num = max (num_scratchpad_bufs cap) 1"
  have num: "0 < 8 * num" "8 * num \<le> 2 ^ 13" using num_scratchpad_bufs_lt [of cap] by (simp_all add: num_def)
  let ?R = "num * (3 * 2 ^ k + 160) + n"
  have "max (2 ^ k) 32 = (2 :: nat) ^ k" using power_increasing [of 5 k "2 :: nat"] k(2) by simp
  then have "room h (2 ^ 13 + max (2 ^ k) 32 + 64 + (2 ^ 13 + max (2 ^ 3) 32 + 64 + ?R))"
    using assms(2) unfolding num_def [symmetric] scratchpad_room_def k(1) by (simp add: algebra_simps)
  from alloc_room_pow2 [OF num _ _ k(3) this] obtain t h1 where
    1: "alloc_with_options h \<lparr> layout_size = word_of_nat (8 * num), layout_align = word_of_nat (2 ^ k) \<rparr> = Ok (t, h1)"
      "t \<noteq> 0" "room h1 (2 ^ 13 + max (2 ^ 3) 32 + 64 + ?R)" "used_bytes h \<subseteq> used_bytes h1" by auto
  from box_from_slice_room [OF num _ _ _ 1(3)] obtain table h2 where
    2: "box_from_slice h1 (8 * num) 8 = Ok (table, h2)" "room h2 ?R" "used_bytes h1 \<subseteq> used_bytes h2" by auto
  obtain bufs h3 where 3: "scratchpad_loop (2 ^ k) num h2 [] = Ok (bufs, h3)" "length bufs = num" "room h3 n"
    "used_bytes h2 \<subseteq> used_bytes h3"
    using scratchpad_loop_room [OF k(2,3) 2(2), of "[]"] by auto
  have "layout_from_size_align (8 * num) (2 ^ k) =
      Some \<lparr> layout_size = word_of_nat (8 * num), layout_align = word_of_nat (2 ^ k) \<rparr>"
    using num k(3) by (intro layout_from_size_align_pow2) simp_all
  then have "ScratchpadBuffers_alloc h cap op = Ok (table, bufs, h3)"
    using assms(1) 1(1,2) 2(1) 3(1)
    unfolding ScratchpadBuffers_alloc_def Let_def num_def [symmetric] k(1) by (simp add: from_raw_parts_def)
  then show ?thesis using 1(4) 2(3) 3(2-4) by (auto simp: num_def)
qed

section \<open>Several uncached pages\<close>

text \<open>Pages for \<open>ps\<close> taken one after the other: what each of them promises, for all together.\<close>

definition io_pages :: "Mmu \<Rightarrow> u64 list \<Rightarrow> Mmu \<Rightarrow> bool" where
  "io_pages s ps s' \<longleftrightarrow> distinct (map page_of ps) \<and>
     (\<forall>p \<in> set ps. 4096 dvd unat p \<and> p \<noteq> 0 \<and> unat p + 4096 \<le> 2 ^ 48 \<and>
        {unat p ..< unat p + 4096} \<subseteq> used_bytes (heap (machine s')) - used_bytes (heap (machine s))) \<and>
     used_bytes (heap (machine s)) \<subseteq> used_bytes (heap (machine s')) \<and>
     cr3 s' = cr3 s \<and> wf_tables (machine s') (cr3 s') \<and>
     (\<forall>v. unat v < 2 ^ 48 \<longrightarrow>
        (if page_of v \<in> page_of ` set ps then translate s' v = Some v \<and> cache_disabled s' v \<and> writable_page s' v
         else translate s' v = translate s v \<and> cache_disabled s' v = cache_disabled s v \<and>
           writable_page s' v = writable_page s v))"

lemma io_pages_Nil: "wf_tables (machine s) (cr3 s) \<Longrightarrow> io_pages s [] s"
  by (simp add: io_pages_def)

lemma page_of_aligned: "4096 dvd unat p \<Longrightarrow> 4096 dvd unat q \<Longrightarrow> page_of p = page_of q \<longleftrightarrow> p = q"
  by (auto simp: page_of_def word_unat_eq_iff)

lemma io_pages_snoc:
  assumes "io_pages s ps s1" "io_page s1 p s2"
  shows "io_pages s (ps @ [p]) s2"
proof -
  have ps: "\<forall>q \<in> set ps. 4096 dvd unat q \<and> q \<noteq> 0 \<and> unat q + 4096 \<le> 2 ^ 48 \<and>
      {unat q ..< unat q + 4096} \<subseteq> used_bytes (heap (machine s1)) - used_bytes (heap (machine s))"
    "distinct (map page_of ps)" "used_bytes (heap (machine s)) \<subseteq> used_bytes (heap (machine s1))" "cr3 s1 = cr3 s"
    using assms(1) by (auto simp: io_pages_def)
  have p: "4096 dvd unat p" "p \<noteq> 0" "{unat p ..< unat p + 4096} \<inter> used_bytes (heap (machine s1)) = {}"
    "{unat p ..< unat p + 4096} \<subseteq> used_bytes (heap (machine s2))" "cr3 s2 = cr3 s1"
    "used_bytes (heap (machine s1)) \<subseteq> used_bytes (heap (machine s2))" "wf_tables (machine s2) (cr3 s2)"
    "unat p + 4096 \<le> 2 ^ 48"
    using assms(2) by (auto simp: io_page_def)
  have "page_of p \<notin> page_of ` set ps"
  proof
    assume "page_of p \<in> page_of ` set ps"
    then have "p \<in> set ps" using page_of_aligned [OF p(1)] ps(1) by auto
    then have "{unat p ..< unat p + 4096} \<subseteq> used_bytes (heap (machine s1))" using ps(1) by blast
    moreover have "unat p \<in> {unat p ..< unat p + 4096}" by simp
    ultimately show False using p(3) by blast
  qed
  moreover have "{unat p ..< unat p + 4096} \<subseteq> used_bytes (heap (machine s2)) - used_bytes (heap (machine s))"
    using p(3,4) ps(3) by blast
  moreover have "\<forall>v. unat v < 2 ^ 48 \<longrightarrow>
      (if page_of v \<in> page_of ` set (ps @ [p]) then translate s2 v = Some v \<and> cache_disabled s2 v \<and> writable_page s2 v
       else translate s2 v = translate s v \<and> cache_disabled s2 v = cache_disabled s v \<and>
         writable_page s2 v = writable_page s v)"
  proof (intro allI impI)
    fix v :: u64
    assume v: "unat v < 2 ^ 48"
    have "if page_of v \<in> page_of ` set ps then translate s1 v = Some v \<and> cache_disabled s1 v \<and> writable_page s1 v
       else translate s1 v = translate s v \<and> cache_disabled s1 v = cache_disabled s v \<and>
         writable_page s1 v = writable_page s v"
      using assms(1) v by (simp add: io_pages_def)
    moreover have "if page_of v = page_of p then translate s2 v = Some v \<and> cache_disabled s2 v \<and> writable_page s2 v
       else translate s2 v = translate s1 v \<and> cache_disabled s2 v = cache_disabled s1 v \<and>
         writable_page s2 v = writable_page s1 v"
      using assms(2) v by (simp add: io_page_def)
    ultimately show "if page_of v \<in> page_of ` set (ps @ [p])
       then translate s2 v = Some v \<and> cache_disabled s2 v \<and> writable_page s2 v
       else translate s2 v = translate s v \<and> cache_disabled s2 v = cache_disabled s v \<and>
         writable_page s2 v = writable_page s v"
      by (cases "page_of v = page_of p"; cases "page_of v \<in> page_of ` set ps") auto
  qed
  moreover have "\<forall>q \<in> set (ps @ [p]). 4096 dvd unat q \<and> q \<noteq> 0 \<and> unat q + 4096 \<le> 2 ^ 48 \<and>
      {unat q ..< unat q + 4096} \<subseteq> used_bytes (heap (machine s2)) - used_bytes (heap (machine s))"
    using ps(1) p(1,2,6,8) calculation(2) by fastforce
  moreover have "used_bytes (heap (machine s)) \<subseteq> used_bytes (heap (machine s2))" using ps(3) p(6) by (rule subset_trans)
  ultimately show ?thesis unfolding io_pages_def using ps(2,4) p(5,7) by (simp del: set_append)
qed

text \<open>Memory taken from the heap leaves the tables as they are.\<close>

lemma put_heap_simps [simp]:
  "cr3 (put_heap h s) = cr3 s" "heap (machine (put_heap h s)) = h" "mem (machine (put_heap h s)) = mem (machine s)"
  "translate (put_heap h s) v = translate s v" "cache_disabled (put_heap h s) v = cache_disabled s v"
  "writable_page (put_heap h s) v = writable_page s v"
  by (simp_all add: put_heap_def translate_def cache_disabled_def writable_page_def page_entry_def)

lemma put_heap_wf:
  assumes "wf_tables (machine s) (cr3 s)" "heap_ok h" "used_bytes (heap (machine s)) \<subseteq> used_bytes h"
  shows "wf_tables (machine (put_heap h s)) (cr3 s)"
  using assms unfolding wf_tables_def by (auto simp del: split_paired_All intro: subset_trans)

lemma io_pages_put_heap:
  assumes "io_pages (put_heap h s) ps s'" "used_bytes (heap (machine s)) \<subseteq> used_bytes h"
  shows "io_pages s ps s'"
  using assms by (auto simp: io_pages_def)

section \<open>Construction of the controller\<close>

definition controller_room :: "CapabilityRegisters \<Rightarrow> nat \<Rightarrow> nat" where
  "controller_room cap ps = scratchpad_room ps (max (num_scratchpad_bufs cap) 1) + (2176 + 3 * IO_BOX_ROOM)"

text \<open>A controller that runs with the addresses of its own boxes.\<close>

definition programmed :: "Controller \<Rightarrow> bool" where
  "programmed xhc \<longleftrightarrow>
     (let bx = boxes xhc; i = irs xhc ! 0 in
      usbsts (op_regs xhc) AND STATUS_HC_HALTED = 0 \<and> crcr (op_regs xhc) = command_ring_box bx OR 1 \<and>
      dcbaap (op_regs xhc) = dcbaa_box bx \<and>
      op_config (op_regs xhc) AND 0xFF = word_of_nat (num_of_device_slots (cap_regs xhc)) \<and>
      cmd_inv (command_ring xhc) \<and> ring_addr (cmd_ring (command_ring xhc)) = command_ring_box bx \<and>
      erst_size i = 1 \<and> irs_erdp i = event_ring_box bx \<and> erst_base i = erst_box bx \<and>
      ev_run (primary_event_ring xhc) [] [] \<and> ring_addr (ev_ring (primary_event_ring xhc)) = event_ring_box bx)"

definition ring_pages :: "Controller \<Rightarrow> u64 list" where
  "ring_pages xhc = [event_ring_box (boxes xhc), erst_box (boxes xhc), command_ring_box (boxes xhc)]"

text \<open>The memory that the controller is given.\<close>

lemma controller_memory:
  assumes "page_size op = Ok ps" "wf_tables (machine s) (cr3 s)"
    and "room (heap (machine s)) (controller_room cap ps + R)"
  obtains table bufs h1 dcbaa h2 ring s1 erst s2 cmd s3 where
    "ScratchpadBuffers_alloc (heap (machine s)) cap op = Ok (table, bufs, h1)" "box_new h1 2048 64 = Ok (dcbaa, h2)"
    "IoBox_new 4096 (put_heap h2 s) = Ok (ring, s1)" "IoBox_new 4096 s1 = Ok (erst, s2)"
    "IoBox_new 4096 s2 = Ok (cmd, s3)" "io_pages s [ring, erst, cmd] s3" "room (heap (machine s3)) R"
proof -
  have "room (heap (machine s)) (scratchpad_room ps (max (num_scratchpad_bufs cap) 1) + (2176 + 3 * IO_BOX_ROOM + R))"
    using assms(3) by (simp add: controller_room_def algebra_simps)
  from ScratchpadBuffers_alloc_room [OF assms(1) this] obtain table bufs h1 where
    1: "ScratchpadBuffers_alloc (heap (machine s)) cap op = Ok (table, bufs, h1)" "room h1 (2176 + 3 * IO_BOX_ROOM + R)"
      "used_bytes (heap (machine s)) \<subseteq> used_bytes h1" by blast
  have "room h1 (2 ^ 11 + max (2 ^ 6) 32 + 64 + (IO_BOX_ROOM + (IO_BOX_ROOM + (IO_BOX_ROOM + R))))"
    using 1(2) by (simp add: algebra_simps)
  from alloc_room_pow2 [where sz = 2048, OF _ _ _ _ _ this] obtain dcbaa h2 where
    2: "box_new h1 2048 64 = Ok (dcbaa, h2)" "room h2 (IO_BOX_ROOM + (IO_BOX_ROOM + (IO_BOX_ROOM + R)))"
      "used_bytes h1 \<subseteq> used_bytes h2" by (auto simp: box_new_def)
  have sz: "0 < unat (4096 :: u64)" "unat (4096 :: u64) \<le> 4096" by simp_all
  have u: "used_bytes (heap (machine s)) \<subseteq> used_bytes h2" using 1(3) 2(3) by blast
  note w0 = put_heap_wf [OF assms(2) room_heap_ok [OF 2(2)] u]
  have p0: "io_pages (put_heap h2 s) [] (put_heap h2 s)" using w0 by (intro io_pages_Nil) simp
  obtain ring s1 where 3: "IoBox_new 4096 (put_heap h2 s) = Ok (ring, s1)" "io_page (put_heap h2 s) ring s1"
    "room (heap (machine s1)) (IO_BOX_ROOM + (IO_BOX_ROOM + R))"
    using IoBox_new_room [of "put_heap h2 s" 4096 "IO_BOX_ROOM + (IO_BOX_ROOM + R)"] w0 2(2) sz by auto
  obtain erst s2 where 4: "IoBox_new 4096 s1 = Ok (erst, s2)" "io_page s1 erst s2"
    "room (heap (machine s2)) (IO_BOX_ROOM + R)"
    using IoBox_new_room [of s1 4096, OF _ sz 3(3)] 3(2) by (auto simp: io_page_def)
  obtain cmd s3 where 5: "IoBox_new 4096 s2 = Ok (cmd, s3)" "io_page s2 cmd s3" "room (heap (machine s3)) R"
    using IoBox_new_room [of s2 4096, OF _ sz 4(3)] 4(2) by (auto simp: io_page_def)
  from io_pages_snoc [OF io_pages_snoc [OF io_pages_snoc [OF p0 3(2)] 4(2)] 5(2)]
  have "io_pages s [ring, erst, cmd] s3" using io_pages_put_heap [OF _ u] by simp
  then show thesis using that 1(1) 2(1) 3(1) 4(1) 5(1,3) by blast
qed

lemma Controller_new_starts:
  assumes "responsive n hw" "rt \<noteq> []" "page_size op = Ok ps" "wf_tables (machine s) (cr3 s)"
    and "room (heap (machine s)) (controller_room cap ps + R)"
  shows "\<exists>xhc s'. Controller_new n hw regs cap op rt s = Ok (xhc, s') \<and> programmed xhc \<and> xhc_regs xhc = regs \<and>
    cap_regs xhc = cap \<and> io_pages s (ring_pages xhc) s' \<and> room (heap (machine s')) R"
proof -
  obtain table bufs h1 dcbaa h2 ring s1 erst s2 cmd s3 where
    mm: "ScratchpadBuffers_alloc (heap (machine s)) cap op = Ok (table, bufs, h1)" "box_new h1 2048 64 = Ok (dcbaa, h2)"
      "IoBox_new 4096 (put_heap h2 s) = Ok (ring, s1)" "IoBox_new 4096 s1 = Ok (erst, s2)"
      "IoBox_new 4096 s2 = Ok (cmd, s3)" "io_pages s [ring, erst, cmd] s3" "room (heap (machine s3)) R"
    by (rule controller_memory [OF assms(3-5)])
  obtain op1 where op1: "reset_xhc n hw op = Ok op1" "usbcmd op1 AND CMD_HC_RESET = 0" "pagesize op1 = pagesize op"
    using reset_xhc_ends [OF assms(1)] by blast
  obtain ev where ev: "EventRing_new ring = Ok ev" "ring_addr (ev_ring ev) = ring"
    using EventRing_new_Ok by blast
  obtain cr where cr: "CommandRing_default cmd = Ok cr" "cmd_inv cr" "ring_addr (cmd_ring cr) = cmd"
    using CommandRing_default_inv by blast
  let ?i = "(rt ! 0)\<lparr>erst_size := 1, irs_erdp := ring, erst_base := erst, management := 0\<rparr>"
  let ?op2 = "set_cmd_ring_ctrl cmd (set_dcbaa_ptr dcbaa (set_num_device_slots (num_of_device_slots cap) op1))"
  have "usbcmd ?op2 AND CMD_HC_RESET = 0"
    using op1(2) by (simp add: set_cmd_ring_ctrl_def set_dcbaa_ptr_def set_num_device_slots_def)
  from start_xhc_ends [OF assms(1) this] obtain op3 where op3: "start_xhc n hw ?op2 = Ok op3"
    "usbsts op3 AND STATUS_HC_HALTED = 0" "crcr op3 = crcr ?op2" "dcbaap op3 = dcbaap ?op2"
    "op_config op3 = op_config ?op2" by blast
  let ?xhc = "\<lparr> xhc_regs = regs, cap_regs = cap, op_regs = op3, irs = rt[0 := ?i], doorbell_log = [],
      device_context_base_array = DeviceContextBaseAddressArray_new table,
      primary_event_ring = set_erdp ev ring, command_ring = cr,
      boxes = \<lparr> event_ring_box = ring, erst_box = erst, command_ring_box = cmd, dcbaa_box = dcbaa \<rparr> \<rparr>"
  have "Controller_new n hw regs cap op rt s = Ok (?xhc, s3)"
    using assms(2) mm op1(1) ev cr op3(1) ScratchpadBuffers_alloc_pagesize [OF op1(3), of "heap (machine s)" cap]
    by (simp add: Controller_new_def Let_def init_primary_event_ring_def init_irs_def
        init_slots_and_contexts_def init_command_ring_def)
  moreover have "ev_run (set_erdp ev ring) [] []" using ev(1) by (rule ev_run.start)
  moreover have "ring_addr (ev_ring (set_erdp ev ring)) = ring" using ev(2) by (simp add: set_erdp_def)
  ultimately show ?thesis
    using assms(2) cr op3 low_byte_slots mm(6,7)
    by (simp add: programmed_def ring_pages_def Let_def set_cmd_ring_ctrl_def set_dcbaa_ptr_def
        set_num_device_slots_def)
qed

text \<open>
  C23: On a controller that responds within the polls allowed, with an interrupter, a page size and room in
  the heap for its buffers, \<open>Controller::new\<close> returns with the controller running: the command ring
  register holds the address of a command ring in its initial state with the consumer cycle state set,
  the context array and the number of device slots are the ones announced, interrupter 0 has one segment
  with the event ring, which is the initial state of the runs whose events are delivered in order. The
  event ring, its segment table and the command ring lie in three different pages taken from free
  memory, mapped to themselves uncached; every other address is translated and cached as before.\<close>

theorem controller_starts_programmed:
  assumes "responsive n hw" and "rt \<noteq> []" and "page_size op = Ok ps" and "wf_tables (machine s) (cr3 s)"
    and "room (heap (machine s)) (controller_room cap ps)"
  shows "\<exists>xhc s'. Controller_new n hw regs cap op rt s = Ok (xhc, s') \<and> programmed xhc \<and>
    xhc_regs xhc = regs \<and> cap_regs xhc = cap \<and> io_pages s (ring_pages xhc) s'"
  using Controller_new_starts [of n hw rt op ps s cap 0 regs] assms by auto

text \<open>One megabyte of free memory, for the scratchpad buffers of a controller that asks for none.\<close>

definition scratch_heap :: FirstFitAllocator where
  "scratch_heap = \<lparr> headers = [0x100000 \<mapsto> \<lparr> next_header = None, hdr_size = 0x100000,
     is_allocated = False, header_reserved = 0 \<rparr>], first_header = Some 0x100000 \<rparr>"

lemma scratch_heap_repr: "heap_repr scratch_heap [Chunk 0x100000 0x100000 False]"
  by (simp add: heap_repr_def scratch_heap_def wf_chunk_def)

lemma alloc_step:
  assumes "heap_repr h cs" "valid_layout l" "0 < unat (layout_size l)" "layout_sz l = sz" "layout_al l = al"
    "first_fit sz al cs = Some (p, cs')"
  shows "\<exists>h'. alloc_with_options h l = Ok (word_of_nat p, h') \<and> heap_repr h' cs'"
  using alloc_with_options_refines [OF assms(1-3)] assms(4-6) by simp

lemma layout_sz_8: "layout_sz \<lparr> layout_size = 8, layout_align = a \<rparr> = 32"
proof -
  have "leading_zeros (7 :: usize) = 61" by (simp add: leading_zeros_def numeral_eq_Suc)
  then show ?thesis
    by (simp add: layout_sz_def round_up_to_nearest_pow2_def HEADER_SIZE_def)
qed

lemma page_layouts:
  "layout_sz \<lparr> layout_size = 4096, layout_align = a \<rparr> = 4096"
  "valid_layout \<lparr> layout_size = 4096, layout_align = 4096 \<rparr>"
  "valid_layout \<lparr> layout_size = 4096, layout_align = 1 \<rparr>"
  "valid_layout \<lparr> layout_size = 8, layout_align = 4096 \<rparr>"
  "valid_layout \<lparr> layout_size = 8, layout_align = 8 \<rparr>"
proof -
  show "layout_sz \<lparr> layout_size = 4096, layout_align = a \<rparr> = 4096"
    by (subst layout_sz_pow2 [of _ 12]) simp_all
qed (auto simp: valid_layout_def intro: exI [of _ 12] exI [of _ 0] exI [of _ 3])

lemma scratch_layouts:
  "layout_from_size_align 4096 4096 = Some \<lparr> layout_size = 4096, layout_align = 4096 \<rparr>"
  "layout_from_size_align 8 4096 = Some \<lparr> layout_size = 8, layout_align = 4096 \<rparr>"
  by (auto simp: layout_from_size_align_def intro: exI [of _ 12])

lemma sample_scratch:
  "page_size sample_op = Ok 4096" "num_scratchpad_bufs sample_cap = 0"
proof -
  have a: "(1 :: u32) AND 0xFFFF = 1" by simp
  have u: "[0..<32] = (0 :: nat) # [Suc 0..<32]" by (rule upt_conv_Cons) simp
  have "filter (bit (1 :: u32)) [Suc 0..<32] = []" by (auto simp: filter_empty_conv bit_1_iff simp del: upt_Suc)
  then have "count_ones (1 :: u32) = 1" and "trailing_zeros (1 :: u32) = 0"
    by (simp_all add: count_ones_def trailing_zeros_def u bit_1_iff del: upt_Suc)
  then show "page_size sample_op = Ok 4096" using a by (simp add: page_size_def sample_op_def Let_def)
  show "num_scratchpad_bufs sample_cap = 0"
    by (simp add: num_scratchpad_bufs_def sample_cap_def extract_bits_def)
qed

text \<open>
  Copying a buffer into a box of its own loses its alignment: with ample memory the scratchpad buffer
  that the controller is told of does not start on a page, and neither does the table.\<close>

theorem scratchpad_buffers_lose_alignment:
  "\<exists>h'. ScratchpadBuffers_alloc scratch_heap sample_cap sample_op = Ok (0x1FEFC0, [0x1FBFE0], h')"
proof -
  note al = layout_al_def HEADER_SIZE_def max_def word_le_nat_alt
  note ff = fits_chunk_def place_in_def split_chunk_def
  obtain h1 where h1: "alloc_with_options scratch_heap \<lparr> layout_size = 8, layout_align = 4096 \<rparr> = Ok (0x1FF000, h1)"
    "heap_repr h1 [Chunk 0x100000 0xFEFE0 False, Chunk 0x1FEFE0 64 True, Chunk 0x1FF020 0xFE0 False]"
    using alloc_step [OF scratch_heap_repr page_layouts(4), of 32 4096 "0x1FF000"]
    by (auto simp: layout_sz_8 al ff)
  obtain h2 where h2: "alloc_with_options h1 \<lparr> layout_size = 8, layout_align = 8 \<rparr> = Ok (0x1FEFC0, h2)"
    "heap_repr h2 [Chunk 0x100000 0xFEFA0 False, Chunk 0x1FEFA0 64 True, Chunk 0x1FEFE0 64 True,
       Chunk 0x1FF020 0xFE0 False]"
    using alloc_step [OF h1(2) page_layouts(5), of 32 32 "0x1FEFC0"]
    by (auto simp: layout_sz_8 al ff)
  obtain h3 where h3: "alloc_with_options h2 \<lparr> layout_size = 4096, layout_align = 4096 \<rparr> = Ok (0x1FD000, h3)"
    "heap_repr h3 [Chunk 0x100000 0xFCFE0 False, Chunk 0x1FCFE0 4128 True, Chunk 0x1FE000 0xFA0 False,
       Chunk 0x1FEFA0 64 True, Chunk 0x1FEFE0 64 True, Chunk 0x1FF020 0xFE0 False]"
    using alloc_step [OF h2(2) page_layouts(2), of 4096 4096 "0x1FD000"]
    by (auto simp: page_layouts(1) al ff)
  obtain h4 where h4: "alloc_with_options h3 \<lparr> layout_size = 4096, layout_align = 1 \<rparr> = Ok (0x1FBFE0, h4)"
    using alloc_step [OF h3(2) page_layouts(3), of 4096 32 "0x1FBFE0"]
    by (auto simp: page_layouts(1) al ff)
  have loop: "scratchpad_loop 4096 1 h2 [] = Ok ([0x1FBFE0], h4)"
    using h3(1) h4 by (simp add: scratch_layouts from_raw_parts_def box_from_slice_def)
  show ?thesis
    using h1(1) h2(1) loop
    by (simp add: ScratchpadBuffers_alloc_def sample_scratch Let_def scratch_layouts from_raw_parts_def
        box_from_slice_def del: scratchpad_loop.simps)
qed

text \<open>A controller that obeys at once.\<close>

definition prompt_hw :: "OperationalRegisters \<Rightarrow> OperationalRegisters" where
  "prompt_hw r = r\<lparr>usbcmd := usbcmd r AND NOT CMD_HC_RESET,
                   usbsts := if usbcmd r AND CMD_RUN_STOP = 0 then 1 else 0\<rparr>"

lemma prompt_hw_responsive: "responsive 2 prompt_hw"
proof -
  have idem: "c AND NOT CMD_HC_RESET = c" if "c AND CMD_HC_RESET = 0" for c :: u32
    using that by (auto simp: bit_eq_iff bit_simps)
  have clr: "(c AND NOT CMD_HC_RESET) AND CMD_HC_RESET = 0" for c :: u32
    by (simp add: and.assoc)
  show ?thesis
    unfolding responsive_def
  proof (intro conjI allI impI)
    fix r
    show "\<exists>k < 2. usbcmd ((prompt_hw ^^ k) r) AND CMD_HC_RESET = 0"
      by (intro exI [of _ 1]) (simp add: prompt_hw_def clr)
    show "\<exists>k < 2. usbsts ((prompt_hw ^^ k) r) AND STATUS_HC_HALTED \<noteq> 0" if "usbcmd r AND CMD_RUN_STOP = 0"
      using that by (intro exI [of _ 1]) (simp add: prompt_hw_def STATUS_HC_HALTED_def)
    show "\<exists>k < 2. usbsts ((prompt_hw ^^ k) r) AND STATUS_HC_HALTED = 0"
      if "usbcmd r AND CMD_RUN_STOP \<noteq> 0" "usbcmd r AND CMD_HC_RESET = 0"
      using that by (intro exI [of _ 1]) (simp add: prompt_hw_def STATUS_HC_HALTED_def)
  qed (simp_all add: prompt_hw_def idem)
qed

theorem controller_starts_programmed_witness:
  "\<exists>xhc s'. Controller_new 2 prompt_hw (setup_xhc_registers 0xC0000000 sample_cap) sample_cap sample_op
      [\<lparr> management = 0, moderation = 0, erst_size = 0, erst_base = 0, irs_erdp = 0 \<rparr>]
      \<lparr> cr3 = 0x2000, machine = roomy \<rparr> = Ok (xhc, s') \<and>
    crcr (op_regs xhc) = command_ring_box (boxes xhc) OR 1 \<and> cache_disabled s' (command_ring_box (boxes xhc))"
proof -
  have r: "room (heap roomy) (controller_room sample_cap 4096)"
    unfolding controller_room_def scratchpad_room_def IO_BOX_ROOM_def TABLE_ROOM_def sample_scratch(2)
    by (rule roomI [OF roomy_repr]) simp_all
  obtain xhc s' where x: "Controller_new 2 prompt_hw (setup_xhc_registers 0xC0000000 sample_cap) sample_cap sample_op
      [\<lparr> management = 0, moderation = 0, erst_size = 0, erst_base = 0, irs_erdp = 0 \<rparr>]
      \<lparr> cr3 = 0x2000, machine = roomy \<rparr> = Ok (xhc, s')" "programmed xhc"
      "io_pages \<lparr> cr3 = 0x2000, machine = roomy \<rparr> (ring_pages xhc) s'"
    using controller_starts_programmed [OF prompt_hw_responsive _ sample_scratch(1),
        of "[\<lparr> management = 0, moderation = 0, erst_size = 0, erst_base = 0, irs_erdp = 0 \<rparr>]"
           "\<lparr> cr3 = 0x2000, machine = roomy \<rparr>" sample_cap "setup_xhc_registers 0xC0000000 sample_cap"]
      roomy_wf r by auto
  have "command_ring_box (boxes xhc) \<in> set (ring_pages xhc)" by (simp add: ring_pages_def)
  with x(3) have "cache_disabled s' (command_ring_box (boxes xhc))" by (auto simp: io_pages_def)
  with x(1,2) show ?thesis by (auto simp: programmed_def Let_def)
qed

end
