(* ===== verification/Xhci_Attach.thy ===== *)
theory Xhci_Attach
  imports Xhci_Start Usb_Stack Executor
begin

text \<open>
  \<open>PciXhciDriver::attach\<close> of \<open>src/xhci.rs\<close>: what the driver does with a function of the bus that it
  supports, from the command register and BAR0 to a running controller whose task waits in the
  executor. The printing of the function is left out. The driver works on the memory management, the
  bus and the executor; the registers behind the BAR are parameters.
\<close>

section \<open>The driver\<close>

text \<open>
  The device: its configuration space, the registers at an address as they are when the driver takes
  them over, the answers of the operational registers while the driver polls them, and the polls allowed.
\<close>

record 'd XhciFunction =
  fn_read :: "'d \<Rightarrow> u64 \<Rightarrow> u32"
  fn_write :: "'d \<Rightarrow> u64 \<Rightarrow> u32 \<Rightarrow> 'd"
  fn_cap :: "'d \<Rightarrow> u64 \<Rightarrow> CapabilityRegisters"
  fn_op :: "'d \<Rightarrow> u64 \<Rightarrow> OperationalRegisters"
  fn_rt :: "'d \<Rightarrow> u64 \<Rightarrow> InterrupterRegisterSet list"
  fn_answer :: "OperationalRegisters \<Rightarrow> OperationalRegisters"
  fn_polls :: nat

record 'd XhciState =
  pci_dev :: 'd
  global_executor :: "Controller Executor option Mutex"

text \<open>
  A step on one part of the state. A fault leaves the part as the step found it: the errors of the steps below
  come before their first change, but for a controller without interrupters, whose memory is taken by then.\<close>

definition on_dev :: "('d \<Rightarrow> ('a \<times> 'd) res) \<Rightarrow> ('a, Mmu \<times> 'd XhciState) task" where
  "on_dev f = (\<lambda>(s, b). case f (pci_dev b) of Inl e \<Rightarrow> (Inl e, (s, b)) | Inr (x, d) \<Rightarrow> (Ok x, (s, b\<lparr>pci_dev := d\<rparr>)))"

definition on_mmu :: "(Mmu \<Rightarrow> ('a \<times> Mmu) res) \<Rightarrow> ('a, Mmu \<times> 'd XhciState) task" where
  "on_mmu f = (\<lambda>(s, b). case f s of Inl e \<Rightarrow> (Inl e, (s, b)) | Inr (x, s') \<Rightarrow> (Ok x, (s', b)))"

definition on_executor ::
  "(Controller Executor option Mutex \<Rightarrow> Controller Executor option Mutex res) \<Rightarrow> (unit, Mmu \<times> 'd XhciState) task" where
  "on_executor f = (\<lambda>(s, b). case f (global_executor b) of Inl e \<Rightarrow> (Inl e, (s, b))
     | Inr g \<Rightarrow> (Ok (), (s, b\<lparr>global_executor := g\<rparr>)))"

definition unit_res :: "'s res \<Rightarrow> (unit \<times> 's) res" where
  "unit_res r = rbind r (\<lambda>s. Ok ((), s))"

text \<open>The task that is spawned is \<open>run\<close> of the controller, so the controller stands for it.\<close>

definition PciXhciDriver_attach ::
  "'d XhciFunction \<Rightarrow> Pci \<Rightarrow> BusDeviceFunction \<Rightarrow> (unit, Mmu \<times> 'd XhciState) task" where
  "PciXhciDriver_attach P pci bdf =
     andthen (on_dev (\<lambda>d. unit_res (disable_interrupt (fn_read P) (fn_write P) pci d bdf))) (\<lambda>_.
     andthen (on_dev (\<lambda>d. unit_res (enable_bus_master (fn_read P) (fn_write P) pci d bdf))) (\<lambda>_.
     andthen (on_dev (\<lambda>d. try_bar0_mem64 (fn_read P) (fn_write P) pci d bdf)) (\<lambda>bar0.
     andthen (on_mmu (\<lambda>s. unit_res (BarMem64_disable_cache bar0 s))) (\<lambda>_.
     andthen (\<lambda>(s, b). (Ok (fn_cap P (pci_dev b) (bar_addr bar0)), (s, b))) (\<lambda>cap.
     let regs = setup_xhc_registers (bar_addr bar0) cap in
     andthen (\<lambda>(s, b). on_mmu (Controller_new (fn_polls P) (fn_answer P) regs cap
         (fn_op P (pci_dev b) (op_regs_addr regs)) (fn_rt P (pci_dev b) (rt_regs_addr regs))) (s, b)) (\<lambda>xhc.
       on_executor (spawn_global ''src/xhci.rs'' 107 xhc)))))))"

section \<open>The command register\<close>

text \<open>
  The PCI specification on the command register of such a function (6.2.2): the bits of bus mastering
  and of disabling interrupts can be written and keep their value; BAR0 is another register.
\<close>

definition CMD_BITS :: u32 where "CMD_BITS = push_bit 10 1 OR push_bit 2 1"

definition command_register ::
  "('d \<Rightarrow> u64 \<Rightarrow> u32) \<Rightarrow> ('d \<Rightarrow> u64 \<Rightarrow> u32 \<Rightarrow> 'd) \<Rightarrow> u64 \<Rightarrow> u64 \<Rightarrow> u64 \<Rightarrow> bool" where
  "command_register rd wr cmd lo hi \<longleftrightarrow>
     (\<forall>d v. rd (wr d cmd v) cmd AND CMD_BITS = v AND CMD_BITS \<and> rd (wr d cmd v) lo = rd d lo \<and>
        rd (wr d cmd v) hi = rd d hi \<and> rd (wr d lo v) cmd = rd d cmd \<and> rd (wr d hi v) cmd = rd d cmd)"

lemma command_flags:
  assumes "unat (ecm_start p) + 2 ^ 28 \<le> 2 ^ 64" "unat cmd = register_addr p b 4"
  shows "set_command_and_status_flags rd wr p d b flags = Ok (wr d cmd (flags OR rd d cmd))"
proof -
  have "config_in_range 4 4" by (simp add: config_in_range_def)
  from config_access [OF assms(1) this, of b] obtain a where a: "unat a = register_addr p b 4"
    "read_register_u32 rd p d b 4 = Ok (rd d a)" "\<And>v. write_register_u32 wr p d b 4 v = Ok (wr d a v)"
    by metis
  then have "a = cmd" using assms(2) by (simp add: word_unat_eq_iff)
  with a(2,3) show ?thesis by (simp add: set_command_and_status_flags_def)
qed

lemma flags_collected:
  fixes c c1 c2 :: u32
  assumes "c1 AND CMD_BITS = (push_bit 10 1 OR c) AND CMD_BITS" "c2 AND CMD_BITS = (push_bit 2 1 OR c1) AND CMD_BITS"
  shows "c2 AND CMD_BITS = CMD_BITS"
proof -
  have p: "bit (push_bit 10 1 :: u32) n \<longleftrightarrow> n = 10" "bit (push_bit 2 1 :: u32) n \<longleftrightarrow> n = 2" for n
    by (auto simp only: bit_push_bit_iff bit_1_iff possible_bit_word) auto
  have b: "bit CMD_BITS n \<longleftrightarrow> n = 10 \<or> n = 2" for n
    by (simp only: CMD_BITS_def bit_or_iff p)
  have "bit c1 10" using arg_cong [OF assms(1), of "\<lambda>x. bit x 10"] by (simp only: bit_and_iff bit_or_iff p b) simp
  then have "bit c2 10 \<and> bit c2 2"
    using arg_cong [OF assms(2), of "\<lambda>x. bit x 10"] arg_cong [OF assms(2), of "\<lambda>x. bit x 2"]
    by (simp only: bit_and_iff bit_or_iff p b) simp
  then show ?thesis by (intro bit_word_eqI) (auto simp only: bit_and_iff b)
qed

section \<open>The region of the registers\<close>

definition bar0_base :: "('d \<Rightarrow> u64 \<Rightarrow> u32) \<Rightarrow> u64 \<Rightarrow> u64 \<Rightarrow> 'd \<Rightarrow> u64" where
  "bar0_base rd lo hi d = (push_bit 32 (ucast (rd d hi)) OR ucast (rd d lo)) AND NOT 0xF"

text \<open>A BAR is aligned to its size.\<close>

lemma bar0_base_aligned:
  assumes "bar0_register rd wr lo hi k" "4 \<le> k" "k < 64"
  shows "2 ^ k dvd unat (bar0_base rd lo hi d)"
proof -
  have z: "rd d lo AND NOT (ucast (NOT (mask k :: u64)) OR 0xF) = 0"
    "rd d hi AND NOT (ucast (drop_bit 32 (NOT (mask k :: u64)))) = 0"
    using assms(1) by (simp_all add: bar0_register_def)
  have lo: "\<not> bit (rd d lo) n" if "4 \<le> n" "n < k" for n
    using arg_cong [OF z(1), of "\<lambda>x. bit x n"] that by (auto simp: F_eq_mask bit_simps dest: bit_imp_le_length)
  have hi: "\<not> bit (rd d hi) n" if "n + 32 < k" for n
    using arg_cong [OF z(2), of "\<lambda>x. bit x n"] that by (auto simp: bit_simps dest: bit_imp_le_length)
  have "take_bit k (bar0_base rd lo hi d) = 0"
  proof (rule bit_word_eqI)
    fix n
    show "bit (take_bit k (bar0_base rd lo hi d)) n = bit (0 :: u64) n"
      using lo [of n] hi [of "n - 32"] by (cases "4 \<le> n"; cases "n < k") (auto simp: bar0_base_def F_eq_mask bit_simps)
  qed
  then have "unat (take_bit k (bar0_base rd lo hi d)) = 0" by simp
  then show ?thesis by (simp add: unat_take_bit dvd_eq_mod_eq_0)
qed

definition bar0_room :: "u64 \<Rightarrow> nat \<Rightarrow> nat" where
  "bar0_room a k = TABLE_ROOM * tables_left 3 (page_of a) (page_of a + (2 ^ k - 1) div 4096)"

definition in_bar0 :: "u64 \<Rightarrow> nat \<Rightarrow> u64 \<Rightarrow> bool" where
  "in_bar0 a k v \<longleftrightarrow> unat a \<le> unat v \<and> unat v < unat a + 2 ^ k"

lemma in_bar0_pages:
  assumes "2 ^ k dvd unat a" "12 \<le> k"
  shows "in_bar0 a k v \<longleftrightarrow> page_of a \<le> page_of v \<and> page_of v < page_of a + max 1 ((2 ^ k + 4095) div 4096)"
proof -
  obtain j where j: "k = 12 + j" using assms(2) le_Suc_ex by blast
  have k: "(2 :: nat) ^ k = 4096 * 2 ^ j" by (simp add: j power_add)
  have "4096 dvd unat a" using assms(1) unfolding k by (rule dvd_mult_left)
  then obtain q where q: "unat a = 4096 * q" by blast
  have d: "(4096 * 2 ^ j + 4095) div 4096 = (2 :: nat) ^ j" by simp
  have m: "max 1 ((2 ^ k + 4095) div 4096) = (2 :: nat) ^ j" unfolding k d by simp
  show ?thesis
    unfolding m in_bar0_def page_of_def q k by (auto simp: less_mult_imp_div_less)
qed

section \<open>The steps one after the other\<close>

lemma on_steps [simp]:
  "f (pci_dev b) = Ok (x, d) \<Longrightarrow> on_dev f (s, b) = (Ok x, (s, b\<lparr>pci_dev := d\<rparr>))"
  "g s = Ok (x, s') \<Longrightarrow> on_mmu g (s, b) = (Ok x, (s', b))"
  "h (global_executor b) = Ok e \<Longrightarrow> on_executor h (s, b) = (Ok (), (s, b\<lparr>global_executor := e\<rparr>))"
  "unit_res (Ok y) = Ok ((), y)"
  by (simp_all add: on_dev_def on_mmu_def on_executor_def unit_res_def)

text \<open>The configuration: both flags are set, and BAR0 is as it was.\<close>

lemma configured:
  assumes p: "unat (ecm_start p) + 2 ^ 28 \<le> 2 ^ 64"
    and "unat lo = register_addr p b 0x10" "unat hi = register_addr p b 0x14" "unat cmd = register_addr p b 4"
    and bar: "bar0_register rd wr lo hi k" "4 \<le> k" "k < 64" "rd d lo AND 7 = 4"
    and cr: "command_register rd wr cmd lo hi"
  obtains d1 d2 d3 where "disable_interrupt rd wr p d b = Ok d1" "enable_bus_master rd wr p d1 b = Ok d2"
    "try_bar0_mem64 rd wr p d2 b = Ok (\<lparr> bar_addr = bar0_base rd lo hi d, bar_size = 2 ^ k \<rparr>, d3)"
    "rd d3 lo = rd d lo" "rd d3 hi = rd d hi" "rd d3 cmd AND CMD_BITS = CMD_BITS"
proof -
  define d1 where "d1 = wr d cmd (push_bit 10 1 OR rd d cmd)"
  define d2 where "d2 = wr d1 cmd (push_bit 2 1 OR rd d1 cmd)"
  have 1: "disable_interrupt rd wr p d b = Ok d1" "enable_bus_master rd wr p d1 b = Ok d2"
    unfolding disable_interrupt_def enable_bus_master_def command_flags [OF p assms(4)] d1_def d2_def by simp_all
  have same: "rd d2 lo = rd d lo" "rd d2 hi = rd d hi"
    using cr by (simp_all add: command_register_def d1_def d2_def)
  then have "rd d2 lo AND 7 = 4" "bar0_base rd lo hi d2 = bar0_base rd lo hi d" using bar(4) by (simp_all add: bar0_base_def)
  with try_bar0_restores [OF p assms(2,3) bar(1-3), of d2, folded bar0_base_def] obtain d3 where
    d3: "try_bar0_mem64 rd wr p d2 b = Ok (\<lparr> bar_addr = bar0_base rd lo hi d, bar_size = 2 ^ k \<rparr>, d3)"
      "rd d3 lo = rd d2 lo" "rd d3 hi = rd d2 hi" "\<exists>v1 v2 v3 v4. d3 = wr (wr (wr (wr d2 lo v1) hi v2) lo v3) hi v4"
    by metis
  have "rd d3 cmd = rd d2 cmd" using d3(4) cr by (auto simp: command_register_def)
  moreover have "rd d2 cmd AND CMD_BITS = CMD_BITS"
    by (rule flags_collected [of "rd d1 cmd" "rd d cmd"])
      (use cr in \<open>simp_all only: command_register_def d1_def d2_def\<close>)
  ultimately show thesis using that [OF 1 d3(1)] d3(2,3) same by simp
qed

text \<open>
  C9: \<open>PciXhciDriver::attach\<close> on a function whose BAR0 is a 64-bit memory region of \<open>2 ^ k\<close> bytes, at least
  a page, in the lower half of the address space, with a controller behind it that responds within the
  polls allowed. With room in the heap for the page tables and the controller's buffers it succeeds:
  bus mastering is on, interrupts are off, BAR0 is as it was, and the last task of the executor runs a
  controller that is started and programmed with the registers of the region. The addresses of the
  region and of the controller's rings are mapped to themselves uncached, and all others as before.\<close>

theorem attach_starts_controller:
  fixes P :: "'d XhciFunction"
  defines "rd \<equiv> fn_read P"
  assumes "unat (ecm_start p) + 2 ^ 28 \<le> 2 ^ 64"
    and "unat lo = register_addr p f 0x10" and "unat hi = register_addr p f 0x14" and "unat cmd = register_addr p f 4"
    and "bar0_register rd (fn_write P) lo hi k" and "12 \<le> k" and "rd (pci_dev b) lo AND 7 = 4"
    and "command_register rd (fn_write P) cmd lo hi"
    and "a = bar0_base rd lo hi (pci_dev b)" and "unat a + 2 ^ k \<le> 2 ^ 48"
    and "\<And>d. fn_cap P d a = cap" and "\<And>d. page_size (fn_op P d (a + ucast (caplength cap))) = Ok ps"
    and "\<And>d. fn_rt P d (a + ucast (rtsoff cap)) \<noteq> []" and "responsive (fn_polls P) (fn_answer P)"
    and "wf_tables (machine s) (cr3 s)" and "room (heap (machine s)) (bar0_room a k + controller_room cap ps)"
    and "\<not> is_taken (global_executor b)"
  shows "\<exists>xhc s' b'. PciXhciDriver_attach P p f (s, b) = (Ok (), (s', b')) \<and>
    rd (pci_dev b') cmd AND CMD_BITS = CMD_BITS \<and> rd (pci_dev b') lo = rd (pci_dev b) lo \<and>
    rd (pci_dev b') hi = rd (pci_dev b) hi \<and>
    \<not> is_taken (global_executor b') \<and>
    waiting (global_executor b') = waiting (global_executor b) @ [Task_new ''src/xhci.rs'' 107 xhc] \<and>
    programmed xhc \<and> xhc_regs xhc = setup_xhc_registers a cap \<and> cr3 s' = cr3 s \<and> wf_tables (machine s') (cr3 s') \<and>
    (\<forall>v. unat v < 2 ^ 48 \<longrightarrow>
       (if in_bar0 a k v \<or> page_of v \<in> page_of ` set (ring_pages xhc)
        then translate s' v = Some v \<and> cache_disabled s' v \<and> writable_page s' v
        else translate s' v = translate s v \<and> cache_disabled s' v = cache_disabled s v))"
proof -
  have k: "4 \<le> k" "k < 64"
  proof -
    have "(2 :: nat) ^ k < 2 ^ 64" using assms(11) by simp
    then show "k < 64" by (subst (asm) power_strict_increasing_iff) simp_all
  qed (use assms(7) in simp)
  obtain d1 d2 d3 where d: "disable_interrupt rd (fn_write P) p (pci_dev b) f = Ok d1"
    "enable_bus_master rd (fn_write P) p d1 f = Ok d2"
    "try_bar0_mem64 rd (fn_write P) p d2 f = Ok (\<lparr> bar_addr = a, bar_size = 2 ^ k \<rparr>, d3)"
    "rd d3 lo = rd (pci_dev b) lo" "rd d3 hi = rd (pci_dev b) hi" "rd d3 cmd AND CMD_BITS = CMD_BITS"
    unfolding assms(10) by (rule configured [OF assms(2-6) k assms(8,9)])
  have al: "2 ^ k dvd unat a" unfolding assms(10) by (rule bar0_base_aligned [OF assms(6) k])
  have "(4096 :: nat) dvd 2 ^ k" using le_imp_power_dvd [OF assms(7), of "2 :: nat"] by simp
  then have pa: "4096 dvd unat a" using al by (rule dvd_trans)
  have sz: "unat ((2 :: u64) ^ k) = 2 ^ k" using k(2) by (simp add: unat_push_bit_nowrap [of 1 k, simplified])
  have "room (heap (machine s)) (TABLE_ROOM * tables_left 3 (page_of a)
      (page_of a + (unat ((2 :: u64) ^ k) - 1) div 4096) + controller_room cap ps)"
    using assms(17) by (simp add: sz bar0_room_def)
  from disable_cache_room [OF assms(16) pa _ _ this] assms(11) sz obtain s1 where
    s1: "disable_cache a (2 ^ k) s = Ok s1" "cr3 s1 = cr3 s" "room (heap (machine s1)) (controller_room cap ps)"
      "remapped s s1 (page_of a) (max 1 ((2 ^ k + 4095) div 4096)) ReadWriteIo" by auto
  have wf1: "wf_tables (machine s1) (cr3 s1)" using s1(4) by (simp add: remapped_def)
  let ?regs = "setup_xhc_registers a cap" and ?op = "fn_op P d3 (a + ucast (caplength cap))"
    and ?rt = "fn_rt P d3 (a + ucast (rtsoff cap))"
  obtain xhc s2 where x: "Controller_new (fn_polls P) (fn_answer P) ?regs cap ?op ?rt s1 = Ok (xhc, s2)"
    "programmed xhc" "xhc_regs xhc = ?regs" "io_pages s1 (ring_pages xhc) s2"
    using Controller_new_starts [where R = 0 and cap = cap and regs = ?regs, OF assms(15) assms(14) [of d3] assms(13) [of d3] wf1]
      s1(3) by auto
  obtain g where g: "spawn_global ''src/xhci.rs'' 107 xhc (global_executor b) = Ok g" "\<not> is_taken g"
    "waiting g = waiting (global_executor b) @ [Task_new ''src/xhci.rs'' 107 xhc]"
    using spawn_global_free [OF assms(18)] by blast
  have run: "PciXhciDriver_attach P p f (s, b) = (Ok (), (s2, b\<lparr>pci_dev := d3, global_executor := g\<rparr>))"
    using d(1-3) s1(1) x(1) g(1) assms(12)
    by (simp add: PciXhciDriver_attach_def rd_def BarMem64_disable_cache_eq setup_xhc_registers_def Let_def)
  have "if in_bar0 a k v \<or> page_of v \<in> page_of ` set (ring_pages xhc)
      then translate s2 v = Some v \<and> cache_disabled s2 v \<and> writable_page s2 v
      else translate s2 v = translate s v \<and> cache_disabled s2 v = cache_disabled s v" if v: "unat v < 2 ^ 48" for v
    using remapped_translate [OF s1(4) v] x(4) v unfolding io_pages_def in_bar0_pages [OF al assms(7)]
    by (cases "page_of v \<in> page_of ` set (ring_pages xhc)") (auto simp del: max.bounded_iff)
  moreover have "cr3 s2 = cr3 s" using x(4) s1(2) by (simp add: io_pages_def)
  moreover have "wf_tables (machine s2) (cr3 s2)" using x(4) unfolding io_pages_def by blast
  ultimately show ?thesis using run d(4-6) g(2,3) x(2,3) by fastforce
qed

text \<open>The BAR of \<open>Pci_Config\<close>'s sample with a command register beside it, at function 1 of device 1 of bus 0.\<close>

definition sample_cmd :: u64 where "sample_cmd = 0xB0008004"

definition fn_rd :: "(u64 \<times> unit) \<times> u32 \<Rightarrow> u64 \<Rightarrow> u32" where
  "fn_rd d a = (if a = sample_cmd then snd d else sample_rd (fst d) a)"

definition fn_wr :: "(u64 \<times> unit) \<times> u32 \<Rightarrow> u64 \<Rightarrow> u32 \<Rightarrow> (u64 \<times> unit) \<times> u32" where
  "fn_wr d a v = (if a = sample_cmd then (fst d, v) else (sample_wr (fst d) a v, snd d))"

definition sample_fn :: "((u64 \<times> unit) \<times> u32) XhciFunction" where
  "sample_fn = \<lparr> fn_read = fn_rd, fn_write = fn_wr, fn_cap = (\<lambda>_ _. sample_cap), fn_op = (\<lambda>_ _. sample_op),
     fn_rt = (\<lambda>_ _. [\<lparr> management = 0, moderation = 0, erst_size = 0, erst_base = 0, irs_erdp = 0 \<rparr>]),
     fn_answer = prompt_hw, fn_polls = 2 \<rparr>"

lemma sample_fn_simps [simp]:
  "fn_read sample_fn = fn_rd" "fn_write sample_fn = fn_wr" "fn_cap sample_fn = (\<lambda>_ _. sample_cap)"
  "fn_op sample_fn = (\<lambda>_ _. sample_op)" "fn_answer sample_fn = prompt_hw" "fn_polls sample_fn = 2"
  "fn_rt sample_fn d a \<noteq> []"
  by (simp_all add: sample_fn_def)

lemma sample_addresses:
  "sample_lo \<noteq> sample_cmd" "sample_cmd \<noteq> sample_lo" "0xB0008014 \<noteq> sample_cmd" "sample_cmd \<noteq> 0xB0008014"
  by (simp_all add: sample_lo_def sample_cmd_def)

lemma sample_fn_registers:
  "bar0_register fn_rd fn_wr sample_lo 0xB0008014 14" "command_register fn_rd fn_wr sample_cmd sample_lo 0xB0008014"
proof -
  show "bar0_register fn_rd fn_wr sample_lo 0xB0008014 14"
    unfolding bar0_register_def fn_rd_def fn_wr_def
    by (simp only: sample_addresses if_False fst_conv snd_conv simp_thms sample_bar [unfolded bar0_register_def])
  show "command_register fn_rd fn_wr sample_cmd sample_lo 0xB0008014"
    unfolding command_register_def fn_rd_def fn_wr_def
    by (simp only: sample_addresses if_False if_True fst_conv snd_conv refl simp_thms)
qed

definition sample_state :: "((u64 \<times> unit) \<times> u32) XhciState" where
  "sample_state = \<lparr> pci_dev = ((0xC0000000, ()), 0), global_executor = \<lparr> mutex_data = None, is_taken = False,
     taker_line_num = 0, created_at_file = [], created_at_line = 0 \<rparr> \<rparr>"

theorem attach_starts_controller_witness:
  "\<exists>xhc s' b'. PciXhciDriver_attach sample_fn sample_pci \<lparr> bdf_id = 8 \<rparr>
      (\<lparr> cr3 = 0x2000, machine = roomy \<rparr>, sample_state) = (Ok (), (s', b')) \<and> programmed xhc \<and>
    translate s' 0xC0001234 = Some 0xC0001234 \<and> cache_disabled s' 0xC0001234"
proof -
  have l: "fn_rd (pci_dev sample_state) sample_lo = 0xC0000004" "fn_rd (pci_dev sample_state) 0xB0008014 = 0"
    by (simp_all add: fn_rd_def sample_addresses sample_state_def sample_rd_def)
      (simp_all add: sample_lo_def mask_eq_exp_minus_1)
  have a: "0xC0000000 = bar0_base fn_rd sample_lo 0xB0008014 (pci_dev sample_state)"
    by (simp add: bar0_base_def l)
  have t: "page_of (0xC0000000 :: u64) = 786432" by (simp add: page_of_def)
  have p: "(786432 :: nat) + (2 ^ 14 - 1) div 4096 = 786435" by simp
  have "tables_left (Suc (Suc (Suc 0))) 786432 786435 = 3" by simp
  then have tl: "bar0_room 0xC0000000 14 = TABLE_ROOM * 3"
    unfolding bar0_room_def t p by (simp only: numeral_3_eq_3)
  have r: "room (heap roomy) (bar0_room 0xC0000000 14 + controller_room sample_cap 4096)"
    unfolding tl controller_room_def scratchpad_room_def IO_BOX_ROOM_def TABLE_ROOM_def sample_scratch(2)
    by (rule roomI [OF roomy_repr]) simp_all
  have u: "unat (ecm_start sample_pci) + 2 ^ 28 \<le> 2 ^ 64" "unat sample_lo = register_addr sample_pci \<lparr> bdf_id = 8 \<rparr> 0x10"
    "unat (0xB0008014 :: u64) = register_addr sample_pci \<lparr> bdf_id = 8 \<rparr> 0x14"
    "unat sample_cmd = register_addr sample_pci \<lparr> bdf_id = 8 \<rparr> 4" "\<not> is_taken (global_executor sample_state)"
    by (simp_all add: sample_pci_def register_addr_def sample_lo_def sample_cmd_def sample_state_def)
  obtain xhc s' b' where x: "PciXhciDriver_attach sample_fn sample_pci \<lparr> bdf_id = 8 \<rparr>
      (\<lparr> cr3 = 0x2000, machine = roomy \<rparr>, sample_state) = (Ok (), (s', b'))" "programmed xhc"
    "\<forall>v. unat v < 2 ^ 48 \<longrightarrow>
       (if in_bar0 0xC0000000 14 v \<or> page_of v \<in> page_of ` set (ring_pages xhc)
        then translate s' v = Some v \<and> cache_disabled s' v \<and> writable_page s' v
        else translate s' v = translate \<lparr> cr3 = 0x2000, machine = roomy \<rparr> v \<and>
          cache_disabled s' v = cache_disabled \<lparr> cr3 = 0x2000, machine = roomy \<rparr> v)"
    using attach_starts_controller [where P = sample_fn and b = sample_state and k = 14 and ps = 4096 and
        cap = sample_cap and s = "\<lparr> cr3 = 0x2000, machine = roomy \<rparr>", unfolded sample_fn_simps,
        OF u(1-4) sample_fn_registers(1) _ _ sample_fn_registers(2) a _ refl sample_scratch(1) _ prompt_hw_responsive
          _ _ u(5)] r roomy_wf l(1) by auto
  have "in_bar0 0xC0000000 14 0xC0001234" by (simp add: in_bar0_def)
  with x(3) [THEN spec, of "0xC0001234"] x(1,2) show ?thesis by auto
qed

end
