(* ===== verification/Xhci_Run.thy ===== *)
theory Xhci_Run
  imports Xhci_Bringup Usb_Enumeration
begin

text \<open>
  The task \<open>PciXhciDriver::run\<close> of \<open>src/xhci.rs\<close> as a whole: the choice of a port, the task that polls
  the event ring, the bring-up of the device and its enumeration, with every \<open>await\<close> carried out on the
  rings of \<open>Trb_Ring\<close>. The controller is a parameter that sees the memory of the rings when a doorbell
  rings and sends events. Printing is
  left out.
\<close>

section \<open>The controller and the world of the task\<close>

text \<open>
  What the controller does: its port registers, one step of its own, which sends at most one event, a
  ring of the command doorbell with the memory of the command ring and the input contexts that the
  commands refer to, a ring of a slot's doorbell for its control endpoint with the memory of the transfer
  ring, and the bytes it has written to the buffer of the last transfer.\<close>

record 'h Hardware =
  hw_rd :: "'h \<Rightarrow> u64 \<Rightarrow> u32"
  hw_wr :: "'h \<Rightarrow> u64 \<Rightarrow> u32 \<Rightarrow> 'h"
  hw_step :: "'h \<Rightarrow> GenericTrbEntry option \<times> 'h"
  hw_command :: "TrbRing \<Rightarrow> (u64 \<rightharpoonup> InputContext) \<Rightarrow> 'h \<Rightarrow> 'h"
  hw_bell :: "u8 \<Rightarrow> TrbRing \<Rightarrow> 'h \<Rightarrow> 'h"
  hw_data :: "'h \<Rightarrow> u8 list"

text \<open>
  The state while the tasks run: the controller's driver and hardware, the events sent so far, the next
  identifier of a waiter, and whether the task that polls the event ring is alive.\<close>

record 'h World =
  w_xhc :: Controller
  w_hw :: 'h
  w_events :: "GenericTrbEntry list"
  w_next :: nat
  w_polling :: bool

abbreviation ev_of :: "'h World \<Rightarrow> EventRing" where
  "ev_of w \<equiv> primary_event_ring (w_xhc w)"

definition set_ev :: "EventRing \<Rightarrow> 'h World \<Rightarrow> 'h World" where
  "set_ev er w = w\<lparr>w_xhc := (w_xhc w)\<lparr>primary_event_ring := er\<rparr>\<rparr>"

definition send_event :: "GenericTrbEntry option \<Rightarrow> 'h World \<Rightarrow> 'h World" where
  "send_event e w = (case e of None \<Rightarrow> w
     | Some t \<Rightarrow> (set_ev (hw_write (ev_of w) (length (w_events w)) t) w)
         \<lparr>w_events := w_events w @ [with_cycle (even (length (w_events w) div 16)) t]\<rparr>)"

text \<open>
  One round of the loop of the polling task. An error of the poll ends the task. (A panic would end the
  kernel; the poll panics only while the dequeue pointer register is not set, which \<open>Controller::new\<close> does.)\<close>

definition poll_round :: "'h World \<Rightarrow> 'h World" where
  "poll_round w =
     (if w_polling w then case ev_poll (ev_of w) of Inl _ \<Rightarrow> w\<lparr>w_polling := False\<rparr> | Inr er \<Rightarrow> set_ev er w
      else w)"

text \<open>
  What happens from one poll of the task to the next: by the executor's round robin the polling task
  gets one turn.\<close>

definition turn :: "'h Hardware \<Rightarrow> 'h World \<Rightarrow> 'h World" where
  "turn H w = (case hw_step H (w_hw w) of (e, h) \<Rightarrow> poll_round (send_event e (w\<lparr>w_hw := h\<rparr>)))"

text \<open>The \<open>await\<close> of the \<open>EventFuture\<close> \<open>k\<close>, with at most \<open>n\<close> polls; the future is dropped with its event.\<close>

definition drop_waiter :: "nat \<Rightarrow> EventRing \<Rightarrow> EventRing" where
  "drop_waiter k er = er\<lparr>waiters := (waiters er)(k := None)\<rparr>"

fun await_event :: "nat \<Rightarrow> 'h Hardware \<Rightarrow> nat \<Rightarrow> (GenericTrbEntry, 'h World) task" where
  "await_event 0 H k w = (Inl OutOfFuel, w)"
| "await_event (Suc n) H k w =
     (case EventFuture_poll (ev_of w) k of
        (Some t, er) \<Rightarrow> (Ok t, set_ev (drop_waiter k er) w)
      | (None, er) \<Rightarrow> await_event n H k (turn H (set_ev er w)))"

section \<open>Commands and transfers\<close>

text \<open>\<open>Controller::send_command\<close>, to its result.\<close>

definition run_command ::
  "'h Hardware \<Rightarrow> nat \<Rightarrow> GenericTrbEntry \<Rightarrow> (u64 \<rightharpoonup> InputContext) \<Rightarrow> (GenericTrbEntry, 'h World) task" where
  "run_command H n cmd ctxs w =
     (case send_command (w_next w) cmd (w_xhc w) of Inl e \<Rightarrow> (Inl e, w)
      | Inr (_, xhc) \<Rightarrow> await_event n H (w_next w)
          (w\<lparr>w_xhc := xhc, w_hw := hw_command H (cmd_ring (command_ring xhc)) ctxs (w_hw w),
             w_next := Suc (w_next w)\<rparr>))"

fun has_data_stage :: "ControlRequest \<Rightarrow> bool" where
  "has_data_stage (GetDescriptor _ _ _) = True"
| "has_data_stage (GetInterfaceDescriptor _ _ _) = True"
| "has_data_stage GetReport = True"
| "has_data_stage _ = False"

text \<open>
  A device as the kernel reaches it: the request's blocks on its transfer ring, the doorbell of its slot, the
  \<open>await\<close> of the event, its completion code, and the bytes in the buffer; \<open>bufs\<close> gives the addresses of
  the buffers. A fault leaves the ring as it was: blocks that were queued before \<open>invalid slot\<close> are
  not kept, as every later request to the slot ends with the same fault.\<close>

definition ring_device :: "'h Hardware \<Rightarrow> nat \<Rightarrow> (nat \<Rightarrow> u64) \<Rightarrow> u8 \<Rightarrow> ('h World \<times> CommandRing) device" where
  "ring_device H n bufs slot req len = (\<lambda>(w, ring).
     let k = w_next w; setup = setup_of req len in
     case (if has_data_stage req then control_in k slot ring setup (bufs k) len (w_xhc w)
           else control_no_data k slot ring setup (w_xhc w)) of
       Inl e \<Rightarrow> (Inl e, (w, ring))
     | Inr (_, ring', xhc) \<Rightarrow>
         (case await_event n H k (w\<lparr>w_xhc := xhc, w_hw := hw_bell H slot (cmd_ring ring') (w_hw w), w_next := Suc k\<rparr>) of
            (r, w') \<Rightarrow> (rbind r (\<lambda>t. rbind (transfer_result_ok t) (\<lambda>_.
               Ok (if has_data_stage req then hw_data H (w_hw w') else []))), (w', ring'))))"

section \<open>The task\<close>

definition world_rd :: "'h Hardware \<Rightarrow> 'h World \<Rightarrow> u64 \<Rightarrow> u32" where
  "world_rd H w = hw_rd H (w_hw w)"

definition world_wr :: "'h Hardware \<Rightarrow> 'h World \<Rightarrow> u64 \<Rightarrow> u32 \<Rightarrow> 'h World" where
  "world_wr H w p v = w\<lparr>w_hw := hw_wr H (w_hw w) p v\<rparr>"

definition port_register :: "'h World \<Rightarrow> nat \<Rightarrow> u64 option" where
  "port_register w port = PortSc_get (portsc_ptrs (xhc_regs (w_xhc w))) (word_of_nat port)"

text \<open>A step with its own state; only running out of rounds leaves it without a result.\<close>

definition on_world :: "('h World \<Rightarrow> 'h World res) \<Rightarrow> (unit, 'h World) task" where
  "on_world f = (\<lambda>w. case f w of Inl e \<Rightarrow> (Inl e, w) | Inr w' \<Rightarrow> (Ok (), w'))"

definition init_port :: "'h Hardware \<Rightarrow> nat \<Rightarrow> nat \<Rightarrow> (u8, 'h World) task" where
  "init_port H n port =
     andthen (\<lambda>w. (ok_or (port_register w port) ''invalid portsc'', w)) (\<lambda>p.
     andthen (on_world (reset_port n (world_rd H) (world_wr H) (turn H) p)) (\<lambda>_.
     andthen (\<lambda>w. (if is_enabled (world_rd H) p w then Ok () else err ''port is not enabled'', w)) (\<lambda>_.
     andthen (lift cmd_enable_slot) (\<lambda>cmd.
     andthen (run_command H n cmd Map.empty) (\<lambda>t.
       lift (slot_id t))))))"

text \<open>The boxes of the output context, the input context and the transfer ring of a new device.\<close>

record DeviceBoxes =
  output_box :: u64
  input_box :: u64
  ep_ring_box :: u64

definition address_device ::
  "'h Hardware \<Rightarrow> nat \<Rightarrow> DeviceBoxes \<Rightarrow> nat \<Rightarrow> u8 \<Rightarrow> (CommandRing, 'h World) task" where
  "address_device H n bx port slot =
     andthen (on_world (\<lambda>w. rbind (set_output_context_for_slot slot (output_box bx) (w_xhc w)) (\<lambda>xhc.
       Ok (w\<lparr>w_xhc := xhc\<rparr>)))) (\<lambda>_.
     andthen (lift (CommandRing_default (ep_ring_box bx))) (\<lambda>ctrl_ep_ring.
     andthen (\<lambda>w. (address_device_input port (map_option (world_rd H w) (port_register w port))
                    (ring_addr (cmd_ring ctrl_ep_ring)), w)) (\<lambda>ctx.
     andthen (lift (cmd_address_device (input_box bx) slot)) (\<lambda>cmd.
     andthen (run_command H n cmd [input_box bx \<mapsto> ctx]) (\<lambda>t.
     andthen (lift (cmd_result_ok t)) (\<lambda>_. ret ctrl_ep_ring))))))"

definition with_ring :: "CommandRing \<Rightarrow> ('a, 'h World \<times> CommandRing) task \<Rightarrow> ('a, 'h World) task" where
  "with_ring ring m = (\<lambda>w. case m (w, ring) of (r, (w', _)) \<Rightarrow> (r, w'))"

text \<open>
  \<open>PciXhciDriver::run\<close>: \<open>None\<close> when no port is connected or the device has no strings, else what was
  read of the device and the driver that was started.\<close>

definition PciXhciDriver_run ::
  "'h Hardware \<Rightarrow> nat \<Rightarrow> nat \<Rightarrow> DeviceBoxes \<Rightarrow> (nat \<Rightarrow> u64) \<Rightarrow>
   ((DeviceStrings \<times> UsbDescriptor list \<times> UsbDriver) option, 'h World) task" where
  "PciXhciDriver_run H n fuel bx bufs = (\<lambda>w.
     let port = connected_port (world_rd H) (portsc_ptrs (xhc_regs (w_xhc w))) w;
         w = w\<lparr>w_polling := True\<rparr>
     in case port of None \<Rightarrow> (Ok None, w)
        | Some port \<Rightarrow>
            andthen (init_port H n port) (\<lambda>slot.
            andthen (address_device H n bx port slot) (\<lambda>ctrl_ep_ring.
              with_ring ctrl_ep_ring (enumerate_device fuel (ring_device H n bufs slot)))) w)"

end
