(* ===== verification/Xhci_Refine.thy ===== *)
theory Xhci_Refine
  imports Xhci_Run
begin

text \<open>
  Control transfers on the rings refine requests to a device: while the polling task gets its turns, the
  event ring is taken empty and an awaited event arrives; the blocks of a transfer are found by the
  controller where it has got to on the ring; and tasks composed of transfers, such as the enumeration and the
  two drivers, do on the rings what they do on the device.
\<close>

section \<open>The event ring while the task polls it\<close>

lemma ev_run_inv_waiters:
  "ev_run_inv (er\<lparr>waiters := ws, wait_list := l\<rparr>) es ps = ev_run_inv er es ps"
  "ev_run_inv (er\<lparr>waiters := ws\<rparr>) es ps = ev_run_inv er es ps"
  "ev_run_inv (er\<lparr>wait_list := l\<rparr>) es ps = ev_run_inv er es ps"
  by (simp_all add: ev_run_inv_def evq.taken_def ev_inv_def ev_slot_def [abs_def])

text \<open>All events are taken, and identifiers from the next one on are unused.\<close>

definition listening :: "'h World \<Rightarrow> bool" where
  "listening w \<longleftrightarrow> w_polling w \<and> ev_run_inv (ev_of w) (w_events w) (w_events w) \<and>
     (\<forall>k \<ge> w_next w. waiters (ev_of w) k = None \<and> k \<notin> set (wait_list (ev_of w)))"

text \<open>Only the hardware, the event ring and the events sent differ.\<close>

definition same_driver :: "'h World \<Rightarrow> 'h World \<Rightarrow> bool" where
  "same_driver w w' \<longleftrightarrow> (\<exists>er. w_xhc w' = (w_xhc w)\<lparr>primary_event_ring := er\<rparr>) \<and> w_next w' = w_next w"

lemma same_driver_refl: "same_driver w w"
  unfolding same_driver_def by (intro conjI exI [of _ "ev_of w"]) simp_all

lemma same_driver_trans: "same_driver w w' \<Longrightarrow> same_driver w' w'' \<Longrightarrow> same_driver w w''"
  by (auto simp: same_driver_def)

lemma same_driverI: "w_xhc w' = (w_xhc w)\<lparr>primary_event_ring := er\<rparr> \<Longrightarrow> w_next w' = w_next w \<Longrightarrow> same_driver w w'"
  by (auto simp: same_driver_def)

lemma turn_spec:
  assumes "listening w" and "hw_step H (w_hw w) = (e, h)"
  shows "listening (turn H w) \<and> w_hw (turn H w) = h \<and> same_driver w (turn H w) \<and>
    (\<forall>k. waiters (ev_of (turn H w)) k = (case e of None \<Rightarrow> waiters (ev_of w) k
       | Some t \<Rightarrow> map_option (delivered (with_cycle (even (length (w_events w) div 16)) t)
           (count_list (wait_list (ev_of w)) k)) (waiters (ev_of w) k))) \<and>
    wait_list (ev_of (turn H w)) = (case e of None \<Rightarrow> wait_list (ev_of w)
       | Some t \<Rightarrow> filter (\<lambda>k. waiters (ev_of w) k \<noteq> None) (wait_list (ev_of w)))"
proof (cases e)
  case None
  have "ev_pop (ev_of w) = Ok (None, ev_of w)"
    using assms(1) ev_run_inv_pop [of "ev_of w" "w_events w" "w_events w"] by (simp add: listening_def)
  then have "ev_poll (ev_of w) = Ok (ev_of w)" by (simp add: ev_poll_def)
  with assms None have "turn H w = w\<lparr>w_hw := h\<rparr>"
    by (simp add: turn_def send_event_def poll_round_def listening_def set_ev_def)
  moreover have "same_driver w (w\<lparr>w_hw := h\<rparr>)" by (rule same_driverI [where er = "ev_of w"]) simp_all
  ultimately show ?thesis using assms(1) None by (simp add: listening_def)
next
  case (Some t)
  let ?er = "ev_of w" and ?t = "with_cycle (even (length (w_events w) div 16)) t"
  let ?er1 = "hw_write ?er (length (w_events w)) t"
  have inv: "ev_run_inv ?er (w_events w) (w_events w)" using assms(1) by (simp add: listening_def)
  have "ev_run_inv ?er1 (w_events w @ [?t]) (w_events w)" by (rule hw_write_inv [OF inv]) simp
  from ev_run_inv_pop [OF this] obtain s' where s': "ev_pop ?er1 = Ok (Some ?t, s')"
    "ev_run_inv s' (w_events w @ [?t]) (w_events w @ [?t])" by auto
  have s'w: "waiters s' = waiters ?er" "wait_list s' = wait_list ?er"
    using ev_pop_waiters [OF s'(1)] by (simp_all add: hw_write_def)
  show ?thesis
    using assms Some s'(2) s'w ev_poll_eq [OF s'(1)]
    by (auto simp: turn_def send_event_def poll_round_def listening_def set_ev_def same_driver_def
        ev_run_inv_waiters)
qed

section \<open>Awaiting an event\<close>

text \<open>The first event for the block at \<open>p\<close> that the controller sends within \<open>n\<close> steps.\<close>

fun emits :: "'h Hardware \<Rightarrow> nat \<Rightarrow> u64 \<Rightarrow> 'h \<Rightarrow> (GenericTrbEntry \<times> 'h) option" where
  "emits H 0 p h = None"
| "emits H (Suc n) p h = (case hw_step H h of
     (Some t, h') \<Rightarrow> if trb_data t = p then Some (t, h') else emits H n p h'
   | (None, h') \<Rightarrow> emits H n p h')"

definition waits :: "nat \<Rightarrow> u64 \<Rightarrow> 'h World \<Rightarrow> bool" where
  "waits k p w \<longleftrightarrow> k < w_next w \<and> count_list (wait_list (ev_of w)) k = 1 \<and> waiters (ev_of w) k =
     Some \<lparr> wait_cond = \<lparr> cond_trb_type = None, cond_trb_addr = Some p, cond_slot = None \<rparr>, wait_trbs = [] \<rparr>"

lemma set_ev_simps [simp]:
  "ev_of (set_ev er w) = er" "w_hw (set_ev er w) = w_hw w" "w_events (set_ev er w) = w_events w"
  "w_next (set_ev er w) = w_next w" "w_polling (set_ev er w) = w_polling w"
  "set_ev (ev_of w) w = w"
  by (simp_all add: set_ev_def)

lemma count_list_filter: "P k \<Longrightarrow> count_list (filter P l) k = count_list l k"
  by (induction l) auto

lemma same_driver_set_ev: "same_driver w w' \<Longrightarrow> same_driver w (set_ev er w')"
  by (auto simp: same_driver_def set_ev_def)

lemma listening_drop:
  "listening w \<Longrightarrow> listening (set_ev (drop_waiter k (ev_of w\<lparr>waiters := (waiters (ev_of w))(k \<mapsto> i)\<rparr>)) w)"
  by (simp add: listening_def drop_waiter_def ev_run_inv_waiters)

lemma await_event_gets:
  assumes "listening w" "waits k p w" "emits H n p (w_hw w) = Some (t, h)"
  shows "\<exists>w' c. await_event (Suc n) H k w = (Ok (with_cycle c t), w') \<and> listening w' \<and> w_hw w' = h \<and>
    same_driver w w'"
  using assms
proof (induction n arbitrary: w)
  case (Suc n)
  obtain e h1 where s: "hw_step H (w_hw w) = (e, h1)" by force
  note l = turn_spec [where H = H, OF Suc.prems(1) s]
  have step: "await_event (Suc (Suc n)) H k w = await_event (Suc n) H k (turn H w)"
    by (subst await_event.simps(2)) (use Suc.prems(2) in \<open>simp add: waits_def EventFuture_poll_def del: await_event.simps\<close>)
  show ?case
  proof (cases "\<exists>t'. e = Some t' \<and> trb_data t' = p")
    case True
    then have e: "e = Some t" "h = h1" "trb_data t = p" using Suc.prems(3) s by auto
    let ?t = "with_cycle (even (length (w_events w) div 16)) t"
    let ?w = "turn H w" and ?i = "\<lparr> wait_cond = \<lparr> cond_trb_type = None, cond_trb_addr = Some p, cond_slot = None \<rparr>, wait_trbs = [?t] \<rparr>"
    have "waiters (ev_of ?w) k = Some ?i"
      using l Suc.prems(2) e by (simp add: waits_def delivered_def cond_holds_def)
    then have "await_event (Suc n) H k ?w = (Ok ?t, set_ev (drop_waiter k (ev_of ?w\<lparr>waiters := (waiters (ev_of ?w))(k \<mapsto> ?i\<lparr>wait_trbs := []\<rparr>)\<rparr>)) ?w)"
      by (simp add: EventFuture_poll_def)
    moreover have "listening (set_ev (drop_waiter k (ev_of ?w\<lparr>waiters := (waiters (ev_of ?w))(k \<mapsto> ?i\<lparr>wait_trbs := []\<rparr>)\<rparr>)) ?w)"
      using l listening_drop by blast
    ultimately show ?thesis
      using l e same_driver_set_ev unfolding step by (metis set_ev_simps(2))
  next
    case False
    have "waits k p (turn H w)"
    proof (cases e)
      case None
      then show ?thesis using l Suc.prems(2) by (auto simp: waits_def same_driver_def)
    next
      case (Some t')
      with False have "trb_data t' \<noteq> p" by simp
      then show ?thesis using l Suc.prems(2) Some
        by (auto simp: waits_def same_driver_def delivered_def cond_holds_def count_list_filter)
    qed
    moreover have "emits H n p (w_hw (turn H w)) = Some (t, h)"
      using Suc.prems(3) s False l by (auto split: option.splits)
    ultimately show ?thesis using Suc.IH [of "turn H w"] l same_driver_trans by (metis step)
  qed
qed simp

declare await_event.simps [simp del]

section \<open>The transfer ring\<close>

text \<open>The blocks \<open>xs\<close> have been pushed on the ring since it was made.\<close>

definition ring_holds :: "CommandRing \<Rightarrow> GenericTrbEntry list \<Rightarrow> bool" where
  "ring_holds ring xs \<longleftrightarrow> cmd_inv ring \<and> cmdq.holds (cmd_slot ring) xs \<and>
     current_index (cmd_ring ring) = length xs mod 15 \<and>
     (\<not> cmd_cycle_state_ours ring) = even (length xs div 15)"

lemma ring_holds_default:
  "\<exists>ring. CommandRing_default addr = Ok ring \<and> ring_holds ring [] \<and> ring_addr (cmd_ring ring) = addr"
proof -
  from CommandRing_default_inv obtain s where s: "CommandRing_default addr = Ok s" "cmd_inv s"
    "current_index (cmd_ring s) = 0" "\<not> cmd_cycle_state_ours s" "ring_addr (cmd_ring s) = addr" by blast
  then have "cmdq.holds (cmd_slot s) []"
    by (intro cmdq.holds_initial) (auto simp: cmd_inv_def Let_def cmd_slot_def)
  with s show ?thesis by (auto simp: ring_holds_def)
qed

abbreviation block_addr :: "CommandRing \<Rightarrow> nat \<Rightarrow> u64" where
  "block_addr ring c \<equiv> ring_addr (cmd_ring ring) + 16 * word_of_nat (c mod 15)"

lemma push_holds:
  assumes "ring_holds ring xs" "\<not> is_link t"
  shows "\<exists>ring'. cmd_push ring t = Ok (block_addr ring (length xs), ring') \<and>
    ring_holds ring' (xs @ [with_cycle (even (length xs div 15)) t]) \<and>
    ring_addr (cmd_ring ring') = ring_addr (cmd_ring ring)"
proof -
  let ?t = "with_cycle (even (length xs div 15)) t"
  from assms have r: "cmd_inv ring" "cmdq.holds (cmd_slot ring) xs" "current_index (cmd_ring ring) = length xs mod 15"
    "(\<not> cmd_cycle_state_ours ring) = even (length xs div 15)" by (simp_all add: ring_holds_def)
  from cmdq.put_law [OF r(1) assms(2)] obtain ring' where
    p: "cmd_push ring t = Ok (trb_ptr ring (current_index (cmd_ring ring)), ring')" "cmd_inv ring'"
      "trb_ptr ring' = trb_ptr ring"
    and sl: "\<forall>i < 15. cmd_slot ring' i = (if i = current_index (cmd_ring ring)
        then with_cycle (\<not> cmd_cycle_state_ours ring) t else cmd_slot ring i)"
    and pos: "current_index (cmd_ring ring') = (if Suc (current_index (cmd_ring ring)) = 15 then 0
        else Suc (current_index (cmd_ring ring)))"
    and ph: "(\<not> cmd_cycle_state_ours ring') = (if Suc (current_index (cmd_ring ring)) = 15
        then \<not> \<not> cmd_cycle_state_ours ring else \<not> cmd_cycle_state_ours ring)" by blast
  have "cmdq.holds ((cmd_slot ring)(length xs mod 15 := ?t)) (xs @ [?t])"
    using r(2) by (intro cmdq.holds_snoc) simp_all
  moreover have "cmd_slot ring' (k mod 15) = ((cmd_slot ring)(length xs mod 15 := ?t)) (k mod 15)" for k
    using sl r(3,4) by simp
  ultimately have "cmdq.holds (cmd_slot ring') (xs @ [?t])" by (simp add: cmdq.holds_def)
  moreover have "ring_addr (cmd_ring ring') = ring_addr (cmd_ring ring)"
    using fun_cong [OF p(3), of 0] by (simp add: trb_ptr_def)
  ultimately show ?thesis
    using p r(3,4) pos ph cmdq.step_counter [of "length xs"] by (auto simp: ring_holds_def trb_ptr_def)
qed

text \<open>
  What a controller finds that has taken \<open>c\<close> blocks: at most \<open>n\<close> blocks, as long as the cycle bit is the
  one of the lap. It follows the link block to the beginning and flips its cycle state there (4.9.2 of
  the xHCI specification).\<close>

fun fetch :: "nat \<Rightarrow> TrbRing \<Rightarrow> nat \<Rightarrow> GenericTrbEntry list" where
  "fetch 0 r c = []"
| "fetch (Suc n) r c = (let t = trb r ! (c mod 15) in
     if has_cycle t = even (c div 15) then t # fetch n r (Suc c) else [])"

lemma fetch_holds:
  assumes "ring_holds ring xs" "c \<le> length xs" "length xs \<le> c + 15"
  shows "fetch n (cmd_ring ring) c = take n (drop c xs)"
  using assms(2,3)
proof (induction n arbitrary: c)
  case (Suc n)
  have h: "cmdq.holds (cmd_slot ring) xs" using assms(1) by (simp add: ring_holds_def)
  show ?case
  proof (cases "c < length xs")
    case True
    with cmdq.holds_fetch [OF h Suc.prems] Suc show ?thesis
      by (simp add: cmd_slot_def Let_def Cons_nth_drop_Suc [symmetric])
  next
    case False
    with cmdq.holds_fetch [OF h Suc.prems] show ?thesis by (simp add: cmd_slot_def Let_def)
  qed
qed simp

section \<open>Control transfers\<close>

text \<open>
  The transfers that the driver makes: a setup block with the packet in it, then a data and a status block
  or only a status block. The second block asks for an event and goes from the device to the host.\<close>

definition control_td :: "GenericTrbEntry list \<Rightarrow> bool" where
  "control_td ts \<longleftrightarrow> (map type_field ts = [2, 3, 4] \<or> map type_field ts = [2, 4]) \<and>
     bit (trb_control (ts ! 0)) 6 \<and> bit (trb_control (ts ! 1)) 5 \<and> bit (trb_control (ts ! 1)) 16"

text \<open>
  A device sees of a request the eight bytes of its setup packet: it answers with bytes, or with nothing
  when it stalls the pipe.\<close>

definition packet :: "ControlRequest \<Rightarrow> nat \<Rightarrow> u64" where
  "packet req len = trb_data (setup_to_generic (setup_of req len))"

definition packet_device :: "(u64 \<Rightarrow> 's \<Rightarrow> u8 list option \<times> 's) \<Rightarrow> 's device" where
  "packet_device reply req len s = (case reply (packet req len) s of
     (None, s') \<Rightarrow> (err ''CompletionCode was not Success'', s')
   | (Some bs, s') \<Rightarrow> (Ok (if has_data_stage req then bs else []), s'))"

text \<open>
  The controller carries out the control transfers of a slot (4.11.2.2 of the xHCI specification): when the doorbell
  rings and it finds a transfer where it has got to on the ring, it passes the packet to the device, goes by
  the stages that follow (not by the transfer type of the setup block), writes what the device sends to
  the buffer, and within \<open>n\<close> steps sends the event of the second block, with the code of
  success or of a short packet exactly when the device answered. \<open>deq\<close> counts the blocks it has taken
  and \<open>usb\<close> is the device's state.\<close>

definition executes ::
  "'h Hardware \<Rightarrow> nat \<Rightarrow> u8 \<Rightarrow> ('h \<Rightarrow> nat) \<Rightarrow> ('h \<Rightarrow> 's) \<Rightarrow> (u64 \<Rightarrow> 's \<Rightarrow> u8 list option \<times> 's) \<Rightarrow> bool" where
  "executes H n slot deq usb reply \<longleftrightarrow> (\<forall>h ring ts. fetch 15 ring (deq h) = ts \<longrightarrow> control_td ts \<longrightarrow>
     (\<exists>t h' ans. emits H n (ring_addr ring + 16 * word_of_nat (Suc (deq h) mod 15)) (hw_bell H slot ring h) = Some (t, h') \<and>
        deq h' = deq h + length ts \<and> reply (trb_data (ts ! 0)) (usb h) = (ans, usb h') \<and>
        type_field t = trb_type_value TransferEvent \<and>
        (completion_code t \<in> {Ok 1, Ok 13} \<longleftrightarrow> ans \<noteq> None) \<and>
        (length ts = 3 \<longrightarrow> ans \<noteq> None \<longrightarrow> ans = Some (hw_data H h'))))"

definition usb_link :: "u8 \<Rightarrow> ('h \<Rightarrow> nat) \<Rightarrow> 'h World \<times> CommandRing \<Rightarrow> bool" where
  "usb_link slot deq = (\<lambda>(w, ring). listening w \<and>
     (\<exists>xs. ring_holds ring xs \<and> deq (w_hw w) = length xs) \<and>
     unat slot < length (doorbell_ptrs (xhc_regs (w_xhc w))))"

lemma setup_of_new: "\<exists>a b c d l. setup_of req len = SetupStageTrb_new a b c d l"
  by (cases req) (simp only: setup_of.simps, blast)+

lemma bit_with_cycle: "0 < n \<Longrightarrow> bit (trb_control (with_cycle c t)) n = bit (trb_control t) n"
  by (auto simp: with_cycle_def bit_simps dest: bit_imp_le_length)

lemma stage_fields:
  "type_field (setup_to_generic (setup_of req len)) = 2" "bit (trb_control (setup_to_generic (setup_of req len))) 6"
  "type_field (DataStageTrb_new_in b n) = 3" "bit (trb_control (DataStageTrb_new_in b n)) 5" "bit (trb_control (DataStageTrb_new_in b n)) 16"
  "type_field StatusStageTrb_new_out = 4"
  "type_field StatusStageTrb_new_in = 4" "bit (trb_control StatusStageTrb_new_in) 5" "bit (trb_control StatusStageTrb_new_in) 16"
  using setup_of_new [of req len]
  by (auto simp: setup_to_generic_def SetupStageTrb_new_def DataStageTrb_new_in_def StatusStageTrb_new_out_def
      StatusStageTrb_new_in_def type_field_def Let_def CTRL_BIT_IMMEDIATE_DATA_def CTRL_BIT_DATA_DIR_IN_def
      CTRL_BIT_INTERRUPT_ON_COMPLETION_def CTRL_BIT_INTERRUPT_ON_SHORT_PACKET_def)

text \<open>Two or three blocks pushed one after the other.\<close>

lemma push_two:
  assumes "ring_holds ring xs" "\<not> is_link a" "\<not> is_link b"
  shows "\<exists>p r1 r2 c d. cmd_push ring a = Ok (p, r1) \<and> cmd_push r1 b = Ok (block_addr ring (Suc (length xs)), r2) \<and>
    ring_holds r2 (xs @ [with_cycle c a, with_cycle d b]) \<and> ring_addr (cmd_ring r2) = ring_addr (cmd_ring ring)"
proof -
  from push_holds [OF assms(1,2)] obtain r1 where r1: "cmd_push ring a = Ok (block_addr ring (length xs), r1)"
    "ring_holds r1 (xs @ [with_cycle (even (length xs div 15)) a])" "ring_addr (cmd_ring r1) = ring_addr (cmd_ring ring)" by blast
  from push_holds [OF r1(2) assms(3)] r1 show ?thesis by (fastforce simp del: One_nat_def)
qed

lemma control_in_queues:
  assumes "ring_holds ring xs" "unat slot < length (doorbell_ptrs (xhc_regs x))"
  shows "\<exists>ring' ts x'. control_in k slot ring (setup_of req len) b len x = Ok (block_addr ring (Suc (length xs)), ring',
      wait_for_trb k (block_addr ring (Suc (length xs))) x') \<and> xhc_regs x' = xhc_regs x \<and>
    primary_event_ring x' = primary_event_ring x \<and>
    ring_holds ring' (xs @ ts) \<and> length ts = 3 \<and> control_td ts \<and> trb_data (ts ! 0) = packet req len \<and>
    ring_addr (cmd_ring ring') = ring_addr (cmd_ring ring)"
proof -
  let ?a = "setup_to_generic (setup_of req len)" and ?b = "DataStageTrb_new_in b len"
  have nl: "\<not> is_link ?a" "\<not> is_link ?b" "\<not> is_link StatusStageTrb_new_out" by (simp_all add: stage_fields)
  from push_two [OF assms(1) nl(1,2)] obtain p r1 r2 c d where
    p: "cmd_push ring ?a = Ok (p, r1)" "cmd_push r1 ?b = Ok (block_addr ring (Suc (length xs)), r2)"
      "ring_holds r2 (xs @ [with_cycle c ?a, with_cycle d ?b])" "ring_addr (cmd_ring r2) = ring_addr (cmd_ring ring)" by blast
  from push_holds [OF p(3) nl(3)] obtain q r3 e where
    q: "cmd_push r2 StatusStageTrb_new_out = Ok (q, r3)"
      "ring_holds r3 ((xs @ [with_cycle c ?a, with_cycle d ?b]) @ [with_cycle e StatusStageTrb_new_out])"
      "ring_addr (cmd_ring r3) = ring_addr (cmd_ring r2)" by blast
  let ?ts = "[with_cycle c ?a, with_cycle d ?b, with_cycle e StatusStageTrb_new_out]"
  have "control_td ?ts" by (simp add: control_td_def stage_fields bit_with_cycle)
  moreover have "notify_ep slot 1 x = Ok (ring_doorbell (unat slot) 1 0 x)" using assms(2) by (simp add: notify_ep_def)
  ultimately show ?thesis
    using p q
    by (intro exI [of _ r3] exI [of _ ?ts] exI [of _ "ring_doorbell (unat slot) 1 0 x"])
      (simp add: control_in_def packet_def ring_doorbell_def)
qed

lemma control_no_data_queues:
  assumes "ring_holds ring xs" "unat slot < length (doorbell_ptrs (xhc_regs x))"
  shows "\<exists>ring' ts x'. control_no_data k slot ring (setup_of req len) x = Ok (block_addr ring (Suc (length xs)), ring',
      wait_for_trb k (block_addr ring (Suc (length xs))) x') \<and> xhc_regs x' = xhc_regs x \<and>
    primary_event_ring x' = primary_event_ring x \<and>
    ring_holds ring' (xs @ ts) \<and> length ts = 2 \<and> control_td ts \<and> trb_data (ts ! 0) = packet req len \<and>
    ring_addr (cmd_ring ring') = ring_addr (cmd_ring ring)"
proof -
  let ?a = "setup_to_generic (setup_of req len)"
  have nl: "\<not> is_link ?a" "\<not> is_link StatusStageTrb_new_in" by (simp_all add: stage_fields)
  from push_two [OF assms(1) nl] obtain p r1 r2 c d where
    p: "cmd_push ring ?a = Ok (p, r1)" "cmd_push r1 StatusStageTrb_new_in = Ok (block_addr ring (Suc (length xs)), r2)"
      "ring_holds r2 (xs @ [with_cycle c ?a, with_cycle d StatusStageTrb_new_in])"
      "ring_addr (cmd_ring r2) = ring_addr (cmd_ring ring)" by blast
  let ?ts = "[with_cycle c ?a, with_cycle d StatusStageTrb_new_in]"
  have "control_td ?ts" by (simp add: control_td_def stage_fields bit_with_cycle)
  moreover have "notify_ep slot 1 x = Ok (ring_doorbell (unat slot) 1 0 x)" using assms(2) by (simp add: notify_ep_def)
  ultimately show ?thesis
    using p
    by (intro exI [of _ r2] exI [of _ ?ts] exI [of _ "ring_doorbell (unat slot) 1 0 x"])
      (simp add: control_no_data_def packet_def ring_doorbell_def)
qed

text \<open>A transfer that is queued and announced is awaited to its event.\<close>

lemma listening_wait:
  assumes "listening w" and "primary_event_ring x = ev_of w"
  shows "listening (w\<lparr>w_xhc := wait_for_trb (w_next w) p x, w_hw := h, w_next := Suc (w_next w)\<rparr>)"
    and "waits (w_next w) p (w\<lparr>w_xhc := wait_for_trb (w_next w) p x, w_hw := h, w_next := Suc (w_next w)\<rparr>)"
  using assms
  by (auto simp: listening_def waits_def wait_for_trb_def EventFuture_new_for_trb_def EventFuture_new_def
      register_waiter_def ev_run_inv_waiters)

lemma await_new_event:
  assumes "listening w" "primary_event_ring x = ev_of w" "emits H n p h = Some (t, h')"
  shows "\<exists>w' c er. await_event (Suc n) H (w_next w)
      (w\<lparr>w_xhc := wait_for_trb (w_next w) p x, w_hw := h, w_next := Suc (w_next w)\<rparr>) = (Ok (with_cycle c t), w') \<and>
    listening w' \<and> w_hw w' = h' \<and> w_xhc w' = x\<lparr>primary_event_ring := er\<rparr>"
  using await_event_gets [where H = H, OF listening_wait [OF assms(1,2), where p = p and h = h]] assms(3)
  by (fastforce simp: same_driver_def wait_for_trb_def)

lemma transfer_result_cases:
  assumes "type_field t = trb_type_value TransferEvent"
  shows "transfer_result_ok t = (if completion_code t \<in> {Ok 1, Ok 13} then Ok () else err ''CompletionCode was not Success'')"
  using assms by (simp add: transfer_result_ok_def completion_code_def read_bits_eq)

lemma ring_device_transfer:
  assumes "executes H n slot deq usb reply" and "usb_link slot deq (w, ring)"
  shows "\<exists>r w' ring'. ring_device H (Suc n) bufs slot req len (w, ring) = (r, (w', ring')) \<and>
    usb_link slot deq (w', ring') \<and> packet_device reply req len (usb (w_hw w)) = (r, usb (w_hw w'))"
proof -
  from assms(2) obtain xs where l: "listening w" "ring_holds ring xs" "deq (w_hw w) = length xs"
    "unat slot < length (doorbell_ptrs (xhc_regs (w_xhc w)))" by (auto simp: usb_link_def)
  let ?p = "block_addr ring (Suc (length xs))" and ?d = "has_data_stage req"
  obtain ring' ts x where q: "(if ?d then control_in (w_next w) slot ring (setup_of req len) (bufs (w_next w)) len (w_xhc w)
      else control_no_data (w_next w) slot ring (setup_of req len) (w_xhc w)) = Ok (?p, ring', wait_for_trb (w_next w) ?p x)"
    "xhc_regs x = xhc_regs (w_xhc w)" "primary_event_ring x = ev_of w" "ring_holds ring' (xs @ ts)"
    "length ts = (if ?d then 3 else 2)" "control_td ts" "trb_data (ts ! 0) = packet req len"
    "ring_addr (cmd_ring ring') = ring_addr (cmd_ring ring)"
    using control_in_queues [OF l(2,4)] control_no_data_queues [OF l(2,4)] by (cases ?d) (simp; metis)+
  have "fetch 15 (cmd_ring ring') (deq (w_hw w)) = ts"
    using fetch_holds [OF q(4), of "length xs" 15] q(5) l(3) by (auto split: if_splits)
  with assms(1) q(6) obtain t h ans where
    e: "emits H n (ring_addr (cmd_ring ring') + 16 * word_of_nat (Suc (length xs) mod 15))
        (hw_bell H slot (cmd_ring ring') (w_hw w)) = Some (t, h)" "deq h = length xs + length ts"
      "reply (packet req len) (usb (w_hw w)) = (ans, usb h)" "type_field t = trb_type_value TransferEvent"
      "completion_code t \<in> {Ok 1, Ok 13} \<longleftrightarrow> ans \<noteq> None" "length ts = 3 \<longrightarrow> ans \<noteq> None \<longrightarrow> ans = Some (hw_data H h)"
    unfolding executes_def by (metis l(3) q(7))
  from e(1) q(8) have "emits H n ?p (hw_bell H slot (cmd_ring ring') (w_hw w)) = Some (t, h)" by simp
  from await_new_event [OF l(1) q(3) this] obtain w' c er where
    a: "await_event (Suc n) H (w_next w) (w\<lparr>w_xhc := wait_for_trb (w_next w) ?p x,
        w_hw := hw_bell H slot (cmd_ring ring') (w_hw w), w_next := Suc (w_next w)\<rparr>) = (Ok (with_cycle c t), w')"
      "listening w'" "w_hw w' = h" "w_xhc w' = x\<lparr>primary_event_ring := er\<rparr>" by blast
  have "usb_link slot deq (w', ring')"
    using a q(2,4) e(2) l(4) by (auto simp: usb_link_def)
  moreover have "ring_device H (Suc n) bufs slot req len (w, ring) =
      (rbind (transfer_result_ok t) (\<lambda>_. Ok (if ?d then hw_data H h else [])), (w', ring'))"
    using q(1) a(1,3) by (simp add: ring_device_def Let_def)
  ultimately show ?thesis
    using e(3,5,6) q(5) a(3) transfer_result_cases [OF e(4)]
    by (auto simp: packet_device_def split: option.splits)
qed

section \<open>Simulation of tasks\<close>

text \<open>
  A task on a state with the invariant \<open>I\<close> keeps it and does what another task does on the abstraction of
  the state, with the same result.\<close>

definition simulates :: "('c \<Rightarrow> bool) \<Rightarrow> ('c \<Rightarrow> 's) \<Rightarrow> ('a, 'c) task \<Rightarrow> ('a, 's) task \<Rightarrow> bool" where
  "simulates I ab m m' \<longleftrightarrow> (\<forall>s. I s \<longrightarrow> I (snd (m s)) \<and> m' (ab s) = (fst (m s), ab (snd (m s))))"

named_theorems sim_intros \<open>simulation goes through the combinators of tasks\<close>

lemma simulates_ret [sim_intros]: "simulates I ab (ret x) (ret x)"
  by (simp add: simulates_def)

lemma simulates_lift [sim_intros]: "simulates I ab (lift r) (lift r)" "simulates I ab (Pair r) (Pair r)"
  by (simp_all add: simulates_def)

lemma simulates_andthen [sim_intros]:
  "simulates I ab m m' \<Longrightarrow> (\<And>x. simulates I ab (f x) (f' x)) \<Longrightarrow> simulates I ab (andthen m f) (andthen m' f')"
  by (auto simp: simulates_def andthen_apply split: sum.splits prod.splits)

lemma simulates_try [sim_intros]: "simulates I ab m m' \<Longrightarrow> simulates I ab (try_task m) (try_task m')"
  by (simp add: simulates_def try_task_def split_beta)

lemma simulates_if [sim_intros]:
  "simulates I ab m m' \<Longrightarrow> simulates I ab k k' \<Longrightarrow> simulates I ab (if b then m else k) (if b then m' else k')"
  by simp

lemma simulates_option [sim_intros]:
  "simulates I ab m m' \<Longrightarrow> (\<And>x. simulates I ab (f x) (f' x)) \<Longrightarrow>
   simulates I ab (case z of None \<Rightarrow> m | Some x \<Rightarrow> f x) (case z of None \<Rightarrow> m' | Some x \<Rightarrow> f' x)"
  by (cases z) simp_all

lemma simulates_prod [sim_intros]:
  "(\<And>x y. simulates I ab (f x y) (f' x y)) \<Longrightarrow> simulates I ab (case z of (x, y) \<Rightarrow> f x y) (case z of (x, y) \<Rightarrow> f' x y)"
  by (cases z) simp

text \<open>With the log that goes with the device's state.\<close>

abbreviation "logged I \<equiv> \<lambda>(s, l). I s"
abbreviation "log_abs ab \<equiv> \<lambda>(s, l). (ab s, l)"

lemma simulates_on_device [sim_intros]:
  "simulates I ab m m' \<Longrightarrow> simulates (logged I) (log_abs ab) (on_device m) (on_device m')"
  by (auto simp: simulates_def on_device_def split_beta)

lemma simulates_log_entry [sim_intros]: "simulates (logged I) (log_abs ab) (log_entry e) (log_entry e)"
  by (auto simp: simulates_def log_entry_def)

definition device_simulates :: "('c \<Rightarrow> bool) \<Rightarrow> ('c \<Rightarrow> 's) \<Rightarrow> 'c device \<Rightarrow> 's device \<Rightarrow> bool" where
  "device_simulates I ab d d' \<longleftrightarrow> (\<forall>req len. simulates I ab (d req len) (d' req len))"

lemma requests_simulate [sim_intros]:
  assumes "device_simulates I ab d d'"
  shows "simulates I ab (transfer_in d req buf) (transfer_in d' req buf)"
    and "simulates I ab (transfer_no_data d req) (transfer_no_data d' req)"
  using assms unfolding transfer_in_def transfer_no_data_def device_simulates_def by (auto intro!: sim_intros)

lemma enumerate_simulates:
  "device_simulates I ab d d' \<Longrightarrow> simulates I ab (enumerate_device fuel d) (enumerate_device fuel d')"
  unfolding enumerate_device_def request_device_descriptor_def request_string_descriptor_zero_def
    optional_string_def request_string_descriptor_def request_config_descriptor_and_rest_def Let_def
  by (intro sim_intros)

lemma log_keys_simulates [sim_intros]:
  "simulates (logged I) (log_abs ab) (log_keys pressed keys) (log_keys pressed keys)"
  by (induction keys) (auto intro!: sim_intros)

lemma keyboard_simulates:
  assumes "device_simulates I ab d d'"
  shows "simulates (logged I) (log_abs ab) (UsbKeyboardDriver_run n d ds) (UsbKeyboardDriver_run n d' ds)"
proof -
  have round: "simulates (logged I) (log_abs ab) (keyboard_round d prev) (keyboard_round d' prev)" for prev
    unfolding keyboard_round_def request_hid_report_def Let_def by (intro sim_intros assms)
  have "simulates (logged I) (log_abs ab) (keyboard_loop n d prev) (keyboard_loop n d' prev)" for prev
    by (induction n arbitrary: prev) (auto intro!: sim_intros round)
  then show ?thesis unfolding UsbKeyboardDriver_run_def by (intro sim_intros assms)
qed

lemma tablet_simulates:
  assumes "device_simulates I ab d d'"
  shows "simulates (logged I) (log_abs ab) (UsbTabletDriver_run n res d ds) (UsbTabletDriver_run n res d' ds)"
proof -
  have "simulates (logged I) (log_abs ab) (tablet_loop n d t vw vh prev) (tablet_loop n d' t vw vh prev)" for t vw vh prev
    unfolding request_hid_report_def
    by (induction n arbitrary: prev) (auto simp: request_hid_report_def intro!: sim_intros assms)
  then show ?thesis
    unfolding UsbTabletDriver_run_def request_hid_report_descriptor_def by (intro sim_intros assms)
qed

text \<open>The rings and the controller together are the device.\<close>

lemma ring_device_simulates:
  assumes "executes H n slot deq usb reply"
  shows "device_simulates (usb_link slot deq) (\<lambda>(w, ring). usb (w_hw w))
    (ring_device H (Suc n) bufs slot) (packet_device reply)"
  unfolding device_simulates_def simulates_def
proof (intro allI impI)
  fix req len s
  assume I: "usb_link slot deq s"
  obtain w ring where s: "s = (w, ring)" by force
  from ring_device_transfer [OF assms I [unfolded s]] obtain r w' ring' where
    "ring_device H (Suc n) bufs slot req len s = (r, (w', ring'))" "usb_link slot deq (w', ring')"
    "packet_device reply req len (usb (w_hw w)) = (r, usb (w_hw w'))" unfolding s by blast
  then show "usb_link slot deq (snd (ring_device H (Suc n) bufs slot req len s)) \<and>
      packet_device reply req len (case s of (w, ring) \<Rightarrow> usb (w_hw w)) =
      (fst (ring_device H (Suc n) bufs slot req len s),
       case snd (ring_device H (Suc n) bufs slot req len s) of (w, ring) \<Rightarrow> usb (w_hw w))"
    by (simp add: s)
qed

end
