(* ===== verification/Xhci_Task.thy ===== *)
theory Xhci_Task
  imports Xhci_Refine Xhci_Start
begin

text \<open>
  \<open>PciXhciDriver::run\<close> from the controller that \<open>Controller::new\<close> returns to the driver of the device: the
  commands, the port, the bring-up and the enumeration on the rings, and a small controller on which
  the properties are applied.
\<close>

section \<open>Commands\<close>

lemma run_command_completes:
  assumes "listening w" "ring_holds (command_ring (w_xhc w)) xs" "\<not> is_link cmd"
    and "doorbell_ptrs (xhc_regs (w_xhc w)) \<noteq> []"
  shows "\<exists>ring c. ring_holds ring (xs @ [with_cycle c cmd]) \<and>
    fetch 15 (cmd_ring ring) (length xs) = [with_cycle c cmd] \<and>
    (\<forall>t h. emits H n (block_addr ring (length xs)) (hw_command H (cmd_ring ring) ctxs (w_hw w)) = Some (t, h) \<longrightarrow>
      (\<exists>w' d er log. run_command H (Suc n) cmd ctxs w = (Ok (with_cycle d t), w') \<and> listening w' \<and> w_hw w' = h \<and>
        w_xhc w' = (w_xhc w)\<lparr>command_ring := ring, doorbell_log := log, primary_event_ring := er\<rparr>))"
proof -
  let ?c = "even (length xs div 15)"
  from push_holds [OF assms(2,3)] obtain ring where r: "cmd_push (command_ring (w_xhc w)) cmd =
      Ok (block_addr (command_ring (w_xhc w)) (length xs), ring)"
    "ring_holds ring (xs @ [with_cycle ?c cmd])" "ring_addr (cmd_ring ring) = ring_addr (cmd_ring (command_ring (w_xhc w)))" by blast
  let ?x = "ring_doorbell 0 0 0 ((w_xhc w)\<lparr>command_ring := ring\<rparr>)"
  have s: "send_command (w_next w) cmd (w_xhc w) = Ok (block_addr ring (length xs), wait_for_trb (w_next w) (block_addr ring (length xs)) ?x)"
    using r assms(4) by (simp add: send_command_def notify_xhc_def)
  have cr: "command_ring (wait_for_trb (w_next w) p ?x) = ring" for p by (simp add: wait_for_trb_def ring_doorbell_def)
  have "\<exists>w' d er log. run_command H (Suc n) cmd ctxs w = (Ok (with_cycle d t), w') \<and> listening w' \<and> w_hw w' = h \<and>
        w_xhc w' = (w_xhc w)\<lparr>command_ring := ring, doorbell_log := log, primary_event_ring := er\<rparr>"
    if em: "emits H n (block_addr ring (length xs)) (hw_command H (cmd_ring ring) ctxs (w_hw w)) = Some (t, h)" for t h
  proof -
    have "primary_event_ring ?x = ev_of w" by (simp add: ring_doorbell_def)
    from await_new_event [OF assms(1) this em] obtain w' d er where
      "await_event (Suc n) H (w_next w) (w\<lparr>w_xhc := wait_for_trb (w_next w) (block_addr ring (length xs)) ?x,
          w_hw := hw_command H (cmd_ring ring) ctxs (w_hw w), w_next := Suc (w_next w)\<rparr>) = (Ok (with_cycle d t), w')"
      "listening w'" "w_hw w' = h" "w_xhc w' = ?x\<lparr>primary_event_ring := er\<rparr>" by blast
    then show ?thesis by (simp add: run_command_def s cr) (simp add: ring_doorbell_def, blast)
  qed
  moreover have "fetch 15 (cmd_ring ring) (length xs) = [with_cycle ?c cmd]"
    using fetch_holds [OF r(2), of "length xs" 15] by simp
  ultimately show ?thesis using r(2) by blast
qed

section \<open>The port\<close>

lemma wait_while_turn:
  assumes "listening w" "wait_while n (\<lambda>h. snd (hw_step H h)) c (w_hw w) = Ok h"
  shows "\<exists>w'. wait_while n (turn H) (\<lambda>w. c (w_hw w)) w = Ok w' \<and> listening w' \<and> w_hw w' = h \<and> same_driver w w'"
  using assms
proof (induction n arbitrary: w)
  case (Suc n)
  obtain e h1 where s: "hw_step H (w_hw w) = (e, h1)" by force
  note l = turn_spec [where H = H, OF Suc.prems(1) s]
  show ?case
  proof (cases "c (w_hw w)")
    case True
    with Suc.prems(2) s l Suc.IH [of "turn H w"] show ?thesis by (auto intro: same_driver_trans)
  next
    case False
    with Suc.prems show ?thesis by (simp add: same_driver_refl)
  qed
qed simp

lemma world_bits:
  "pp (world_rd H) p w = pp (hw_rd H) p (w_hw w)" "pr (world_rd H) p w = pr (hw_rd H) p (w_hw w)"
  "is_enabled (world_rd H) p w = is_enabled (hw_rd H) p (w_hw w)"
  "assert_bit (world_rd H) (world_wr H) p i w = w\<lparr>w_hw := assert_bit (hw_rd H) (hw_wr H) p i (w_hw w)\<rparr>"
  by (simp_all add: pp_def pr_def is_enabled_def ccs_def ped_def portsc_bit_def assert_bit_def world_rd_def world_wr_def)

lemma listening_hw: "listening w \<Longrightarrow> listening (w\<lparr>w_hw := h\<rparr>)"
  by (simp add: listening_def)

lemma same_driver_hw: "same_driver (w\<lparr>w_hw := h\<rparr>) w' = same_driver w w'"
  by (simp add: same_driver_def)

lemma reset_port_world:
  assumes "listening w" "reset_port n (hw_rd H) (hw_wr H) (\<lambda>h. snd (hw_step H h)) p (w_hw w) = Ok h"
  shows "\<exists>w'. reset_port n (world_rd H) (world_wr H) (turn H) p w = Ok w' \<and> listening w' \<and> w_hw w' = h \<and> same_driver w w'"
proof -
  let ?a = "\<lambda>i. assert_bit (hw_rd H) (hw_wr H) p i"
  from assms(2) obtain h1 where h1: "wait_while n (\<lambda>h. snd (hw_step H h)) (\<lambda>h. \<not> pp (hw_rd H) p h) (?a 9 (w_hw w)) = Ok h1"
    "wait_while n (\<lambda>h. snd (hw_step H h)) (pr (hw_rd H) p) (?a 4 h1) = Ok h" by (auto simp: reset_port_def)
  from wait_while_turn [of "w\<lparr>w_hw := ?a 9 (w_hw w)\<rparr>" n H "\<lambda>h. \<not> pp (hw_rd H) p h" h1] h1(1) obtain w1 where
    w1: "wait_while n (turn H) (\<lambda>w. \<not> pp (hw_rd H) p (w_hw w)) (w\<lparr>w_hw := ?a 9 (w_hw w)\<rparr>) = Ok w1" "listening w1"
      "w_hw w1 = h1" "same_driver w w1"
    using listening_hw [OF assms(1)] by (auto simp: same_driver_hw)
  from wait_while_turn [of "w1\<lparr>w_hw := ?a 4 h1\<rparr>" n H "pr (hw_rd H) p" h] h1(2) obtain w2 where
    "wait_while n (turn H) (\<lambda>w. pr (hw_rd H) p (w_hw w)) (w1\<lparr>w_hw := ?a 4 h1\<rparr>) = Ok w2" "listening w2"
      "w_hw w2 = h" "same_driver w1 w2"
    using listening_hw [OF w1(2)] by (auto simp: same_driver_hw)
  with w1 show ?thesis
    by (auto simp: reset_port_def world_bits intro: same_driver_trans)
qed

lemma connected_port_world:
  "connected_port (world_rd H) es w = connected_port (hw_rd H) es (w_hw w)"
  by (simp add: connected_port_def ccs_def portsc_bit_def world_rd_def cong: option.case_cong)

lemma connected_port_exists:
  assumes "connected_port rd es d = Some port"
  shows "port \<in> {1..length es} \<and> (\<exists>p. PortSc_get es (word_of_nat port) = Some p \<and> ccs rd p d)"
proof -
  let ?f = "\<lambda>port acc. case PortSc_get es (word_of_nat port) of Some e \<Rightarrow> if ccs rd e d then Some port else acc | None \<Rightarrow> acc"
  have "fold ?f ps acc = Some port \<Longrightarrow> acc = Some port \<or>
      port \<in> set ps \<and> (\<exists>p. PortSc_get es (word_of_nat port) = Some p \<and> ccs rd p d)" for ps acc
    by (induction ps arbitrary: acc) (fastforce split: option.splits if_splits)+
  from this [of "port_range es" None] assms show ?thesis
    by (auto simp: connected_port_def port_range_def)
qed

section \<open>Bringing the device up\<close>

text \<open>
  The controller carries out the two commands that bring up a device on the port whose register is \<open>p\<close>
  (4.6.3 and 4.6.5 of the xHCI specification), in the state \<open>h1\<close> and the one after it: for the
  first it sends the number of a slot, for the second, given the input context \<open>input\<close> for that slot, it
  reports success with the device in its initial state \<open>s0\<close> and its transfer ring at the beginning.
  \<open>cdeq\<close> counts the blocks taken of the command ring.\<close>

definition addresses_device ::
  "'h Hardware \<Rightarrow> nat \<Rightarrow> ('h \<Rightarrow> nat) \<Rightarrow> ('h \<Rightarrow> nat) \<Rightarrow> ('h \<Rightarrow> 's) \<Rightarrow> u8 \<Rightarrow> InputContext \<Rightarrow> 's \<Rightarrow> 'h \<Rightarrow> bool" where
  "addresses_device H n cdeq deq usb slot input s0 h \<longleftrightarrow>
     (\<forall>ring t ctxs. fetch 15 ring (cdeq h) = [t] \<longrightarrow> type_field t = trb_type_value AddressDeviceCommand \<longrightarrow>
       slot_id t = Ok slot \<longrightarrow> ctxs (trb_data t) = Some input \<longrightarrow>
       (\<exists>e h'. emits H n (ring_addr ring + 16 * word_of_nat (cdeq h mod 15)) (hw_command H ring ctxs h) = Some (e, h') \<and>
          cmd_result_ok e = Ok () \<and> deq h' = 0 \<and> usb h' = s0))"

definition brings_up ::
  "'h Hardware \<Rightarrow> nat \<Rightarrow> ('h \<Rightarrow> nat) \<Rightarrow> ('h \<Rightarrow> nat) \<Rightarrow> ('h \<Rightarrow> 's) \<Rightarrow> u64 \<Rightarrow> u8 \<Rightarrow> InputContext \<Rightarrow> 's \<Rightarrow> 'h \<Rightarrow> bool" where
  "brings_up H n cdeq deq usb p slot input s0 h \<longleftrightarrow>
     (\<forall>ring t. fetch 15 ring (cdeq h) = [t] \<longrightarrow> type_field t = trb_type_value EnableSlotCommand \<longrightarrow>
       (\<exists>e h'. emits H n (ring_addr ring + 16 * word_of_nat (cdeq h mod 15)) (hw_command H ring Map.empty h) = Some (e, h') \<and>
          slot_id e = Ok slot \<and> cdeq h' = Suc (cdeq h) \<and> hw_rd H h' p = hw_rd H h p \<and>
          addresses_device H n cdeq deq usb slot input s0 h'))"

lemma cmd_enable_slot_type: "\<exists>t. cmd_enable_slot = Ok t \<and> type_field t = trb_type_value EnableSlotCommand"
proof -
  obtain t where t: "set_trb_type default_trb EnableSlotCommand = Ok t"
    by (auto simp: set_trb_type_def write_control_def write_bits_eq default_trb_def)
  from set_trb_type_field(1) [OF t] t show ?thesis by (auto simp: cmd_enable_slot_def)
qed

lemma cmd_address_device_fields:
  "\<exists>t. cmd_address_device input slot = Ok t \<and> type_field t = trb_type_value AddressDeviceCommand \<and>
     trb_data t = input \<and> slot_id t = Ok slot"
proof -
  obtain t where t: "set_trb_type default_trb AddressDeviceCommand = Ok t"
    by (auto simp: set_trb_type_def write_control_def write_bits_eq default_trb_def)
  let ?t = "t\<lparr>trb_data := input\<rparr>"
  have "take_bit 8 (ucast slot :: u32) = ucast slot"
    by (rule bit_eqI) (auto simp: bit_simps dest: bit_imp_le_length)
  then obtain c where c: "write_bits (trb_control t) 24 8 (ucast slot) = Ok c"
    using vol.wr_total [where s = 24 and w = 8 and v = "ucast slot :: u32" and r = "trb_control t"] by auto
  have "read_bits c 24 8 = Ok (ucast slot)" by (rule vol.rd_wr_same [OF _ c]) simp
  moreover have "read_bits c 10 6 = read_bits (trb_control t) 10 6"
    by (rule vol.rd_wr_other [OF _ _ _ c]) simp_all
  moreover have "unat slot < 256" using unsigned_less [of slot, where 'a = nat] by simp
  then have "unat (ucast slot :: u32) < 256" by (simp add: unsigned_ucast_eq take_bit_nat_eq_self)
  moreover have "ucast (ucast slot :: u32) = slot" by (rule bit_eqI) (simp add: bit_simps)
  ultimately show ?thesis
    using c t set_trb_type_field(1) [OF t]
    by (simp add: cmd_address_device_def set_slot_id_def write_control_def slot_id_def)
      (simp add: type_field_def read_bits_eq)
qed

text \<open>What the commands leave of the driver alone.\<close>

definition driver_kept :: "Controller \<Rightarrow> Controller \<Rightarrow> bool" where
  "driver_kept x x' \<longleftrightarrow> xhc_regs x' = xhc_regs x \<and>
     length (owned_context (device_context_base_array x')) = length (owned_context (device_context_base_array x))"

lemma init_port_completes:
  assumes "listening w" "ring_holds (command_ring (w_xhc w)) xs" "doorbell_ptrs (xhc_regs (w_xhc w)) \<noteq> []"
    and "port_register w port = Some p"
    and "reset_port (Suc n) (hw_rd H) (hw_wr H) (\<lambda>h. snd (hw_step H h)) p (w_hw w) = Ok h1"
    and "is_enabled (hw_rd H) p h1" "cdeq h1 = length xs"
    and "brings_up H n cdeq deq usb p slot input s0 h1"
  obtains w' t where "init_port H (Suc n) port w = (Ok slot, w')" "listening w'"
    and "ring_holds (command_ring (w_xhc w')) (xs @ [t])" "driver_kept (w_xhc w) (w_xhc w')"
    and "cdeq (w_hw w') = Suc (length xs)" "hw_rd H (w_hw w') p = hw_rd H h1 p"
    and "addresses_device H n cdeq deq usb slot input s0 (w_hw w')"
proof -
  from reset_port_world [OF assms(1,5)] obtain w1 where w1: "reset_port (Suc n) (world_rd H) (world_wr H) (turn H) p w = Ok w1"
    "listening w1" "w_hw w1 = h1" "same_driver w w1" by blast
  then have x1: "command_ring (w_xhc w1) = command_ring (w_xhc w)" "xhc_regs (w_xhc w1) = xhc_regs (w_xhc w)"
    "device_context_base_array (w_xhc w1) = device_context_base_array (w_xhc w)" by (auto simp: same_driver_def)
  obtain cmd where cmd: "cmd_enable_slot = Ok cmd" "type_field cmd = 9" using cmd_enable_slot_type by auto
  have "ring_holds (command_ring (w_xhc w1)) xs" "\<not> is_link cmd" "doorbell_ptrs (xhc_regs (w_xhc w1)) \<noteq> []"
    using assms(2,3) x1 cmd(2) by simp_all
  from run_command_completes [OF w1(2) this, where n = n and H = H and ctxs = Map.empty] obtain ring c where
    r: "ring_holds ring (xs @ [with_cycle c cmd])" "fetch 15 (cmd_ring ring) (length xs) = [with_cycle c cmd]"
    and go: "\<And>t h. emits H n (block_addr ring (length xs)) (hw_command H (cmd_ring ring) Map.empty h1) = Some (t, h) \<Longrightarrow>
      \<exists>w' d er log. run_command H (Suc n) cmd Map.empty w1 = (Ok (with_cycle d t), w') \<and> listening w' \<and> w_hw w' = h \<and>
        w_xhc w' = (w_xhc w1)\<lparr>command_ring := ring, doorbell_log := log, primary_event_ring := er\<rparr>"
    unfolding w1(3) by blast
  from assms(8) r(2) cmd(2) obtain e h2 where e: "emits H n (block_addr ring (length xs)) (hw_command H (cmd_ring ring) Map.empty h1) = Some (e, h2)"
    "slot_id e = Ok slot" "cdeq h2 = Suc (length xs)" "hw_rd H h2 p = hw_rd H h1 p"
      "addresses_device H n cdeq deq usb slot input s0 h2"
    unfolding brings_up_def assms(7) by (metis trb_type_value.simps(6) type_field_with_cycle)
  from go [OF e(1)] obtain w' d er log where w': "run_command H (Suc n) cmd Map.empty w1 = (Ok (with_cycle d e), w')"
    "listening w'" "w_hw w' = h2" "w_xhc w' = (w_xhc w1)\<lparr>command_ring := ring, doorbell_log := log, primary_event_ring := er\<rparr>" by blast
  have "init_port H (Suc n) port w = (Ok slot, w')"
    using assms(4,6) w1(1,3) w'(1) e(2)
    by (simp add: init_port_def andthen_apply on_world_def world_bits cmd(1))
  then show thesis
    using w'(2-4) r(1) e(3-5) x1 by (intro that [of w' "with_cycle c cmd"]) (simp_all add: driver_kept_def)
qed

lemma address_device_completes:
  assumes "listening w" "ring_holds (command_ring (w_xhc w)) xs" "doorbell_ptrs (xhc_regs (w_xhc w)) \<noteq> []"
    and "slot \<noteq> 0" "length (owned_context (device_context_base_array (w_xhc w))) = 255"
    and "address_device_input port (map_option (world_rd H w) (port_register w port)) (ep_ring_box bx) = Ok input"
    and "cdeq (w_hw w) = length xs"
    and "addresses_device H n cdeq deq usb slot input s0 (w_hw w)"
  obtains w' ring where "address_device H (Suc n) bx port slot w = (Ok ring, w')" "listening w'"
    and "ring_holds ring []" "deq (w_hw w') = 0" "usb (w_hw w') = s0" "xhc_regs (w_xhc w') = xhc_regs (w_xhc w)"
proof -
  have "unat slot - 1 < 255" using unsigned_less [of slot, where 'a = nat] by simp
  then obtain a where a: "set_output_context_for_slot slot (output_box bx) (w_xhc w) = Ok ((w_xhc w)\<lparr>device_context_base_array := a\<rparr>)"
    using assms(4,5) by (simp add: set_output_context_for_slot_def set_output_context_def Let_def)
  let ?w = "w\<lparr>w_xhc := (w_xhc w)\<lparr>device_context_base_array := a\<rparr>\<rparr>"
  obtain ring where ring: "CommandRing_default (ep_ring_box bx) = Ok ring" "ring_holds ring []"
    "ring_addr (cmd_ring ring) = ep_ring_box bx" using ring_holds_default by blast
  obtain cmd where cmd: "cmd_address_device (input_box bx) slot = Ok cmd" "type_field cmd = 11"
    "trb_data cmd = input_box bx" "slot_id cmd = Ok slot" using cmd_address_device_fields by fastforce
  have inp: "address_device_input port (map_option (world_rd H ?w) (port_register ?w port)) (ring_addr (cmd_ring ring)) = Ok input"
    using assms(6) ring(3) by (simp add: world_rd_def [abs_def] port_register_def)
  let ?ctxs = "[input_box bx \<mapsto> input]"
  have "listening ?w" "ring_holds (command_ring (w_xhc ?w)) xs" "\<not> is_link cmd" "doorbell_ptrs (xhc_regs (w_xhc ?w)) \<noteq> []"
    using assms(1-3) cmd(2) by (simp_all add: listening_def)
  from run_command_completes [OF this, where n = n and H = H and ctxs = ?ctxs] obtain cr c where "ring_holds cr (xs @ [with_cycle c cmd])"
    and r: "fetch 15 (cmd_ring cr) (length xs) = [with_cycle c cmd]"
    and go: "\<And>t h. emits H n (block_addr cr (length xs)) (hw_command H (cmd_ring cr) ?ctxs (w_hw ?w)) = Some (t, h) \<Longrightarrow>
      \<exists>w' d er log. run_command H (Suc n) cmd ?ctxs ?w = (Ok (with_cycle d t), w') \<and> listening w' \<and> w_hw w' = h \<and>
        w_xhc w' = (w_xhc ?w)\<lparr>command_ring := cr, doorbell_log := log, primary_event_ring := er\<rparr>"
    by blast
  obtain e h3 where e: "emits H n (block_addr cr (length xs)) (hw_command H (cmd_ring cr) ?ctxs (w_hw w)) = Some (e, h3)"
    "cmd_result_ok e = Ok ()" "deq h3 = 0" "usb h3 = s0"
    using assms(8) [unfolded addresses_device_def, rule_format, of "cmd_ring cr" "with_cycle c cmd" ?ctxs] r cmd(2-4) assms(7)
    by auto
  from e(1) have "emits H n (block_addr cr (length xs)) (hw_command H (cmd_ring cr) ?ctxs (w_hw ?w)) = Some (e, h3)" by simp
  from go [OF this] obtain w' d er log where w': "run_command H (Suc n) cmd ?ctxs ?w = (Ok (with_cycle d e), w')"
    "listening w'" "w_hw w' = h3" "w_xhc w' = (w_xhc ?w)\<lparr>command_ring := cr, doorbell_log := log, primary_event_ring := er\<rparr>" by blast
  have "address_device H (Suc n) bx port slot w = (Ok ring, w')"
    using a ring(1) inp cmd(1) w'(1) e(2) by (simp add: address_device_def andthen_apply on_world_def)
  then show thesis using w'(2-4) ring(2) e(3,4) by (intro that [of ring w']) simp_all
qed

text \<open>
  \<open>init_port\<close> takes the slot of the command's event without looking at its completion code. When the
  controller has no slot to give, that number is 0, and \<open>address_device\<close> ends the kernel.\<close>

theorem slot_zero_panics:
  "address_device H n bx port 0 w = (panic ''attempt to subtract with overflow'', w)"
  by (simp add: address_device_def andthen_apply on_world_def set_output_context_for_slot_def set_output_context_def)

text \<open>The request that should choose the protocol of a keyboard is the one that sets an alternate setting.\<close>

theorem set_protocol_is_set_interface:
  "setup_of (SetProtocol i p) len = setup_of (SetInterface i p) len"
  by (simp add: REQ_SET_PROTOCOL_def REQ_SET_INTERFACE_def)

section \<open>The whole task\<close>

lemma run_from_ready:
  assumes "listening (w\<lparr>w_polling := True\<rparr>)" "ring_holds (command_ring (w_xhc w)) xs"
    and "length (owned_context (device_context_base_array (w_xhc w))) = 255"
    and "length (portsc_ptrs (xhc_regs (w_xhc w))) < 256"
    and "connected_port (hw_rd H) (portsc_ptrs (xhc_regs (w_xhc w))) (w_hw w) = Some port" "port_register w port = Some p"
    and "reset_port (Suc n) (hw_rd H) (hw_wr H) (\<lambda>h. snd (hw_step H h)) p (w_hw w) = Ok h1"
    and "is_enabled (hw_rd H) p h1" "max_packet_size (hw_rd H h1 p) = Ok mps" "cdeq h1 = length xs"
    and "brings_up H n cdeq deq usb p slot (fresh_device_input port (port_speed (hw_rd H h1 p)) mps (ep_ring_box bx)) s0 h1"
    and "slot \<noteq> 0" "unat slot < length (doorbell_ptrs (xhc_regs (w_xhc w)))"
    and "executes H n slot deq usb reply"
  shows "\<exists>r w'. PciXhciDriver_run H (Suc n) fuel bx bufs w = (r, w') \<and> listening w' \<and>
    enumerate_device fuel (packet_device reply) s0 = (r, usb (w_hw w'))"
proof -
  let ?w = "w\<lparr>w_polling := True\<rparr>"
  have db: "doorbell_ptrs (xhc_regs (w_xhc w)) \<noteq> []" using assms(13) by auto
  have "doorbell_ptrs (xhc_regs (w_xhc ?w)) \<noteq> []" "port_register ?w port = Some p" "ring_holds (command_ring (w_xhc ?w)) xs"
    "reset_port (Suc n) (hw_rd H) (hw_wr H) (\<lambda>h. snd (hw_step H h)) p (w_hw ?w) = Ok h1"
    using db assms(2,6,7) by (simp_all add: port_register_def)
  from init_port_completes [OF assms(1) this(3,1,2,4) assms(8,10,11)] obtain w1 t where
    w1: "init_port H (Suc n) port ?w = (Ok slot, w1)" "listening w1" "ring_holds (command_ring (w_xhc w1)) (xs @ [t])"
      "driver_kept (w_xhc ?w) (w_xhc w1)" "cdeq (w_hw w1) = Suc (length xs)" "hw_rd H (w_hw w1) p = hw_rd H h1 p"
      "addresses_device H n cdeq deq usb slot (fresh_device_input port (port_speed (hw_rd H h1 p)) mps (ep_ring_box bx)) s0 (w_hw w1)"
    by blast
  have x1: "xhc_regs (w_xhc w1) = xhc_regs (w_xhc w)" "length (owned_context (device_context_base_array (w_xhc w1))) = 255"
    using w1(4) assms(3) by (simp_all add: driver_kept_def)
  have "0 < port \<and> port < 256" using connected_port_exists [OF assms(5)] assms(4) by auto
  then have "address_device_input port (map_option (world_rd H w1) (port_register w1 port)) (ep_ring_box bx) =
      Ok (fresh_device_input port (port_speed (hw_rd H h1 p)) mps (ep_ring_box bx))"
    using address_device_input_eq [of "hw_rd H h1 p" mps port "ep_ring_box bx"] assms(6,9) x1 w1(6)
    by (simp add: port_register_def world_rd_def)
  note input = this
  have "doorbell_ptrs (xhc_regs (w_xhc w1)) \<noteq> []" "cdeq (w_hw w1) = length (xs @ [t])" using db x1(1) w1(5) by simp_all
  from address_device_completes [OF w1(2,3) this(1) assms(12) x1(2) input this(2) w1(7)] obtain w2 ring where
    w2: "address_device H (Suc n) bx port slot w1 = (Ok ring, w2)" "listening w2" "ring_holds ring []" "deq (w_hw w2) = 0"
      "usb (w_hw w2) = s0" "xhc_regs (w_xhc w2) = xhc_regs (w_xhc w1)" by blast
  have link: "usb_link slot deq (w2, ring)" using w2 x1 assms(13) by (auto simp: usb_link_def)
  obtain r w' ring' where e: "enumerate_device fuel (ring_device H (Suc n) bufs slot) (w2, ring) = (r, (w', ring'))"
    by (metis prod.collapse)
  from enumerate_simulates [OF ring_device_simulates [OF assms(14)], of fuel bufs, unfolded simulates_def, rule_format, OF link]
  have "usb_link slot deq (w', ring')" "enumerate_device fuel (packet_device reply) s0 = (r, usb (w_hw w'))"
    by (simp_all add: e w2(5))
  then show ?thesis
    using assms(5) w1(1) w2(1) e
    by (simp add: PciXhciDriver_run_def Let_def connected_port_world andthen_apply with_ring_def usb_link_def)
qed

text \<open>What \<open>Controller::new\<close> returns is ready for the task.\<close>

definition first_world :: "Controller \<Rightarrow> 'h \<Rightarrow> 'h World" where
  "first_world xhc h = \<lparr> w_xhc = xhc, w_hw = h, w_events = [], w_next = 0, w_polling = False \<rparr>"

lemma Controller_new_ready:
  assumes "Controller_new polls answer regs cap op rt s = Ok (xhc, s')"
  shows "listening (first_world xhc h\<lparr>w_polling := True\<rparr>) \<and> ring_holds (command_ring xhc) [] \<and> xhc_regs xhc = regs \<and>
    length (owned_context (device_context_base_array xhc)) = 255"
proof -
  obtain a b ev reg where x: "EventRing_new a = Ok ev" "primary_event_ring xhc = set_erdp ev reg"
    "CommandRing_default b = Ok (command_ring xhc)" "xhc_regs xhc = regs"
    "length (owned_context (device_context_base_array xhc)) = 255"
    using assms
    by (auto simp: Controller_new_def Let_def init_primary_event_ring_def init_slots_and_contexts_def
        init_command_ring_def DeviceContextBaseAddressArray_new_def)
  have "waiters ev = Map.empty" "wait_list ev = []"
    using x(1) by (auto simp: EventRing_new_def ERST_new_def Let_def NUM_TRB_def)
  moreover have "ev_run_inv (set_erdp ev reg) [] []" by (rule ev_run_inv [OF ev_run.start [OF x(1)]])
  moreover have "ring_holds (command_ring xhc) []" using ring_holds_default [of b] x(3) by auto
  ultimately show ?thesis using x by (simp add: first_world_def listening_def set_erdp_def)
qed


section \<open>A test bench\<close>

text \<open>
  A controller that does at once what it is told: its one port is connected, and any write to its register
  ends with it enabled at high speed; the device in slot 1 answers by \<open>reply\<close>.\<close>

record 's Bench =
  bench_event :: "GenericTrbEntry option"
  bench_cmds :: nat
  bench_deq :: nat
  bench_usb :: 's
  bench_data :: "u8 list"
  bench_port :: u32

definition bench_command :: "'s \<Rightarrow> TrbRing \<Rightarrow> (u64 \<rightharpoonup> InputContext) \<Rightarrow> 's Bench \<Rightarrow> 's Bench" where
  "bench_command s0 ring ctxs b = b\<lparr>
     bench_event := Some \<lparr> trb_data = ring_addr ring + 16 * word_of_nat (bench_cmds b mod 15),
       trb_option = push_bit 24 1, trb_control = push_bit 24 1 OR push_bit 10 33 \<rparr>,
     bench_cmds := Suc (bench_cmds b), bench_deq := 0, bench_usb := s0\<rparr>"

definition bench_bell :: "(u64 \<Rightarrow> 's \<Rightarrow> u8 list option \<times> 's) \<Rightarrow> u8 \<Rightarrow> TrbRing \<Rightarrow> 's Bench \<Rightarrow> 's Bench" where
  "bench_bell reply slot ring b = (case fetch 15 ring (bench_deq b) of
       t0 # t1 # ts \<Rightarrow> (case reply (trb_data t0) (bench_usb b) of (ans, s) \<Rightarrow> b\<lparr>
         bench_event := Some \<lparr> trb_data = ring_addr ring + 16 * word_of_nat (Suc (bench_deq b) mod 15),
           trb_option = push_bit 24 (if ans = None then 6 else 1), trb_control = push_bit 10 32 \<rparr>,
         bench_deq := bench_deq b + length (t0 # t1 # ts), bench_usb := s,
         bench_data := (case ans of None \<Rightarrow> [] | Some bs \<Rightarrow> bs)\<rparr>)
     | _ \<Rightarrow> b)"

definition bench :: "(u64 \<Rightarrow> 's \<Rightarrow> u8 list option \<times> 's) \<Rightarrow> 's \<Rightarrow> 's Bench Hardware" where
  "bench reply s0 = \<lparr>
     hw_rd = (\<lambda>b p. if p = 0xC0000480 then bench_port b else 0),
     hw_wr = (\<lambda>b p v. b\<lparr>bench_port := 0xE03\<rparr>),
     hw_step = (\<lambda>b. (bench_event b, b\<lparr>bench_event := None\<rparr>)),
     hw_command = bench_command s0,
     hw_bell = bench_bell reply,
     hw_data = bench_data \<rparr>"

definition bench_off :: "'s \<Rightarrow> 's Bench" where
  "bench_off s0 = \<lparr> bench_event = None, bench_cmds = 0, bench_deq = 0, bench_usb = s0, bench_data = [], bench_port = 0x201 \<rparr>"

lemma bench_simps [simp]:
  "hw_rd (bench reply s0) b p = (if p = 0xC0000480 then bench_port b else 0)"
  "hw_wr (bench reply s0) b p v = b\<lparr>bench_port := 0xE03\<rparr>"
  "hw_step (bench reply s0) b = (bench_event b, b\<lparr>bench_event := None\<rparr>)"
  "hw_command (bench reply s0) = bench_command s0" "hw_bell (bench reply s0) = bench_bell reply"
  "hw_data (bench reply s0) = bench_data"
  by (simp_all add: bench_def)

lemma bench_executes: "executes (bench reply s0) 1 slot bench_deq bench_usb reply"
  unfolding executes_def
proof (intro allI impI)
  fix b :: "'a Bench" and ring ts
  assume f: "fetch 15 ring (bench_deq b) = ts" "control_td ts"
  then obtain t0 t1 us where ts: "ts = t0 # t1 # us" by (auto simp: control_td_def)
  obtain ans s where "reply (trb_data t0) (bench_usb b) = (ans, s)" by force
  then show "\<exists>t b' ans. emits (bench reply s0) 1 (ring_addr ring + 16 * word_of_nat (Suc (bench_deq b) mod 15))
        (hw_bell (bench reply s0) slot ring b) = Some (t, b') \<and>
      bench_deq b' = bench_deq b + length ts \<and> reply (trb_data (ts ! 0)) (bench_usb b) = (ans, bench_usb b') \<and>
      type_field t = trb_type_value TransferEvent \<and> (completion_code t \<in> {Ok 1, Ok 13} \<longleftrightarrow> ans \<noteq> None) \<and>
      (length ts = 3 \<longrightarrow> ans \<noteq> None \<longrightarrow> ans = Some (hw_data (bench reply s0) b'))"
    using f(1) by (auto simp: ts bench_bell_def numeral_eq_Suc [of num.One] type_field_def completion_code_def read_bits_eq)
qed

lemma bench_brings_up: "brings_up (bench reply s0) 1 bench_cmds bench_deq bench_usb p 1 input s0 b"
proof -
  have "addresses_device (bench reply s0) 1 bench_cmds bench_deq bench_usb 1 input s0 b" for b
    by (auto simp: addresses_device_def bench_command_def numeral_eq_Suc [of num.One] cmd_result_ok_def type_field_def
        completion_code_def read_bits_eq)
  then show ?thesis
    by (simp add: brings_up_def bench_command_def slot_id_eq)
qed

lemma bench_port_connected:
  "connected_port (hw_rd (bench reply s0)) (PortSc_new 0xC0000000 sample_cap) (bench_off s0) = Some 5"
  "PortSc_get (PortSc_new 0xC0000000 sample_cap) (word_of_nat 5) = Some 0xC0000480"
proof -
  have g: "PortSc_get (PortSc_new 0xC0000000 sample_cap) (word_of_nat k) =
      (if 1 \<le> k \<and> k \<le> 8 then Some (0xC0000440 + 0x10 * word_of_nat (k - 1)) else None)" if "k < 2 ^ 64" for k
    using PortSc_get_iff [OF that, of "0xC0000000" sample_cap] by (simp add: sample_cap_ports) (simp add: sample_cap_def)
  have r: "port_range (PortSc_new 0xC0000000 sample_cap) = [1, 2, 3, 4, 5, 6, 7, 8]"
    by (simp add: port_range_def PortSc_new_nth(1) sample_cap_ports upt_rec)
  show "PortSc_get (PortSc_new 0xC0000000 sample_cap) (word_of_nat 5) = Some 0xC0000480" using g [of 5] by simp
  have f: "(case PortSc_get (PortSc_new 0xC0000000 sample_cap) (word_of_nat k) of
        Some e \<Rightarrow> if ccs (hw_rd (bench reply s0)) e (bench_off s0) then Some k else acc | None \<Rightarrow> acc) = (if k = 5 then Some 5 else acc)"
    if "k \<in> set [1, 2, 3, 4, 5, 6, 7, 8]" for k acc
  proof -
    have "(0xC0000440 + 0x10 * word_of_nat (k - 1) = (0xC0000480 :: u64)) = (k = 5)" using that by auto
    moreover have "ccs (hw_rd (bench reply s0)) e (bench_off s0) = (e = 0xC0000480)" for e
      by (simp add: ccs_def portsc_bit_def bench_off_def)
    moreover have "1 \<le> k \<and> k \<le> 8" "k < 2 ^ 64" using that by auto
    ultimately show ?thesis using g [of k] by simp
  qed
  have "connected_port (hw_rd (bench reply s0)) (PortSc_new 0xC0000000 sample_cap) (bench_off s0) =
      fold (\<lambda>k acc. if k = 5 then Some 5 else acc) [1 :: nat, 2, 3, 4, 5, 6, 7, 8] None"
    unfolding connected_port_def r using f by (intro fold_cong refl) (simp add: fun_eq_iff)
  then show "connected_port (hw_rd (bench reply s0)) (PortSc_new 0xC0000000 sample_cap) (bench_off s0) = Some 5" by simp
qed

text \<open>The keyboard of \<open>Usb_Enumeration\<close>, answering packets.\<close>

definition kbd_reply :: "u64 \<Rightarrow> nat \<Rightarrow> u8 list option \<times> nat" where
  "kbd_reply pkt s =
     (let v = ucast (drop_bit 16 pkt) :: u16; n = unat (ucast (drop_bit 48 pkt) :: u16) in
      if drop_bit 8 v = 1 then (Some (take n kbd_device_bytes), s + 1)
      else if drop_bit 8 v = 3 then (Some (take n (kbd_string (ucast v) 0)), s + 1)
      else if drop_bit 8 v = 2
      then (Some (take n (concat (map encode_descriptor [Config kbd_config, Interface kbd_interface]))), s + 1)
      else (None, s))"

lemma pack_fields:
  fixes a b :: u8 and c d e :: u16
  defines "x \<equiv> (ucast a OR push_bit 8 (ucast b) OR push_bit 16 (ucast c) OR push_bit 32 (ucast d) OR push_bit 48 (ucast e) :: u64)"
  shows "ucast (drop_bit 16 x) = c" "ucast (drop_bit 48 x) = e"
proof -
  have s: "bit (ucast w :: u64) n = bit w n" for w :: u8 and n by (auto simp: bit_simps dest: bit_imp_le_length)
  have t: "bit (ucast w :: u64) n = bit w n" for w :: u16 and n by (auto simp: bit_simps dest: bit_imp_le_length)
  have z8: "8 \<le> n \<Longrightarrow> \<not> bit w n" for w :: u8 and n using bit_imp_le_length [of w n] by auto
  have z16: "16 \<le> n \<Longrightarrow> \<not> bit w n" for w :: u16 and n using bit_imp_le_length [of w n] by auto
  have bc: "bit x (16 + n) = bit c n" if "n < 16" for n
    using that unfolding x_def by (simp add: bit_or_iff bit_push_bit_iff s t z8)
  have be: "bit x (48 + n) = bit e n" if "n < 16" for n
    using that unfolding x_def by (simp add: bit_or_iff bit_push_bit_iff s t z8 z16)
  show "ucast (drop_bit 16 x) = c" by (rule bit_eqI) (simp add: bit_ucast_iff bit_drop_bit_eq bc)
  show "ucast (drop_bit 48 x) = e" by (rule bit_eqI) (simp add: bit_ucast_iff bit_drop_bit_eq be)
qed

lemma packet_fields:
  "ucast (drop_bit 16 (packet (GetDescriptor ty i w) n)) = push_bit 8 (ucast (descriptor_type_value ty)) OR (ucast i :: u16)"
  "ucast (drop_bit 48 (packet (GetDescriptor ty i w) n)) = (word_of_nat n :: u16)"
  by (simp_all only: packet_def setup_to_generic_def setup_of.simps SetupStageTrb_new_def Let_def
      GenericTrbEntry.simps SetupStageTrb.simps pack_fields)

lemma wvalue_fields:
  "drop_bit 8 (push_bit 8 (ucast t) OR (ucast i :: u16)) = ucast (t :: u8)"
  "ucast (push_bit 8 (ucast t) OR (ucast i :: u16)) = (i :: u8)"
proof -
  have s: "bit (ucast w :: u16) n = bit w n" for w :: u8 and n by (auto simp: bit_simps dest: bit_imp_le_length)
  have z8: "8 \<le> n \<Longrightarrow> \<not> bit w n" for w :: u8 and n using bit_imp_le_length [of w n] by auto
  show "ucast (push_bit 8 (ucast t) OR (ucast i :: u16)) = i"
    by (rule bit_eqI) (simp add: bit_ucast_iff bit_or_iff bit_push_bit_iff s)
  show "drop_bit 8 (push_bit 8 (ucast t) OR (ucast i :: u16)) = ucast t"
  proof (rule bit_eqI)
    fix n
    show "bit (drop_bit 8 (push_bit 8 (ucast t) OR (ucast i :: u16))) n = bit (ucast t :: u16) n"
      by (cases "n < 8") (simp_all add: bit_drop_bit_eq bit_or_iff bit_push_bit_iff s z8)
  qed
qed

lemma kbd_answers:
  "answers (packet_device kbd_reply) (GetDescriptor TDevice 0 0) kbd_device_bytes"
  "answers (packet_device kbd_reply) (GetDescriptor TString i w) (kbd_string i 0)"
  "answers (packet_device kbd_reply) (GetDescriptor TConfig 0 0)
     (concat (map encode_descriptor [Config kbd_config, Interface kbd_interface]))"
  unfolding answers_def packet_device_def kbd_reply_def packet_fields wvalue_fields Let_def
  by (simp_all add: unat_of_nat del: encode_descriptor.simps)

lemma kbd_enumerated:
  "fst (enumerate_device 3 (packet_device kbd_reply) 0) = Ok (Some (\<lparr> vendor_string = None,
     product_string = Some [107, 98, 100], serial_string = None \<rparr>,
     [Config kbd_config, Interface kbd_interface], UsbKeyboardDriver))"
proof -
  have dd: "manufacturer_idx (UsbDeviceDescriptor_from kbd_device_bytes) = 0"
    "product_idx (UsbDeviceDescriptor_from kbd_device_bytes) = 2"
    "serial_idx (UsbDeviceDescriptor_from kbd_device_bytes) = 0"
    by (simp_all add: UsbDeviceDescriptor_from_def kbd_device_bytes_def)
  have p: "shown_string 2 (kbd_string 2 0) = Some [107, 98, 100]"
    using string_descriptor_shown [of "[107, 98, 100]" 2] by (simp add: kbd_string_def)
  have "has_triple (3, 1, 1) (Interface kbd_interface)"
    by (simp add: has_triple_def triple_def kbd_interface_def sample_interface_def)
  then show ?thesis
    using enumerate_device_answers [of "packet_device kbd_reply" kbd_device_bytes "\<lambda>i w. kbd_string i 0" kbd_config
        "[Interface kbd_interface]" 3 0] kbd_answers
    by (simp add: dd p shown_string_def [of 0] Let_def)
       (simp add: kbd_device_bytes_def kbd_config_def sample_config_def kbd_interface_def sample_interface_def
          u16_bytes_def)
qed


section \<open>The drivers on the rings\<close>


text \<open>A device in slot 1 of the bench, linked by a new transfer ring.\<close>

lemma bench_linked:
  "\<exists>w ring. usb_link 1 bench_deq (w, ring) \<and> w_hw w = bench_off s0 \<and> w_next w = 0"
proof -
  obtain ring where ring: "CommandRing_default 0x7000 = Ok ring" "ring_holds ring []" using ring_holds_default by blast
  obtain ev where ev: "EventRing_new 0x9000 = Ok ev" "waiters ev = Map.empty" "wait_list ev = []"
    by (simp add: EventRing_new_def ERST_new_def Let_def NUM_TRB_def)
  let ?w = "first_world (sample_xhc ring (set_erdp ev 0)) (bench_off s0)\<lparr>w_polling := True\<rparr>"
  have "ev_run_inv (set_erdp ev 0) [] []" by (rule ev_run_inv [OF ev_run.start [OF ev(1)]])
  then have "listening ?w"
    using ev by (simp add: listening_def first_world_def sample_xhc_def set_erdp_def)
  then have "usb_link 1 bench_deq (?w, ring)"
    using ring(2) sample_doorbells [of ring "set_erdp ev 0"] by (auto simp: usb_link_def first_world_def bench_off_def)
  then show ?thesis by (auto simp: first_world_def)
qed




end
