(* ===== verification/Xhci_Schedule.thy ===== *)
theory Xhci_Schedule
  imports Xhci_Task Executor
begin

text \<open>
  The \<open>await\<close> of an event and the executor of \<open>src/executor.rs\<close>: what \<open>Xhci_Run\<close> describes as polls with a turn of
  the polling task between them is what the rounds of the executor's queue do, whatever other tasks are in
  the queue.
\<close>

section \<open>The tasks in the queue\<close>

text \<open>
  The task that awaits event \<open>k\<close>, the task that polls the event ring, and a task that does something
  else and never ends. Its work leaves this world alone.\<close>

datatype KernelFuture = AwaitEvent nat | PollEvents | OtherWork

text \<open>The controller takes its step before the event ring is polled; an error of the poll ends the task.\<close>

fun kernel_poll :: "'h Hardware \<Rightarrow> (KernelFuture, 'h World, GenericTrbEntry option) poller" where
  "kernel_poll H (AwaitEvent k) w =
     (case EventFuture_poll (ev_of w) k of
        (Some t, er) \<Rightarrow> Ok (AwaitEvent k, set_ev (drop_waiter k er) w, [], Ready (Some t))
      | (None, er) \<Rightarrow> Ok (AwaitEvent k, set_ev er w, [], Pending))"
| "kernel_poll H PollEvents w =
     Ok (PollEvents, turn H w, [], if w_polling (turn H w) then Pending else Ready None)"
| "kernel_poll H OtherWork w = Ok (OtherWork, w, [], Pending)"

section \<open>One lap\<close>

lemma lap_append:
  "lap p (ts @ us) w = rbind (lap p ts w) (\<lambda>(os, q, w1). rbind (lap p us w1) (\<lambda>(os2, q2, w2). Ok (os @ os2, q @ q2, w2)))"
  by (induction ts arbitrary: w)
     (auto simp: rbind_assoc rbind_def split: sum.splits prod.splits)

lemma lap_other:
  "\<forall>t \<in> set ts. future t = OtherWork \<Longrightarrow> \<exists>os. lap (kernel_poll H) ts w = Ok (os, ts, w)"
proof (induction ts)
  case (Cons t ts)
  then obtain os where "lap (kernel_poll H) ts w = Ok (os, ts, w)" by auto
  moreover have "t\<lparr>future := OtherWork\<rparr> = t" using Cons.prems by (cases t) simp
  ultimately show ?case using Cons.prems by (simp add: left_behind_def tasks_of_def)
qed simp

definition event_queue :: "nat \<Rightarrow> KernelFuture Task list \<Rightarrow> bool" where
  "event_queue k q \<longleftrightarrow> (\<exists>t xs pt ys. q = t # xs @ pt # ys \<and> future t = AwaitEvent k \<and> future pt = PollEvents \<and>
     (\<forall>x \<in> set xs \<union> set ys. future x = OtherWork))"

lemma lap_pending:
  assumes "event_queue k q" "EventFuture_poll (ev_of w) k = (None, ev_of w)" "w_polling (turn H w)"
  shows "\<exists>os. lap (kernel_poll H) q w = Ok (os, q, turn H w)"
proof -
  obtain t xs pt ys where q: "q = t # xs @ pt # ys" "future t = AwaitEvent k" "future pt = PollEvents"
    "\<forall>x \<in> set xs \<union> set ys. future x = OtherWork" using assms(1) by (auto simp: event_queue_def)
  have same: "x\<lparr>future := f\<rparr> = x" if "future x = f" for x :: "KernelFuture Task" and f
    using that by (cases x) simp
  obtain o1 where o1: "lap (kernel_poll H) xs w = Ok (o1, xs, w)" using lap_other [of xs H w] q(4) by auto
  obtain o2 where o2: "lap (kernel_poll H) ys (turn H w) = Ok (o2, ys, turn H w)" using lap_other [of ys H "turn H w"] q(4) by auto
  show ?thesis using assms(2,3) o1 o2 q(2,3) by (simp add: q(1) lap_append left_behind_def tasks_of_def same)
qed

lemma run_rounds_add:
  "run_rounds m p g w = Ok (os, g1, w1) \<Longrightarrow> run_rounds n p g1 w1 = Ok (os2, g2, w2) \<Longrightarrow>
   run_rounds (m + n) p g w = Ok (os @ os2, g2, w2)"
  by (induction m arbitrary: g w os) auto

lemma await_scheduled:
  assumes "await_event n H k w = (Ok e, w')" "listening w" "\<not> is_taken g" "waiting g = q" "event_queue k q"
  shows "\<exists>m os g'. m \<le> (n - 1) * length q + 1 \<and>
    run_rounds m (kernel_poll H) g w = Ok (os @ [Some (hd q, Ready (Some e))], g', w') \<and>
    \<not> is_taken g' \<and> waiting g' = tl q"
  using assms(1-4)
proof (induction n arbitrary: g w)
  case 0
  then show ?case by (simp add: await_event.simps)
next
  case (Suc n)
  obtain t ts where q: "q = t # ts" "future t = AwaitEvent k" using assms(5) by (auto simp: event_queue_def)
  show ?case
  proof (cases "fst (EventFuture_poll (ev_of w) k)")
    case (Some x)
    then obtain er where x: "EventFuture_poll (ev_of w) k = (Some x, er)" by (metis prod.collapse)
    then have xe: "x = e" "w' = set_ev (drop_waiter k er) w" using Suc.prems(1) by (auto simp: await_event.simps)
    have "kernel_poll H (future t) w = Ok (AwaitEvent k, w', [], Ready (Some e))" using x xe q(2) by simp
    from run_round_front [where p = "kernel_poll H", OF Suc.prems(3) _ this, of ts] Suc.prems(4) q(1)
    obtain g' where "run_round (kernel_poll H) g w = Ok (Some (t, Ready (Some e)), g', w')" "\<not> is_taken g'" "waiting g' = ts"
      by (auto simp: left_behind_def tasks_of_def)
    then show ?thesis using q(1) by (intro exI [of _ 1] exI [of _ "[]"] exI [of _ g']) simp
  next
    case None
    then have pend: "EventFuture_poll (ev_of w) k = (None, ev_of w)"
      by (auto simp: EventFuture_poll_def split: option.splits list.splits)
    then have a: "await_event n H k (turn H w) = (Ok e, w')" using Suc.prems(1) by (simp add: await_event.simps)
    then obtain n' where n: "n = Suc n'" by (cases n) (simp_all add: await_event.simps)
    obtain ev h where s: "hw_step H (w_hw w) = (ev, h)" by force
    have l: "listening (turn H w)" using turn_spec [where H = H, OF Suc.prems(2) s] by blast
    then have "w_polling (turn H w)" by (simp add: listening_def)
    from lap_pending [where H = H, OF assms(5) pend this] obtain os where os: "lap (kernel_poll H) q w = Ok (os, q, turn H w)" by blast
    from run_rounds_lap [OF Suc.prems(3) _ os, of "[]"] Suc.prems(4) obtain g1 where
      g1: "run_rounds (length q) (kernel_poll H) g w = Ok (map Some os, g1, turn H w)" "\<not> is_taken g1" "waiting g1 = q" by auto
    from Suc.IH [OF a l g1(2,3)] obtain m os2 g' where
      m: "m \<le> (n - 1) * length q + 1" "run_rounds m (kernel_poll H) g1 (turn H w) = Ok (os2 @ [Some (hd q, Ready (Some e))], g', w')"
        "\<not> is_taken g'" "waiting g' = tl q" by blast
    from run_rounds_add [OF g1(1) m(2)] m n show ?thesis
      by (intro exI [of _ "length q + m"] exI [of _ "map Some os @ os2"] exI [of _ g']) (simp add: algebra_simps)
  qed
qed

section \<open>The property\<close>


text \<open>One event of the bench, with another task in the queue.\<close>

definition bench_queue :: "KernelFuture Executor option Mutex" where
  "bench_queue = Mutex_new ''executor.rs'' 160 (Some \<lparr> task_queue =
     Some [Task_new ''xhci.rs'' 107 (AwaitEvent 0), Task_new ''print.rs'' 1 OtherWork, Task_new ''xhci.rs'' 136 PollEvents] \<rparr>)"


end
