(* ===== verification/Uefi_Boot.thy ===== *)
theory Uefi_Boot
  imports Acpi Console Allocator
begin

text \<open>
  The firmware interface that the boot uses, \<open>src/uefi.rs\<close> without the memory map (that is
  \<open>Uefi_Map\<close>), and \<open>init_basic_runtime\<close> and \<open>init_allocator\<close> of \<open>src/init.rs\<close>. The services are code
  of the firmware: the table of boot services holds them as functions on the firmware's state \<open>'f\<close>,
  which return the raw status and what they wrote through their pointers. The structures that the
  firmware points to are read from the memory \<open>m\<close> at the offsets of their fields.
\<close>

section \<open>Identifiers and status\<close>

record EfiGuid =
  data0 :: u32
  data1 :: u16
  data2 :: u16
  data3 :: "u8 list"

definition EFI_GRAPHICS_OUTPUT_PROTOCOL_GUID :: EfiGuid where
  "EFI_GRAPHICS_OUTPUT_PROTOCOL_GUID = \<lparr> data0 = 0x9042a9de, data1 = 0x23dc, data2 = 0x4a38,
     data3 = [0x96, 0xfb, 0x7a, 0xde, 0xd0, 0x80, 0x51, 0x6a] \<rparr>"

definition EFI_LOADED_IMAGE_PROTOCOL_GUID :: EfiGuid where
  "EFI_LOADED_IMAGE_PROTOCOL_GUID = \<lparr> data0 = 0x5B1B31A1, data1 = 0x9562, data2 = 0x11d2,
     data3 = [0x8E, 0x3F, 0x00, 0xA0, 0xC9, 0x69, 0x72, 0x3B] \<rparr>"

definition EFI_ACPI_TABLE_GUID :: EfiGuid where
  "EFI_ACPI_TABLE_GUID = \<lparr> data0 = 0x8868e871, data1 = 0xe4f1, data2 = 0x11d3,
     data3 = [0xbc, 0x22, 0x00, 0x80, 0xc7, 0x3c, 0x88, 0x81] \<rparr>"

text \<open>
  \<open>EfiStatus\<close> has one variant. A service that returns anything else makes a value that the type does
  not have, which is undefined behaviour.
\<close>

datatype EfiStatus = EfiSuccess

definition efi_status :: "u64 \<Rightarrow> EfiStatus res" where
  "efi_status v = (if v = 0 then Ok EfiSuccess else Inl UB)"

section \<open>Tables\<close>

text \<open>
  \<open>get_memory_map\<close> is given pointers to the five fields of the holder; the others get a handle or an
  identifier and return a pointer, written over the null pointer they are given.
\<close>

record 'f EfiBootServicesTable =
  get_memory_map :: "MemoryMapHolder \<Rightarrow> 'f \<Rightarrow> u64 \<times> MemoryMapHolder \<times> 'f"
  handle_protocol :: "u64 \<Rightarrow> EfiGuid \<Rightarrow> u64 \<Rightarrow> 'f \<Rightarrow> u64 \<times> u64 \<times> 'f"
  exit_boot_services :: "u64 \<Rightarrow> usize \<Rightarrow> 'f \<Rightarrow> u64 \<times> 'f"
  locate_protocol :: "EfiGuid \<Rightarrow> u64 \<Rightarrow> u64 \<Rightarrow> 'f \<Rightarrow> u64 \<times> u64 \<times> 'f"

definition boot_get_memory_map ::
  "'f EfiBootServicesTable \<Rightarrow> MemoryMapHolder \<Rightarrow> 'f \<Rightarrow> (EfiStatus \<times> MemoryMapHolder \<times> 'f) res" where
  "boot_get_memory_map self memory_map f =
     (case get_memory_map self memory_map f of (status, memory_map, f) \<Rightarrow>
        rbind (efi_status status) (\<lambda>status. Ok (status, memory_map, f)))"

record EfiConfigurationTable =
  vendor_guid :: EfiGuid
  vendor_table :: u64

record 'f EfiSystemTable =
  boot_services :: "'f EfiBootServicesTable"
  number_of_table_entries :: usize
  configuration_table :: u64

definition mem_u16 :: "mem \<Rightarrow> u64 \<Rightarrow> u16" where
  "mem_u16 m a = from_le_bytes (mem_bytes m a 2)"

definition read_guid :: "mem \<Rightarrow> u64 \<Rightarrow> EfiGuid" where
  "read_guid m a = \<lparr> data0 = mem_u32 m a, data1 = mem_u16 m (a + 4), data2 = mem_u16 m (a + 6),
     data3 = mem_bytes m (a + 8) 8 \<rparr>"

definition config_table_at :: "mem \<Rightarrow> u64 \<Rightarrow> nat \<Rightarrow> EfiConfigurationTable" where
  "config_table_at m base i =
     (let ct = base + 24 * word_of_nat i in \<lparr> vendor_guid = read_guid m ct, vendor_table = mem_u64 m (ct + 16) \<rparr>)"

fun lookup_config_from :: "mem \<Rightarrow> 'f EfiSystemTable \<Rightarrow> EfiGuid \<Rightarrow> nat list \<Rightarrow> EfiConfigurationTable option" where
  "lookup_config_from m self guid [] = None"
| "lookup_config_from m self guid (i # is) =
     (let ct = config_table_at m (configuration_table self) i in
      if vendor_guid ct = guid then Some ct else lookup_config_from m self guid is)"

definition lookup_config_table :: "mem \<Rightarrow> 'f EfiSystemTable \<Rightarrow> EfiGuid \<Rightarrow> EfiConfigurationTable option" where
  "lookup_config_table m self guid =
     lookup_config_from m self guid [0..<unat (number_of_table_entries self)]"

definition acpi_table :: "mem \<Rightarrow> 'f EfiSystemTable \<Rightarrow> u64 option" where
  "acpi_table m self = map_option vendor_table (lookup_config_table m self EFI_ACPI_TABLE_GUID)"

section \<open>Protocols\<close>

text \<open>A reference made from the pointer that a service returned must not be null.\<close>

definition deref :: "u64 \<Rightarrow> u64 res" where
  "deref p = (if p = 0 then Inl UB else Ok p)"

definition locate_graphic_protocol :: "'f EfiSystemTable \<Rightarrow> 'f \<Rightarrow> (u64 \<times> 'f) res" where
  "locate_graphic_protocol st f =
     (case locate_protocol (boot_services st) EFI_GRAPHICS_OUTPUT_PROTOCOL_GUID 0 0 f of (status, p, f) \<Rightarrow>
        rbind (efi_status status) (\<lambda>status.
        if status \<noteq> EfiSuccess then err ''Failed to locate graphics output protocol''
        else rbind (deref p) (\<lambda>p. Ok (p, f))))"

definition locate_loaded_image_protocol :: "u64 \<Rightarrow> 'f EfiSystemTable \<Rightarrow> 'f \<Rightarrow> (u64 \<times> 'f) res" where
  "locate_loaded_image_protocol image_handle st f =
     (case handle_protocol (boot_services st) image_handle EFI_LOADED_IMAGE_PROTOCOL_GUID 0 f of (status, p, f) \<Rightarrow>
        rbind (efi_status status) (\<lambda>status.
        if status \<noteq> EfiSuccess then err ''Failed to locate graphics output protocol''
        else rbind (deref p) (\<lambda>p. Ok (p, f))))"

text \<open>The loaded image protocol, in the order of its declaration: eight words, the base, the size.\<close>

definition image_base :: "mem \<Rightarrow> u64 \<Rightarrow> u64" where
  "image_base m p = mem_u64 m (p + 64)"

definition image_size :: "mem \<Rightarrow> u64 \<Rightarrow> u64" where
  "image_size m p = mem_u64 m (p + 72)"

text \<open>The graphics output protocol points to its mode, which points to the pixel information.\<close>

definition gop_mode :: "mem \<Rightarrow> u64 \<Rightarrow> u64" where
  "gop_mode m p = mem_u64 m (p + 24)"

definition mode_info :: "mem \<Rightarrow> u64 \<Rightarrow> u64" where
  "mode_info m md = mem_u64 m (md + 8)"

definition frame_buffer_base :: "mem \<Rightarrow> u64 \<Rightarrow> u64" where
  "frame_buffer_base m md = mem_u64 m (md + 24)"

definition horizontal_resolution :: "mem \<Rightarrow> u64 \<Rightarrow> u32" where
  "horizontal_resolution m i = mem_u32 m (i + 4)"

definition vertical_resolution :: "mem \<Rightarrow> u64 \<Rightarrow> u32" where
  "vertical_resolution m i = mem_u32 m (i + 8)"

definition pixels_per_scan_line :: "mem \<Rightarrow> u64 \<Rightarrow> u32" where
  "pixels_per_scan_line m i = mem_u32 m (i + 32)"

record VramBufferInfo =
  vram_buf :: u64
  vram_width :: int
  vram_height :: int
  vram_pixels_per_line :: int

definition init_vram :: "mem \<Rightarrow> 'f EfiSystemTable \<Rightarrow> 'f \<Rightarrow> (VramBufferInfo \<times> 'f) res" where
  "init_vram m st f =
     rbind (locate_graphic_protocol st f) (\<lambda>(gp, f).
     let md = gop_mode m gp; info = mode_info m md in
       Ok (\<lparr> vram_buf = frame_buffer_base m md, vram_width = int (unat (horizontal_resolution m info)),
             vram_height = int (unat (vertical_resolution m info)),
             vram_pixels_per_line = int (unat (pixels_per_scan_line m info)) \<rparr>, f))"

text \<open>\<open>Bitmap for VramBufferInfo\<close>: the bitmap it is, with the bytes that lie at its buffer.\<close>

definition vram_bitmap :: "u8 list \<Rightarrow> VramBufferInfo \<Rightarrow> Bitmap" where
  "vram_bitmap bytes v =
     \<lparr> bytes_per_pixel = 4, pixels_per_line = vram_pixels_per_line v, width = vram_width v,
       height = vram_height v, buf = bytes \<rparr>"

section \<open>Leaving the boot services\<close>

text \<open>The loop is bounded by fuel: the number of attempts the firmware is given.\<close>

fun exit_from_efi_boot_services ::
  "nat \<Rightarrow> u64 \<Rightarrow> 'f EfiSystemTable \<Rightarrow> MemoryMapHolder \<Rightarrow> 'f \<Rightarrow> (MemoryMapHolder \<times> 'f) res" where
  "exit_from_efi_boot_services 0 image_handle st memory_map f = Inl OutOfFuel"
| "exit_from_efi_boot_services (Suc n) image_handle st memory_map f =
     rbind (boot_get_memory_map (boot_services st) memory_map f) (\<lambda>(status, memory_map, f).
     if status \<noteq> EfiSuccess then panic ''assertion `left == right` failed''
     else case exit_boot_services (boot_services st) image_handle (map_key memory_map) f of (status, f) \<Rightarrow>
       rbind (efi_status status) (\<lambda>status.
       if status = EfiSuccess then Ok (memory_map, f)
       else exit_from_efi_boot_services n image_handle st memory_map f))"

definition init_basic_runtime ::
  "nat \<Rightarrow> u64 \<Rightarrow> 'f EfiSystemTable \<Rightarrow> FirstFitAllocator \<Rightarrow> 'f \<Rightarrow>
   (MemoryMapHolder \<times> FirstFitAllocator \<times> 'f) res" where
  "init_basic_runtime n image_handle st allocator f =
     rbind (exit_from_efi_boot_services n image_handle st MemoryMapHolder_new f) (\<lambda>(memory_map, f).
     rbind (init_with_mmap allocator memory_map) (\<lambda>allocator. Ok (memory_map, allocator, f)))"

section \<open>The report of the memory\<close>

fun memory_type_name :: "EfiMemoryType \<Rightarrow> string" where
  "memory_type_name RESERVED = ''RESERVED''"
| "memory_type_name LOADER_CODE = ''LOADER_CODE''"
| "memory_type_name LOADER_DATA = ''LOADER_DATA''"
| "memory_type_name BOOT_SERVICES_CODE = ''BOOT_SERVICES_CODE''"
| "memory_type_name BOOT_SERVICES_DATA = ''BOOT_SERVICES_DATA''"
| "memory_type_name RUNTIME_SERVICES_CODE = ''RUNTIME_SERVICES_CODE''"
| "memory_type_name RUNTIME_SERVICES_DATA = ''RUNTIME_SERVICES_DATA''"
| "memory_type_name CONVENTIONAL_MEMORY = ''CONVENTIONAL_MEMORY''"
| "memory_type_name UNUSABLE_MEMORY = ''UNUSABLE_MEMORY''"
| "memory_type_name ACPI_RECLAIM_MEMORY = ''ACPI_RECLAIM_MEMORY''"
| "memory_type_name ACPI_MEMORY_NVS = ''ACPI_MEMORY_NVS''"
| "memory_type_name MEMORY_MAPPED_IO = ''MEMORY_MAPPED_IO''"
| "memory_type_name MEMORY_MAPPED_IO_PORT_SPACE = ''MEMORY_MAPPED_IO_PORT_SPACE''"
| "memory_type_name PAL_CODE = ''PAL_CODE''"
| "memory_type_name PERSISTENT_MEMORY = ''PERSISTENT_MEMORY''"

text \<open>The derived \<open>Debug\<close> of a descriptor.\<close>

definition descriptor_text :: "EfiMemoryDescriptor \<Rightarrow> nat list" where
  "descriptor_text d =
     str ''EfiMemoryDescriptor { memory_type: '' @ str (memory_type_name (memory_type d)) @
     str '', physical_start: '' @ decimal (unat (physical_start d)) @
     str '', virtual_start: '' @ decimal (unat (virtual_start d)) @
     str '', number_of_pages: '' @ decimal (unat (number_of_pages d)) @
     str '', attribute: '' @ decimal (unat (attribute d)) @ str '' }''"

fun count_pages ::
  "(nat list \<Rightarrow> 's \<Rightarrow> 's res) \<Rightarrow> EfiMemoryDescriptor list \<Rightarrow> u64 \<Rightarrow> 's \<Rightarrow> (u64 \<times> 's) res" where
  "count_pages print [] total_memory_pages s = Ok (total_memory_pages, s)"
| "count_pages print (e # es) total_memory_pages s =
     (if memory_type e \<noteq> CONVENTIONAL_MEMORY then count_pages print es total_memory_pages s
      else rbind (uadd total_memory_pages (number_of_pages e)) (\<lambda>total_memory_pages.
           rbind (print (log_text Info ''src/init.rs'' 79 (descriptor_text e)) s)
             (count_pages print es total_memory_pages)))"

definition init_allocator :: "(nat list \<Rightarrow> 's \<Rightarrow> 's res) \<Rightarrow> MemoryMapHolder \<Rightarrow> 's \<Rightarrow> 's res" where
  "init_allocator print memory_map s =
     rbind (memory_map_entries memory_map) (\<lambda>es.
     rbind (count_pages print es 0 s) (\<lambda>(total_memory_pages, s).
     rbind (umul total_memory_pages 4096) (\<lambda>total.
     let total_memory_size_mib = total div 1024 div 1024 in
       print (log_text Info ''src/init.rs'' 82 (str ''Total: '' @ decimal (unat total_memory_pages) @
         str '' pages = '' @ decimal (unat total_memory_size_mib) @ str '' MiB'')) s)))"

section \<open>What the boot relies on\<close>

lemma not_EfiSuccess [simp]: "status \<noteq> EfiSuccess \<longleftrightarrow> False" "status = EfiSuccess \<longleftrightarrow> True"
  by (cases status; simp)+

lemma efi_status_0 [simp]: "efi_status 0 = Ok EfiSuccess" "v \<noteq> 0 \<Longrightarrow> efi_status v = Inl UB"
  by (simp_all add: efi_status_def)

text \<open>
  The loop never comes to a second round: with the one status the type has, either both services
  succeed at the first attempt or the status is not a value of its type.
\<close>

lemma exit_in_one_round:
  assumes "0 < n"
  shows "exit_from_efi_boot_services n image_handle st memory_map f =
    (case get_memory_map (boot_services st) memory_map f of (v, memory_map', f') \<Rightarrow>
     case exit_boot_services (boot_services st) image_handle (map_key memory_map') f' of (v', f'') \<Rightarrow>
       if v = 0 \<and> v' = 0 then Ok (memory_map', f'') else Inl UB)"
  using assms
  by (cases n) (auto simp: boot_get_memory_map_def efi_status_def split: prod.split)

lemma lookup_config_from_Some:
  "lookup_config_from m self guid is = Some ct \<longleftrightarrow>
   (\<exists>i us vs. is = us @ i # vs \<and> ct = config_table_at m (configuration_table self) i \<and> vendor_guid ct = guid \<and>
      (\<forall>j \<in> set us. vendor_guid (config_table_at m (configuration_table self) j) \<noteq> guid))"
  (is "?l is \<longleftrightarrow> ?r is")
proof (induction "is")
  case (Cons i "is")
  let ?ct = "config_table_at m (configuration_table self)"
  show ?case
  proof (cases "vendor_guid (?ct i) = guid")
    case True
    have "?r (i # is) \<longleftrightarrow> ct = ?ct i"
    proof
      assume "?r (i # is)"
      then obtain k us vs where k: "i # is = us @ k # vs" "ct = ?ct k" "\<forall>j \<in> set us. vendor_guid (?ct j) \<noteq> guid"
        by blast
      then show "ct = ?ct i" using True by (cases us) auto
    next
      assume "ct = ?ct i"
      then show "?r (i # is)" using True by (intro exI [of _ i] exI [of _ "[]"] exI [of _ "is"]) simp
    qed
    then show ?thesis using True by (auto simp: Let_def)
  next
    case False
    have "?r (i # is) \<longleftrightarrow> ?r is"
    proof
      assume "?r (i # is)"
      then obtain k us vs where k: "i # is = us @ k # vs" "ct = ?ct k" "vendor_guid ct = guid"
        "\<forall>j \<in> set us. vendor_guid (?ct j) \<noteq> guid" by blast
      with False obtain us' where "us = i # us'" by (cases us) auto
      with k show "?r is" by (intro exI [of _ k] exI [of _ us'] exI [of _ vs]) auto
    next
      assume "?r is"
      then obtain k us vs where k: "is = us @ k # vs" "ct = ?ct k" "vendor_guid ct = guid"
        "\<forall>j \<in> set us. vendor_guid (?ct j) \<noteq> guid" by blast
      with False show "?r (i # is)" by (intro exI [of _ k] exI [of _ "i # us"] exI [of _ vs]) auto
    qed
    then show ?thesis using False Cons.IH by (simp add: Let_def)
  qed
qed simp

lemma lookup_config_from_None:
  "lookup_config_from m self guid is = None \<longleftrightarrow>
   (\<forall>i \<in> set is. vendor_guid (config_table_at m (configuration_table self) i) \<noteq> guid)"
  by (induction "is") (auto simp: Let_def)

end
