(* ===== verification/Boot_Display.thy ===== *)
theory Boot_Display
  imports Graphics_Paint
begin

text \<open>
  The screen at boot: \<open>init_display\<close> of \<open>src/init.rs\<close> with the test pattern of \<open>src/graphics.rs\<close>. The
  pattern mixes colours, so what is followed through it is the set of positions it may touch.
\<close>

section \<open>init_display\<close>

definition init_display :: "string \<Rightarrow> Bitmap \<Rightarrow> Bitmap res" where
  "init_display font vram =
     (let vw = width vram; vh = height vram in
      rbind (expect (fill_rect vram 0x000000 0 0 vw vh) ''fill_rect failed'') (draw_test_pattern font))"

section \<open>Touching a set of positions\<close>

text \<open>The bitmap \<open>b'\<close> has the shape of \<open>b\<close> and its pixels outside \<open>S\<close>.\<close>

definition touched :: "Bitmap \<Rightarrow> (int \<times> int) set \<Rightarrow> Bitmap \<Rightarrow> bool" where
  "touched b S b' \<longleftrightarrow>
     bytes_per_pixel b' = bytes_per_pixel b \<and> pixels_per_line b' = pixels_per_line b \<and>
     width b' = width b \<and> height b' = height b \<and> length (buf b') = length (buf b) \<and>
     (\<forall>x y. on_grid b x y \<longrightarrow> (x, y) \<notin> S \<longrightarrow> pixel b' x y = pixel b x y)"

lemma painted_touched: "painted b S color b' \<Longrightarrow> S \<subseteq> T \<Longrightarrow> touched b T b'"
  by (auto simp: painted_def touched_def)

lemma touched_refl [simp]: "touched b S b"
  by (simp add: touched_def)

lemma touched_shape:
  assumes "touched b S b'"
  shows "wf_bitmap b' = wf_bitmap b" "on_grid b' = on_grid b" "visible b' = visible b"
    "width b' = width b" "height b' = height b" "pixels_per_line b' = pixels_per_line b"
  using assms
  by (auto simp: touched_def wf_bitmap_def on_grid_def visible_def is_in_x_range_def is_in_y_range_def
      fun_eq_iff)

lemma touched_trans:
  assumes "touched b S b1" "touched b1 S b2"
  shows "touched b S b2"
  using assms touched_shape(2) [OF assms(1)] by (auto simp: touched_def)

lemma for_each_touches:
  assumes "\<And>x b'. x \<in> set xs \<Longrightarrow> touched b S b' \<Longrightarrow> \<exists>b''. f x b' = Ok b'' \<and> touched b' S b''"
  shows "\<exists>b'. for_each f xs b = Ok b' \<and> touched b S b'"
  using assms
proof (induction xs arbitrary: b)
  case Nil
  then show ?case by simp
next
  case (Cons x xs)
  obtain b1 where b1: "f x b = Ok b1" "touched b S b1"
    using Cons.prems [of x b] by auto
  have "\<exists>b'. for_each f xs b1 = Ok b' \<and> touched b1 S b'"
    using Cons.prems touched_trans [OF b1(2)] by (intro Cons.IH) (metis list.set_intros(2))
  then show ?case using b1 touched_trans by fastforce
qed

section \<open>The parts of the pattern\<close>

lemma line_points_box:
  "line_points x0 y0 x1 y1 \<subseteq> {min x0 x1..max x0 x1} \<times> {min y0 y1..max y0 y1}"
proof -
  have "min a b \<le> a + r * sgn (b - a) \<and> a + r * sgn (b - a) \<le> max a b"
    if "0 \<le> r" "r \<le> \<bar>b - a\<bar>" for a b r :: int
    using towards_between [OF that] by simp
  then show ?thesis
    using minor_offset_bounds [of "\<bar>x1 - x0\<bar>" "\<bar>y1 - y0\<bar>"] minor_offset_bounds [of "\<bar>y1 - y0\<bar>" "\<bar>x1 - x0\<bar>"]
    unfolding line_points_def Let_def by (fastforce split: if_splits)
qed

text \<open>A square of the pattern: \<open>h\<close> pixels wide and high.\<close>

lemma fill_square:
  assumes "wf_bitmap b" "0 \<le> px" "0 \<le> py" "px + 64 \<le> width b" "px + 64 \<le> pixels_per_line b"
  shows "if py + 64 \<le> height b then \<exists>b'. fill_rect b color px py 64 64 = Ok b' \<and>
      painted b ({px..<px + 64} \<times> {py..<py + 64}) color b'
    else fill_rect b color px py 64 64 = err ''Out of Range''"
  using fill_rect_paints [OF assms(1), of 64 64 px py color] assms
  by (auto simp: is_in_x_range_def is_in_y_range_def)

lemma glyph_points_box:
  "glyph_points (lookup_font font c) x y \<subseteq> {x..<x + 8} \<times> {y..<y + 16}"
proof (cases "c < 256")
  case True
  with lookup_font_wf(1) [of font c] lookup_font_wf(2) [of c font] obtain g where g: "lookup_font font c = Some g" "wf_glyph g" by auto
  then show ?thesis by (auto simp: glyph_points_def wf_glyph_def list_all_length)
next
  case False
  then have "lookup_font font c = None" by (simp add: lookup_font_def)
  then show ?thesis by (simp add: glyph_points_def)
qed

lemma draw_str_fg_touches:
  assumes "wf_bitmap b" "0 \<le> x" "x < 2 ^ 32" "0 \<le> y" "y < 2 ^ 33" "length s < 100"
  shows "\<exists>b'. draw_str_fg font b x y color s = Ok b' \<and> touched b ({x..<x + 8 * int (length s)} \<times> {y..<y + 16}) b'"
  unfolding draw_str_fg_def
proof (rule for_each_touches)
  let ?S = "{x..<x + 8 * int (length s)} \<times> {y..<y + 16}"
  fix p b'
  assume p: "p \<in> set (enumerate 0 s)" and b': "touched b ?S b'"
  obtain i c where ic: "p = (i, c)" by (cases p)
  then have i: "i < length s" using p by (auto simp: in_set_enumerate_eq)
  have ck: "chk_i64 (int i * 8) = Ok (int i * 8)" "chk_i64 (x + int i * 8) = Ok (x + int i * 8)"
    using i assms(2,3,6) by (simp_all add: chk_i64_def)
  have wf: "wf_bitmap b'" using assms(1) touched_shape(1) [OF b'] by simp
  have "\<bar>x + int i * 8\<bar> < 2 ^ 62" "\<bar>y\<bar> < 2 ^ 62" using assms i by simp_all
  from draw_font_fg_paints [OF wf this] obtain b'' where
    "draw_font_fg font b' (x + int i * 8) y color c = Ok b''"
    "painted b' (glyph_points (lookup_font font c) (x + int i * 8) y \<inter> {(x, y). visible b' x y}) color b''"
    by blast
  moreover have "glyph_points (lookup_font font c) (x + int i * 8) y \<inter> {(x, y). visible b' x y} \<subseteq> ?S"
    using glyph_points_box [of font c "x + int i * 8" y] i by (fastforce simp: subset_iff)
  ultimately show "\<exists>b''. (case p of (i, c) \<Rightarrow> \<lambda>b. rbind (chk_i64 (int i * 8)) (\<lambda>ofs.
      rbind (chk_i64 (x + ofs)) (\<lambda>px. draw_font_fg font b px y color c))) b' = Ok b'' \<and> touched b' ?S b''"
    unfolding ic by (auto simp: ck intro: painted_touched)
qed


text \<open>One row of the bars, and the rows from the \<open>k\<close>-th on.\<close>

definition bar :: "int \<Rightarrow> nat \<times> u32 \<Rightarrow> Bitmap \<Rightarrow> Bitmap res" where
  "bar left = (\<lambda>(i, c) b.
     rbind (expect (fill_rect b c left (int i * 64) 64 64) ''fill_rect failed'') (\<lambda>b.
       expect (fill_rect b (NOT c) (left + 64) (int i * 64) 64 64) ''fill_rect failed''))"

definition bar_area :: "int \<Rightarrow> nat \<Rightarrow> nat \<Rightarrow> (int \<times> int) set" where
  "bar_area left k n = {left..<left + 128} \<times> {int k * 64..<int (k + n) * 64}"

definition bar_color :: "u32 list \<Rightarrow> int \<Rightarrow> nat \<Rightarrow> int \<times> int \<Rightarrow> u32" where
  "bar_color cs left k p = (let c = cs ! (nat (snd p div 64) - k) in if fst p < left + 64 then c else NOT c)"

lemma bar_paints:
  assumes "wf_bitmap b" "0 \<le> left" "left + 128 \<le> width b" "left + 128 \<le> pixels_per_line b"
  shows "if int k * 64 + 64 \<le> height b
    then \<exists>b'. bar left (k, c) b = Ok b' \<and> touched b (bar_area left k 1) b' \<and>
      (\<forall>(x, y) \<in> bar_area left k 1. pixel b' x y = bar_color [c] left k (x, y))
    else bar left (k, c) b = panic ''fill_rect failed''"
proof (cases "int k * 64 + 64 \<le> height b")
  case False
  with fill_square [of b left "int k * 64" c] assms show ?thesis by (simp add: bar_def)
next
  case True
  with fill_square [of b left "int k * 64" c] assms obtain b1 where
    b1: "fill_rect b c left (int k * 64) 64 64 = Ok b1"
      "painted b ({left..<left + 64} \<times> {int k * 64..<int k * 64 + 64}) c b1" by auto
  have sh: "wf_bitmap b1" "width b1 = width b" "pixels_per_line b1 = pixels_per_line b" "height b1 = height b"
    "on_grid b1 = on_grid b"
    using b1(2) assms(1) painted_shape [OF b1(2)] by (simp_all add: painted_def)
  with fill_square [of b1 "left + 64" "int k * 64" "NOT c"] assms True obtain b2 where
    b2: "fill_rect b1 (NOT c) (left + 64) (int k * 64) 64 64 = Ok b2"
      "painted b1 ({left + 64..<left + 64 + 64} \<times> {int k * 64..<int k * 64 + 64}) (NOT c) b2" by auto
  have "touched b (bar_area left k 1) b2"
    by (intro touched_trans [of b _ b1 b2] painted_touched [OF b1(2)] painted_touched [OF b2(2)])
      (auto simp: bar_area_def)
  moreover have "pixel b2 x y = bar_color [c] left k (x, y)" if "(x, y) \<in> bar_area left k 1" for x y
  proof -
    have "on_grid b x y" using that assms True by (auto simp: on_grid_def bar_area_def)
    moreover have "nat (y div 64) = k" using that by (simp add: bar_area_def) linarith
    ultimately show ?thesis using b1(2) b2(2) that sh by (auto simp: painted_def bar_color_def bar_area_def)
  qed
  ultimately show ?thesis using b1(1) b2(1) True by (auto simp: bar_def)
qed

lemma bars_paint:
  assumes "wf_bitmap b" "0 \<le> left" "left + 128 \<le> width b" "left + 128 \<le> pixels_per_line b"
  shows "if cs = [] \<or> int (k + length cs) * 64 \<le> height b
    then \<exists>b'. for_each (bar left) (enumerate k cs) b = Ok b' \<and> touched b (bar_area left k (length cs)) b' \<and>
      (\<forall>(x, y) \<in> bar_area left k (length cs). pixel b' x y = bar_color cs left k (x, y))
    else for_each (bar left) (enumerate k cs) b = panic ''fill_rect failed''"
  using assms
proof (induction cs arbitrary: k b)
  case Nil
  then show ?case by (auto simp: bar_area_def)
next
  case (Cons c cs)
  let ?n = "length (c # cs)"
  show ?case
  proof (cases "int k * 64 + 64 \<le> height b")
    case False
    with bar_paints [OF Cons.prems, of k c] show ?thesis by simp
  next
    case True
    with bar_paints [OF Cons.prems, of k c] obtain b1 where b1: "bar left (k, c) b = Ok b1"
      "touched b (bar_area left k 1) b1"
      "\<forall>(x, y) \<in> bar_area left k 1. pixel b1 x y = bar_color [c] left k (x, y)" by auto
    note sh = touched_shape [OF b1(2)]
    have IH: "if cs = [] \<or> int (Suc k + length cs) * 64 \<le> height b
      then \<exists>b'. for_each (bar left) (enumerate (Suc k) cs) b1 = Ok b' \<and> touched b1 (bar_area left (Suc k) (length cs)) b' \<and>
        (\<forall>(x, y) \<in> bar_area left (Suc k) (length cs). pixel b' x y = bar_color cs left (Suc k) (x, y))
      else for_each (bar left) (enumerate (Suc k) cs) b1 = panic ''fill_rect failed''"
      using Cons.IH [of b1 "Suc k"] Cons.prems sh by simp
    show ?thesis
    proof (cases "int (k + ?n) * 64 \<le> height b")
      case False
      with IH b1(1) True show ?thesis by (cases "cs = []") auto
    next
      case le: True
      with IH obtain b2 where b2: "for_each (bar left) (enumerate (Suc k) cs) b1 = Ok b2"
        "touched b1 (bar_area left (Suc k) (length cs)) b2"
        "\<forall>(x, y) \<in> bar_area left (Suc k) (length cs). pixel b2 x y = bar_color cs left (Suc k) (x, y)" by auto
      have "touched b (bar_area left k ?n) b2"
        using b1(2) b2(2) by (intro touched_trans [of b _ b1 b2]) (auto simp: touched_def bar_area_def)
      moreover have "pixel b2 x y = bar_color (c # cs) left k (x, y)" if "(x, y) \<in> bar_area left k ?n" for x y
      proof (cases "y < int k * 64 + 64")
        case True
        then have p: "(x, y) \<in> bar_area left k 1" "(x, y) \<notin> bar_area left (Suc k) (length cs)"
          using that by (auto simp: bar_area_def)
        have "on_grid b x y" using that Cons.prems le by (auto simp: on_grid_def bar_area_def)
        then have "pixel b2 x y = pixel b1 x y" using b2(2) sh(2) p(2) by (simp add: touched_def)
        moreover have "nat (y div 64) = k" using p(1) by (simp add: bar_area_def) linarith
        ultimately show ?thesis using b1(3) p(1) by (auto simp: bar_color_def)
      next
        case False
        then have p: "(x, y) \<in> bar_area left (Suc k) (length cs)" using that by (auto simp: bar_area_def)
        have "nat (y div 64) - k = Suc (nat (y div 64) - Suc k)" using False by linarith
        then have "bar_color (c # cs) left k (x, y) = bar_color cs left (Suc k) (x, y)"
          by (simp add: bar_color_def)
        with b2(3) p show ?thesis by auto
      qed
      ultimately show ?thesis using b1(1) b2(1) le by auto
    qed
  qed
qed

text \<open>The white lines and the two rows of text stay inside their boxes.\<close>

lemma lines_touch:
  assumes "wf_bitmap b" "\<forall>(x0, y0) \<in> set ps \<union> set qs. 0 \<le> x0 \<and> x0 \<le> 128 \<and> 0 \<le> y0 \<and> y0 \<le> 128"
    "{left..left + 128} \<times> {0..128} \<subseteq> S"
  shows "\<exists>b'. for_each (\<lambda>(x0, y0). for_each (\<lambda>(x1, y1) b.
      ignore_err b (draw_line b color (left + x0) y0 (left + x1) y1)) ps) qs b = Ok b' \<and> touched b S b'"
proof -
  have line: "\<exists>b''. ignore_err b' (draw_line b' color (left + x0) y0 (left + x1) y1) = Ok b'' \<and> touched b' S b''"
    if "touched b S b'" "(x0, y0) \<in> set ps \<union> set qs" "(x1, y1) \<in> set ps \<union> set qs" for b' x0 y0 x1 y1
  proof (cases "visible b' (left + x0) y0 \<and> visible b' (left + x1) y1")
    case True
    with draw_line_paints [of b' "left + x0" y0 "left + x1" y1 color] touched_shape(1) [OF that(1)] assms
    obtain b'' where "draw_line b' color (left + x0) y0 (left + x1) y1 = Ok b''"
      "painted b' (line_points (left + x0) y0 (left + x1) y1) color b''" by blast
    moreover have "line_points (left + x0) y0 (left + x1) y1 \<subseteq> S"
    proof -
      have "0 \<le> x0 \<and> x0 \<le> 128 \<and> 0 \<le> y0 \<and> y0 \<le> 128" "0 \<le> x1 \<and> x1 \<le> 128 \<and> 0 \<le> y1 \<and> y1 \<le> 128"
        using assms(2) that(2,3) by fast+
      then have "{min (left + x0) (left + x1)..max (left + x0) (left + x1)} \<times> {min y0 y1..max y0 y1}
          \<subseteq> {left..left + 128} \<times> {0..128}"
        by (intro Sigma_mono) (auto simp: min_def max_def)
      then show ?thesis using line_points_box [of "left + x0" y0 "left + x1" y1] assms(3) by (blast intro: subset_trans)
    qed
    ultimately show ?thesis by (auto simp: ignore_err_def intro: painted_touched)
  next
    case False
    then show ?thesis by (auto simp: draw_line_def visible_def ignore_err_def)
  qed
  show ?thesis
  proof (rule for_each_touches)
    fix p b' assume p: "p \<in> set qs" "touched b S b'"
    obtain x0 y0 where xy: "p = (x0, y0)" by (cases p)
    show "\<exists>b''. (case p of (x0, y0) \<Rightarrow> for_each (\<lambda>(x1, y1) b.
        ignore_err b (draw_line b color (left + x0) y0 (left + x1) y1)) ps) b' = Ok b'' \<and> touched b' S b''"
      unfolding xy prod.case
    proof (rule for_each_touches)
      fix q b1 assume q: "q \<in> set ps" "touched b' S b1"
      obtain x1 y1 where q1: "q = (x1, y1)" by (cases q)
      with p q xy line [OF touched_trans [OF p(2) q(2)], of x0 y0 x1 y1]
      show "\<exists>b2. (case q of (x1, y1) \<Rightarrow> \<lambda>b.
          ignore_err b (draw_line b color (left + x0) y0 (left + x1) y1)) b1 = Ok b2 \<and> touched b1 S b2"
        by simp
    qed
  qed
qed


definition PATTERN_COLORS :: "u32 list" where
  "PATTERN_COLORS = [0x000000, 0xff0000, 0x00ff00, 0x0000ff]"

definition pattern_points :: "(int \<times> int) list" where
  "pattern_points = [(0, 0), (0, 128), (128, 0), (128, 128)]"

lemma draw_test_pattern_eq:
  assumes "wf_bitmap b"
  shows "draw_test_pattern font b =
    (let left = width b - 129 in
     rbind (for_each (bar left) (enumerate 0 PATTERN_COLORS) b) (\<lambda>b.
     rbind (for_each (\<lambda>(x0, y0). for_each (\<lambda>(x1, y1) b.
       ignore_err b (draw_line b 0xffffff (left + x0) y0 (left + x1) y1)) pattern_points) pattern_points b) (\<lambda>b.
     rbind (draw_str_fg font b left 256 0x00ff00 (code_points ''0123456789'')) (\<lambda>b.
       draw_str_fg font b left 272 0x00ff00 (code_points ''ABCDEF'')))))"
proof -
  have "chk_i64 (width b - 128) = Ok (width b - 128)" "chk_i64 (width b - 128 - 1) = Ok (width b - 129)"
    using assms by (simp_all add: wf_bitmap_def chk_i64_def)
  then show ?thesis
    unfolding draw_test_pattern_def bar_def PATTERN_COLORS_def pattern_points_def Let_def
    by (simp only: rbind_simps) (simp del: enumerate_simps for_each.simps)
qed

text \<open>The part after the bars: everything it draws is above row 129 or in the two rows of text.\<close>

lemma pattern_rest_touches:
  assumes "wf_bitmap b" "0 \<le> left" "left < 2 ^ 32"
  shows "\<exists>b'. rbind (for_each (\<lambda>(x0, y0). for_each (\<lambda>(x1, y1) b.
       ignore_err b (draw_line b 0xffffff (left + x0) y0 (left + x1) y1)) pattern_points) pattern_points b) (\<lambda>b.
     rbind (draw_str_fg font b left 256 0x00ff00 (code_points ''0123456789'')) (\<lambda>b.
       draw_str_fg font b left 272 0x00ff00 (code_points ''ABCDEF''))) = Ok b' \<and>
     touched b ({left..left + 128} \<times> ({0..128} \<union> {256..<288})) b'"
proof -
  let ?S = "{left..left + 128} \<times> ({0..128} \<union> {256..<288})"
  obtain b1 where b1: "for_each (\<lambda>(x0, y0). for_each (\<lambda>(x1, y1) b.
       ignore_err b (draw_line b 0xffffff (left + x0) y0 (left + x1) y1)) pattern_points) pattern_points b = Ok b1"
    "touched b ?S b1"
    using lines_touch [where ps = pattern_points and qs = pattern_points and left = left and S = ?S and color = "0xffffff", OF assms(1)]
    by (auto simp: pattern_points_def simp del: for_each.simps)
  have rows: "\<exists>b'. draw_str_fg font b left y 0x00ff00 s = Ok b' \<and> touched b ?S b'"
    if "wf_bitmap b" "y = 256 \<or> y = 272" "length s \<le> 16" for b y s
    using draw_str_fg_touches [where y = y and s = s and font = font and color = "0x00ff00", OF that(1) assms(2,3)] that(2,3)
    by (fastforce simp: touched_def)
  obtain b2 where b2: "draw_str_fg font b1 left 256 0x00ff00 (code_points ''0123456789'') = Ok b2" "touched b1 ?S b2"
    using rows [of b1 256 "code_points ''0123456789''"] touched_shape(1) [OF b1(2)] assms(1)
    by (auto simp: code_points_def)
  obtain b3 where b3: "draw_str_fg font b2 left 272 0x00ff00 (code_points ''ABCDEF'') = Ok b3" "touched b2 ?S b3"
    using rows [of b2 272 "code_points ''ABCDEF''"] touched_shape(1) [OF b1(2)] touched_shape(1) [OF b2(2)] assms(1)
    by (auto simp: code_points_def)
  show ?thesis
    using b1 b2 b3 touched_trans [OF touched_trans [OF b1(2) b2(2)] b3(2)]
    by (simp only: rbind_simps) blast
qed


text \<open>The bars decide whether there is room; on a black screen the rest is then as drawn.\<close>

lemma pattern_bars:
  assumes "wf_bitmap b" "129 \<le> width b" "width b \<le> pixels_per_line b"
  shows "if 256 \<le> height b
    then \<exists>b'. for_each (bar (width b - 129)) (enumerate 0 PATTERN_COLORS) b = Ok b' \<and>
      touched b (bar_area (width b - 129) 0 4) b' \<and>
      (\<forall>(x, y) \<in> bar_area (width b - 129) 0 4. pixel b' x y = bar_color PATTERN_COLORS (width b - 129) 0 (x, y))
    else for_each (bar (width b - 129)) (enumerate 0 PATTERN_COLORS) b = panic ''fill_rect failed''"
proof -
  have n: "length PATTERN_COLORS = 4" "(PATTERN_COLORS = []) = False" by (simp_all add: PATTERN_COLORS_def)
  show ?thesis
    using bars_paint [OF assms(1), of "width b - 129" PATTERN_COLORS 0, unfolded n] assms(2,3) by simp
qed

lemma draw_test_pattern_no_room:
  assumes "wf_bitmap b" "width b \<le> pixels_per_line b" "width b < 129 \<or> height b < 256"
  shows "draw_test_pattern font b = panic ''fill_rect failed''"
proof (cases "width b < 129")
  case True
  then have "fill_rect b 0 (width b - 129) 0 64 64 = err ''Out of Range''"
    by (simp add: fill_rect_def is_in_x_range_def)
  then have "for_each (bar (width b - 129)) (enumerate 0 PATTERN_COLORS) b = panic ''fill_rect failed''"
    by (simp add: PATTERN_COLORS_def bar_def)
  then show ?thesis by (simp add: draw_test_pattern_eq [OF assms(1)] Let_def)
next
  case False
  with pattern_bars [OF assms(1) _ assms(2)] assms(3) show ?thesis
    by (simp add: draw_test_pattern_eq [OF assms(1)] Let_def)
qed

lemma draw_test_pattern_room:
  assumes "wf_bitmap b" "129 \<le> width b" "width b \<le> pixels_per_line b" "256 \<le> height b"
  shows "\<exists>b'. draw_test_pattern font b = Ok b' \<and> wf_bitmap b' \<and> visible b' = visible b \<and>
    (\<forall>x y. visible b x y \<longrightarrow>
       (x < width b - 129 \<or> 288 \<le> y \<longrightarrow> pixel b' x y = pixel b x y) \<and>
       (width b - 129 \<le> x \<and> x < width b - 1 \<and> 128 < y \<and> y < 256 \<longrightarrow>
          pixel b' x y = bar_color PATTERN_COLORS (width b - 129) 0 (x, y)))"
proof -
  let ?l = "width b - 129"
  from pattern_bars [OF assms(1-3)] assms(4) obtain b1 where
    b1: "for_each (bar ?l) (enumerate 0 PATTERN_COLORS) b = Ok b1" "touched b (bar_area ?l 0 4) b1"
      "\<forall>(x, y) \<in> bar_area ?l 0 4. pixel b1 x y = bar_color PATTERN_COLORS ?l 0 (x, y)" by auto
  have "wf_bitmap b1" "0 \<le> ?l" "?l < 2 ^ 32"
    using touched_shape(1) [OF b1(2)] assms by (simp_all add: wf_bitmap_def)
  from pattern_rest_touches [OF this, of font] b1(1) obtain b2 where
    b2: "draw_test_pattern font b = Ok b2" "touched b1 ({?l..?l + 128} \<times> ({0..128} \<union> {256..<288})) b2"
    by (auto simp: draw_test_pattern_eq [OF assms(1)] Let_def)
  have "(x < ?l \<or> 288 \<le> y \<longrightarrow> pixel b2 x y = pixel b x y) \<and>
      (?l \<le> x \<and> x < width b - 1 \<and> 128 < y \<and> y < 256 \<longrightarrow> pixel b2 x y = bar_color PATTERN_COLORS ?l 0 (x, y))"
    if "visible b x y" for x y
    using b1(2,3) b2(2) visible_on_grid [OF that] touched_shape(2) [OF b1(2)]
    by (auto simp: touched_def bar_area_def)
  moreover have "wf_bitmap b2" "visible b2 = visible b"
    using touched_shape(1,3) [OF b2(2)] touched_shape(1,3) [OF b1(2)] assms(1) by simp_all
  ultimately show ?thesis using b2(1) by blast
qed

text \<open>
  C28: \<open>init_display\<close> succeeds exactly on a screen of at least 129 by 256 pixels whose lines have room for
  them, and panics on every other one. The screen is then black to the left of the last 129 columns and
  from row 288 on, and the rows 129 to 255 of these columns show the bars: the four colours, each
  beside its complement.\<close>

theorem init_display_draws_pattern:
  assumes "wf_bitmap b"
  shows "if 129 \<le> width b \<and> width b \<le> pixels_per_line b \<and> 256 \<le> height b
    then \<exists>b'. init_display font b = Ok b' \<and> wf_bitmap b' \<and> visible b' = visible b \<and>
      (\<forall>x y. visible b x y \<longrightarrow>
         (x < width b - 129 \<or> 288 \<le> y \<longrightarrow> pixel b' x y = 0) \<and>
         (width b - 129 \<le> x \<and> x < width b - 1 \<and> 128 < y \<and> y < 256 \<longrightarrow>
            pixel b' x y = bar_color PATTERN_COLORS (width b - 129) 0 (x, y)))
    else init_display font b = panic ''fill_rect failed''"
proof -
  let ?w = "width b" and ?h = "height b"
  have eq: "init_display font b = rbind (expect (fill_rect b 0 0 0 ?w ?h) ''fill_rect failed'') (draw_test_pattern font)"
    by (simp add: init_display_def)
  have fill: "if 1 \<le> ?w \<and> ?w \<le> pixels_per_line b \<and> 1 \<le> ?h
    then \<exists>b'. fill_rect b 0 0 0 ?w ?h = Ok b' \<and> painted b ({0..<?w} \<times> {0..<?h}) 0 b'
    else fill_rect b 0 0 0 ?w ?h = err ''Out of Range''"
    using fill_rect_paints [OF assms, of ?w ?h 0 0 0] assms
    by (auto simp: is_in_x_range_def is_in_y_range_def wf_bitmap_def split: if_splits)
  show ?thesis
  proof (cases "1 \<le> ?w \<and> ?w \<le> pixels_per_line b \<and> 1 \<le> ?h")
    case False
    with fill eq show ?thesis by auto
  next
    case True
    with fill obtain b1 where b1: "fill_rect b 0 0 0 ?w ?h = Ok b1" "painted b ({0..<?w} \<times> {0..<?h}) 0 b1" by auto
    note sh = touched_shape [OF painted_touched [OF b1(2) subset_refl]]
    have wf: "wf_bitmap b1" "init_display font b = draw_test_pattern font b1"
      using sh(1) assms by (simp_all add: eq b1(1))
    have "pixel b1 x y = 0" if "visible b x y" for x y
      using that visible_on_grid [OF that] b1(2) by (simp add: painted_def visible_def is_in_x_range_def is_in_y_range_def)
    then show ?thesis
      using draw_test_pattern_room [OF wf(1), of font] draw_test_pattern_no_room [OF wf(1), of font] True wf(2) sh
      by (auto simp: not_le)
  qed
qed

text \<open>The smallest screen that has room for the pattern.\<close>

definition small_screen :: Bitmap where
  "small_screen = \<lparr> bytes_per_pixel = 4, pixels_per_line = 129, width = 129, height = 256,
     buf = replicate 132096 0xFF \<rparr>"

theorem init_display_draws_pattern_witness:
  "\<exists>b'. init_display [] small_screen = Ok b' \<and> pixel b' 0 200 = 0xff \<and> pixel b' 70 200 = 0xffffff00"
proof -
  have wf: "wf_bitmap small_screen" by (simp add: wf_bitmap_def small_screen_def)
  have v: "visible small_screen 0 200" "visible small_screen 70 200"
    by (simp_all add: small_screen_def visible_def is_in_x_range_def is_in_y_range_def)
  have sz: "width small_screen = 129" "pixels_per_line small_screen = 129" "height small_screen = 256"
    by (simp_all add: small_screen_def)
  have c: "bar_color PATTERN_COLORS 0 0 (0, 200) = 0xff" "bar_color PATTERN_COLORS 0 0 (70, 200) = 0xffffff00"
    by (simp_all add: bar_color_def PATTERN_COLORS_def)
  from init_display_draws_pattern [OF wf, of "[]"] obtain b' where
    b': "init_display [] small_screen = Ok b'"
      "\<forall>x y. visible small_screen x y \<longrightarrow> (x < 0 \<or> 288 \<le> y \<longrightarrow> pixel b' x y = 0) \<and>
         (0 \<le> x \<and> x < 128 \<and> 128 < y \<and> y < 256 \<longrightarrow> pixel b' x y = bar_color PATTERN_COLORS 0 0 (x, y))"
    unfolding sz by auto
  from b'(2) v c have "pixel b' 0 200 = 0xff" "pixel b' 70 200 = 0xffffff00" by fastforce+
  with b'(1) show ?thesis by blast
qed

end
