(* ===== verification/Kernel_Main.thy ===== *)
theory Kernel_Main
  imports Uefi_Boot Boot_Display Boot_Paging Segment_Setup Executor Console_Print Xhci_Driver
begin

text \<open>
  The kernel's entry, \<open>efi_main\<close> of \<open>src/main.rs\<close>, in the parts the function runs one after the
  other: the banner, the screen, the memory, the devices, the three tasks and the executor. What the
  kernel runs on is a record of parameters; its own globals and the machine state are the kernel's state.
\<close>

section \<open>Platform and state\<close>

text \<open>
  The platform: the text of the font file, the poll bound of the serial line, the port instructions,
  the memory with the firmware's tables, the contents of the frame buffer, the registers of a timer
  at an address, reads of the configuration space, the driver's \<open>attach\<close> and the addresses of the
  interrupt entries.
\<close>

record ('d, 'b) Platform =
  pf_font :: string
  pf_polls :: nat
  pf_inb :: "u16 \<Rightarrow> 'd \<Rightarrow> u8 \<times> 'd"
  pf_outb :: "u16 \<Rightarrow> u8 \<Rightarrow> 'd \<Rightarrow> 'd"
  pf_memory :: mem
  pf_vram :: "u8 list"
  pf_timer :: "u64 \<Rightarrow> HpetRegisters"
  pf_config :: "'b \<Rightarrow> u64 \<Rightarrow> u16"
  pf_attach :: "Pci \<Rightarrow> BusDeviceFunction \<Rightarrow> Mmu \<times> 'b \<Rightarrow> unit res \<times> Mmu \<times> 'b"
  pf_fn_addr :: "HandlerFn \<Rightarrow> u64"

record ('d, 'b, 'f) Kernel =
  console :: "'d Console"
  firmware :: 'f
  mmu :: Mmu
  segments :: SegmentState
  global_hpet :: "Hpet option"
  bus_state :: 'b

definition print_on :: "('d, 'b) Platform \<Rightarrow> nat list \<Rightarrow> 'd Console \<Rightarrow> 'd Console res" where
  "print_on P = global_print (pf_font P) (pf_polls P) (pf_inb P) (pf_outb P)"

text \<open>An operation on one part of the state.\<close>

definition on_console :: "('d Console \<Rightarrow> 'd Console res) \<Rightarrow> ('d, 'b, 'f) Kernel \<Rightarrow> ('d, 'b, 'f) Kernel res" where
  "on_console f k = rbind (f (console k)) (\<lambda>c. Ok (k\<lparr>console := c\<rparr>))"

definition set_heap :: "FirstFitAllocator \<Rightarrow> ('d, 'b, 'f) Kernel \<Rightarrow> ('d, 'b, 'f) Kernel" where
  "set_heap h k = k\<lparr>mmu := (mmu k)\<lparr>machine := (machine (mmu k))\<lparr>heap := h\<rparr>\<rparr>\<rparr>"

definition kernel_heap :: "('d, 'b, 'f) Kernel \<Rightarrow> FirstFitAllocator" where
  "kernel_heap k = heap (machine (mmu k))"

section \<open>Texts\<close>

text \<open>\<open>{:#018X}\<close> of a \<open>u64\<close>, \<open>{:#p}\<close> of a reference, and the derived \<open>Debug\<close> of a \<open>Duration\<close>.\<close>

definition hex_018 :: "u64 \<Rightarrow> nat list" where
  "hex_018 v = str ''0x'' @ zero_pad 16 (hex_upper (unat v))"

definition pointer_text :: "u64 \<Rightarrow> nat list" where
  "pointer_text p =
     str ''0x'' @ zero_pad 16 (map (\<lambda>c. if 65 \<le> c then c + 32 else c) (hex_upper (unat p)))"

definition fraction_text :: "nat \<Rightarrow> nat \<Rightarrow> nat list" where
  "fraction_text digits v =
     (if v = 0 then [] else 46 # rev (dropWhile (\<lambda>c. c = 48) (rev (zero_pad digits (decimal v)))))"

definition duration_text :: "nat \<Rightarrow> nat list" where
  "duration_text d =
     (let s = d div 10 ^ 9; ns = d mod 10 ^ 9 in
      if 0 < s then decimal s @ fraction_text 9 ns @ str ''s''
      else if 10 ^ 6 \<le> ns then decimal (ns div 10 ^ 6) @ fraction_text 6 (ns mod 10 ^ 6) @ str ''ms''
      else if 10 ^ 3 \<le> ns then decimal (ns div 10 ^ 3) @ fraction_text 3 (ns mod 10 ^ 3) @ [181, 115]
      else decimal ns @ str ''ns'')"

section \<open>Before the boot services are left\<close>

definition main_println :: "('d, 'b) Platform \<Rightarrow> nat list \<Rightarrow> ('d, 'b, 'f) Kernel \<Rightarrow> ('d, 'b, 'f) Kernel res" where
  "main_println P args = on_console (print_on P (args @ [10]))"

definition main_log ::
  "('d, 'b) Platform \<Rightarrow> LogLevel \<Rightarrow> nat \<Rightarrow> nat list \<Rightarrow> ('d, 'b, 'f) Kernel \<Rightarrow> ('d, 'b, 'f) Kernel res" where
  "main_log P level line args = on_console (print_on P (log_text level ''src/main.rs'' line args))"

definition boot_banner ::
  "('d, 'b) Platform \<Rightarrow> u64 \<Rightarrow> u64 \<Rightarrow> 'f EfiSystemTable \<Rightarrow> ('d, 'b, 'f) Kernel \<Rightarrow> ('d, 'b, 'f) Kernel res" where
  "boot_banner P image_handle st_addr st k =
     rbind (main_println P (str ''Booting WasabiOS...'') k) (\<lambda>k.
     rbind (main_println P (str ''image_handle: '' @ hex_018 image_handle) k) (\<lambda>k.
     rbind (main_println P (str ''efi_system_table: '' @ pointer_text st_addr) k) (\<lambda>k.
     rbind (expect (locate_loaded_image_protocol image_handle st (firmware k))
              ''Failed to get LoadedImageProtocol'') (\<lambda>(loaded_image_protocol, f).
     let k = k\<lparr>firmware := f\<rparr> in
     rbind (main_println P (str ''image_base: '' @ hex_018 (image_base (pf_memory P) loaded_image_protocol)) k) (\<lambda>k.
     rbind (main_println P (str ''image_size: '' @ hex_018 (image_size (pf_memory P) loaded_image_protocol)) k) (\<lambda>k.
     rbind (main_log P Info 41 (str ''info'') k) (\<lambda>k.
     rbind (main_log P Warn 42 (str ''warn'') k) (\<lambda>k.
     rbind (main_log P ErrorLevel 43 (str ''error'') k) (\<lambda>k.
       on_console (hexdump_struct (print_on P) ''src/print.rs'' 110 ''wasabi::uefi::EfiSystemTable''
         (mem_bytes (pf_memory P) st_addr 120)) k)))))))))"

definition boot_screen ::
  "('d, 'b) Platform \<Rightarrow> 'f EfiSystemTable \<Rightarrow> ('d, 'b, 'f) Kernel \<Rightarrow> ('d, 'b, 'f) Kernel res" where
  "boot_screen P st k =
     rbind (expect (init_vram (pf_memory P) st (firmware k)) ''init_vram failed'') (\<lambda>(vram, f).
     rbind (init_display (pf_font P) (vram_bitmap (pf_vram P) vram)) (\<lambda>vram.
       on_console (set_global_vram vram) (k\<lparr>firmware := f\<rparr>)))"

section \<open>Memory and devices\<close>

definition boot_memory ::
  "nat \<Rightarrow> ('d, 'b) Platform \<Rightarrow> u64 \<Rightarrow> 'f EfiSystemTable \<Rightarrow> ('d, 'b, 'f) Kernel \<Rightarrow> ('d, 'b, 'f) Kernel res" where
  "boot_memory n P image_handle st k =
     rbind (init_basic_runtime n image_handle st (kernel_heap k) (firmware k)) (\<lambda>(memory_map, h, f).
     rbind (main_log P Info 51 (str ''Hello, Non-UEFI world!'') (set_heap h (k\<lparr>firmware := f\<rparr>))) (\<lambda>k.
     rbind (on_console (init_allocator (print_on P) memory_map) k) (\<lambda>k.
     rbind (init_exceptions (pf_fn_addr P) (kernel_heap k) (segments k)) (\<lambda>(gdt, idt, s, h).
     let k = set_heap h (k\<lparr>segments := s\<rparr>) in
     rbind (init_paging memory_map (mmu k)) (\<lambda>m. Ok (k\<lparr>mmu := m\<rparr>))))))"

definition supports_device :: "VendorDeviceId \<Rightarrow> bool" where
  "supports_device vp = PciXhciDriver_supports (vendor vp, device_id vp)"

text \<open>\<open>probe_devices\<close> works on the machine's memory and the bus.\<close>

definition boot_devices ::
  "('d, 'b) Platform \<Rightarrow> u64 \<Rightarrow> ('d, 'b, 'f) Kernel \<Rightarrow> ('d, 'b, 'f) Kernel res" where
  "boot_devices P acpi k =
     rbind (init_hpet (pf_memory P) (pf_timer P) acpi (global_hpet k)) (\<lambda>g.
     rbind (init_pci (\<lambda>(m, b). pf_config P b) supports_device (pf_attach P) (pf_memory P) acpi (mmu k, bus_state k))
       (\<lambda>(m, b). Ok (k\<lparr>global_hpet := g, mmu := m, bus_state := b\<rparr>)))"

definition boot ::
  "nat \<Rightarrow> ('d, 'b) Platform \<Rightarrow> u64 \<Rightarrow> u64 \<Rightarrow> 'f EfiSystemTable \<Rightarrow> ('d, 'b, 'f) Kernel \<Rightarrow> ('d, 'b, 'f) Kernel res" where
  "boot n P image_handle st_addr st k =
     rbind (boot_banner P image_handle st_addr st k) (\<lambda>k.
     rbind (boot_screen P st k) (\<lambda>k.
       case acpi_table (pf_memory P) st of
         None \<Rightarrow> panic ''ACPI table not found''
       | Some acpi \<Rightarrow> rbind (boot_memory n P image_handle st k) (boot_devices P acpi)))"

section \<open>The tasks\<close>

text \<open>
  The three \<open>async\<close> blocks as state machines over their suspension points: a counting task holds the
  line of its message, the time it subtracts, the pause, the numbers to come and the sleep it waits
  for; the serial task waits in its endless loop. The world is the console and the clock. A poll goes
  on while sleeps are over, which the clock decides, so the endless loop carries fuel.
\<close>

datatype BootTask =
    Counting nat nat nat "nat list" "SleepFuture option"
  | SerialStart
  | SerialWait SleepFuture
  | Completed

type_synonym 'd task_world = "'d Console \<times> clock"

definition poll_sleep :: "SleepFuture \<Rightarrow> 'd task_world \<Rightarrow> (SleepFuture \<times> 'd task_world \<times> unit poll) res" where
  "poll_sleep f w = rbind (sleep_poll f (snd w)) (\<lambda>(f, c, _, r). Ok (f, (fst w, c), r))"

definition world_log ::
  "('d, 'b) Platform \<Rightarrow> LogLevel \<Rightarrow> nat \<Rightarrow> nat list \<Rightarrow> 'd task_world \<Rightarrow> 'd task_world res" where
  "world_log P level line args w =
     rbind (print_on P (log_text level ''src/main.rs'' line args) (fst w)) (\<lambda>c. Ok (c, snd w))"

definition elapsed_since :: "nat \<Rightarrow> 'd task_world \<Rightarrow> (nat \<times> 'd task_world) res" where
  "elapsed_since t0 w =
     (case w of (c, clk, i) \<Rightarrow>
        if t0 \<le> clk i then Ok (clk i - t0, (c, clk, Suc i)) else panic ''overflow when subtracting durations'')"

text \<open>\<open>Result<()>\<close> of a finished task, as the value of its future.\<close>

type_synonym 'd task_step = "(BootTask \<times> 'd task_world \<times> unit res poll) res"

fun counting_loop ::
  "('d, 'b) Platform \<Rightarrow> nat \<Rightarrow> nat \<Rightarrow> nat \<Rightarrow> nat list \<Rightarrow> 'd task_world \<Rightarrow> 'd task_step" where
  "counting_loop P line t0 pause [] w = Ok (Completed, w, Ready (Ok ()))"
| "counting_loop P line t0 pause (i # is) w =
     rbind (elapsed_since t0 w) (\<lambda>(d, w).
     rbind (world_log P Info line (decimal i @ str '' hpet.main_counter = '' @ duration_text d) w) (\<lambda>w.
     rbind (poll_sleep (NotStarted pause) w) (\<lambda>(f, w, r).
       case r of Pending \<Rightarrow> Ok (Counting line t0 pause is (Some f), w, Pending)
       | Ready _ \<Rightarrow> counting_loop P line t0 pause is w)))"

text \<open>The \<open>Debug\<close> of \<open>char::from_u32\<close> of a byte: always some character, escaped when it does not print.\<close>

definition debug_char :: "nat \<Rightarrow> nat list" where
  "debug_char c =
     (if c = 0 then [92, 48] else if c = 9 then [92, 116] else if c = 10 then [92, 110]
      else if c = 13 then [92, 114] else if c = 39 \<or> c = 92 then [92, c]
      else if c < 32 \<or> 127 \<le> c \<and> c \<le> 160 \<or> c = 173
      then [92] @ str ''u{'' @ map (\<lambda>d. if 65 \<le> d then d + 32 else d) (hex_upper c) @ str ''}''
      else [c])"

definition some_char_text :: "u8 \<Rightarrow> nat list" where
  "some_char_text v = str ''Some('' @ [39] @ debug_char (unat v) @ [39] @ str '')''"

fun serial_loop :: "nat \<Rightarrow> ('d, 'b) Platform \<Rightarrow> 'd task_world \<Rightarrow> 'd task_step" where
  "serial_loop 0 P w = Inl OutOfFuel"
| "serial_loop (Suc n) P w =
     rbind (try_read (pf_inb P) (pf_outb P) SerialPort_default (ports (fst w))) (\<lambda>(v, d).
     let w = ((fst w)\<lparr>ports := d\<rparr>, snd w) in
     rbind (case v of None \<Rightarrow> Ok w
            | Some v \<Rightarrow> world_log P Info 82 (str ''serial input: 0x'' @ zero_pad 2 (hex_upper (unat v)) @
                          str '' = '' @ some_char_text v) w) (\<lambda>w.
     rbind (poll_sleep (NotStarted (20 * 10 ^ 6)) w) (\<lambda>(f, w, r).
       case r of Pending \<Rightarrow> Ok (SerialWait f, w, Pending) | Ready _ \<Rightarrow> serial_loop n P w)))"

definition serial_start :: "nat \<Rightarrow> ('d, 'b) Platform \<Rightarrow> 'd task_world \<Rightarrow> 'd task_step" where
  "serial_start n P w =
     rbind (loopback_test (pf_polls P) (pf_inb P) (pf_outb P) SerialPort_default (ports (fst w))) (\<lambda>(r, d).
     let w = ((fst w)\<lparr>ports := d\<rparr>, snd w) in
     case r of
       Inl (Err e) \<Rightarrow>
         rbind (world_log P ErrorLevel 75 ([34] @ str e @ [34]) w) (\<lambda>w.
           Ok (Completed, w, Ready (err ''serial: loopback test failed'')))
     | Inl f \<Rightarrow> Inl f
     | Inr _ \<Rightarrow> rbind (world_log P Info 78 (str ''Started to monitor serial port'') w) (serial_loop n P))"

definition boot_task_poll :: "nat \<Rightarrow> ('d, 'b) Platform \<Rightarrow> (BootTask, 'd task_world, unit res) poller" where
  "boot_task_poll n P t w =
     rbind (case t of
         Counting line t0 pause is None \<Rightarrow> counting_loop P line t0 pause is w
       | Counting line t0 pause is (Some f) \<Rightarrow>
           rbind (poll_sleep f w) (\<lambda>(f, w, r).
             case r of Pending \<Rightarrow> Ok (Counting line t0 pause is (Some f), w, Pending)
             | Ready _ \<Rightarrow> counting_loop P line t0 pause is w)
       | SerialStart \<Rightarrow> serial_start n P w
       | SerialWait f \<Rightarrow>
           rbind (poll_sleep f w) (\<lambda>(f, w, r).
             case r of Pending \<Rightarrow> Ok (SerialWait f, w, Pending)
             | Ready _ \<Rightarrow> serial_loop n P w)
       | Completed \<Rightarrow> panic ''`async fn` resumed after completion'')
       (\<lambda>(t, w, r). Ok (t, w, [], r))"

definition boot_tasks :: "nat \<Rightarrow> (string \<times> u32 \<times> BootTask) list" where
  "boot_tasks t0 =
     [(''src/main.rs'', 88, Counting 60 t0 (1 * 10 ^ 9) [100..<104] None),
      (''src/main.rs'', 89, Counting 67 t0 (2 * 10 ^ 9) [200..<204] None),
      (''src/main.rs'', 90, SerialStart)]"

text \<open>
  The whole entry, with the first \<open>rounds\<close> rounds of the executor. The first reading of the clock is the time
  that the counting tasks subtract.\<close>

definition efi_main ::
  "nat \<Rightarrow> nat \<Rightarrow> nat \<Rightarrow> ('d, 'b) Platform \<Rightarrow> (nat \<Rightarrow> nat) \<Rightarrow> u64 \<Rightarrow> u64 \<Rightarrow> 'f EfiSystemTable \<Rightarrow>
   BootTask Executor option Mutex \<Rightarrow> ('d, 'b, 'f) Kernel \<Rightarrow>
   ((BootTask Task \<times> unit res poll) option list \<times> BootTask Executor option Mutex \<times> 'd task_world) res" where
  "efi_main n fuel rounds P clk image_handle st_addr st g k =
     rbind (boot n P image_handle st_addr st k) (\<lambda>k.
     rbind (spawn_all (boot_tasks (clk 0)) g) (\<lambda>g.
     rbind (print_on P (log_text Info ''src/executor.rs'' 167 (str ''Starting global executor loop'')) (console k)) (\<lambda>c.
     rbind (print_on P (log_text Info ''src/executor.rs'' 92 (str ''Executor starts running...'')) c) (\<lambda>c.
       run_rounds rounds (boot_task_poll fuel P) g (c, clk, 1)))))"

text \<open>
  The panic handler, from the message of the panic as its derived \<open>Debug\<close> shows it. \<open>Inl (Panic p)\<close> of any
  operation above stands for the panic itself, after which only this runs.\<close>

definition panic_handler :: "('d, 'b) Platform \<Rightarrow> nat list \<Rightarrow> 'd Console \<Rightarrow> 'd res" where
  "panic_handler P info c =
     rbind (print_on P (log_text ErrorLevel ''src/main.rs'' 95 (str ''PANIC: '' @ info)) c) (\<lambda>c.
       exit_qemu (pf_polls P) (pf_inb P) (pf_outb P) Fail (ports c))"

end
