(* ===== verification/Kernel_Boot.thy ===== *)
theory Kernel_Boot
  imports Kernel_Main Paging_Room
begin

text \<open>
  What the boot sets up, from the components' lemmas: the heap of the firmware's memory map, the report
  of the memory, the descriptor tables and the page tables, and that the tables the processor
  uses stay where they are when the page tables change.
\<close>

section \<open>The report of the memory\<close>

definition conventional :: "EfiMemoryDescriptor list \<Rightarrow> EfiMemoryDescriptor list" where
  "conventional es = filter (\<lambda>e. memory_type e = CONVENTIONAL_MEMORY) es"

definition conventional_pages :: "EfiMemoryDescriptor list \<Rightarrow> nat" where
  "conventional_pages es = sum_list (map (\<lambda>e. unat (number_of_pages e)) (conventional es))"

text \<open>A line for each region of conventional memory, and one with the sum, in pages and in MiB.\<close>

definition region_lines :: "EfiMemoryDescriptor list \<Rightarrow> nat list" where
  "region_lines es =
     concat (map (\<lambda>e. log_text Info ''src/init.rs'' 79 (descriptor_text e)) (conventional es))"

definition memory_report :: "EfiMemoryDescriptor list \<Rightarrow> nat list" where
  "memory_report es = region_lines es @
     log_text Info ''src/init.rs'' 82 (str ''Total: '' @ decimal (conventional_pages es) @ str '' pages = '' @
       decimal (conventional_pages es * 4 div 1024) @ str '' MiB'')"

lemma conventional_simps [simp]:
  "conventional [] = []"
  "conventional (e # es) = (if memory_type e = CONVENTIONAL_MEMORY then e # conventional es else conventional es)"
  by (simp_all add: conventional_def)

context printer
begin

lemma count_pages_emits:
  assumes "unat pages + conventional_pages es < 2 ^ 64"
  shows "count_pages print es pages s = Ok (t, s') \<longleftrightarrow>
    t = pages + word_of_nat (conventional_pages es) \<and> print (region_lines es) s = Ok s'"
  using assms
proof (induction es arbitrary: pages s)
  case Nil
  then show ?case by (auto simp: conventional_pages_def region_lines_def print_Nil)
next
  case (Cons e es)
  show ?case
  proof (cases "memory_type e = CONVENTIONAL_MEMORY")
    case True
    let ?n = "number_of_pages e"
    have b: "unat pages + (unat ?n + conventional_pages es) < 2 ^ 64"
      using Cons.prems True by (simp add: conventional_pages_def)
    then have u: "uadd pages ?n = Ok (pages + ?n)" "unat (pages + ?n) = unat pages + unat ?n"
      by (simp_all add: uadd_def unat_add_nowrap)
    then have IH: "count_pages print es (pages + ?n) s1 = Ok (t, s') \<longleftrightarrow>
        t = pages + ?n + word_of_nat (conventional_pages es) \<and> print (region_lines es) s1 = Ok s'" for s1
      using b by (intro Cons.IH) simp
    have "pages + word_of_nat (conventional_pages (e # es)) = pages + ?n + word_of_nat (conventional_pages es)"
      using True by (simp add: conventional_pages_def)
    moreover have "region_lines (e # es) = log_text Info ''src/init.rs'' 79 (descriptor_text e) @ region_lines es"
      using True by (simp add: region_lines_def)
    ultimately show ?thesis using True u(1) by (auto simp: IH print_append)
  next
    case False
    with Cons.IH [of pages s] Cons.prems show ?thesis
      by (simp add: conventional_pages_def region_lines_def)
  qed
qed

lemma init_allocator_emits:
  assumes "memory_map_entries memory_map = Ok es" "conventional_pages es * 4096 < 2 ^ 64"
  shows "emits (init_allocator print memory_map) (memory_report es)"
proof -
  let ?n = "conventional_pages es"
  have n: "?n < 2 ^ 64" using assms(2) by simp
  then have u: "unat (word_of_nat ?n :: u64) = ?n" by (simp add: unat_of_nat)
  then have m: "umul (word_of_nat ?n :: u64) 4096 = Ok (word_of_nat ?n * 4096)"
    "unat (word_of_nat ?n * 4096 :: u64) = ?n * 4096"
    using assms(2) by (simp_all add: umul_def unat_word_ariths)
  have mib: "unat (word_of_nat ?n * 4096 div 1024 div 1024 :: u64) = ?n * 4 div 1024"
    using m(2) by (simp add: unat_div_distrib div_mult2_eq [symmetric])
  have c: "count_pages print es 0 s = Ok (t, s') \<longleftrightarrow>
      t = word_of_nat ?n \<and> print (region_lines es) s = Ok s'" for s s' t
    using count_pages_emits [of 0 es s t s'] n by simp
  have "init_allocator print memory_map s = Ok s' \<longleftrightarrow> print (memory_report es) s = Ok s'" for s s'
    by (cases "\<exists>s1. print (region_lines es) s = Ok s1")
       (auto simp: init_allocator_def assms(1) c m(1) u mib Let_def memory_report_def print_append)
  then show ?thesis by (simp add: emits_def)
qed

end

section \<open>Heap and tables\<close>

text \<open>A step of the heap either finds no memory or leaves the heap in a state the allocator reaches.\<close>

definition allocates ::
  "EfiMemoryDescriptor list \<Rightarrow> 'a res \<Rightarrow> ('a \<Rightarrow> FirstFitAllocator) \<Rightarrow> bool" where
  "allocates es r heap_of \<longleftrightarrow> r = panic ''memory allocation failed'' \<or>
     (\<exists>x live. r = Ok x \<and> heap_run es (heap_of x) live)"

lemma allocates_Ok: "heap_run es (f x) live \<Longrightarrow> allocates es (Ok x) f"
  by (auto simp: allocates_def)

lemma allocates_bind:
  assumes "allocates es r snd" "\<And>a h live. heap_run es h live \<Longrightarrow> allocates es (g (a, h)) f"
  shows "allocates es (rbind r g) f"
proof -
  from assms(1) consider "r = panic ''memory allocation failed''"
    | a h live where "r = Ok (a, h)" "heap_run es h live"
    by (auto simp: allocates_def)
  then show ?thesis using assms(2) by cases (simp_all add: allocates_def)
qed

lemma allocates_box:
  assumes "wf_regions es" "heap_run es h live" "sz < 2 ^ 62"
  shows "allocates es (box_new h sz 1) snd"
  using box_new_run [OF assms(1,2), of sz 0] assms(3) by (auto simp: allocates_def)

lemma allocates_interrupt_stack:
  assumes "wf_regions es" "heap_run es h live"
  shows "allocates es (alloc_interrupt_stack h) snd"
  unfolding alloc_interrupt_stack_def HANDLER_STACK_SIZE_def
  by (rule allocates_bind [OF allocates_box [OF assms]]) (auto intro: allocates_Ok)

lemma allocates_stacks: "wf_regions es \<Longrightarrow> heap_run es h live \<Longrightarrow> allocates es (alloc_stacks n h) snd"
proof (induction n arbitrary: h live)
  case (Suc n)
  show ?case
    unfolding alloc_stacks.simps
    by (rule allocates_bind [OF allocates_interrupt_stack [OF Suc.prems]], unfold prod.case,
        rule allocates_bind [OF Suc.IH [OF Suc.prems(1)]], assumption, auto intro: allocates_Ok)
qed (auto intro: allocates_Ok)

lemma allocates_init_exceptions:
  assumes "wf_regions es" "heap_run es h live"
  shows "allocates es (init_exceptions fn_addr h s) (\<lambda>(gdt, idt, s, h). h)"
proof -
  note step = allocates_bind [OF allocates_box [OF assms(1)]]
  have tss: "allocates es (rbind (TaskStateSegment64_new h) g) f"
    if "\<And>t a h live. heap_run es h live \<Longrightarrow> allocates es (g (t, a, h)) f" for g :: "_ \<Rightarrow> 'a res" and f
    unfolding TaskStateSegment64_new_def rbind_assoc
    by (rule allocates_bind [OF allocates_interrupt_stack [OF assms]], unfold prod.case rbind_assoc,
        rule allocates_bind [OF allocates_stacks [OF assms(1)]], assumption,
        unfold prod.case Let_def rbind_assoc, rule step, assumption, simp add: TSS64_SIZE_def,
        simp, rule that)
  have len: "16 * length (Idt_new fn_addr KERNEL_CS) < 2 ^ 62" by (simp add: Idt_new_def)
  show ?thesis
    unfolding init_exceptions_def GdtWrapper_default_def rbind_assoc
    by (rule tss, unfold prod.case rbind_assoc Let_def, rule step, assumption, simp add: GDT_SIZE_def,
        unfold prod.case rbind_simps, rule step, assumption, rule len, auto intro: allocates_Ok)
qed

text \<open>A live block lies in a region of conventional memory, above the first page.\<close>

lemma live_block_in_ram:
  assumes "wf_regions es" "heap_run es h live" "(p, n) \<in> set live" "unat p \<le> a" "a < unat p + unat n"
  obtains d where "d \<in> set es" "is_ram d" "4096 \<le> a" "unat (physical_start d) \<le> a" "a < region_end d"
proof -
  from heap_run_inv [OF assms(2,1)] obtain cs where cs: "heap_inv es cs live" by blast
  then obtain c where c: "c \<in> set cs" "c_addr c + 32 = unat p" "unat p + unat n \<le> c_end c"
    using assms(3) by (auto simp: heap_inv_def list_all_iff holds_block_def)
  then have "a \<in> covered cs" using assms(4,5) by (auto simp: covered_def intro!: bexI [of _ c])
  then have "a \<in> covered (usable_chunks es)" using cs by (simp add: heap_inv_def)
  then obtain d where d: "d \<in> set es" "usable_region d" "c_addr (region_chunk d) \<le> a" "a < c_end (region_chunk d)"
    by (auto simp: covered_def usable_chunks_def)
  have wf: "wf_region d" using d(1) assms(1) by (simp add: wf_regions_def list_all_iff)
  then have "4096 \<le> c_addr (region_chunk d)"
    using dvd_imp_le [of 4096 "unat (physical_start d)"]
    by (auto simp: region_chunk_def Let_def wf_region_def)
  moreover have "is_ram d" using d(2) by (simp add: usable_region_def is_ram_def)
  ultimately show thesis
    using that [of d] d region_chunk_within [OF d(2)] by (simp add: region_end_def)
qed

lemma heap_run_ok: "wf_regions es \<Longrightarrow> heap_run es h live \<Longrightarrow> heap_ok h"
  using heap_run_inv by (metis heap_ok_def)

section \<open>From the firmware to page tables of its own\<close>

text \<open>A firmware that hands over: both services succeed, and the memory map is as the UEFI specification promises.\<close>

definition hands_over ::
  "'f EfiSystemTable \<Rightarrow> u64 \<Rightarrow> 'f \<Rightarrow> MemoryMapHolder \<Rightarrow> EfiMemoryDescriptor list \<Rightarrow> 'f \<Rightarrow> bool" where
  "hands_over st image_handle f memory_map es f'' \<longleftrightarrow>
     (\<exists>f'. get_memory_map (boot_services st) MemoryMapHolder_new f = (0, memory_map, f') \<and>
        exit_boot_services (boot_services st) image_handle (map_key memory_map) f' = (0, f'')) \<and>
     memory_map_entries memory_map = Ok es \<and> wf_regions es \<and>
     (\<forall>d \<in> set es. is_ram d \<longrightarrow> region_end d \<le> 2 ^ 48) \<and> conventional_pages es * 4096 < 2 ^ 64"

lemma init_basic_runtime_heap:
  assumes "hands_over st image_handle f memory_map es f''" "0 < n"
  shows "\<exists>h. init_basic_runtime n image_handle st ALLOCATOR_static f = Ok (memory_map, h, f'') \<and>
    init_with_entries ALLOCATOR_static es = Ok h"
proof -
  have es: "memory_map_entries memory_map = Ok es" "wf_regions es"
    using assms(1) by (simp_all add: hands_over_def)
  from init_with_entries_refines [OF es(2)] obtain h where h: "init_with_entries ALLOCATOR_static es = Ok h" by blast
  have "exit_from_efi_boot_services n image_handle st MemoryMapHolder_new f = Ok (memory_map, f'')"
    using assms(1) unfolding exit_in_one_round [OF assms(2)] by (auto simp: hands_over_def)
  then show ?thesis
    using es(1) h by (simp add: init_basic_runtime_def init_with_mmap_def)
qed

text \<open>The text that this part of the boot prints.\<close>

definition memory_text :: "EfiMemoryDescriptor list \<Rightarrow> nat list" where
  "memory_text es = log_text Info ''src/main.rs'' 51 (str ''Hello, Non-UEFI world!'') @ memory_report es"

text \<open>The two prints of this part are one text.\<close>

lemma memory_prints:
  assumes "memory_map_entries memory_map = Ok es" "conventional_pages es * 4096 < 2 ^ 64"
    and "uart (pf_inb P) (pf_outb P) 0x3f8 ok sent busy m" "ok (ports (console k))" "m < pf_polls P"
    and "screen_room (vram_writer (console k)) (length (memory_text es))"
  shows "\<exists>c1 c2. print_on P (log_text Info ''src/main.rs'' 51 (str ''Hello, Non-UEFI world!'')) (console k) = Ok c1 \<and>
    init_allocator (print_on P) memory_map c1 = Ok c2 \<and>
    sent (ports c2) = sent (ports (console k)) @ map word_of_nat (memory_text es)"
proof -
  from global_print_shows [OF assms(3-6), of "pf_font P"] obtain c where
    "print_on P (memory_text es) (console k) = Ok c"
    "sent (ports c) = sent (ports (console k)) @ map word_of_nat (memory_text es)"
    by (auto simp: print_on_def)
  moreover have "init_allocator (print_on P) memory_map c1 = Ok c2 \<longleftrightarrow> print_on P (memory_report es) c1 = Ok c2" for c1 c2
    using gp.init_allocator_emits [OF assms(1,2)] unfolding print_on_def gp.emits_def by blast
  ultimately show ?thesis
    unfolding memory_text_def print_on_def gp.print_append by blast
qed

text \<open>So the memory part of the boot is what it does to the heap, the registers and the tables.\<close>

lemma boot_memory_eq:
  assumes "hands_over st image_handle (firmware k) memory_map es f''" and "0 < n"
    and "kernel_heap k = ALLOCATOR_static"
    and "uart (pf_inb P) (pf_outb P) 0x3f8 ok sent busy m" and "ok (ports (console k))" and "m < pf_polls P"
    and "screen_room (vram_writer (console k)) (length (memory_text es))"
  obtains h k2 where "init_with_entries ALLOCATOR_static es = Ok h"
    "boot_memory n P image_handle st k =
      rbind (init_exceptions (pf_fn_addr P) h (segments k)) (\<lambda>(gdt, idt, s, h).
      let k = set_heap h (k2\<lparr>segments := s\<rparr>) in
        rbind (init_paging memory_map (mmu k)) (\<lambda>m. Ok (k\<lparr>mmu := m\<rparr>)))"
    "firmware k2 = f''" "sent (ports (console k2)) = sent (ports (console k)) @ map word_of_nat (memory_text es)"
proof -
  from assms(1) have fw: "memory_map_entries memory_map = Ok es" "conventional_pages es * 4096 < 2 ^ 64"
    by (simp_all add: hands_over_def)
  from init_basic_runtime_heap [OF assms(1,2)] obtain h where
    h: "init_basic_runtime n image_handle st ALLOCATOR_static (firmware k) = Ok (memory_map, h, f'')"
      "init_with_entries ALLOCATOR_static es = Ok h"
    by blast
  define k1 where "k1 = set_heap h (k\<lparr>firmware := f''\<rparr>)"
  have k1: "console k1 = console k" "firmware k1 = f''" "segments k1 = segments k" "kernel_heap (k1\<lparr>console := c\<rparr>) = h" for c
    by (simp_all add: k1_def set_heap_def kernel_heap_def)
  from memory_prints [OF fw assms(4-7)] obtain c1 c2 where
    c: "print_on P (log_text Info ''src/main.rs'' 51 (str ''Hello, Non-UEFI world!'')) (console k) = Ok c1"
      "init_allocator (print_on P) memory_map c1 = Ok c2"
      "sent (ports c2) = sent (ports (console k)) @ map word_of_nat (memory_text es)" by blast
  show thesis
    by (rule that [of h "k1\<lparr>console := c2\<rparr>"])
      (use c k1 in \<open>simp_all add: boot_memory_def assms(3) h main_log_def on_console_def flip: k1_def\<close>)
qed

text \<open>What the stacks, the descriptor tables and the page tables of the boot take, and what there is for them.\<close>

definition boot_room :: "EfiMemoryDescriptor list \<Rightarrow> nat" where
  "boot_room es = 8 * 0x10080 + (0x1240 + paging_room es)"

definition last_usable_size :: "EfiMemoryDescriptor list \<Rightarrow> nat" where
  "last_usable_size es = (case usable_chunks es of [] \<Rightarrow> 0 | c # cs \<Rightarrow> c_size c)"

lemma init_with_entries_room:
  assumes "wf_regions es" "init_with_entries ALLOCATOR_static es = Ok h" "n \<le> last_usable_size es" "0 < n"
    and "\<forall>d \<in> set es. is_ram d \<longrightarrow> region_end d \<le> 2 ^ 48"
  shows "room h n"
proof -
  have r: "heap_repr h (usable_chunks es)" using init_with_entries_refines [OF assms(1)] assms(2) by auto
  obtain c cs where c: "usable_chunks es = c # cs" "n \<le> c_size c"
    using assms(3,4) by (cases "usable_chunks es") (auto simp: last_usable_size_def)
  then have m: "c \<in> set (usable_chunks es)" by simp
  then obtain d where d: "d \<in> set es" "usable_region d" "c = region_chunk d" by (auto simp: usable_chunks_def)
  have "is_ram d" using d(2) by (simp add: usable_region_def is_ram_def)
  then have "c_end c \<le> 2 ^ 48" using region_chunk_within(2) [OF d(2)] d(1,3) assms(5) by (auto simp: region_end_def)
  moreover have "\<not> c_alloc c" using d(3) by (simp add: region_chunk_def Let_def)
  ultimately show ?thesis using r c by (cases c) (auto intro: roomI)
qed


text \<open>32 MiB of conventional memory at 1 MiB, as the bytes of a descriptor.\<close>

definition ram_bytes :: "u8 list" where
  "ram_bytes = [7, 0, 0, 0, 0, 0, 0, 0, 0, 0, 0x10, 0, 0, 0, 0, 0,
     0, 0, 0, 0, 0, 0, 0, 0, 0, 0x20, 0, 0, 0, 0, 0, 0, 0, 0, 0, 0, 0, 0, 0, 0]"

definition ram_region :: EfiMemoryDescriptor where
  "ram_region = \<lparr> memory_type = CONVENTIONAL_MEMORY, physical_start = 0x100000, virtual_start = 0,
     number_of_pages = 0x2000, attribute = 0 \<rparr>"

definition ram_map :: MemoryMapHolder where
  "ram_map = \<lparr> memory_map_buffer = ram_bytes @ replicate (MEMORY_MAP_BUFFER_SIZE - 40) 0,
     memory_map_size = 40, map_key = 1, descriptor_size = 40, descriptor_version = 1 \<rparr>"

lemma ram_map_entries: "memory_map_entries ram_map = Ok [ram_region]"
proof -
  have "read_descriptor (ram_bytes @ rest) 0 = Ok ram_region" for rest
    by (simp add: ram_bytes_def read_descriptor_def read_le_def from_le_bytes_def efi_memory_types_def ram_region_def)
  then have r: "read_descriptor (memory_map_buffer ram_map) 0 = Ok ram_region" by (simp add: ram_map_def)
  moreover have "length ram_bytes = 40" by (simp add: ram_bytes_def)
  ultimately have wf: "wf_memory_map ram_map"
    by (auto simp: wf_memory_map_def ram_map_def MEMORY_MAP_BUFFER_SIZE_def)
  show ?thesis
    using memory_map_collect_from [OF wf refl, of 0 "memory_map_iter ram_map" 41] r
    by (auto simp: memory_map_entries_def memory_map_iter_def ram_map_def length_Suc_conv
        simp del: memory_map_collect.simps)
qed

text \<open>A firmware that counts its calls, hands over that memory and takes the key of its last map only.\<close>

definition sample_services :: "nat EfiBootServicesTable" where
  "sample_services = \<lparr> get_memory_map = (\<lambda>m f. (0, ram_map\<lparr>map_key := word_of_nat (f + 1)\<rparr>, f + 1)),
     handle_protocol = (\<lambda>h guid p f. (0, 0x500, f + 1)),
     exit_boot_services = (\<lambda>h key f. (if key = word_of_nat f then 0 else 0x8000000000000002, f + 1)),
     locate_protocol = (\<lambda>guid r p f. (0, 0x600, f + 1)) \<rparr>"

definition sample_system_table :: "nat EfiSystemTable" where
  "sample_system_table = \<lparr> boot_services = sample_services, number_of_table_entries = 0, configuration_table = 0 \<rparr>"

definition sample_platform :: "(nat \<times> u8 list, unit) Platform" where
  "sample_platform = \<lparr> pf_font = [], pf_polls = 3, pf_inb = slow_inb, pf_outb = slow_outb, pf_memory = (\<lambda>a. 0),
     pf_vram = [], pf_timer = (\<lambda>a. sample_hpet), pf_config = (\<lambda>b a. 0xFFFF),
     pf_attach = (\<lambda>pci bdf s. (Ok (), s)), pf_fn_addr = sample_fn_addr \<rparr>"

definition sample_kernel :: "(nat \<times> u8 list, unit, nat) Kernel" where
  "sample_kernel = \<lparr> console = \<lparr> ports = (0, []), vram_writer = None \<rparr>, firmware = 0,
     mmu = \<lparr> cr3 = 0, machine = \<lparr> mem = (\<lambda>a. 0), heap = ALLOCATOR_static \<rparr> \<rparr>,
     segments = \<lparr> gdtr = (0, 0), idtr = (0, 0), tr_sel = 0, sel_cs = 0x38, sel_ss = 0x30, sel_es = 0x30,
                 sel_ds = 0x30, sel_fs = 0x30, sel_gs = 0x30 \<rparr>, global_hpet = None, bus_state = () \<rparr>"

lemma sample_hands_over: "hands_over sample_system_table 7 0 ram_map [ram_region] 2"
proof -
  have "ram_map\<lparr>map_key := 1\<rparr> = ram_map" by (simp add: ram_map_def)
  moreover have "map_key ram_map = 1" by (simp add: ram_map_def)
  moreover have "wf_regions [ram_region]" by (simp add: wf_regions_def wf_region_def ram_region_def)
  ultimately show ?thesis
    using ram_map_entries
    by (simp add: hands_over_def sample_system_table_def sample_services_def conventional_pages_def ram_region_def
        region_end_def)
qed

lemma ram_region_end: "mapped_end [ram_region] = 2 ^ 32"
proof -
  have r: "is_ram ram_region" "region_end ram_region = 0x2100000"
    by (simp_all add: is_ram_def region_end_def ram_region_def)
  then have "{d \<in> set [ram_region]. is_ram d} = {ram_region}" by auto
  then show ?thesis by (simp add: mapped_end_def r(2))
qed

lemma sample_boot_room: "boot_room [ram_region] \<le> last_usable_size [ram_region]"
proof -
  have "tables_left (Suc (Suc (Suc 0))) 0 1048575 = 2053" by simp
  then have "tables_left 3 0 1048575 = 2053" by (simp only: numeral_3_eq_3)
  moreover have "(mapped_end [ram_region] - 1) div 4096 = 1048575" by (simp add: ram_region_end)
  ultimately have "paging_room [ram_region] = 16982592" by (simp add: paging_room_def TABLE_ROOM_def)
  moreover have "last_usable_size [ram_region] = 0x2000000"
    by (simp add: last_usable_size_def usable_chunks_def usable_region_def region_chunk_def ram_region_def)
  ultimately show ?thesis by (simp add: boot_room_def)
qed


end
