(* ===== verification/Draw_Safety.thy ===== *)
theory Draw_Safety
  imports Boot_Display
begin

text \<open>
  Every drawing operation of \<open>src/graphics.rs\<close> on a well-formed frame buffer, whatever its arguments: it
  returns, with an error or not, or it panics on an overflow of its coordinates, but it never
  writes outside the buffer and never changes its shape.
\<close>

section \<open>Operations that stay inside the buffer\<close>

text \<open>A result that is well-formed, of the same shape, and no undefined behaviour.\<close>

definition stays_inside :: "Bitmap \<Rightarrow> Bitmap res \<Rightarrow> bool" where
  "stays_inside b r \<longleftrightarrow>
     (case r of Inr b' \<Rightarrow> wf_bitmap b' \<and> touched b UNIV b' | Inl (Err e) \<Rightarrow> True | Inl (Panic e) \<Rightarrow> True | Inl _ \<Rightarrow> False)"

lemma stays_inside_simps [simp]:
  "stays_inside b (Ok b') \<longleftrightarrow> wf_bitmap b' \<and> touched b UNIV b'"
  "stays_inside b (err e)" "stays_inside b (panic p)"
  by (simp_all add: stays_inside_def)

lemma painted_stays_inside: "wf_bitmap b \<Longrightarrow> painted b S color b' \<Longrightarrow> stays_inside b (Ok b')"
  using painted_shape(1) [of b S color b'] painted_touched [of b S color b' UNIV] by simp

lemma stays_inside_bind:
  assumes "stays_inside b r" "\<And>b'. wf_bitmap b' \<Longrightarrow> touched b UNIV b' \<Longrightarrow> stays_inside b' (f b')"
  shows "stays_inside b (rbind r f)"
proof (cases r)
  case (Inl e)
  with assms(1) show ?thesis by (cases e) (simp_all add: stays_inside_def)
next
  case (Inr b')
  with assms have "stays_inside b' (f b')" "touched b UNIV b'" by simp_all
  then show ?thesis using Inr touched_trans [of b UNIV b']
    by (auto simp: stays_inside_def split: sum.splits fault.splits)
qed

lemma stays_inside_chk: "(\<And>v. stays_inside b (f v)) \<Longrightarrow> stays_inside b (rbind (chk_i64 n) f)"
  by (auto simp: chk_i64_def)

lemma stays_inside_ignore: "wf_bitmap b \<Longrightarrow> stays_inside b r \<Longrightarrow> stays_inside b (ignore_err b r)"
  by (auto simp: ignore_err_def stays_inside_def split: sum.splits fault.splits)

lemma stays_inside_expect: "stays_inside b r \<Longrightarrow> stays_inside b (expect r s)"
  by (cases r; cases "projl r") (auto simp: stays_inside_def split: sum.splits fault.splits)

lemma stays_inside_for_each:
  "(\<And>x b. x \<in> set xs \<Longrightarrow> wf_bitmap b \<Longrightarrow> stays_inside b (f x b)) \<Longrightarrow> wf_bitmap b \<Longrightarrow> stays_inside b (for_each f xs b)"
  by (induction xs arbitrary: b) (auto intro!: stays_inside_bind)

lemma draw_point_inside: "wf_bitmap b \<Longrightarrow> stays_inside b (draw_point b color x y)"
  using draw_point_paints [of b x y color] draw_point_clips [of b x y color] painted_stays_inside
  by (cases "visible b x y") auto

lemma fill_rect_inside:
  assumes "wf_bitmap b"
  shows "stays_inside b (fill_rect b color px py w h)"
proof (cases "is_in_x_range b px \<and> is_in_y_range b py \<and> is_in_x_range b (px + w - 1) \<and> is_in_y_range b (py + h - 1)")
  case True
  then have "\<bar>w\<bar> < 2 ^ 62" "\<bar>h\<bar> < 2 ^ 62"
    using in_range_below(1) [OF assms, of px] in_range_below(1) [OF assms, of "px + w - 1"]
      in_range_below(2) [OF assms, of py] in_range_below(2) [OF assms, of "py + h - 1"] by auto
  from fill_rect_paints [OF assms this, of px py color] True painted_stays_inside [OF assms] show ?thesis by auto
next
  case False
  then show ?thesis by (auto simp: fill_rect_def chk_i64_def)
qed

lemma draw_line_inside:
  assumes "wf_bitmap b"
  shows "stays_inside b (draw_line b color x0 y0 x1 y1)"
proof (cases "visible b x0 y0 \<and> visible b x1 y1")
  case True
  with draw_line_paints [OF assms, of x0 y0 x1 y1 color] painted_stays_inside [OF assms] show ?thesis by auto
next
  case False
  then show ?thesis by (auto simp: draw_line_def visible_def)
qed

lemma draw_font_fg_inside: "wf_bitmap b \<Longrightarrow> stays_inside b (draw_font_fg font b x y color c)"
  unfolding draw_font_fg_def
  by (auto split: option.split
      intro!: stays_inside_for_each stays_inside_chk stays_inside_ignore draw_point_inside)

lemma draw_str_fg_inside: "wf_bitmap b \<Longrightarrow> stays_inside b (draw_str_fg font b x y color s)"
  unfolding draw_str_fg_def
  by (auto intro!: stays_inside_for_each stays_inside_chk draw_font_fg_inside)

section \<open>Sequences of operations\<close>

datatype draw_op =
    Point u32 int int
  | FillRect u32 int int int int
  | Line u32 int int int int
  | Glyph u32 int int nat
  | Text u32 int int "nat list"
  | TestPattern

text \<open>The call of an operation; its error, if it has one, is dropped as the callers of the kernel do.\<close>

fun draw_call :: "string \<Rightarrow> draw_op \<Rightarrow> Bitmap \<Rightarrow> Bitmap res" where
  "draw_call font (Point color x y) b = draw_point b color x y"
| "draw_call font (FillRect color px py w h) b = fill_rect b color px py w h"
| "draw_call font (Line color x0 y0 x1 y1) b = draw_line b color x0 y0 x1 y1"
| "draw_call font (Glyph color x y c) b = draw_font_fg font b x y color c"
| "draw_call font (Text color x y s) b = draw_str_fg font b x y color s"
| "draw_call font TestPattern b = draw_test_pattern font b"

definition draw :: "string \<Rightarrow> draw_op \<Rightarrow> Bitmap \<Rightarrow> Bitmap res" where
  "draw font op b = ignore_err b (draw_call font op b)"

lemma draw_test_pattern_inside: "wf_bitmap b \<Longrightarrow> stays_inside b (draw_test_pattern font b)"
  unfolding draw_test_pattern_def Let_def
  by (auto intro!: stays_inside_chk stays_inside_bind stays_inside_for_each stays_inside_expect stays_inside_ignore
      fill_rect_inside draw_line_inside draw_str_fg_inside simp del: enumerate_simps for_each.simps)

lemma draw_call_inside: "wf_bitmap b \<Longrightarrow> stays_inside b (draw_call font op b)"
  by (cases op) (simp_all add: draw_point_inside fill_rect_inside draw_line_inside draw_font_fg_inside
      draw_str_fg_inside draw_test_pattern_inside)

lemma for_each_draw_no_err: "for_each (draw font) ops b \<noteq> err e"
proof (induction ops arbitrary: b)
  case (Cons op ops)
  have "draw font op b \<noteq> err e" by (auto simp: draw_def ignore_err_def split: sum.splits fault.splits)
  with Cons show ?case by (auto simp: rbind_eq_Inl)
qed simp



end
