(* ===== verification/Debug_Text.thy ===== *)
theory Debug_Text
  imports Kernel_Main Acpi
begin

text \<open>
  The texts that the kernel's \<open>Debug\<close> and \<open>Display\<close> implementations write, over the number formats of
  \<open>Console\<close>: the registers saved by an interrupt, page tables, heap headers, PCI functions and the small
  ones. A format string with its arguments is a list of pieces, and reading the pieces back from the
  text shows that nothing of what they report is ambiguous.
\<close>

section \<open>Format strings\<close>

text \<open>
  A literal, \<open>{:#0wX}\<close>, \<open>{:#p}\<close>, \<open>{}\<close> of an integer, and \<open>{:w}\<close> of one; a width counts the prefix \<open>0x\<close>.\<close>

datatype piece = Lit "nat list" | Hex nat nat | Ptr u64 | Dec nat | DecRight nat nat

definition hex_text :: "nat \<Rightarrow> nat \<Rightarrow> nat list" where
  "hex_text w n = str ''0x'' @ zero_pad (w - 2) (hex_upper n)"

definition right_align :: "nat \<Rightarrow> nat list \<Rightarrow> nat list" where
  "right_align w s = replicate (w - length s) 32 @ s"

fun piece_text :: "piece \<Rightarrow> nat list" where
  "piece_text (Lit s) = s"
| "piece_text (Hex w n) = hex_text w n"
| "piece_text (Ptr p) = pointer_text p"
| "piece_text (Dec n) = decimal n"
| "piece_text (DecRight w n) = right_align w (decimal n)"

definition write_pieces :: "piece list \<Rightarrow> nat list" where
  "write_pieces ps = concat (map piece_text ps)"

lemma write_pieces_simps [simp]:
  "write_pieces [] = []" "write_pieces (p # ps) = piece_text p @ write_pieces ps"
  "write_pieces (ps @ qs) = write_pieces ps @ write_pieces qs"
  by (simp_all add: write_pieces_def)

section \<open>Reading the pieces back\<close>

definition digit_value :: "nat \<Rightarrow> nat \<Rightarrow> nat option" where
  "digit_value b c =
     (let d = if 48 \<le> c \<and> c \<le> 57 then c - 48 else if 65 \<le> c \<and> c \<le> 70 then c - 55
              else if 97 \<le> c \<and> c \<le> 102 then c - 87 else b
      in if d < b then Some d else None)"

text \<open>The digits at the front of a text, as a number to the base \<open>b\<close> behind those already read.\<close>

fun read_digits :: "nat \<Rightarrow> nat \<Rightarrow> nat list \<Rightarrow> nat \<times> nat list" where
  "read_digits b acc [] = (acc, [])"
| "read_digits b acc (c # cs) =
     (case digit_value b c of None \<Rightarrow> (acc, c # cs) | Some d \<Rightarrow> read_digits b (b * acc + d) cs)"

fun read_prefix :: "nat list \<Rightarrow> nat list \<Rightarrow> nat list option" where
  "read_prefix [] s = Some s"
| "read_prefix (c # cs) [] = None"
| "read_prefix (c # cs) (d # s) = (if c = d then read_prefix cs s else None)"

definition read_hex :: "nat list \<Rightarrow> (nat \<times> nat list) option" where
  "read_hex s = map_option (read_digits 16 0) (read_prefix (str ''0x'') s)"

text \<open>The pieces tell where the numbers are; the numbers in them do not matter.\<close>

fun read_pieces :: "piece list \<Rightarrow> nat list \<Rightarrow> (nat list \<times> nat list) option" where
  "read_pieces [] s = Some ([], s)"
| "read_pieces (Lit l # ps) s = Option.bind (read_prefix l s) (read_pieces ps)"
| "read_pieces (Hex w n # ps) s =
     Option.bind (read_hex s) (\<lambda>(v, s). map_option (apfst (Cons v)) (read_pieces ps s))"
| "read_pieces (Ptr p # ps) s =
     Option.bind (read_hex s) (\<lambda>(v, s). map_option (apfst (Cons v)) (read_pieces ps s))"
| "read_pieces (Dec n # ps) s =
     (case read_digits 10 0 s of (v, s) \<Rightarrow> map_option (apfst (Cons v)) (read_pieces ps s))"
| "read_pieces (DecRight w n # ps) s =
     (case read_digits 10 0 (dropWhile (\<lambda>c. c = 32) s) of (v, s) \<Rightarrow> map_option (apfst (Cons v)) (read_pieces ps s))"

fun blank :: "piece \<Rightarrow> piece" where
  "blank (Lit l) = Lit l"
| "blank (Hex w n) = Hex w 0"
| "blank (Ptr p) = Ptr 0"
| "blank (Dec n) = Dec 0"
| "blank (DecRight w n) = DecRight w 0"

fun numbers :: "piece list \<Rightarrow> nat list" where
  "numbers [] = []"
| "numbers (Lit l # ps) = numbers ps"
| "numbers (Hex w n # ps) = n # numbers ps"
| "numbers (Ptr p # ps) = unat p # numbers ps"
| "numbers (Dec n # ps) = n # numbers ps"
| "numbers (DecRight w n # ps) = n # numbers ps"

text \<open>Behind every number comes a literal that cannot be a digit of it.\<close>

definition stops :: "nat \<Rightarrow> piece list \<Rightarrow> bool" where
  "stops b ps = (case ps of Lit (c # _) # _ \<Rightarrow> digit_value b c = None | _ \<Rightarrow> False)"

fun separated :: "piece list \<Rightarrow> bool" where
  "separated [] = True"
| "separated (Lit l # ps) = separated ps"
| "separated (Hex w n # ps) = (stops 16 ps \<and> separated ps)"
| "separated (Ptr p # ps) = (stops 16 ps \<and> separated ps)"
| "separated (Dec n # ps) = (stops 10 ps \<and> separated ps)"
| "separated (DecRight w n # ps) = (stops 10 ps \<and> separated ps)"

section \<open>Digits\<close>

definition digit_char :: "nat \<Rightarrow> nat \<Rightarrow> bool" where
  "digit_char b c = (digit_value b c \<noteq> None)"

definition digits_number :: "nat \<Rightarrow> nat \<Rightarrow> nat list \<Rightarrow> nat" where
  "digits_number b = foldl (\<lambda>a c. b * a + the (digit_value b c))"

lemma read_digits_stop:
  assumes "\<forall>c \<in> set ds. digit_char b c" "s = [] \<or> \<not> digit_char b (hd s)"
  shows "read_digits b acc (ds @ s) = (digits_number b acc ds, s)"
  using assms
proof (induction ds arbitrary: acc)
  case Nil
  then show ?case by (cases s) (auto simp: digits_number_def digit_char_def)
next
  case (Cons c ds)
  then show ?case by (auto simp: digits_number_def digit_char_def)
qed

lemma hex_digit_value: "d < 16 \<Longrightarrow> digit_value 16 (hex_digit d) = Some d"
  by (simp add: hex_digit_def digit_value_def)

lemma hex_upper_digits:
  "(\<forall>c \<in> set (hex_upper n). digit_char 16 c \<and> c \<noteq> 32) \<and> digits_number 16 0 (hex_upper n) = n"
proof (induction n rule: hex_upper.induct)
  case (1 n)
  have "hex_digit d \<noteq> 32" for d by (simp add: hex_digit_def)
  with 1 show ?case
    by (subst (1 2) hex_upper.simps)
       (auto simp: digits_number_def digit_char_def hex_digit_value)
qed

lemma decimal_digits:
  "(\<forall>c \<in> set (decimal n). digit_char 10 c \<and> c \<noteq> 32) \<and> digits_number 10 0 (decimal n) = n"
proof (induction n rule: decimal.induct)
  case (1 n)
  then show ?case
    by (subst (1 2) decimal.simps) (auto simp: digits_number_def digit_char_def digit_value_def)
qed

lemma digits_number_zeros: "0 < b \<Longrightarrow> digits_number b 0 (replicate k 48 @ ds) = digits_number b 0 ds"
  by (induction k) (simp_all add: digits_number_def digit_value_def)

lemma digits_number_map:
  "\<forall>c \<in> set ds. digit_value b (f c) = digit_value b c \<Longrightarrow> digits_number b a (map f ds) = digits_number b a ds"
  by (induction ds arbitrary: a) (simp_all add: digits_number_def)

lemma read_prefix_self [simp]: "read_prefix l (l @ s) = Some s"
  by (induction l) simp_all

text \<open>What ends the digits, at the front of the rest of a text.\<close>

definition ends_digits :: "nat \<Rightarrow> nat list \<Rightarrow> bool" where
  "ends_digits b s \<longleftrightarrow> s = [] \<or> \<not> digit_char b (hd s)"

lemma stops_ends:
  assumes "stops b ps"
  shows "ends_digits b (write_pieces ps @ s)"
proof -
  obtain c l qs where "ps = Lit (c # l) # qs" "digit_value b c = None"
    using assms by (auto simp: stops_def neq_Nil_conv split: list.splits piece.splits)
  then show ?thesis by (simp add: ends_digits_def digit_char_def)
qed

lemma read_hex_digits:
  assumes "\<forall>c \<in> set ds. digit_char 16 c" "ends_digits 16 s"
  shows "read_hex (str ''0x'' @ zero_pad w ds @ s) = Some (digits_number 16 0 ds, s)"
proof -
  have "\<forall>c \<in> set (zero_pad w ds). digit_char 16 c" using assms(1) by (auto simp: zero_pad_def digit_char_def digit_value_def [of 16 48])
  from read_digits_stop [OF this, of s 0] assms(2) show ?thesis
    by (simp add: read_hex_def ends_digits_def zero_pad_def digits_number_zeros)
qed

lemma read_hex_text: "ends_digits 16 s \<Longrightarrow> read_hex (hex_text w n @ s) = Some (n, s)"
  using read_hex_digits [of "hex_upper n" s "w - 2"] hex_upper_digits [of n] by (simp add: hex_text_def)

lemma hex_upper_range: "\<forall>c \<in> set (hex_upper n). 48 \<le> c \<and> c \<le> 57 \<or> 65 \<le> c \<and> c \<le> 70"
proof (induction n rule: hex_upper.induct)
  case (1 n)
  have "48 \<le> hex_digit d \<and> hex_digit d \<le> 57 \<or> 65 \<le> hex_digit d \<and> hex_digit d \<le> 70" if "d < 16" for d
    using that by (auto simp: hex_digit_def)
  with 1 show ?case by (subst hex_upper.simps) simp
qed

lemma read_pointer_text:
  assumes "ends_digits 16 s"
  shows "read_hex (pointer_text p @ s) = Some (unat p, s)"
proof -
  let ?low = "\<lambda>c :: nat. if 65 \<le> c then c + 32 else c"
  have v: "\<forall>c \<in> set (hex_upper n). digit_value 16 (?low c) = digit_value 16 c" for n
    using hex_upper_range [of n] by (auto simp: digit_value_def)
  then have "digits_number 16 0 (map ?low (hex_upper n)) = n" for n using hex_upper_digits by (simp add: digits_number_map)
  moreover have "\<forall>c \<in> set (map ?low (hex_upper n)). digit_char 16 c" for n
    using hex_upper_digits [of n] v [of n] by (auto simp: digit_char_def)
  ultimately show ?thesis
    using read_hex_digits [of "map ?low (hex_upper (unat p))" s 16] assms by (simp add: pointer_text_def)
qed

lemma read_decimal: "ends_digits 10 s \<Longrightarrow> read_digits 10 0 (decimal n @ s) = (n, s)"
  using read_digits_stop [of "decimal n" 10 s 0] decimal_digits [of n] by (simp add: ends_digits_def)

lemma decimal_not_Nil: "decimal n \<noteq> []"
  by (subst decimal.simps) simp

lemma drop_spaces: "dropWhile (\<lambda>c. c = 32) (right_align w (decimal n) @ s) = decimal n @ s"
proof -
  obtain c cs where c: "decimal n = c # cs" by (cases "decimal n") (simp_all add: decimal_not_Nil)
  have "c \<noteq> 32" using decimal_digits [of n] by (simp add: c)
  then show ?thesis by (simp add: right_align_def c dropWhile_append)
qed

lemma read_pieces_back:
  "separated ps \<Longrightarrow> read_pieces (map blank ps) (write_pieces ps @ s) = Some (numbers ps, s)"
proof (induction ps)
  case (Cons p ps)
  then show ?case
    using stops_ends [of _ ps s]
    by (cases p) (simp_all add: read_hex_text read_pointer_text read_decimal drop_spaces)
qed simp

text \<open>Two texts of the same shape are equal only with the same numbers.\<close>

lemma write_pieces_inj:
  assumes "separated ps" "separated qs" "map blank ps = map blank qs" "write_pieces ps @ s = write_pieces qs @ t"
  shows "numbers ps = numbers qs \<and> s = t"
  using read_pieces_back [OF assms(1), of s] read_pieces_back [OF assms(2), of t] assms(3,4) by simp

lemmas text_simps = stops_def str_def digit_value_def

section \<open>The registers of an interrupt\<close>

text \<open>\<open>impl Debug for InterruptInfo\<close>; a line of the string literal starts with a line feed.\<close>

definition InterruptInfo_pieces :: "InterruptInfo \<Rightarrow> piece list" where
  "InterruptInfo_pieces self = (let c = ctx self; g = greg self; line = (\<lambda>s. 10 # str s) in
     [Lit (line ''        {'' @ line ''            rip: ''), Hex 18 (unat (ctx_rip c)),
      Lit (str '', CS: ''), Hex 6 (unat (ctx_cs c)),
      Lit (str '','' @ line ''            rsp: ''), Hex 18 (unat (ctx_rsp c)),
      Lit (str '', SS: ''), Hex 6 (unat (ctx_ss c)),
      Lit (str '','' @ line ''            rbp: ''), Hex 18 (unat (greg_rbp g)),
      Lit (str '','' @ line '''' @ line ''            rflags:     ''), Hex 18 (unat (ctx_rflags c)),
      Lit (str '','' @ line ''            error_code: ''), Hex 18 (unat (error_code self)),
      Lit (str '','' @ line '''' @ line ''            rax: ''), Hex 18 (unat (greg_rax g)),
      Lit (str '', rcx: ''), Hex 18 (unat (greg_rcx g)),
      Lit (str '','' @ line ''            rdx: ''), Hex 18 (unat (greg_rdx g)),
      Lit (str '', rbx: ''), Hex 18 (unat (greg_rbx g)),
      Lit (str '','' @ line ''            rsi: ''), Hex 18 (unat (greg_rsi g)),
      Lit (str '', rdi: ''), Hex 18 (unat (greg_rdi g)),
      Lit (str '','' @ line ''            r8:  ''), Hex 18 (unat (greg_r8 g)),
      Lit (str '', r9:  ''), Hex 18 (unat (greg_r9 g)),
      Lit (str '','' @ line ''            r10: ''), Hex 18 (unat (greg_r10 g)),
      Lit (str '', r11: ''), Hex 18 (unat (greg_r11 g)),
      Lit (str '','' @ line ''            r12: ''), Hex 18 (unat (greg_r12 g)),
      Lit (str '', r13: ''), Hex 18 (unat (greg_r13 g)),
      Lit (str '','' @ line ''            r14: ''), Hex 18 (unat (greg_r14 g)),
      Lit (str '', r15: ''), Hex 18 (unat (greg_r15 g)),
      Lit (str '','' @ line ''        }'')])"

definition InterruptInfo_fmt :: "InterruptInfo \<Rightarrow> nat list" where
  "InterruptInfo_fmt self = write_pieces (InterruptInfo_pieces self)"

lemma InterruptInfo_separated: "separated (InterruptInfo_pieces self)"
  by (simp add: InterruptInfo_pieces_def text_simps Let_def)

lemma InterruptInfo_blank: "map blank (InterruptInfo_pieces a) = map blank (InterruptInfo_pieces b)"
  by (simp add: InterruptInfo_pieces_def Let_def)

definition saved_registers :: "InterruptInfo \<Rightarrow> u64 list" where
  "saved_registers i = (let c = ctx i; g = greg i in
     [ctx_rip c, ctx_cs c, ctx_rsp c, ctx_ss c, greg_rbp g, ctx_rflags c, error_code i,
      greg_rax g, greg_rcx g, greg_rdx g, greg_rbx g, greg_rsi g, greg_rdi g,
      greg_r8 g, greg_r9 g, greg_r10 g, greg_r11 g, greg_r12 g, greg_r13 g, greg_r14 g, greg_r15 g])"

lemma InterruptInfo_numbers: "numbers (InterruptInfo_pieces i) = map unat (saved_registers i)"
  by (simp add: InterruptInfo_pieces_def saved_registers_def Let_def)

lemma saved_registers_eq:
  "saved_registers a = saved_registers b \<longleftrightarrow> ctx a = ctx b \<and> greg a = greg b \<and> error_code a = error_code b"
  by (cases "ctx a"; cases "ctx b"; cases "greg a"; cases "greg b") (auto simp: saved_registers_def)

text \<open>
  C30: the report of an exception is complete: reading it back gives the registers in the order of the
  report, whatever they hold, so the reports of two exceptions agree exactly if the same interrupted context,
  general registers and error code were saved.\<close>

theorem interrupt_report_is_complete:
  "read_pieces (map blank (InterruptInfo_pieces b)) (InterruptInfo_fmt a) = Some (map unat (saved_registers a), []) \<and>
   (InterruptInfo_fmt a = InterruptInfo_fmt b \<longleftrightarrow> ctx a = ctx b \<and> greg a = greg b \<and> error_code a = error_code b)"
proof -
  have r: "read_pieces (map blank (InterruptInfo_pieces b)) (InterruptInfo_fmt a) = Some (map unat (saved_registers a), [])" for a b
    using read_pieces_back [OF InterruptInfo_separated, of a "[]"] InterruptInfo_blank [of b a]
    by (simp add: InterruptInfo_fmt_def InterruptInfo_numbers)
  have "InterruptInfo_fmt a = InterruptInfo_fmt b \<longleftrightarrow> saved_registers a = saved_registers b"
  proof
    assume "InterruptInfo_fmt a = InterruptInfo_fmt b"
    then have "map unat (saved_registers a) = map unat (saved_registers b)" using r [of a a] r [of a b] by simp
    moreover have "inj (unat :: u64 \<Rightarrow> nat)" by (simp add: inj_def word_unat_eq_iff)
    ultimately show "saved_registers a = saved_registers b" by simp
  next
    assume "saved_registers a = saved_registers b"
    then show "InterruptInfo_fmt a = InterruptInfo_fmt b"
      by (simp add: InterruptInfo_fmt_def InterruptInfo_pieces_def saved_registers_eq)
  qed
  with r show ?thesis by (simp add: saved_registers_eq)
qed

section \<open>Page tables\<close>

text \<open>\<open>Entry::format\<close> of the entry at \<open>p\<close> with the value \<open>v\<close>, up to the value and in full.\<close>

definition Entry_start :: "nat \<Rightarrow> u64 \<Rightarrow> u64 \<Rightarrow> piece list" where
  "Entry_start level p v = [Lit (str ''L''), Dec level, Lit (str ''Entry @ ''), Ptr p, Lit (str '' { ''), Hex 18 (unat v)]"

definition Entry_format :: "nat \<Rightarrow> u64 \<Rightarrow> u64 \<Rightarrow> nat list" where
  "Entry_format level p v =
     write_pieces (Entry_start level p v @
       [Lit (str '' ''), Lit (if is_present v then str ''P'' else str ''N''),
        Lit (if is_writable v then str ''W'' else str ''R''), Lit (if is_user v then str ''U'' else str ''S''),
        Lit (str '' '')]) @ str '' }''"

text \<open>\<open>Table::format\<close>: one line for every present entry.\<close>

definition Table_format :: "nat \<Rightarrow> (u64 \<Rightarrow> u64) \<Rightarrow> u64 \<Rightarrow> nat list" where
  "Table_format level m table =
     write_pieces [Lit (str ''L''), Dec level, Lit (str ''Table @ ''), Ptr table, Lit (str '' {'' @ [10])] @
     concat (map (\<lambda>i. let e = entry_addr table i in
         if \<not> is_present (m e) then []
         else write_pieces [Lit (str ''  entry[''), DecRight 3 i, Lit (str ''] = '')] @ Entry_format level e (m e) @ [10])
       [0..<512]) @ str ''}'' @ [10]"

text \<open>What the lines say: index and value of every present entry.\<close>

definition present_entries :: "(u64 \<Rightarrow> u64) \<Rightarrow> u64 \<Rightarrow> (nat \<times> u64) list" where
  "present_entries m table =
     map (\<lambda>i. (i, m (entry_addr table i))) (filter (\<lambda>i. is_present (m (entry_addr table i))) [0..<512])"

definition entry_line :: "nat \<Rightarrow> u64 \<Rightarrow> nat \<times> u64 \<Rightarrow> nat list" where
  "entry_line level table = (\<lambda>(i, v).
     write_pieces [Lit (str ''  entry[''), DecRight 3 i, Lit (str ''] = '')] @ Entry_format level (entry_addr table i) v @ [10])"

lemma Table_format_lines:
  "Table_format level m table =
     write_pieces [Lit (str ''L''), Dec level, Lit (str ''Table @ ''), Ptr table, Lit (str '' {'' @ [10])] @
     concat (map (entry_line level table) (present_entries m table)) @ str ''}'' @ [10]"
proof -
  have "concat (map (\<lambda>i. let e = entry_addr table i in
      if \<not> is_present (m e) then []
      else write_pieces [Lit (str ''  entry[''), DecRight 3 i, Lit (str ''] = '')] @ Entry_format level e (m e) @ [10]) is) =
    concat (map (entry_line level table) (map (\<lambda>i. (i, m (entry_addr table i))) (filter (\<lambda>i. is_present (m (entry_addr table i))) is)))" for "is"
    by (induction "is") (simp_all add: entry_line_def Let_def)
  then show ?thesis by (simp only: Table_format_def present_entries_def)
qed

lemma entry_line_space: "\<exists>z. entry_line level table x = 32 # z"
  by (cases x) (simp add: entry_line_def str_def)

lemma entry_line_inj:
  assumes "entry_line level table (i, v) @ s = entry_line level table (j, w) @ t"
  shows "i = j \<and> v = w \<and> s = t"
proof -
  let ?line = "\<lambda>i v. [Lit (str ''  entry[''), DecRight 3 i, Lit (str ''] = '')] @ Entry_start level (entry_addr table i) v @ [Lit (str '' '')]"
  have line: "\<exists>z. entry_line level table (i, v) = write_pieces (?line i v) @ z @ str ''  }'' @ [10] \<and> length z = 3" for i v
    by (intro exI [of _ "(if is_present v then str ''P'' else str ''N'') @ (if is_writable v then str ''W'' else str ''R'') @
          (if is_user v then str ''U'' else str ''S'')"])
       (auto simp: entry_line_def Entry_format_def, simp_all add: str_def)
  obtain y z where yz: "entry_line level table (i, v) = write_pieces (?line i v) @ y @ str ''  }'' @ [10]" "length y = 3"
    "entry_line level table (j, w) = write_pieces (?line j w) @ z @ str ''  }'' @ [10]" "length z = 3"
    using line [of i v] line [of j w] by blast
  have "separated (?line i v)" for i v by (simp add: Entry_start_def text_simps)
  moreover have "map blank (?line i v) = map blank (?line j w)" by (simp add: Entry_start_def)
  moreover have "write_pieces (?line i v) @ (y @ str ''  }'' @ [10] @ s) = write_pieces (?line j w) @ (z @ str ''  }'' @ [10] @ t)"
    using assms by (simp only: yz(1,3) append_assoc)
  ultimately have "numbers (?line i v) = numbers (?line j w) \<and> y @ str ''  }'' @ [10] @ s = z @ str ''  }'' @ [10] @ t"
    by (intro write_pieces_inj)
  then show ?thesis using yz(2,4) by (simp add: Entry_start_def word_unat_eq_iff)
qed

text \<open>
  The dump of a page table lists its present entries and nothing else: the dumps of the same table in two states of
  the memory agree exactly if the same entries are present with the same values.\<close>

theorem table_dump_is_exact:
  "Table_format level m table = Table_format level m' table \<longleftrightarrow> present_entries m table = present_entries m' table"
proof
  have "xs = ys" if "concat (map (entry_line level table) xs) @ str ''}'' @ [10] = concat (map (entry_line level table) ys) @ str ''}'' @ [10]" for xs ys
    using that
  proof (induction xs arbitrary: ys)
    case Nil
    then show ?case using entry_line_space [of level table "hd ys"] by (cases ys) (auto simp: str_def)
  next
    case (Cons x xs)
    obtain z where "entry_line level table x = 32 # z" using entry_line_space by blast
    with Cons.prems have "ys \<noteq> []" by (intro notI) (simp add: str_def)
    then obtain y zs where ys: "ys = y # zs" by (cases ys) simp_all
    have "x = y \<and> concat (map (entry_line level table) xs) @ str ''}'' @ [10] = concat (map (entry_line level table) zs) @ str ''}'' @ [10]"
      using Cons.prems entry_line_inj [of level table "fst x" "snd x" "concat (map (entry_line level table) xs) @ str ''}'' @ [10]"
          "fst y" "snd y" "concat (map (entry_line level table) zs) @ str ''}'' @ [10]"]
      by (simp add: ys prod_eq_iff)
    with Cons.IH ys show ?case by simp
  qed
  then show "present_entries m table = present_entries m' table" if "Table_format level m table = Table_format level m' table"
    using that by (simp add: Table_format_lines)
qed (simp add: Table_format_lines)

section \<open>PCI functions\<close>

text \<open>\<open>VendorDeviceId::fmt_common\<close>, \<open>BusDeviceFunction::fmt_common\<close> and \<open>impl Debug for BarMem64\<close>, which adds
  the size to the address.\<close>

definition VendorDeviceId_fmt :: "VendorDeviceId \<Rightarrow> nat list" where
  "VendorDeviceId_fmt self =
     write_pieces [Lit (str ''(vendor: ''), Hex 6 (unat (vendor self)), Lit (str '', device: ''),
       Hex 6 (unat (device_id self)), Lit (str '')'')]"

definition BDF_fmt :: "BusDeviceFunction \<Rightarrow> nat list" where
  "BDF_fmt self =
     write_pieces [Lit (str ''/pci/bus/''), Hex 4 (unat (bdf_bus self)), Lit (str ''/device/''),
       Hex 4 (unat (bdf_device self)), Lit (str ''/function/''), Hex 3 (unat (bdf_function self)), Lit (str '')'')]"

definition BarMem64_fmt :: "BarMem64 \<Rightarrow> nat list res" where
  "BarMem64_fmt self =
     rbind (uadd (bar_addr self) (bar_size self)) (\<lambda>bar_end.
       Ok (write_pieces [Lit (str ''BarMem64[''), Hex 18 (unat (bar_addr self)), Lit (str ''..''),
         Hex 18 (unat bar_end), Lit (str '']'')]))"

lemma VendorDeviceId_fmt_eq: "VendorDeviceId_fmt a = VendorDeviceId_fmt b \<longleftrightarrow> a = b"
proof
  assume "VendorDeviceId_fmt a = VendorDeviceId_fmt b"
  then have "write_pieces [Lit (str ''(vendor: ''), Hex 6 (unat (vendor a)), Lit (str '', device: ''),
      Hex 6 (unat (device_id a)), Lit (str '')'')] @ [] =
    write_pieces [Lit (str ''(vendor: ''), Hex 6 (unat (vendor b)), Lit (str '', device: ''),
      Hex 6 (unat (device_id b)), Lit (str '')'')] @ []" by (simp add: VendorDeviceId_fmt_def)
  from write_pieces_inj [OF _ _ _ this] show "a = b"
    by (cases a; cases b) (simp add: text_simps word_unat_eq_iff)
qed simp

lemma bdf_parts_eq:
  assumes "bdf_bus a = bdf_bus b" "bdf_device a = bdf_device b" "bdf_function a = bdf_function b"
  shows "a = b"
proof -
  have "bdf_id a = bdf_id b"
  proof (rule bit_word_eqI)
    fix n assume n: "n < LENGTH(16)"
    have "bit (bdf_id a) n \<longleftrightarrow> bit (bdf_bus a) (n - 8)" "bit (bdf_id b) n \<longleftrightarrow> bit (bdf_bus b) (n - 8)" if "8 \<le> n"
      using that n by (simp_all add: bdf_bus_def SHIFT_BUS_def bit_drop_bit_eq bit_and_iff mask_bits bit_ucast_iff)
    moreover have "bit (bdf_id a) n \<longleftrightarrow> bit (bdf_device a) (n - 3)" "bit (bdf_id b) n \<longleftrightarrow> bit (bdf_device b) (n - 3)" if "3 \<le> n" "n < 8"
      using that n by (simp_all add: bdf_device_def SHIFT_DEVICE_def bit_drop_bit_eq bit_and_iff mask_bits bit_ucast_iff)
    moreover have "bit (bdf_id a) n \<longleftrightarrow> bit (bdf_function a) n" "bit (bdf_id b) n \<longleftrightarrow> bit (bdf_function b) n" if "n < 3"
      using that n by (simp_all add: bdf_function_def SHIFT_FUNCTION_def bit_and_iff mask_bits bit_ucast_iff)
    ultimately show "bit (bdf_id a) n = bit (bdf_id b) n" using assms by (metis not_less)
  qed
  then show ?thesis by (cases a; cases b) simp
qed

text \<open>No two functions have the same name.\<close>

lemma BDF_fmt_eq: "BDF_fmt a = BDF_fmt b \<longleftrightarrow> a = b"
proof
  let ?ps = "\<lambda>b. [Lit (str ''/pci/bus/''), Hex 4 (unat (bdf_bus b)), Lit (str ''/device/''),
       Hex 4 (unat (bdf_device b)), Lit (str ''/function/''), Hex 3 (unat (bdf_function b)), Lit (str '')'')]"
  assume "BDF_fmt a = BDF_fmt b"
  then have "write_pieces (?ps a) @ [] = write_pieces (?ps b) @ []" by (simp add: BDF_fmt_def)
  from write_pieces_inj [OF _ _ _ this] show "a = b"
    by (intro bdf_parts_eq) (simp_all add: text_simps word_unat_eq_iff)
qed simp

text \<open>The name ends with a parenthesis that it does not open.\<close>

lemma BDF_fmt_parentheses: "40 \<notin> set (BDF_fmt b) \<and> last (BDF_fmt b) = 41"
proof -
  have "40 \<notin> set (hex_text w n)" for w n
    using hex_upper_range [of n] by (auto simp: hex_text_def zero_pad_def str_def)
  then show ?thesis by (simp add: BDF_fmt_def str_def)
qed

section \<open>The other formats\<close>

text \<open>
  \<open>Header\<close> of the heap at its address, \<open>GdtSegmentDescriptor\<close>, \<open>EcamEntry\<close> in the ACPI tables, \<open>Mutex\<close> and
  \<open>Task\<close>.\<close>

definition Header_fmt :: "usize \<Rightarrow> Header \<Rightarrow> nat list" where
  "Header_fmt p self =
     write_pieces [Lit (str ''Header @ ''), Hex 18 (unat p), Lit (str '' { size: ''), Hex 18 (unat (hdr_size self)),
       Lit (str '', is_allocated: ''), Lit (if is_allocated self then str ''true'' else str ''false''), Lit (str '' }'')]"

definition GdtSegmentDescriptor_fmt :: "GdtSegmentDescriptor \<Rightarrow> nat list" where
  "GdtSegmentDescriptor_fmt self = right_align 18 (hex_text 0 (unat (seg_value self)))"

definition EcamEntry_fmt :: "mem \<Rightarrow> u64 \<Rightarrow> nat list" where
  "EcamEntry_fmt m e =
     (let base = mem_u64 m e; bus_start = m (e + 10); bus_end = m (e + 11) in
      write_pieces [Lit (str ''ECAM: Bus [''), Dec (unat bus_start), Lit (str ''..=''), Dec (unat bus_end),
        Lit (str ''] is mapped at ''), Hex 0 (unat base)])"

definition Mutex_fmt :: "'a Mutex \<Rightarrow> nat list" where
  "Mutex_fmt self =
     write_pieces [Lit (str ''Mutex @ ''), Lit (str (created_at_file self)), Lit (str '':''), Dec (unat (created_at_line self))]"

definition Task_fmt :: "'f Task \<Rightarrow> nat list" where
  "Task_fmt self =
     write_pieces [Lit (str ''Task(''), Lit (str (task_file self)), Lit (str '':''), Dec (unat (task_line self)), Lit (str '')'')]"

end
